(* ===== verification/Prelude.thy ===== *)
theory Prelude
  imports Main
begin

text \<open>
  Shared vocabulary of the development: the ways a C execution can go wrong (\<open>fault\<close>),
  results that are either a fault or a value, sequencing of such results, and the
  collections of simplification rules that the component theories fill.
\<close>

section \<open>Faults and results\<close>

text \<open>
  Every operation of the C code that can leave the defined part of the language, trip an
  assertion or never return yields a fault in the model; the faults name the kind of
  trouble, so that a theorem \<open>f x = Inr y\<close> says that none of them happens.
\<close>

datatype fault =
    Null_deref
  | Use_after_free
  | Double_free
  | Bad_free
  | Out_of_bounds
  | Uninitialised
  | Assert_failed
  | Deadlock
  | Bad_unlock
  | Diverges
  | Int_overflow

type_synonym 'a result = "fault + 'a"

definition bindR :: "'a result \<Rightarrow> ('a \<Rightarrow> 'b result) \<Rightarrow> 'b result" where
  "bindR m f = (case m of Inl e \<Rightarrow> Inl e | Inr x \<Rightarrow> f x)"

definition assertR :: "bool \<Rightarrow> unit result" where
  "assertR b = (if b then Inr () else Inl Assert_failed)"

lemma bindR_Inr [simp]: "bindR (Inr x) f = f x"
  by (simp add: bindR_def)

lemma bindR_Inl [simp]: "bindR (Inl e) f = Inl e"
  by (simp add: bindR_def)

lemma bindR_assoc: "bindR (bindR m f) g = bindR m (\<lambda>x. bindR (f x) g)"
  by (simp add: bindR_def split: sum.splits)

lemma bindR_eq_Inr: "bindR m f = Inr y \<longleftrightarrow> (\<exists>x. m = Inr x \<and> f x = Inr y)"
  by (simp add: bindR_def split: sum.splits)

lemma assertR_simps [simp]: "assertR True = Inr ()" "assertR False = Inl Assert_failed"
  by (simp_all add: assertR_def)

text \<open>
  \<open>ends B m P\<close>: if \<open>m\<close> gives a value, the value satisfies \<open>P\<close>; and under the condition \<open>B\<close>
  it does give one. With \<open>B\<close> false this is partial correctness, with \<open>B\<close> true total
  correctness, so that one proof serves an invariant and the absence of faults.
\<close>

definition ends :: "bool \<Rightarrow> 'a result \<Rightarrow> ('a \<Rightarrow> bool) \<Rightarrow> bool" where
  "ends B m P = (case m of Inl e \<Rightarrow> \<not> B | Inr x \<Rightarrow> P x)"

lemma ends_Inr [simp]: "ends B (Inr x) P = P x"
  by (simp add: ends_def)

lemma ends_Inl [simp]: "ends B (Inl e) P = (\<not> B)"
  by (simp add: ends_def)

lemma ends_bindI: "ends B m (\<lambda>x. ends B (f x) P) \<Longrightarrow> ends B (bindR m f) P"
  by (simp add: ends_def bindR_def split: sum.splits)

lemma ends_mono: "ends B m P \<Longrightarrow> (\<And>x. m = Inr x \<Longrightarrow> P x \<Longrightarrow> Q x) \<Longrightarrow> ends B m Q"
  by (auto simp: ends_def split: sum.splits)

lemma ends_weaken: "ends B m P \<Longrightarrow> (C \<Longrightarrow> B) \<Longrightarrow> ends C m P"
  by (auto simp: ends_def split: sum.splits)

lemma endsD: "ends B m P \<Longrightarrow> m = Inr x \<Longrightarrow> P x"
  by (simp add: ends_def)

lemma endsE: "ends B m P \<Longrightarrow> B \<Longrightarrow> (\<And>x. m = Inr x \<Longrightarrow> P x \<Longrightarrow> thesis) \<Longrightarrow> thesis"
  by (auto simp: ends_def split: sum.splits)

lemma endsT: "ends True m P \<Longrightarrow> \<exists>x. m = Inr x \<and> P x"
  by (simp add: ends_def split: sum.splits)

lemma ends_cases:
  "(\<And>e. m = Inl e \<Longrightarrow> \<not> B) \<Longrightarrow> (\<And>x. m = Inr x \<Longrightarrow> P x) \<Longrightarrow> ends B m P"
  by (auto simp: ends_def split: sum.splits)

text \<open>Pointers are optional addresses; dereferencing the null pointer is a fault.\<close>

type_synonym addr = nat

definition deref :: "'a option \<Rightarrow> 'a result" where
  "deref p = (case p of None \<Rightarrow> Inl Null_deref | Some a \<Rightarrow> Inr a)"

lemma deref_simps [simp]: "deref None = Inl Null_deref" "deref (Some a) = Inr a"
  by (simp_all add: deref_def)

section \<open>Proof collections\<close>

named_theorems cstr_simps \<open>evaluation of the C string library\<close>
named_theorems db_intros \<open>preservation of the topic database representation\<close>
named_theorems pdu_simps \<open>functional behaviour of message construction\<close>
named_theorems broker_simps \<open>functional behaviour of broker helpers\<close>

section \<open>Lists\<close>

lemma find_append:
  "find P (xs @ ys) = (case find P xs of None \<Rightarrow> find P ys | Some x \<Rightarrow> Some x)"
  by (induction xs) auto

lemma find_None_iff_ball: "find P xs = None \<longleftrightarrow> (\<forall>x\<in>set xs. \<not> P x)"
  by (auto simp: find_None_iff)

lemma find_split:
  "find P xs = Some x \<Longrightarrow> \<exists>us vs. xs = us @ x # vs \<and> P x \<and> (\<forall>u\<in>set us. \<not> P u)"
proof (induction xs)
  case Nil
  then show ?case by simp
next
  case (Cons y ys)
  show ?case
  proof (cases "P y")
    case True
    with Cons.prems have "y # ys = [] @ x # ys \<and> P x \<and> (\<forall>u\<in>set []. \<not> P u)" by simp
    then show ?thesis by blast
  next
    case False
    with Cons.prems have "find P ys = Some x" by simp
    with Cons.IH obtain us vs where "ys = us @ x # vs" "P x" "\<forall>u\<in>set us. \<not> P u" by blast
    with False have "y # ys = (y # us) @ x # vs \<and> P x \<and> (\<forall>u\<in>set (y # us). \<not> P u)" by simp
    then show ?thesis by blast
  qed
qed

lemma find_skip: "\<forall>u\<in>set us. \<not> P u \<Longrightarrow> find P (us @ vs) = find P vs"
  by (induction us) auto

lemma takeWhile_take_idem: "takeWhile P (take n (takeWhile P xs)) = take n (takeWhile P xs)"
  by (metis set_takeWhileD in_set_takeD takeWhile_eq_all_conv)

end
