(* ===== verification/CString.thy ===== *)
theory CString
  imports Prelude
begin

text \<open>
  The part of the C string library the broker calls. A C string is the list of its bytes
  before the terminating NUL, a byte array is the list of its bytes; a pointer into a
  string is the string and an index. The character classes are those of the C locale,
  the only one the program runs in.
\<close>

section \<open>Strings and arrays\<close>

type_synonym cstring = "char list"

abbreviation NUL :: char where
  "NUL \<equiv> CHR 0x00"

text \<open>The C string that starts at the beginning of a byte array.\<close>

definition cstr :: "char list \<Rightarrow> cstring" where
  "cstr bs = takeWhile (\<lambda>c. c \<noteq> NUL) bs"

text \<open>
  Reading a block of memory as a C string, as \<open>snprintf\<close> with \<open>%s\<close> does: the scan for the
  terminator runs over the end of a block that holds no NUL.
\<close>

definition read_string :: "char list \<Rightarrow> cstring result" where
  "read_string bs = (if NUL \<in> set bs then Inr (cstr bs) else Inl Out_of_bounds)"

text \<open>Reading \<open>s[i]\<close>: the terminator is at index \<open>strlen s\<close>, the rest is out of bounds.\<close>

definition char_at :: "cstring \<Rightarrow> int \<Rightarrow> char result" where
  "char_at s i =
     (if 0 \<le> i \<and> i < int (length s) then Inr (s ! nat i)
      else if i = int (length s) then Inr NUL
      else Inl Out_of_bounds)"

text \<open>\<open>snprintf(buf, n, "%s", s)\<close> leaves the first \<open>n - 1\<close> bytes of \<open>s\<close> in \<open>buf\<close>.\<close>

definition snprintf_s :: "nat \<Rightarrow> cstring \<Rightarrow> cstring" where
  "snprintf_s n s = take (n - 1) s"

text \<open>\<open>strchr(s + i, c)\<close>, as the index of the occurrence found.\<close>

fun strchr :: "cstring \<Rightarrow> char \<Rightarrow> nat option" where
  "strchr [] c = None"
| "strchr (x # xs) c = (if x = c then Some 0 else map_option Suc (strchr xs c))"

definition strchr_from :: "cstring \<Rightarrow> nat \<Rightarrow> char \<Rightarrow> nat option" where
  "strchr_from s i c = map_option ((+) i) (strchr (drop i s) c)"

definition strcspn :: "cstring \<Rightarrow> cstring \<Rightarrow> nat" where
  "strcspn s reject = length (takeWhile (\<lambda>c. c \<notin> set reject) s)"

text \<open>\<open>strstr(s, t) != NULL\<close>\<close>

fun is_prefix :: "cstring \<Rightarrow> cstring \<Rightarrow> bool" where
  "is_prefix [] s = True"
| "is_prefix (c # cs) [] = False"
| "is_prefix (c # cs) (x # xs) = (c = x \<and> is_prefix cs xs)"

fun strstr :: "cstring \<Rightarrow> cstring \<Rightarrow> bool" where
  "strstr [] t = (t = [])"
| "strstr (x # xs) t = (is_prefix t (x # xs) \<or> strstr xs t)"

section \<open>Character classes and numbers\<close>

definition code :: "char \<Rightarrow> nat" where
  "code c = of_char c"

definition isdigit :: "char \<Rightarrow> bool" where
  "isdigit c = (48 \<le> code c \<and> code c \<le> 57)"

definition isalnum :: "char \<Rightarrow> bool" where
  "isalnum c =
     (isdigit c \<or> 65 \<le> code c \<and> code c \<le> 90 \<or> 97 \<le> code c \<and> code c \<le> 122)"

definition isspace :: "char \<Rightarrow> bool" where
  "isspace c = (code c = 32 \<or> 9 \<le> code c \<and> code c \<le> 13)"

fun digits_value :: "nat \<Rightarrow> cstring \<Rightarrow> nat" where
  "digits_value acc [] = acc"
| "digits_value acc (c # cs) =
     (if isdigit c then digits_value (10 * acc + (code c - 48)) cs else acc)"

definition LONG_MAX :: int where
  "LONG_MAX = 9223372036854775807"

text \<open>
  \<open>strtol(s, NULL, 10)\<close> saturates at the bounds of a 64-bit \<open>long\<close>; \<open>atoi\<close> is its
  result converted to a 32-bit \<open>int\<close>, as in the C library the program links.
\<close>

definition strtol10 :: "cstring \<Rightarrow> int" where
  "strtol10 s =
     (let t = dropWhile isspace s in
      case t of
        [] \<Rightarrow> 0
      | c # cs \<Rightarrow>
          if c = CHR ''-'' then max (- LONG_MAX - 1) (- int (digits_value 0 cs))
          else if c = CHR ''+'' then min LONG_MAX (int (digits_value 0 cs))
          else min LONG_MAX (int (digits_value 0 t)))"

definition to_int32 :: "int \<Rightarrow> int" where
  "to_int32 n = (n + 2 ^ 31) mod 2 ^ 32 - 2 ^ 31"

definition atoi :: "cstring \<Rightarrow> int" where
  "atoi s = to_int32 (strtol10 s)"

text \<open>\<open>%d\<close> of a non-negative number.\<close>

fun digit_char :: "nat \<Rightarrow> char" where
  "digit_char d = char_of (d + 48)"

fun show_nat :: "nat \<Rightarrow> cstring" where
  "show_nat n = (if n < 10 then [digit_char n] else show_nat (n div 10) @ [digit_char (n mod 10)])"

declare show_nat.simps [simp del]

section \<open>Facts\<close>

lemma code_less [simp]: "code c < 256"
  by (simp add: code_def)

lemma code_char_of [simp]: "code (char_of (n :: nat)) = n mod 256"
  by (simp add: code_def)

lemma cstr_no_NUL: "NUL \<notin> set (cstr bs)"
  by (auto simp: cstr_def dest: set_takeWhileD)

lemma cstr_id: "NUL \<notin> set s \<Longrightarrow> cstr s = s"
  by (auto simp: cstr_def takeWhile_eq_all_conv)

lemma cstr_length_le: "length (cstr bs) \<le> length bs"
  by (simp add: cstr_def length_takeWhile_le)

lemma cstr_append_NUL: "NUL \<notin> set s \<Longrightarrow> cstr (s @ NUL # t) = s"
  by (simp add: cstr_def takeWhile_append takeWhile_eq_all_conv)

lemma read_string_terminated: "NUL \<in> set bs \<Longrightarrow> read_string bs = Inr (cstr bs)"
  by (simp add: read_string_def)

lemma read_string_unterminated: "NUL \<notin> set bs \<Longrightarrow> read_string bs = Inl Out_of_bounds"
  by (simp add: read_string_def)

text \<open>Cutting a string at the length of its first part gives the C string of that part.\<close>

lemma cstr_take_append: "take (length v) (cstr (v @ r)) = cstr v"
proof (cases "NUL \<in> set v")
  case True
  then have "cstr (v @ r) = cstr v" by (auto simp: cstr_def takeWhile_append)
  then show ?thesis by (simp add: cstr_length_le)
next
  case False
  then have "cstr (v @ r) = v @ cstr r" by (auto simp: cstr_def takeWhile_append)
  with False show ?thesis by (simp add: cstr_id)
qed

lemma cstr_cstr [simp]: "cstr (cstr s) = cstr s"
  by (rule cstr_id) (rule cstr_no_NUL)

lemma snprintf_s_whole: "length s < n \<Longrightarrow> snprintf_s n s = s"
  by (simp add: snprintf_s_def)

lemma strchr_None: "strchr s c = None \<longleftrightarrow> c \<notin> set s"
  by (induction s) auto

lemma strchr_Some:
  "strchr s c = Some i \<longleftrightarrow> i < length s \<and> s ! i = c \<and> (\<forall>j<i. s ! j \<noteq> c)"
proof (induction s arbitrary: i)
  case Nil
  then show ?case by simp
next
  case (Cons x xs)
  show ?case
  proof (cases i)
    case 0
    then show ?thesis by auto
  next
    case (Suc k)
    then show ?thesis using Cons.IH [of k] by (auto simp: All_less_Suc2)
  qed
qed

lemma strcspn_strchr: "strchr s c = Some i \<Longrightarrow> strcspn s [c] = i"
proof (induction s arbitrary: i)
  case Nil
  then show ?case by simp
next
  case (Cons x xs)
  then show ?case by (auto simp: strcspn_def split: if_splits)
qed

lemma strchr_from_ge: "strchr_from s i c = Some j \<Longrightarrow> i \<le> j \<and> j < length s"
  by (auto simp: strchr_from_def strchr_Some)

lemma is_prefix_iff: "is_prefix t s \<longleftrightarrow> (\<exists>v. s = t @ v)"
  by (induction t s rule: is_prefix.induct) auto

lemma strstr_iff: "strstr s t \<longleftrightarrow> (\<exists>u v. s = u @ t @ v)"
proof (induction s)
  case Nil
  then show ?case by simp
next
  case (Cons x xs)
  have "(\<exists>u v. x # xs = u @ t @ v) \<longleftrightarrow>
      (\<exists>v. x # xs = t @ v) \<or> (\<exists>u v. xs = u @ t @ v)"
    by (metis append_Cons append_Nil list.exhaust list.inject)
  with Cons.IH show ?case by (simp add: is_prefix_iff)
qed

lemma to_int32_range: "- (2 ^ 31) \<le> to_int32 n \<and> to_int32 n < 2 ^ 31"
  by (simp add: to_int32_def)

lemma to_int32_id: "- (2 ^ 31) \<le> n \<Longrightarrow> n < 2 ^ 31 \<Longrightarrow> to_int32 n = n"
  by (simp add: to_int32_def)

lemma show_nat_nonempty: "show_nat n \<noteq> []"
  by (subst show_nat.simps) simp

lemma code_digit_char: "d < 10 \<Longrightarrow> code (digit_char d) = d + 48"
  by (simp add: code_def)

lemma digits_value_append:
  "\<forall>c\<in>set s. isdigit c \<Longrightarrow>
   digits_value acc (s @ t) = digits_value (digits_value acc s) t"
  by (induction s arbitrary: acc) auto

lemma isdigit_digit_char: "d < 10 \<Longrightarrow> isdigit (digit_char d)"
  by (simp only: isdigit_def code_digit_char) simp

lemma show_nat_digits: "\<forall>c\<in>set (show_nat n). isdigit c"
proof (induction n rule: show_nat.induct)
  case (1 n)
  then show ?case
    by (subst show_nat.simps) (auto simp del: digit_char.simps simp: isdigit_digit_char)
qed

text \<open>Reading back a printed number.\<close>

lemma digits_value_show_nat: "digits_value 0 (show_nat n) = n"
proof (induction n rule: show_nat.induct)
  case (1 n)
  show ?case
  proof (cases "n < 10")
    case True
    then show ?thesis
      by (subst show_nat.simps) (simp del: digit_char.simps add: isdigit_digit_char code_digit_char)
  next
    case False
    have d: "n mod 10 < 10" by simp
    from False "1" have "digits_value 0 (show_nat (n div 10)) = n div 10" by simp
    with False show ?thesis
      by (subst show_nat.simps)
        (simp del: digit_char.simps add: digits_value_append show_nat_digits
          isdigit_digit_char [OF d] code_digit_char [OF d])
  qed
qed

end
