(* ===== verification/CoapOption.thy ===== *)
theory CoapOption
  imports CString "HOL-Library.Word"
begin

text \<open>
  Encoding and decoding of option values and options: \<open>encode.c\<close> and \<open>option.c\<close> of the
  libcoap the repository carries. Bytes are characters; \<open>unsigned int\<close> is a 32-bit word,
  \<open>unsigned short\<close> arithmetic is written out modulo 65536. A pointer into a message is the
  list of the bytes from there to the end of the message.
\<close>

section \<open>encode.c\<close>

type_synonym u32 = "32 word"

fun coap_fls :: "nat \<Rightarrow> nat" where
  "coap_fls i = (if i = 0 then 0 else Suc (coap_fls (i div 2)))"

declare coap_fls.simps [simp del]

definition coap_decode_var_bytes :: "char list \<Rightarrow> u32" where
  "coap_decode_var_bytes buf = foldl (\<lambda>n b. push_bit 8 n + of_nat (code b)) 0 buf"

text \<open>The first loop of \<open>coap_encode_var_bytes\<close> counts bytes, the second writes them.\<close>

fun var_len :: "nat \<Rightarrow> nat \<Rightarrow> nat \<Rightarrow> nat" where
  "var_len 0 i n = n"
| "var_len (Suc k) i n = (if i = 0 then n else var_len k (i div 256) (Suc n))"

fun write_bytes :: "nat \<Rightarrow> nat \<Rightarrow> char list" where
  "write_bytes 0 val = []"
| "write_bytes (Suc i) val = write_bytes i (val div 256) @ [char_of (val mod 256)]"

definition coap_encode_var_bytes :: "u32 \<Rightarrow> char list" where
  "coap_encode_var_bytes val = write_bytes (var_len 4 (unat val) 0) (unat val)"

section \<open>option.c: parsing\<close>

abbreviation COAP_PAYLOAD_START :: char where
  "COAP_PAYLOAD_START \<equiv> CHR 0xFF"

record coap_option =
  opt_delta :: nat
  opt_value :: "char list"

text \<open>
  The extended forms of the two nibbles of an option's first byte. The arithmetic on the
  delta is that of an \<open>unsigned short\<close>. \<open>ADVANCE_OPT\<close> checks that one byte is left before it
  steps over the current one, so that an extension byte that is missing is read all the
  same, one byte behind the message.
\<close>

fun parse_delta :: "nat \<Rightarrow> char list \<Rightarrow> (nat \<times> char list) option result" where
  "parse_delta nib rest =
     (if nib = 15 then Inr None
      else if nib = 14 then
        (case rest of
           [] \<Rightarrow> Inl Out_of_bounds
         | b1 # r1 \<Rightarrow>
             let d = (code b1 * 256 + 269) mod 65536 in
             if d < 269 then Inr None
             else case r1 of
               [] \<Rightarrow> Inl Out_of_bounds
             | b2 # r \<Rightarrow> Inr (Some ((d + code b2) mod 65536, r)))
      else if nib = 13 then
        (case rest of [] \<Rightarrow> Inl Out_of_bounds | b # r \<Rightarrow> Inr (Some (13 + code b, r)))
      else Inr (Some (nib, rest)))"

fun parse_length :: "nat \<Rightarrow> char list \<Rightarrow> (nat \<times> char list) option result" where
  "parse_length nib rest =
     (if nib = 15 then Inr None
      else if nib = 14 then
        (case rest of
           b1 # b2 # r \<Rightarrow> Inr (Some (code b1 * 256 + 269 + code b2, r))
         | _ \<Rightarrow> Inl Out_of_bounds)
      else if nib = 13 then
        (case rest of [] \<Rightarrow> Inl Out_of_bounds | b # r \<Rightarrow> Inr (Some (13 + code b, r)))
      else Inr (Some (nib, rest)))"

definition coap_opt_parse :: "char list \<Rightarrow> (coap_option \<times> nat) option result" where
  "coap_opt_parse opt =
     (case opt of
        [] \<Rightarrow> Inr None
      | h # rest \<Rightarrow>
          bindR (parse_delta (code h div 16) rest) (\<lambda>pd.
          case pd of
            None \<Rightarrow> Inr None
          | Some (delta, r) \<Rightarrow>
              bindR (parse_length (code h mod 16) r) (\<lambda>pl.
              case pl of
                None \<Rightarrow> Inr None
              | Some (len, r) \<Rightarrow>
                  if length r < len then Inr None
                  else Inr (Some (\<lparr>opt_delta = delta, opt_value = take len r\<rparr>,
                                  length opt - length r + len)))))"

text \<open>
  The option at a position of a message whose headers are all complete. The iterators
  below, and the functions that walk over options, run on messages the library has built
  or that \<open>coap_pdu_parse\<close> has accepted; it has parsed every option of them before, so the
  fault of \<open>coap_opt_parse\<close> cannot occur there (lemma \<open>accepted_headers_complete\<close> of theory
  \<open>PduSpec\<close>), and they read the option through this function.
\<close>

definition opt_at :: "char list \<Rightarrow> (coap_option \<times> nat) option" where
  "opt_at bs = (case coap_opt_parse bs of Inl _ \<Rightarrow> None | Inr x \<Rightarrow> x)"

lemma opt_at_Some: "opt_at bs = Some x \<longleftrightarrow> coap_opt_parse bs = Inr (Some x)"
  by (simp add: opt_at_def split: sum.split)

lemma opt_at_parse: "coap_opt_parse bs = Inr x \<Longrightarrow> opt_at bs = x"
  by (simp add: opt_at_def)

lemma opt_at_Nil [simp]: "opt_at [] = None"
  by (simp add: opt_at_def coap_opt_parse_def)

text \<open>\<open>coap_opt_length\<close> and \<open>coap_opt_value\<close> of an option that parses; 0 is \<open>NULL\<close>.\<close>

definition ext_bytes :: "nat \<Rightarrow> nat" where
  "ext_bytes nib = (if nib = 13 then 1 else if nib = 14 then 2 else 0)"

definition coap_opt_length :: "char list \<Rightarrow> nat" where
  "coap_opt_length opt =
     (let dn = code (opt ! 0) div 16; ln = code (opt ! 0) mod 16; o2 = drop (1 + ext_bytes dn) opt in
      if dn = 15 \<or> ln = 15 then 0
      else if ln = 14 then (code (o2 ! 0) * 256 + 269 + code (o2 ! 1)) mod 65536
      else if ln = 13 then 13 + code (o2 ! 0)
      else ln)"

definition coap_opt_value :: "char list \<Rightarrow> char list option" where
  "coap_opt_value opt =
     (let dn = code (opt ! 0) div 16; ln = code (opt ! 0) mod 16 in
      if dn = 15 \<or> ln = 15 then None else Some (drop (1 + ext_bytes dn + ext_bytes ln) opt))"

section \<open>option.c: filters\<close>

text \<open>
  A filter has two slots for option types above 255 and six for the others; bit \<open>i\<close> of the
  mask says that slot \<open>i\<close> is in use, which the model writes as an optional entry. A new type
  goes into the free slot with the highest index.
\<close>

record coap_opt_filter =
  long_opts :: "nat option list"
  short_opts :: "nat option list"

definition coap_option_filter_clear :: coap_opt_filter where
  "coap_option_filter_clear =
     \<lparr>long_opts = replicate 2 None, short_opts = replicate 6 None\<rparr>"

datatype filter_op_t = FILTER_SET | FILTER_CLEAR | FILTER_GET

definition is_long_option :: "nat \<Rightarrow> bool" where
  "is_long_option type \<longleftrightarrow> 255 < type"

fun slot_index :: "nat option \<Rightarrow> nat option list \<Rightarrow> nat option" where
  "slot_index v [] = None"
| "slot_index v (x # xs) = (if x = v then Some 0 else map_option Suc (slot_index v xs))"

fun last_free :: "nat option list \<Rightarrow> nat option" where
  "last_free [] = None"
| "last_free (x # xs) =
     (case last_free xs of Some i \<Rightarrow> Some (Suc i)
      | None \<Rightarrow> if x = None then Some 0 else None)"

definition slots_op :: "nat \<Rightarrow> filter_op_t \<Rightarrow> nat option list \<Rightarrow> nat \<times> nat option list" where
  "slots_op type oper slots =
     (case slot_index (Some type) slots of
        Some i \<Rightarrow> (1, if oper = FILTER_CLEAR then slots[i := None] else slots)
      | None \<Rightarrow>
          if oper = FILTER_CLEAR \<or> oper = FILTER_GET then (0, slots)
          else case last_free slots of
            None \<Rightarrow> (0, slots)
          | Some i \<Rightarrow> (1, slots[i := Some type]))"

definition coap_option_filter_op ::
  "coap_opt_filter \<Rightarrow> nat \<Rightarrow> filter_op_t \<Rightarrow> nat \<times> coap_opt_filter" where
  "coap_option_filter_op f type oper =
     (if is_long_option type
      then (let (r, slots) = slots_op type oper (long_opts f) in (r, f\<lparr>long_opts := slots\<rparr>))
      else (let (r, slots) = slots_op type oper (short_opts f) in (r, f\<lparr>short_opts := slots\<rparr>)))"

definition coap_option_filter_set :: "coap_opt_filter \<Rightarrow> nat \<Rightarrow> nat \<times> coap_opt_filter" where
  "coap_option_filter_set f type = coap_option_filter_op f type FILTER_SET"

definition coap_option_filter_unset :: "coap_opt_filter \<Rightarrow> nat \<Rightarrow> nat \<times> coap_opt_filter" where
  "coap_option_filter_unset f type = coap_option_filter_op f type FILTER_CLEAR"

definition coap_option_filter_get :: "coap_opt_filter \<Rightarrow> nat \<Rightarrow> nat" where
  "coap_option_filter_get f type = fst (coap_option_filter_op f type FILTER_GET)"

section \<open>option.c: iterating\<close>

record coap_opt_iterator =
  oi_next :: "char list"
  oi_type :: nat
  oi_bad :: bool
  oi_filter :: "coap_opt_filter option"

definition opt_finished :: "coap_opt_iterator \<Rightarrow> bool" where
  "opt_finished oi \<longleftrightarrow>
     oi_bad oi \<or> oi_next oi = [] \<or> hd (oi_next oi) = COAP_PAYLOAD_START"

lemma parse_delta_rest:
  "parse_delta nib rest = Inr (Some (d, r)) \<Longrightarrow>
   nib \<noteq> 15 \<and> r = drop (ext_bytes nib) rest \<and> ext_bytes nib \<le> length rest"
  by (auto simp: ext_bytes_def Let_def split: list.splits if_splits)

definition ext_value :: "nat \<Rightarrow> char list \<Rightarrow> nat" where
  "ext_value nib rest =
     (if nib = 14 then code (rest ! 0) * 256 + 269 + code (rest ! 1)
      else if nib = 13 then 13 + code (rest ! 0) else nib)"

lemma parse_length_rest:
  "parse_length nib rest = Inr (Some (l, r)) \<Longrightarrow>
   nib \<noteq> 15 \<and> r = drop (ext_bytes nib) rest \<and> ext_bytes nib \<le> length rest \<and>
   l = ext_value nib rest"
  by (auto simp: ext_bytes_def ext_value_def split: list.splits if_splits)

lemma coap_opt_parse_cases:
  assumes "coap_opt_parse opt = Inr (Some (x, sz))"
  obtains h rest d r1 l r2 where "opt = h # rest"
    "parse_delta (code h div 16) rest = Inr (Some (d, r1))"
    "parse_length (code h mod 16) r1 = Inr (Some (l, r2))"
    "l \<le> length r2" "x = \<lparr>opt_delta = d, opt_value = take l r2\<rparr>"
    "sz = length opt - length r2 + l"
proof -
  obtain h rest where o: "opt = h # rest" using assms by (cases opt) (auto simp: coap_opt_parse_def)
  obtain d r1 where pd: "parse_delta (code h div 16) rest = Inr (Some (d, r1))"
    using assms by (auto simp: coap_opt_parse_def o bindR_eq_Inr simp del: parse_delta.simps parse_length.simps
        split: option.splits)
  obtain l r2 where pl: "parse_length (code h mod 16) r1 = Inr (Some (l, r2))"
    using assms by (auto simp: coap_opt_parse_def o pd bindR_eq_Inr simp del: parse_delta.simps parse_length.simps
        split: option.splits)
  show ?thesis
    using assms by (intro that [OF o pd pl])
      (simp_all add: coap_opt_parse_def o pd pl del: parse_delta.simps parse_length.simps split: if_splits)
qed

lemma coap_opt_parse_size:
  "coap_opt_parse opt = Inr (Some (x, sz)) \<Longrightarrow> 0 < sz \<and> sz \<le> length opt"
proof (elim coap_opt_parse_cases)
  fix h rest d r1 l r2
  assume o: "opt = h # rest" and pd: "parse_delta (code h div 16) rest = Inr (Some (d, r1))"
    and pl: "parse_length (code h mod 16) r1 = Inr (Some (l, r2))" and l: "l \<le> length r2"
    and sz: "sz = length opt - length r2 + l"
  have "length r2 < length opt"
    using parse_delta_rest [OF pd] parse_length_rest [OF pl] by (simp add: o)
  then show ?thesis using l sz by simp
qed

lemma opt_at_size: "opt_at opt = Some (x, sz) \<Longrightarrow> 0 < sz \<and> sz \<le> length opt"
  by (simp add: opt_at_Some coap_opt_parse_size)

text \<open>
  \<open>coap_option_next\<close> returns the pointer to the next option that passes the filter, or
  \<open>NULL\<close> at the end and at a malformed option, which makes the iterator bad.
\<close>

function next_loop :: "coap_opt_iterator \<Rightarrow> char list option \<times> coap_opt_iterator" where
  "next_loop oi =
     (case opt_at (oi_next oi) of
        None \<Rightarrow> (None, oi\<lparr>oi_bad := True\<rparr>)
      | Some (option, optsize) \<Rightarrow>
          let oi' = oi\<lparr>oi_next := drop optsize (oi_next oi),
                       oi_type := (oi_type oi + opt_delta option) mod 65536\<rparr> in
          if (case oi_filter oi of
                None \<Rightarrow> True
              | Some f \<Rightarrow> coap_option_filter_get f (oi_type oi') > 0)
          then (Some (oi_next oi), oi')
          else next_loop oi')"
  by pat_completeness auto
termination
  by (relation "measure (\<lambda>oi. length (oi_next oi))") (auto dest: opt_at_size)

declare next_loop.simps [simp del]

definition coap_option_next :: "coap_opt_iterator \<Rightarrow> char list option \<times> coap_opt_iterator" where
  "coap_option_next oi =
     (if opt_finished oi then (None, oi\<lparr>oi_bad := True\<rparr>) else next_loop oi)"

text \<open>
  The loop \<open>while ((option = coap_option_next(&it)))\<close> without a filter, as the list of the
  types and values it sees.
\<close>

function options_from :: "nat \<Rightarrow> char list \<Rightarrow> (nat \<times> char list) list" where
  "options_from ty bs =
     (if bs = [] \<or> hd bs = COAP_PAYLOAD_START then []
      else case opt_at bs of
        None \<Rightarrow> []
      | Some (option, optsize) \<Rightarrow>
          let ty' = (ty + opt_delta option) mod 65536 in
          (ty', opt_value option) # options_from ty' (drop optsize bs))"
  by pat_completeness auto
termination
  by (relation "measure (\<lambda>(ty, bs). length bs)") (auto dest: opt_at_size)

declare options_from.simps [simp del]

text \<open>
  The same loop with the bytes of the message that lie behind each value, for the code that
  reads a value without heeding its length.
\<close>

function option_tails :: "nat \<Rightarrow> char list \<Rightarrow> (nat \<times> char list \<times> char list) list" where
  "option_tails ty bs =
     (if bs = [] \<or> hd bs = COAP_PAYLOAD_START then []
      else case opt_at bs of
        None \<Rightarrow> []
      | Some (option, optsize) \<Rightarrow>
          let ty' = (ty + opt_delta option) mod 65536 in
          (ty', opt_value option, drop optsize bs) # option_tails ty' (drop optsize bs))"
  by pat_completeness auto
termination
  by (relation "measure (\<lambda>(ty, bs). length bs)") (auto dest: opt_at_size)

declare option_tails.simps [simp del]

section \<open>option.c: writing\<close>

text \<open>
  \<open>coap_opt_setheader\<close>: the bytes of the header, or nothing when \<open>maxlen\<close> is too small.
  Both extended forms switch at 270, so that 269 is written in the one-byte form as
  \<open>269 - 13 = 256\<close>, truncated to a byte.
\<close>

definition ext_form :: "nat \<Rightarrow> nat \<times> char list" where
  "ext_form n =
     (if n < 13 then (n, [])
      else if n < 270 then (13, [char_of (n - 13)])
      else (14, [char_of ((n - 269) div 256), char_of (n - 269)]))"

definition coap_opt_setheader :: "nat \<Rightarrow> nat \<Rightarrow> nat \<Rightarrow> char list option" where
  "coap_opt_setheader maxlen delta len =
     (let (dn, de) = ext_form delta; (ln, le) = ext_form len in
      if maxlen = 0 \<or> maxlen < 1 + length de then None
      else if le \<noteq> [] \<and> maxlen < 1 + length de + length le then None
      else Some (char_of (16 * dn + ln) # de @ le))"

definition coap_opt_encode :: "nat \<Rightarrow> nat \<Rightarrow> char list \<Rightarrow> char list option" where
  "coap_opt_encode maxlen delta val =
     (case coap_opt_setheader maxlen delta (length val) of
        None \<Rightarrow> None
      | Some h \<Rightarrow> if maxlen - length h < length val then None else Some (h @ val))"

section \<open>Facts\<close>

lemma code_payload_start: "code COAP_PAYLOAD_START = 255"
  by (simp add: code_def)

lemma foldl_decode_snoc:
  "coap_decode_var_bytes (bs @ [b]) = push_bit 8 (coap_decode_var_bytes bs) + of_nat (code b)"
  by (simp add: coap_decode_var_bytes_def)

lemma decode_write_bytes:
  "coap_decode_var_bytes (write_bytes k v) = of_nat (v mod 256 ^ k)"
proof (induction k arbitrary: v)
  case 0
  then show ?case by (simp add: coap_decode_var_bytes_def)
next
  case (Suc k)
  have m: "v mod 256 ^ Suc k = 256 * (v div 256 mod 256 ^ k) + v mod 256"
    by (simp add: mod_mult2_eq)
  have "coap_decode_var_bytes (write_bytes (Suc k) v)
      = push_bit 8 (of_nat (v div 256 mod 256 ^ k)) + of_nat (v mod 256)"
    by (simp add: foldl_decode_snoc Suc.IH)
  also have "\<dots> = of_nat (256 * (v div 256 mod 256 ^ k) + v mod 256)"
    by (simp add: push_bit_eq_mult mult.commute)
  finally show ?case by (simp only: m)
qed

lemma var_len_add: "var_len k i n = n + var_len k i 0"
proof (induction k arbitrary: i n)
  case 0
  then show ?case by simp
next
  case (Suc k)
  show ?case using Suc.IH [of "i div 256" "Suc n"] Suc.IH [of "i div 256" "Suc 0"] by simp
qed

lemma var_len_le: "var_len k i 0 \<le> k"
  by (induction k arbitrary: i) (simp, subst var_len.simps, subst var_len_add, simp)

lemma var_len_covers: "i < 256 ^ k \<Longrightarrow> i < 256 ^ var_len k i 0"
proof (induction k arbitrary: i)
  case 0
  then show ?case by simp
next
  case (Suc k)
  show ?case
  proof (cases "i = 0")
    case True
    then show ?thesis by simp
  next
    case False
    have "i div 256 < 256 ^ k" using Suc.prems by (simp add: less_mult_imp_div_less mult.commute)
    from Suc.IH [OF this] have "i div 256 < 256 ^ var_len k (i div 256) 0" .
    then have "i < 256 ^ Suc (var_len k (i div 256) 0)" by (simp add: div_less_iff_less_mult mult.commute)
    with False show ?thesis
      using var_len_add [of k "i div 256" "Suc 0"] by simp
  qed
qed

lemma length_write_bytes [simp]: "length (write_bytes k v) = k"
  by (induction k arbitrary: v) auto

lemma decode_encode_var_bytes: "coap_decode_var_bytes (coap_encode_var_bytes v) = v"
proof -
  have "unat v < 2 ^ 32" by (transfer) (simp add: take_bit_eq_mod nat_less_iff)
  then have "unat v < 256 ^ 4" by simp
  then have "unat v mod 256 ^ var_len 4 (unat v) 0 = unat v"
    using var_len_covers by simp
  then show ?thesis by (simp add: coap_encode_var_bytes_def decode_write_bytes)
qed

lemma length_encode_var_bytes: "length (coap_encode_var_bytes v) \<le> 4"
  by (simp add: coap_encode_var_bytes_def var_len_le)

subsection \<open>One option\<close>

lemma parse_delta_ext_form:
  assumes "ext_form n = (nib, e)" "n < 65536" "n \<noteq> 269"
  shows "parse_delta nib (e @ r) = Inr (Some (n, r)) \<and> nib < 15"
  using assms by (auto simp: ext_form_def Let_def split: if_splits)

lemma parse_length_ext_form:
  assumes "ext_form n = (nib, e)" "n < 65536" "n \<noteq> 269"
  shows "parse_length nib (e @ r) = Inr (Some (n, r)) \<and> nib < 15"
  using assms by (auto simp: ext_form_def Let_def split: if_splits)

lemma header_nibbles:
  "dn < 15 \<Longrightarrow> ln < 15 \<Longrightarrow>
   code (char_of (16 * dn + ln :: nat)) div 16 = dn \<and> code (char_of (16 * dn + ln :: nat)) mod 16 = ln"
  by simp

lemma coap_opt_encode_Some:
  "coap_opt_encode maxlen delta val = Some bs \<Longrightarrow>
   \<exists>dn de ln le. ext_form delta = (dn, de) \<and> ext_form (length val) = (ln, le) \<and>
     bs = char_of (16 * dn + ln) # de @ le @ val \<and> length bs \<le> maxlen"
  by (auto simp: coap_opt_encode_def coap_opt_setheader_def split: if_splits prod.splits option.splits)

lemma coap_opt_parse_encode:
  assumes e: "coap_opt_encode maxlen delta val = Some bs"
    and d: "delta < 65536" "delta \<noteq> 269" and l: "length val < 65536" "length val \<noteq> 269"
  shows "coap_opt_parse (bs @ rest) = Inr (Some (\<lparr>opt_delta = delta, opt_value = val\<rparr>, length bs))"
proof -
  from coap_opt_encode_Some [OF e] obtain dn de ln le
    where f: "ext_form delta = (dn, de)" "ext_form (length val) = (ln, le)"
      and bs: "bs = char_of (16 * dn + ln) # de @ le @ val" by blast
  from parse_delta_ext_form [OF f(1) d, of "le @ val @ rest"]
  have pd: "parse_delta dn (de @ le @ val @ rest) = Inr (Some (delta, le @ val @ rest))" "dn < 15" by auto
  from parse_length_ext_form [OF f(2) l, of "val @ rest"]
  have pl: "parse_length ln (le @ val @ rest) = Inr (Some (length val, val @ rest))" "ln < 15" by auto
  note h = header_nibbles [OF pd(2) pl(2)]
  have d16: "code (char_of (16 * dn + ln)) div 16 = dn" using h by blast
  have m16: "code (char_of (16 * dn + ln)) mod 16 = ln" using h by blast
  show ?thesis
    unfolding coap_opt_parse_def bs
    by (simp only: append_Cons append_assoc list.case d16 m16 pd(1) pl(1) bindR_Inr option.case prod.case) simp
qed

lemma coap_opt_encode_hd:
  assumes "coap_opt_encode maxlen delta val = Some bs"
  shows "bs \<noteq> [] \<and> hd bs \<noteq> COAP_PAYLOAD_START"
proof -
  from coap_opt_encode_Some [OF assms] obtain dn de ln le
    where f: "ext_form delta = (dn, de)" "ext_form (length val) = (ln, le)"
      and bs: "bs = char_of (16 * dn + ln) # de @ le @ val" by blast
  have "dn < 15" "ln < 15" using f by (auto simp: ext_form_def split: if_splits)
  then have "16 * dn + ln < 255" by linarith
  then have "code (char_of (16 * dn + ln)) \<noteq> code COAP_PAYLOAD_START"
    by (simp add: code_payload_start)
  then have "char_of (16 * dn + ln) \<noteq> COAP_PAYLOAD_START" by metis
  then show ?thesis using bs by simp
qed

text \<open>The accessors agree with the parser on every option the parser accepts.\<close>

lemma coap_opt_accessors_parse:
  assumes p: "coap_opt_parse bs = Inr (Some (opt, sz))" and b: "length bs < 65536"
  shows "coap_opt_length bs = length (opt_value opt)"
    "map_option (take (coap_opt_length bs)) (coap_opt_value bs) = Some (opt_value opt)"
proof -
  obtain h rest d r1 l r2 where bs: "bs = h # rest"
    and pd: "parse_delta (code h div 16) rest = Inr (Some (d, r1))"
    and pl: "parse_length (code h mod 16) r1 = Inr (Some (l, r2))"
    and v': "l \<le> length r2" "opt = \<lparr>opt_delta = d, opt_value = take l r2\<rparr>"
    using p by (elim coap_opt_parse_cases)
  have v: "opt_value opt = take l r2" "l \<le> length r2" using v' by simp_all
  let ?dn = "code h div 16" and ?ln = "code h mod 16"
  let ?r = "drop (ext_bytes ?dn) rest"
  note D = parse_delta_rest [OF pd] and L = parse_length_rest [OF pl]
  have r2: "r2 = drop (ext_bytes ?dn + ext_bytes ?ln) rest" using D L by (simp add: add.commute)
  have l: "l = ext_value ?ln ?r" using D L by simp
  have lb: "l < 65536" using v(2) b r2 bs by simp
  show len: "coap_opt_length bs = length (opt_value opt)"
    using D L l lb v by (auto simp: coap_opt_length_def bs ext_value_def Let_def)
  show "map_option (take (coap_opt_length bs)) (coap_opt_value bs) = Some (opt_value opt)"
    using D L r2 v len by (simp add: coap_opt_value_def bs Let_def)
qed

subsection \<open>The options of a message\<close>

lemma options_from_encode:
  assumes e: "coap_opt_encode maxlen delta val = Some bs"
    and d: "delta < 65536" "delta \<noteq> 269" and l: "length val < 65536" "length val \<noteq> 269"
    and ty: "ty + delta < 65536"
  shows "options_from ty (bs @ rest) = (ty + delta, val) # options_from (ty + delta) rest"
  using opt_at_parse [OF coap_opt_parse_encode [OF e d l, of rest]] coap_opt_encode_hd [OF e] ty
  by (subst options_from.simps) (auto simp: Let_def)

lemma options_from_end [simp]:
  "options_from ty [] = []" "options_from ty (COAP_PAYLOAD_START # p) = []"
  by (subst options_from.simps, simp)+

text \<open>
  Unfolding of the iteration: what the loop over \<open>coap_option_next\<close> sees is the list
  \<open>options_from\<close>.
\<close>

definition iterator_at :: "nat \<Rightarrow> char list \<Rightarrow> coap_opt_iterator" where
  "iterator_at ty bs = \<lparr>oi_next = bs, oi_type = ty, oi_bad = False, oi_filter = None\<rparr>"

lemma coap_option_next_options_from:
  assumes "length bs < 65536"
  shows "options_from ty bs =
    (case coap_option_next (iterator_at ty bs) of
       (None, _) \<Rightarrow> []
     | (Some p, oi) \<Rightarrow>
         (oi_type oi, take (coap_opt_length p) (the (coap_opt_value p)))
         # options_from (oi_type oi) (oi_next oi))"
proof (cases "bs = [] \<or> hd bs = COAP_PAYLOAD_START")
  case True
  then show ?thesis
    by (subst options_from.simps) (auto simp: coap_option_next_def opt_finished_def iterator_at_def)
next
  case False
  show ?thesis
  proof (cases "opt_at bs")
    case None
    with False show ?thesis
      by (subst options_from.simps)
        (auto simp: coap_option_next_def opt_finished_def iterator_at_def next_loop.simps)
  next
    case (Some r)
    obtain opt sz where r: "r = (opt, sz)" by fastforce
    from coap_opt_accessors_parse (2) [OF Some [unfolded r opt_at_Some] assms]
    have "the (map_option (take (coap_opt_length bs)) (coap_opt_value bs)) = opt_value opt"
      "coap_opt_value bs \<noteq> None" by auto
    then have "take (coap_opt_length bs) (the (coap_opt_value bs)) = opt_value opt" by auto
    with False Some r show ?thesis
      by (subst options_from.simps)
        (auto simp: coap_option_next_def opt_finished_def iterator_at_def next_loop.simps Let_def)
  qed
qed

lemma option_tails_options_from:
  "map (\<lambda>(t, v, r). (t, v)) (option_tails ty bs) = options_from ty bs"
proof (induction ty bs rule: option_tails.induct)
  case (1 ty bs)
  show ?case
  proof (cases "bs = [] \<or> hd bs = COAP_PAYLOAD_START")
    case True
    then show ?thesis by (subst option_tails.simps, subst options_from.simps) auto
  next
    case False
    show ?thesis
    proof (cases "opt_at bs")
      case None
      with False show ?thesis by (subst option_tails.simps, subst options_from.simps) auto
    next
      case (Some x)
      obtain opt sz where x: "x = (opt, sz)" by fastforce
      have "map (\<lambda>(t, v, r). (t, v)) (option_tails ((ty + opt_delta opt) mod 65536) (drop sz bs))
          = options_from ((ty + opt_delta opt) mod 65536) (drop sz bs)"
        by (rule "1") (use False Some x in auto)
      with False Some x show ?thesis
        by (subst option_tails.simps, subst options_from.simps) (simp add: Let_def)
    qed
  qed
qed

text \<open>The bytes behind a value are the rest of the message.\<close>

lemma option_tails_suffix:
  "(t, v, r) \<in> set (option_tails ty bs) \<Longrightarrow> \<exists>p. bs = p @ v @ r"
proof (induction ty bs rule: option_tails.induct)
  case (1 ty bs)
  from "1.prems" have ne: "\<not> (bs = [] \<or> hd bs = COAP_PAYLOAD_START)"
    by (subst (asm) option_tails.simps) (auto split: if_splits)
  from "1.prems" ne obtain opt sz where o: "opt_at bs = Some (opt, sz)"
    by (subst (asm) option_tails.simps) (cases "opt_at bs", auto)
  consider "(t, v, r) = ((ty + opt_delta opt) mod 65536, opt_value opt, drop sz bs)"
    | "(t, v, r) \<in> set (option_tails ((ty + opt_delta opt) mod 65536) (drop sz bs))"
    using "1.prems" ne o by (subst (asm) option_tails.simps) (auto simp: Let_def)
  then show ?case
  proof cases
    case a: 1
    obtain h rest d r1 l r2 where bs: "bs = h # rest"
      and pd: "parse_delta (code h div 16) rest = Inr (Some (d, r1))"
      and pl: "parse_length (code h mod 16) r1 = Inr (Some (l, r2))"
      and v': "l \<le> length r2" "opt = \<lparr>opt_delta = d, opt_value = take l r2\<rparr>"
        "sz = length bs - length r2 + l"
      using o unfolding opt_at_Some by (elim coap_opt_parse_cases)
    have v: "opt_value opt = take l r2" "l \<le> length r2" "sz = length bs - length r2 + l"
      using v' by simp_all
    have r2: "r2 = drop (ext_bytes (code h mod 16)) (drop (ext_bytes (code h div 16)) rest)"
      using parse_delta_rest [OF pd] parse_length_rest [OF pl] by simp
    define k where "k = Suc (ext_bytes (code h div 16) + ext_bytes (code h mod 16))"
    have r2k: "r2 = drop k bs" using r2 by (simp add: k_def bs add.commute)
    have kl: "k \<le> length bs"
      using parse_delta_rest [OF pd] parse_length_rest [OF pl] by (simp add: k_def bs) linarith
    have sz: "sz = k + l" using v(3) kl by (simp add: r2k)
    have "bs = take k bs @ take l (drop k bs) @ drop l (drop k bs)"
      by (simp only: append_take_drop_id)
    then have "bs = take k bs @ opt_value opt @ drop sz bs"
      by (simp only: v(1) r2k sz drop_drop add.commute [of k l])
    then show ?thesis using a by blast
  next
    case 2
    from "1.IH" [OF ne o refl refl 2] obtain p where "drop sz bs = p @ v @ r" by blast
    then have "bs = (take sz bs @ p) @ v @ r" by (metis append_assoc append_take_drop_id)
    then show ?thesis by blast
  qed
qed

subsection \<open>Filters\<close>

lemma slot_index_None: "slot_index v slots = None \<longleftrightarrow> v \<notin> set slots"
  by (induction slots) auto

lemma slot_index_Some: "slot_index v slots = Some i \<Longrightarrow> i < length slots \<and> slots ! i = v"
  by (induction slots arbitrary: i) (auto split: if_splits)

lemma slot_index_in: "slot_index v slots = Some i \<Longrightarrow> v \<in> set slots"
  using slot_index_None [of v slots] by simp

lemma last_free_None: "last_free slots = None \<longleftrightarrow> None \<notin> set slots"
  by (induction slots) (auto split: option.splits)

lemma last_free_Some: "last_free slots = Some i \<Longrightarrow> i < length slots \<and> slots ! i = None"
  by (induction slots arbitrary: i) (auto split: option.splits if_splits)

text \<open>The option types a filter lets pass.\<close>

definition filter_types :: "coap_opt_filter \<Rightarrow> nat set" where
  "filter_types f =
     {ty. if is_long_option ty then Some ty \<in> set (long_opts f) else Some ty \<in> set (short_opts f)}"

lemma filter_get_types: "coap_option_filter_get f ty > 0 \<longleftrightarrow> ty \<in> filter_types f"
  by (auto simp: coap_option_filter_get_def coap_option_filter_op_def slots_op_def filter_types_def
      slot_index_None dest: slot_index_in split: option.splits)

lemma set_list_update_free:
  assumes "i < length xs" "xs ! i = None"
  shows "Some y \<in> set (xs[i := Some x]) \<longleftrightarrow> y = x \<or> Some y \<in> set xs"
  using assms by (auto simp: in_set_conv_nth nth_list_update) (metis nth_list_update option.distinct(1))+

lemma slots_op_set:
  "slots_op ty FILTER_SET slots = (1, slots') \<Longrightarrow>
   Some y \<in> set slots' \<longleftrightarrow> y = ty \<or> Some y \<in> set slots"
  using slot_index_in [of "Some ty" slots] last_free_Some [of slots]
  by (auto simp: slots_op_def set_list_update_free split: option.splits)

lemma filter_set_types:
  assumes "coap_option_filter_set f ty = (1, f')"
  shows "filter_types f' = insert ty (filter_types f)"
  using assms
  by (auto simp: coap_option_filter_set_def coap_option_filter_op_def filter_types_def slots_op_set
      split: prod.splits if_splits)

lemma filter_set_fresh: "fst (coap_option_filter_set coap_option_filter_clear ty) = 1"
  by (simp add: coap_option_filter_set_def coap_option_filter_op_def coap_option_filter_clear_def
      slots_op_def numeral_2_eq_2 eval_nat_numeral)

lemma filter_types_clear: "filter_types coap_option_filter_clear = {}"
  by (simp add: filter_types_def coap_option_filter_clear_def)

end
