(* ===== verification/CoapPdu.thy ===== *)
theory CoapPdu
  imports CoapOption
begin

text \<open>
  Messages: construction, access and parsing (\<open>pdu.c\<close>) and block-wise transfer
  (\<open>block.c\<close>) of the libcoap the repository carries. A message buffer is kept as its
  header fields, the token and the bytes that follow; \<open>pdu->length\<close> is the sum of their
  sizes and the pointer \<open>pdu->data\<close> an index into the last part.
\<close>

unbundle bit_operations_syntax

section \<open>Codes and option numbers\<close>

definition COAP_RESPONSE_CODE :: "nat \<Rightarrow> nat" where
  "COAP_RESPONSE_CODE n = push_bit 5 (n div 100) OR (n mod 100)"

abbreviation (input) COAP_MAX_PDU_SIZE :: nat where "COAP_MAX_PDU_SIZE \<equiv> 1400"
abbreviation (input) COAP_OPTION_OBSERVE :: nat where "COAP_OPTION_OBSERVE \<equiv> 6"
abbreviation (input) COAP_OPTION_LOCATION_PATH :: nat where "COAP_OPTION_LOCATION_PATH \<equiv> 8"
abbreviation (input) COAP_OPTION_URI_PATH :: nat where "COAP_OPTION_URI_PATH \<equiv> 11"
abbreviation (input) COAP_OPTION_CONTENT_TYPE :: nat where "COAP_OPTION_CONTENT_TYPE \<equiv> 12"
abbreviation (input) COAP_OPTION_MAXAGE :: nat where "COAP_OPTION_MAXAGE \<equiv> 14"
abbreviation (input) COAP_OPTION_URI_QUERY :: nat where "COAP_OPTION_URI_QUERY \<equiv> 15"
abbreviation (input) COAP_OPTION_BLOCK2 :: nat where "COAP_OPTION_BLOCK2 \<equiv> 23"
abbreviation (input) COAP_MEDIATYPE_TEXT_PLAIN :: u32 where "COAP_MEDIATYPE_TEXT_PLAIN \<equiv> 0"
abbreviation (input) COAP_MEDIATYPE_APPLICATION_LINK_FORMAT :: u32 where
  "COAP_MEDIATYPE_APPLICATION_LINK_FORMAT \<equiv> 40"
abbreviation (input) COAP_MESSAGE_CON :: nat where "COAP_MESSAGE_CON \<equiv> 0"
abbreviation (input) COAP_MESSAGE_NON :: nat where "COAP_MESSAGE_NON \<equiv> 1"

definition coap_error :: "(nat \<times> cstring) list" where
  "coap_error =
     [(COAP_RESPONSE_CODE 201, ''Created''), (COAP_RESPONSE_CODE 202, ''Deleted''),
      (COAP_RESPONSE_CODE 203, ''Valid''), (COAP_RESPONSE_CODE 204, ''Changed''),
      (COAP_RESPONSE_CODE 205, ''Content''), (COAP_RESPONSE_CODE 231, ''Continue''),
      (COAP_RESPONSE_CODE 400, ''Bad Request''), (COAP_RESPONSE_CODE 401, ''Unauthorized''),
      (COAP_RESPONSE_CODE 402, ''Bad Option''), (COAP_RESPONSE_CODE 403, ''Forbidden''),
      (COAP_RESPONSE_CODE 404, ''Not Found''), (COAP_RESPONSE_CODE 405, ''Method Not Allowed''),
      (COAP_RESPONSE_CODE 406, ''Not Acceptable''),
      (COAP_RESPONSE_CODE 408, ''Request Entity Incomplete''),
      (COAP_RESPONSE_CODE 412, ''Precondition Failed''),
      (COAP_RESPONSE_CODE 413, ''Request Entity Too Large''),
      (COAP_RESPONSE_CODE 415, ''Unsupported Content-Format''),
      (COAP_RESPONSE_CODE 500, ''Internal Server Error''),
      (COAP_RESPONSE_CODE 501, ''Not Implemented''), (COAP_RESPONSE_CODE 502, ''Bad Gateway''),
      (COAP_RESPONSE_CODE 503, ''Service Unavailable''),
      (COAP_RESPONSE_CODE 504, ''Gateway Timeout''),
      (COAP_RESPONSE_CODE 505, ''Proxying Not Supported'')]"

definition coap_response_phrase :: "nat \<Rightarrow> cstring option" where
  "coap_response_phrase c = map_of coap_error c"

section \<open>pdu.c: construction\<close>

record coap_pdu =
  max_size :: nat
  hdr_type :: nat
  hdr_code :: nat
  hdr_id :: nat
  hdr_token :: "char list"
  max_delta :: nat
  pdu_body :: "char list"
  pdu_data :: "nat option"

definition pdu_length :: "coap_pdu \<Rightarrow> nat" where
  "pdu_length p = 4 + length (hdr_token p) + length (pdu_body p)"

definition coap_pdu_init :: "nat \<Rightarrow> nat \<Rightarrow> nat \<Rightarrow> nat \<Rightarrow> coap_pdu option result" where
  "coap_pdu_init type cd i sz =
     bindR (assertR (sz \<le> COAP_MAX_PDU_SIZE)) (\<lambda>_.
     Inr (if sz < 4 then None
          else Some \<lparr>max_size = sz, hdr_type = type, hdr_code = cd, hdr_id = i,
                     hdr_token = [], max_delta = 0, pdu_body = [], pdu_data = None\<rparr>))"

definition coap_add_token :: "coap_pdu option \<Rightarrow> char list \<Rightarrow> nat \<times> coap_pdu option" where
  "coap_add_token pdu data =
     (case pdu of
        None \<Rightarrow> (0, None)
      | Some p \<Rightarrow>
          if length data > 8 \<or> max_size p < length data + 4 then (0, Some p)
          else (1, Some (p\<lparr>hdr_token := data, max_delta := 0, pdu_body := [], pdu_data := None\<rparr>)))"

definition coap_add_option :: "coap_pdu \<Rightarrow> nat \<Rightarrow> char list \<Rightarrow> nat \<times> coap_pdu" where
  "coap_add_option pdu type data =
     (let pdu = pdu\<lparr>pdu_data := None\<rparr> in
      if type < max_delta pdu then (0, pdu)
      else case coap_opt_encode (max_size pdu - pdu_length pdu) (type - max_delta pdu) data of
        None \<Rightarrow> (0, pdu)
      | Some bs \<Rightarrow> (length bs, pdu\<lparr>max_delta := type, pdu_body := pdu_body pdu @ bs\<rparr>))"

definition coap_add_data :: "coap_pdu \<Rightarrow> char list \<Rightarrow> (nat \<times> coap_pdu) result" where
  "coap_add_data pdu data =
     bindR (assertR (pdu_data pdu = None)) (\<lambda>_.
     Inr (if length data = 0 then (1, pdu)
          else if pdu_length pdu + length data + 1 > max_size pdu then (0, pdu)
          else (1, pdu\<lparr>pdu_data := Some (length (pdu_body pdu) + 1),
                       pdu_body := pdu_body pdu @ COAP_PAYLOAD_START # data\<rparr>)))"

text \<open>\<open>coap_get_data\<close>: success, length and bytes (the null pointer is the empty list).\<close>

definition coap_get_data :: "coap_pdu \<Rightarrow> bool \<times> nat \<times> char list" where
  "coap_get_data pdu =
     (case pdu_data pdu of
        None \<Rightarrow> (False, 0, [])
      | Some i \<Rightarrow> (True, length (pdu_body pdu) - i, drop i (pdu_body pdu)))"

text \<open>
  \<open>coap_get_data\<close> followed by a use of the pointer as a C string. A received message lies
  in a block of exactly its length, so its payload ends where the block ends: unless the
  payload itself holds a NUL, the scan for the terminator leaves the block. Without a
  payload the pointer is null.
\<close>

definition payload_string :: "coap_pdu \<Rightarrow> cstring result" where
  "payload_string pdu =
     (let (has_data, _, data) = coap_get_data pdu in
      if has_data then read_string data else Inl Null_deref)"

definition terminated :: "coap_pdu \<Rightarrow> bool" where
  "terminated pdu = (let (has_data, _, data) = coap_get_data pdu in has_data \<and> NUL \<in> set data)"

lemma payload_string_terminated:
  "terminated pdu \<Longrightarrow> payload_string pdu = Inr (cstr (snd (snd (coap_get_data pdu))))"
  by (auto simp: terminated_def payload_string_def read_string_def split: prod.splits)

lemma payload_string_unterminated:
  "\<not> terminated pdu \<Longrightarrow>
   payload_string pdu = Inl (if fst (coap_get_data pdu) then Out_of_bounds else Null_deref)"
  by (auto simp: terminated_def payload_string_def read_string_def split: prod.splits)

text \<open>
  The statement pair with which the handlers end on an error or a plain acknowledgement:
  set the response code and add its phrase as the payload.
\<close>

definition reply_phrase :: "nat \<Rightarrow> coap_pdu \<Rightarrow> coap_pdu result" where
  "reply_phrase n response =
     (let response = response\<lparr>hdr_code := COAP_RESPONSE_CODE n\<rparr> in
      bindR (deref (coap_response_phrase (hdr_code response))) (\<lambda>phrase.
      bindR (coap_add_data response phrase) (\<lambda>(_, response). Inr response)))"

section \<open>pdu.c: parsing\<close>

function skip_options :: "char list \<Rightarrow> char list option result" where
  "skip_options opt =
     (if opt = [] \<or> hd opt = COAP_PAYLOAD_START then Inr (Some opt)
      else case coap_opt_parse opt of
        Inl e \<Rightarrow> Inl e
      | Inr None \<Rightarrow> Inr None
      | Inr (Some (_, optsize)) \<Rightarrow> skip_options (drop optsize opt))"
  by pat_completeness auto
termination
  by (relation "measure length") (auto dest: coap_opt_parse_size)

declare skip_options.simps [simp del]

text \<open>
  \<open>coap_pdu_parse\<close> into a message buffer of size \<open>max_size pdu\<close>. A datagram of fewer than
  two bytes is read past its end before the length check discards it; the header of an
  option that the end of the message cuts off is read one byte past it.
\<close>

definition coap_pdu_parse :: "char list \<Rightarrow> coap_pdu \<Rightarrow> coap_pdu option result" where
  "coap_pdu_parse data pdu =
     (if max_size pdu < length data then Inr None
      else if length data < 2 then Inl Out_of_bounds
      else
        let type = code (data ! 0) div 16 mod 4;
            tkl = code (data ! 0) mod 16;
            cd = code (data ! 1) in
        if cd = 0 \<and> (length data \<noteq> 4 \<or> tkl \<noteq> 0) then Inr None
        else if length data < 4 + tkl \<or> tkl > 8 then Inr None
        else
          let opt = drop (4 + tkl) data;
              pdu = pdu\<lparr>hdr_type := type, hdr_code := cd,
                        hdr_id := code (data ! 2) + 256 * code (data ! 3),
                        hdr_token := take tkl (drop 4 data), pdu_body := opt, pdu_data := None\<rparr> in
          bindR (skip_options opt) (\<lambda>rest.
          case rest of
            None \<Rightarrow> Inr None
          | Some [] \<Rightarrow> Inr (Some pdu)
          | Some [_] \<Rightarrow> Inr None
          | Some (_ # payload) \<Rightarrow>
              Inr (Some (pdu\<lparr>pdu_data := Some (length opt - length payload)\<rparr>))))"

text \<open>The bytes of a message buffer, as they are handed to the socket.\<close>

definition pdu_bytes :: "coap_pdu \<Rightarrow> char list" where
  "pdu_bytes p =
     [char_of (64 + 16 * hdr_type p + length (hdr_token p)), char_of (hdr_code p),
      char_of (hdr_id p), char_of (hdr_id p div 256)] @ hdr_token p @ pdu_body p"

text \<open>\<open>coap_check_option\<close>: the first option of a type, as the bytes that start there.\<close>

definition coap_option_iterator_init ::
  "coap_pdu \<Rightarrow> coap_opt_filter option \<Rightarrow> coap_opt_iterator" where
  "coap_option_iterator_init pdu flt =
     (if pdu_body pdu = [] then \<lparr>oi_next = [], oi_type = 0, oi_bad = True, oi_filter = None\<rparr>
      else \<lparr>oi_next = pdu_body pdu, oi_type = 0, oi_bad = False, oi_filter = flt\<rparr>)"

definition coap_check_option :: "coap_pdu \<Rightarrow> nat \<Rightarrow> char list option" where
  "coap_check_option pdu type =
     fst (coap_option_next (coap_option_iterator_init pdu
       (Some (snd (coap_option_filter_set coap_option_filter_clear type)))))"

text \<open>
  The options a loop over \<open>coap_option_next\<close> with \<open>COAP_OPT_ALL\<close> sees, and the value such a
  loop keeps when it takes only the first option of a type.
\<close>

definition pdu_options :: "coap_pdu \<Rightarrow> (nat \<times> char list) list" where
  "pdu_options p = options_from 0 (pdu_body p)"

definition pdu_option_tails :: "coap_pdu \<Rightarrow> (nat \<times> char list \<times> char list) list" where
  "pdu_option_tails p = option_tails 0 (pdu_body p)"

lemma pdu_option_tails_options: "map (\<lambda>(t, v, r). (t, v)) (pdu_option_tails p) = pdu_options p"
  by (simp add: pdu_option_tails_def pdu_options_def option_tails_options_from)

definition first_option :: "nat \<Rightarrow> coap_pdu \<Rightarrow> u32 option" where
  "first_option type p = map_option coap_decode_var_bytes (map_of (pdu_options p) type)"

section \<open>block.c\<close>

record coap_block_t =
  blk_num :: u32
  blk_m :: bool
  blk_szx :: nat

definition coap_opt_block_num :: "char list \<Rightarrow> u32" where
  "coap_opt_block_num block_opt =
     (let len = coap_opt_length block_opt;
          v = take len (the (coap_opt_value block_opt)) in
      if len = 0 then 0
      else
        let n = (if len > 1 then coap_decode_var_bytes (take (len - 1) v) else 0) in
        push_bit 4 n OR of_nat (code (v ! (len - 1)) div 16))"

definition coap_get_block :: "coap_pdu option \<Rightarrow> nat \<Rightarrow> bool \<times> coap_block_t" where
  "coap_get_block pdu type =
     (let block = \<lparr>blk_num = 0, blk_m = False, blk_szx = 0\<rparr> in
      case Option.bind pdu (\<lambda>p. coap_check_option p type) of
        None \<Rightarrow> (False, block)
      | Some option \<Rightarrow>
          let len = coap_opt_length option;
              last = (if len = 0 then 0 else code (the (coap_opt_value option) ! (len - 1)));
              block = block\<lparr>blk_szx := last mod 8, blk_m := odd (last div 8)\<rparr>;
              n = coap_opt_block_num option in
          if n > 0xFFFFF then (False, block) else (True, block\<lparr>blk_num := n\<rparr>))"

text \<open>
  \<open>coap_write_block_opt\<close>. The shift that gives the start of the block is one of a 32-bit
  value, the available room is computed in a \<open>size_t\<close>.
\<close>

definition block_start :: "u32 \<Rightarrow> nat \<Rightarrow> nat" where
  "block_start n sz = unat (push_bit (sz + 4) n)"

definition block_avail :: "coap_pdu \<Rightarrow> nat" where
  "block_avail pdu = nat ((int (max_size pdu) - int (pdu_length pdu) - 4) mod 2 ^ 64)"

definition block_value :: "coap_block_t \<Rightarrow> u32" where
  "block_value b = push_bit 4 (blk_num b) OR (if blk_m b then 8 else 0) OR of_nat (blk_szx b)"

definition coap_write_block_opt ::
  "coap_block_t \<Rightarrow> nat \<Rightarrow> coap_pdu \<Rightarrow> nat \<Rightarrow> int \<times> coap_block_t \<times> coap_pdu" where
  "coap_write_block_opt block type pdu data_length =
     (let start = block_start (blk_num block) (blk_szx block);
          avail = block_avail pdu;
          want = 2 ^ (blk_szx block + 4);
          finish = (\<lambda>block. (1, block,
             snd (coap_add_option pdu type (coap_encode_var_bytes (block_value block))))) in
      if data_length \<le> start then (-2, block, pdu)
      else if want \<le> avail then finish (block\<lparr>blk_m := want < data_length - start\<rparr>)
      else if data_length - start \<le> avail then finish (block\<lparr>blk_m := False\<rparr>)
      else if avail < 16 then (-3, block, pdu)
      else
        let z = coap_fls avail - 5 in
        finish (block\<lparr>blk_szx := z, blk_m := True, blk_num := push_bit (blk_szx block - z) (blk_num block)\<rparr>))"

definition coap_add_block ::
  "coap_pdu \<Rightarrow> char list \<Rightarrow> u32 \<Rightarrow> nat \<Rightarrow> (nat \<times> coap_pdu) result" where
  "coap_add_block pdu data block_num block_szx =
     (let start = block_start block_num block_szx in
      if length data \<le> start then Inr (0, pdu)
      else coap_add_data pdu
             (take (min (length data - start) (2 ^ (block_szx + 4))) (drop start data)))"

end
