(* ===== verification/CoapPath.thy ===== *)
theory CoapPath
  imports CoapOption
begin

text \<open>
  Paths: splitting a path into segments and options (\<open>uri.c\<close>) and the hash key a resource
  is found by (\<open>hashkey.c\<close>) in the libcoap the repository carries.
\<close>

unbundle bit_operations_syntax

section \<open>hashkey.c\<close>

type_synonym coap_key = "8 word \<times> 8 word \<times> 8 word \<times> 8 word"

definition zero_key :: coap_key where
  "zero_key = (0, 0, 0, 0)"

text \<open>
  One round of \<open>coap_hash_impl\<close>: the inner loop goes from the last byte of the key to the
  second, so that each byte is mixed with the old value of the one before it.
\<close>

definition hash_mix :: "8 word \<Rightarrow> 8 word \<Rightarrow> 8 word" where
  "hash_mix prev h = (push_bit 7 h OR drop_bit 1 prev) + h"

definition hash_byte :: "char \<Rightarrow> coap_key \<Rightarrow> coap_key" where
  "hash_byte s = (\<lambda>(h0, h1, h2, h3).
     (push_bit 7 h0 + h0 + of_nat (code s), hash_mix h0 h1, hash_mix h1 h2, hash_mix h2 h3))"

fun coap_hash :: "char list \<Rightarrow> coap_key \<Rightarrow> coap_key" where
  "coap_hash [] h = h"
| "coap_hash (s # ss) h = coap_hash ss (hash_byte s h)"

section \<open>uri.c: segments\<close>

definition dots :: "char list \<Rightarrow> bool" where
  "dots s \<longleftrightarrow> s = ''.'' \<or> s = ''..''"

text \<open>
  The scan of \<open>coap_split_path_impl\<close>: \<open>p\<close> holds the bytes since the start of the current
  segment. The result is the list of the segments handed to the handler, each with the byte
  that follows it in memory, if that byte belongs to the path.
\<close>

type_synonym segment = "char list \<times> char option"

definition segment :: "char list \<Rightarrow> char option \<Rightarrow> segment list" where
  "segment p next = (if dots p then [] else [(p, next)])"

fun split_path_from :: "char list \<Rightarrow> char list \<Rightarrow> segment list" where
  "split_path_from p [] = segment p None"
| "split_path_from p (q # s) =
     (if q \<in> set ''?#'' then segment p (Some q)
      else if q = CHR ''/'' then segment p (Some q) @ split_path_from [] s
      else split_path_from (p @ [q]) s)"

definition coap_split_path_impl ::
  "char list \<Rightarrow> (segment \<Rightarrow> 'a \<Rightarrow> 'a) \<Rightarrow> 'a \<Rightarrow> 'a" where
  "coap_split_path_impl s h data = fold h (split_path_from [] s) data"

definition hash_segment :: "segment \<Rightarrow> coap_key \<Rightarrow> coap_key" where
  "hash_segment seg = coap_hash (fst seg)"

definition coap_hash_path :: "char list \<Rightarrow> coap_key" where
  "coap_hash_path path = coap_split_path_impl path hash_segment zero_key"

section \<open>uri.c: segments as options\<close>

definition isxdigit :: "char \<Rightarrow> bool" where
  "isxdigit c = (isdigit c \<or> 65 \<le> code c \<and> code c \<le> 70 \<or> 97 \<le> code c \<and> code c \<le> 102)"

definition hexchar_to_dec :: "char \<Rightarrow> nat" where
  "hexchar_to_dec c = (if code c AND 0x40 \<noteq> 0 then (code c AND 0x0F) + 9 else code c AND 0x0F)"

text \<open>
  \<open>check_segment\<close> tests \<open>length < 2\<close> before it reads \<open>s[1]\<close> and \<open>s[2]\<close>; with a percent sign
  and one more byte at the end of the segment it looks at the byte after the segment. At the
  end of the path that byte is not initialised; were it a hexadecimal digit, the length
  would wrap below zero and the scan run away.
\<close>

fun check_segment :: "char option \<Rightarrow> char list \<Rightarrow> nat option result" where
  "check_segment nxt [] = Inr (Some 0)"
| "check_segment nxt (c # s) =
     (if c = CHR ''%'' then
        (case s of
           [] \<Rightarrow> Inr None
         | [a] \<Rightarrow>
             if \<not> isxdigit a then Inr None
             else (case nxt of
                     None \<Rightarrow> Inl Uninitialised
                   | Some b \<Rightarrow> if isxdigit b then Inl Out_of_bounds else Inr None)
         | a # b # s' \<Rightarrow>
             if isxdigit a \<and> isxdigit b
             then bindR (check_segment nxt s') (\<lambda>n. Inr (map_option Suc n)) else Inr None)
      else bindR (check_segment nxt s) (\<lambda>n. Inr (map_option Suc n)))"

fun decode_segment :: "char list \<Rightarrow> char list" where
  "decode_segment [] = []"
| "decode_segment (c # s) =
     (if c = CHR ''%'' then
        (case s of
           a # b # s' \<Rightarrow> char_of (16 * hexchar_to_dec a + hexchar_to_dec b) # decode_segment s'
         | _ \<Rightarrow> [])
      else c # decode_segment s)"

definition make_decoded_option :: "segment \<Rightarrow> nat \<Rightarrow> char list option result" where
  "make_decoded_option seg buflen =
     (if buflen = 0 then Inr None
      else bindR (check_segment (snd seg) (fst seg)) (\<lambda>res.
        case res of
          None \<Rightarrow> Inr None
        | Some n \<Rightarrow>
            (case coap_opt_setheader buflen 0 n of
               None \<Rightarrow> Inr None
             | Some h \<Rightarrow>
                 if buflen - length h < n then Inr None
                 else Inr (Some (h @ decode_segment (fst seg))))))"

text \<open>\<open>coap_split_path\<close> into a buffer: the number of options written and the bytes.\<close>

definition write_option ::
  "segment \<Rightarrow> (nat \<times> nat \<times> char list) result \<Rightarrow> (nat \<times> nat \<times> char list) result" where
  "write_option s st =
     bindR st (\<lambda>(n, buflen, out).
     bindR (make_decoded_option s buflen) (\<lambda>res.
       case res of
         None \<Rightarrow> Inr (n, buflen, out)
       | Some bs \<Rightarrow> Inr (n + 1, buflen - length bs, out @ bs)))"

definition coap_split_path :: "char list \<Rightarrow> nat \<Rightarrow> (nat \<times> char list) result" where
  "coap_split_path s buflen =
     bindR (coap_split_path_impl s write_option (Inr (0, buflen, [])))
       (\<lambda>(n, _, out). Inr (n, out))"

section \<open>Facts\<close>

lemma coap_hash_append: "coap_hash (s @ t) h = coap_hash t (coap_hash s h)"
  by (induction s arbitrary: h) auto

lemma fold_hash_segment: "fold hash_segment segs h = coap_hash (concat (map fst segs)) h"
  by (induction segs arbitrary: h) (auto simp: coap_hash_append hash_segment_def)

text \<open>The key is the hash of the segments in a row: it does not see where they were split.\<close>

lemma coap_hash_path_concat:
  "coap_hash_path path = coap_hash (concat (map fst (split_path_from [] path))) zero_key"
  by (simp add: coap_hash_path_def coap_split_path_impl_def fold_hash_segment)

definition plain_segment :: "char list \<Rightarrow> bool" where
  "plain_segment s \<longleftrightarrow> set s \<inter> set ''/?#'' = {} \<and> \<not> dots s"

lemma split_path_from_plain:
  "set s \<inter> set ''/?#'' = {} \<Longrightarrow> split_path_from p (s @ t) = split_path_from (p @ s) t"
  by (induction s arbitrary: p) auto

fun join_path :: "char list list \<Rightarrow> char list" where
  "join_path [] = []"
| "join_path [s] = s"
| "join_path (s # ss) = s @ CHR ''/'' # join_path ss"

lemma split_join_path:
  "segs \<noteq> [] \<Longrightarrow> \<forall>s\<in>set segs. plain_segment s \<Longrightarrow>
   map fst (split_path_from [] (join_path segs)) = segs"
proof (induction segs rule: join_path.induct)
  case 1
  then show ?case by simp
next
  case (2 s)
  then show ?case using split_path_from_plain [of s "[]" "[]"] by (simp add: plain_segment_def segment_def)
next
  case (3 s t ss)
  then show ?case
    using split_path_from_plain [of s "[]" "CHR ''/'' # join_path (t # ss)"]
    by (simp add: plain_segment_def segment_def)
qed

lemma coap_hash_path_join:
  assumes "segs \<noteq> []" "\<forall>s\<in>set segs. plain_segment s"
  shows "coap_hash_path (join_path segs) = coap_hash (concat segs) zero_key"
  using split_join_path [OF assms] by (simp add: coap_hash_path_concat)

text \<open>Joining plain segments with slashes and splitting the path gives them back, with the key as the hash of all.\<close>

lemma plain_path:
  assumes "segs \<noteq> []" "\<forall>s\<in>set segs. plain_segment s"
  shows "map fst (split_path_from [] (join_path segs)) = segs \<and>
    coap_hash_path (join_path segs) = fold coap_hash segs zero_key"
proof -
  have "coap_hash (concat ss) k = fold coap_hash ss k" for ss k
    by (induction ss arbitrary: k) (simp_all add: coap_hash_append)
  then show ?thesis using split_join_path [OF assms] coap_hash_path_join [OF assms] by simp
qed

end
