(* ===== verification/CoapResource.thy ===== *)
theory CoapResource
  imports CoapPdu CoapPath
begin

text \<open>
  Resources, their attributes and their observers: \<open>resource.c\<close>, \<open>subscribe.c\<close> and
  \<open>address.c\<close> of the libcoap the repository carries, and the replacement for its
  destructor in \<open>src/src/c/LibcoapMod.c\<close>.

  The resources of a context are the list of the table's entries in insertion order, which
  is the order \<open>RESOURCES_ITER\<close> visits; a pointer to one of them is its identifier. A
  resource under construction is a value behind a pointer that may be null or dangling.
\<close>

section \<open>Strings with a length\<close>

text \<open>
  A \<open>str\<close>: the initialised bytes from its pointer to the end of the block (\<open>None\<close> is the
  null pointer), the length field, and whether the block came from \<open>malloc\<close>.
\<close>

record str =
  str_s :: "char list option"
  str_length :: nat
  str_heap :: bool

definition literal :: "cstring \<Rightarrow> nat \<Rightarrow> str" where
  "literal s n = \<lparr>str_s = Some (s @ [NUL]), str_length = n, str_heap = False\<rparr>"

definition heap_string :: "cstring \<Rightarrow> str" where
  "heap_string s = \<lparr>str_s = Some (s @ [NUL]), str_length = length s, str_heap = True\<rparr>"

definition str_bytes :: "str \<Rightarrow> char list result" where
  "str_bytes s =
     (if str_length s = 0 then Inr []
      else bindR (deref (str_s s)) (\<lambda>bs.
        if str_length s \<le> length bs then Inr (take (str_length s) bs) else Inl Out_of_bounds))"

text \<open>Reading a \<open>str\<close> as a C string, as \<open>strlen(r->uri.s)\<close> and \<open>atoi(value.s)\<close> do.\<close>

definition str_cstr :: "str \<Rightarrow> cstring result" where
  "str_cstr s =
     bindR (deref (str_s s)) (\<lambda>bs. if NUL \<in> set bs then Inr (cstr bs) else Inl Out_of_bounds)"

text \<open>
  \<open>compareString\<close> of a \<open>str\<close> with a C string: the comparison ends at the first difference, and
  only a \<open>str\<close> that is a proper beginning of the string is read beyond its bytes.
\<close>

definition str_is :: "str \<Rightarrow> cstring \<Rightarrow> bool result" where
  "str_is s t =
     (case str_s s of
        None \<Rightarrow> Inr False
      | Some bs \<Rightarrow>
          if NUL \<in> set bs then Inr (cstr bs = t)
          else if is_prefix bs t then Inl Out_of_bounds else Inr False)"

lemma str_is_cstr [simp]: "str_cstr s = Inr u \<Longrightarrow> str_is s t = Inr (u = t)"
  by (auto simp: str_is_def str_cstr_def bindR_eq_Inr split: option.splits if_splits)

lemma str_is_unterminated: "str_cstr s = Inl e \<Longrightarrow> str_is s t \<noteq> Inr True"
  by (auto simp: str_is_def str_cstr_def split: option.splits if_splits)

definition free_str :: "str \<Rightarrow> unit result" where
  "free_str s = (if str_s s = None \<or> str_heap s then Inr () else Inl Bad_free)"

section \<open>address.c\<close>

record coap_address =
  addr_size :: nat
  sa_family :: nat
  sin_port :: nat
  sin_addr :: "char list"

abbreviation (input) AF_INET :: nat where "AF_INET \<equiv> 2"
abbreviation (input) AF_INET6 :: nat where "AF_INET6 \<equiv> 10"

definition coap_address_equals :: "coap_address \<Rightarrow> coap_address \<Rightarrow> bool" where
  "coap_address_equals a b =
     (if addr_size a \<noteq> addr_size b \<or> sa_family a \<noteq> sa_family b then False
      else if sa_family a = AF_INET then
        sin_port a = sin_port b \<and> take 4 (sin_addr a) = take 4 (sin_addr b)
      else if sa_family a = AF_INET6 then
        sin_port a = sin_port b \<and> take 16 (sin_addr a) = take 16 (sin_addr b)
      else False)"

section \<open>Data\<close>

datatype method_handler =
    Hnd_get_broker | Hnd_post_broker | Hnd_delete_broker
  | Hnd_get_topic | Hnd_put_topic | Hnd_post_topic | Hnd_delete_topic
  | Hnd_get_rd | Hnd_post_rd
  | Hnd_get_resource | Hnd_put_resource | Hnd_delete_resource

record coap_attr =
  attr_name :: str
  attr_value :: str
  attr_flags :: nat

record coap_subscription =
  sub_addr :: coap_address
  sub_token :: "char list"
  non_cnt :: nat
  fail_cnt :: nat
  sub_dirty :: bool

record coap_resource =
  r_id :: nat
  r_dirty :: bool
  r_partiallydirty :: bool
  r_observable :: bool
  r_handler :: "method_handler option list"
  r_key :: coap_key
  link_attr :: "coap_attr list"
  subscribers :: "coap_subscription list"
  r_uri :: str
  r_flags :: nat

abbreviation (input) COAP_REQUEST_GET :: nat where "COAP_REQUEST_GET \<equiv> 1"
abbreviation (input) COAP_REQUEST_POST :: nat where "COAP_REQUEST_POST \<equiv> 2"
abbreviation (input) COAP_REQUEST_PUT :: nat where "COAP_REQUEST_PUT \<equiv> 3"
abbreviation (input) COAP_REQUEST_DELETE :: nat where "COAP_REQUEST_DELETE \<equiv> 4"
abbreviation (input) COAP_OBS_MAX_NON :: nat where "COAP_OBS_MAX_NON \<equiv> 5"
abbreviation (input) COAP_OBS_MAX_FAIL :: nat where "COAP_OBS_MAX_FAIL \<equiv> 3"

text \<open>
  A confirmable message that waits for its acknowledgement: \<open>q_t\<close> is the time of its next
  transmission, relative to the message before it in the queue.
\<close>

type_synonym coap_tick = "64 word"

record queue_node =
  q_t :: coap_tick
  retransmit_cnt :: nat
  timeout :: u32
  node_remote :: coap_address
  node_id :: int
  node_pdu :: coap_pdu

text \<open>
  The context: registered critical options, resources, the identifier of the next one, the counters for message
  identifiers and Observe values, the queue of messages to be acknowledged with its base time,
  and the datagrams sent. The surroundings are the network (\<open>send_ok n\<close> says whether the attempt
  after \<open>n\<close> datagrams succeeds), the clock of the library (\<open>lib_ticks\<close>), and its random bytes.
\<close>

record coap_context =
  known_options :: coap_opt_filter
  resources :: "coap_resource list"
  next_id :: nat
  message_id :: nat
  observe :: nat
  sendqueue :: "queue_node list"
  sendqueue_basetime :: coap_tick
  sent :: "(coap_address \<times> coap_pdu) list"
  send_ok :: "nat \<Rightarrow> bool"
  lib_ticks :: coap_tick
  prng :: "nat \<Rightarrow> nat"

datatype resource_ptr = RNull | RValid coap_resource | RDangling

section \<open>Construction\<close>

definition coap_resource_init :: "str \<Rightarrow> nat \<Rightarrow> coap_resource result" where
  "coap_resource_init uri flags =
     bindR (str_bytes uri) (\<lambda>path.
     Inr \<lparr>r_id = 0, r_dirty = False, r_partiallydirty = False, r_observable = False,
          r_handler = replicate 4 None, r_key = coap_hash_path path, link_attr = [],
          subscribers = [], r_uri = uri, r_flags = flags\<rparr>)"

definition coap_add_attr :: "coap_resource \<Rightarrow> str \<Rightarrow> str \<Rightarrow> nat \<Rightarrow> coap_resource" where
  "coap_add_attr resource name val flags =
     (if str_s name = None then resource
      else resource\<lparr>link_attr :=
        \<lparr>attr_name = name,
         attr_value = val\<lparr>str_length := (if str_s val = None then 0 else str_length val)\<rparr>,
         attr_flags = flags\<rparr> # link_attr resource\<rparr>)"

fun find_attr_in :: "cstring \<Rightarrow> coap_attr list \<Rightarrow> coap_attr option result" where
  "find_attr_in name [] = Inr None"
| "find_attr_in name (a # as) =
     (if str_length (attr_name a) = length name then
        bindR (str_bytes (attr_name a)) (\<lambda>n.
        if n = name then Inr (Some a) else find_attr_in name as)
      else find_attr_in name as)"

definition coap_find_attr :: "resource_ptr \<Rightarrow> cstring \<Rightarrow> coap_attr option result" where
  "coap_find_attr resource name =
     (case resource of
        RNull \<Rightarrow> Inr None
      | RDangling \<Rightarrow> Inl Use_after_free
      | RValid r \<Rightarrow> find_attr_in name (link_attr r))"

definition coap_register_handler ::
  "coap_resource \<Rightarrow> nat \<Rightarrow> method_handler \<Rightarrow> coap_resource result" where
  "coap_register_handler resource method handler =
     bindR (assertR (method > 0 \<and> method - 1 < 4)) (\<lambda>_.
     Inr (resource\<lparr>r_handler := (r_handler resource)[method - 1 := Some handler]\<rparr>))"

section \<open>Destruction\<close>

text \<open>
  \<open>coapDeleteAttr\<close> and \<open>coapFreeResource\<close> of \<open>LibcoapMod.c\<close> free the name and the value of
  every attribute, whatever its flags say; \<open>coap_delete_attr\<close> and \<open>coap_free_resource\<close> of
  \<open>resource.c\<close> look at the flags.
\<close>

definition coapDeleteAttr :: "coap_attr \<Rightarrow> unit result" where
  "coapDeleteAttr attr = bindR (free_str (attr_name attr)) (\<lambda>_. free_str (attr_value attr))"

fun delete_attrs :: "(coap_attr \<Rightarrow> unit result) \<Rightarrow> coap_attr list \<Rightarrow> unit result" where
  "delete_attrs f [] = Inr ()"
| "delete_attrs f (a # as) = bindR (f a) (\<lambda>_. delete_attrs f as)"

definition free_uri :: "coap_resource \<Rightarrow> unit result" where
  "free_uri r = (if r_flags r AND 1 \<noteq> 0 then free_str (r_uri r) else Inr ())"

definition coapFreeResource :: "resource_ptr \<Rightarrow> unit result" where
  "coapFreeResource resource =
     (case resource of
        RNull \<Rightarrow> Inl Assert_failed
      | RDangling \<Rightarrow> Inl Double_free
      | RValid r \<Rightarrow>
          bindR (delete_attrs coapDeleteAttr (link_attr r)) (\<lambda>_. free_uri r))"

definition coap_delete_attr :: "coap_attr \<Rightarrow> unit result" where
  "coap_delete_attr attr =
     bindR (if attr_flags attr AND 1 \<noteq> 0 then free_str (attr_name attr) else Inr ()) (\<lambda>_.
     if attr_flags attr AND 2 \<noteq> 0 then free_str (attr_value attr) else Inr ())"

definition coap_free_resource :: "coap_resource \<Rightarrow> unit result" where
  "coap_free_resource r = bindR (delete_attrs coap_delete_attr (link_attr r)) (\<lambda>_. free_uri r)"

section \<open>The resources of a context\<close>

definition RESOURCES_ADD :: "coap_context \<Rightarrow> coap_resource \<Rightarrow> coap_context" where
  "RESOURCES_ADD ctx r =
     ctx\<lparr>resources := resources ctx @ [r\<lparr>r_id := next_id ctx\<rparr>], next_id := Suc (next_id ctx)\<rparr>"

definition RESOURCES_DELETE :: "coap_context \<Rightarrow> nat \<Rightarrow> coap_context" where
  "RESOURCES_DELETE ctx rid = ctx\<lparr>resources := filter (\<lambda>r. r_id r \<noteq> rid) (resources ctx)\<rparr>"

definition coap_add_resource :: "coap_context \<Rightarrow> coap_resource \<Rightarrow> coap_context" where
  "coap_add_resource ctx r = RESOURCES_ADD ctx r"

text \<open>
  \<open>HASH_FIND\<close>: of several resources with one key it finds the one added last, which
  \<open>HASH_ADD\<close> puts at the head of the bucket.
\<close>

definition coap_get_resource_from_key :: "coap_context \<Rightarrow> coap_key \<Rightarrow> coap_resource option" where
  "coap_get_resource_from_key ctx k = find (\<lambda>r. r_key r = k) (rev (resources ctx))"

definition coap_delete_resource :: "coap_context \<Rightarrow> coap_key \<Rightarrow> (nat \<times> coap_context) result" where
  "coap_delete_resource ctx k =
     (case coap_get_resource_from_key ctx k of
        None \<Rightarrow> Inr (0, ctx)
      | Some r \<Rightarrow>
          bindR (coap_free_resource r) (\<lambda>_. Inr (1, RESOURCES_DELETE ctx (r_id r))))"

definition coap_hash_request_uri :: "coap_pdu \<Rightarrow> coap_key" where
  "coap_hash_request_uri request =
     fold coap_hash (map snd (filter (\<lambda>(ty, v). ty = COAP_OPTION_URI_PATH) (pdu_options request)))
       zero_key"

definition update_resource :: "nat \<Rightarrow> (coap_resource \<Rightarrow> coap_resource) \<Rightarrow> coap_context \<Rightarrow> coap_context"
  where
  "update_resource rid f ctx =
     ctx\<lparr>resources := map (\<lambda>r. if r_id r = rid then f r else r) (resources ctx)\<rparr>"

section \<open>Printing\<close>

text \<open>
  The output of \<open>coap_print_link\<close>: a buffer of \<open>cap\<close> bytes, the characters written so far,
  the number of characters still to skip and the number of characters of the whole text.
\<close>

type_synonym print_st = "char list \<times> nat \<times> nat"

definition print_cond :: "nat \<Rightarrow> char \<Rightarrow> print_st \<Rightarrow> print_st" where
  "print_cond cap c = (\<lambda>(out, offset, result).
     let (out, offset) =
       (if length out < cap
        then (if offset = 0 then (out @ [c], offset) else (out, offset - 1))
        else (out, offset))
     in (out, offset, Suc result))"

definition copy_cond :: "nat \<Rightarrow> char list \<Rightarrow> print_st \<Rightarrow> print_st" where
  "copy_cond cap s st = fold (print_cond cap) s st"

fun print_attrs :: "nat \<Rightarrow> coap_attr list \<Rightarrow> print_st \<Rightarrow> print_st result" where
  "print_attrs cap [] st = Inr st"
| "print_attrs cap (a # as) st =
     bindR (str_bytes (attr_name a)) (\<lambda>name.
     let st = copy_cond cap name (print_cond cap CHR '';'' st) in
     if str_s (attr_value a) \<noteq> None then
       bindR (str_bytes (attr_value a)) (\<lambda>val.
       print_attrs cap as (copy_cond cap val (print_cond cap CHR ''='' st)))
     else print_attrs cap as st)"

text \<open>The result: the bytes written, the truncation flag, \<open>*len\<close> and \<open>*offset\<close>.\<close>

definition coap_print_link ::
  "coap_resource \<Rightarrow> nat \<Rightarrow> nat \<Rightarrow> (char list \<times> bool \<times> nat \<times> nat) result" where
  "coap_print_link resource len offset =
     bindR (str_bytes (r_uri resource)) (\<lambda>uri.
     let st = print_cond len CHR ''>'' (copy_cond len uri
                (print_cond len CHR ''/'' (print_cond len CHR ''<'' ([], offset, 0)))) in
     bindR (print_attrs len (link_attr resource) st) (\<lambda>st.
     let (out, offset', written) =
       (if r_observable resource then copy_cond len '';obs'' st else st) in
     Inr (out, length out + offset - offset' < written, written, offset')))"

section \<open>Observers\<close>

definition is_observer :: "coap_address \<Rightarrow> char list option \<Rightarrow> coap_subscription \<Rightarrow> bool" where
  "is_observer peer token s \<longleftrightarrow>
     coap_address_equals (sub_addr s) peer \<and>
     (case token of None \<Rightarrow> True | Some t \<Rightarrow> t = sub_token s)"

definition coap_find_observer ::
  "coap_resource \<Rightarrow> coap_address \<Rightarrow> char list option \<Rightarrow> coap_subscription option" where
  "coap_find_observer r peer token = find (is_observer peer token) (subscribers r)"

definition coap_subscription_init :: "coap_address \<Rightarrow> char list \<Rightarrow> coap_subscription" where
  "coap_subscription_init observer token =
     \<lparr>sub_addr = observer, sub_token = take 8 token, non_cnt = 0, fail_cnt = 0, sub_dirty = False\<rparr>"

definition coap_add_observer ::
  "coap_resource \<Rightarrow> coap_address \<Rightarrow> char list option \<Rightarrow> coap_resource" where
  "coap_add_observer r observer token =
     (case coap_find_observer r observer token of
        Some _ \<Rightarrow> r
      | None \<Rightarrow>
          r\<lparr>subscribers :=
            coap_subscription_init observer (case token of None \<Rightarrow> [] | Some t \<Rightarrow> t) # subscribers r\<rparr>)"

fun update_observer ::
  "(coap_subscription \<Rightarrow> bool) \<Rightarrow> (coap_subscription \<Rightarrow> coap_subscription) \<Rightarrow>
   coap_subscription list \<Rightarrow> coap_subscription list" where
  "update_observer P f [] = []"
| "update_observer P f (s # ss) = (if P s then f s # ss else s # update_observer P f ss)"

fun remove_observer ::
  "(coap_subscription \<Rightarrow> bool) \<Rightarrow> coap_subscription list \<Rightarrow> coap_subscription list" where
  "remove_observer P [] = []"
| "remove_observer P (s # ss) = (if P s then ss else s # remove_observer P ss)"

definition coap_touch_observer ::
  "coap_context \<Rightarrow> coap_address \<Rightarrow> char list option \<Rightarrow> coap_context" where
  "coap_touch_observer ctx observer token =
     ctx\<lparr>resources := map (\<lambda>r. r\<lparr>subscribers :=
       update_observer (is_observer observer token) (\<lambda>s. s\<lparr>fail_cnt := 0\<rparr>) (subscribers r)\<rparr>)
       (resources ctx)\<rparr>"

definition coap_delete_observer ::
  "coap_resource \<Rightarrow> coap_address \<Rightarrow> char list option \<Rightarrow> bool \<times> coap_resource" where
  "coap_delete_observer r observer token =
     (coap_find_observer r observer token \<noteq> None,
      r\<lparr>subscribers := remove_observer (is_observer observer token) (subscribers r)\<rparr>)"

end
