(* ===== verification/LinkFormatParser.thy ===== *)
theory LinkFormatParser
  imports CoapResource
begin

text \<open>
  The link-format parser and the link-format helpers of \<open>src/src/c/LinkFormatParser.c\<close>.
  Out-parameters of type \<open>int *\<close> and \<open>char **\<close> are results; \<open>coap_resource_t **\<close> is a
  resource pointer that goes in and comes out. \<open>RESTRICT_CHAR\<close> is defined by the header.
\<close>

section \<open>Options\<close>

text \<open>The loop over \<open>strchr(pch + 1, '=')\<close>.\<close>

function count_from :: "cstring \<Rightarrow> nat \<Rightarrow> nat" where
  "count_from source i =
     (case strchr_from source i CHR ''='' of None \<Rightarrow> 0 | Some j \<Rightarrow> Suc (count_from source (j + 1)))"
  by pat_completeness auto
termination
  by (relation "measure (\<lambda>(s, i). length s - i)") (auto dest: strchr_from_ge)

declare count_from.simps [simp del]

definition optionValidation :: "cstring \<Rightarrow> nat" where
  "optionValidation source =
     (let counter = count_from source 0 in
      if length source < 3 \<or> source ! 0 = CHR ''='' \<or> source ! (length source - 1) = CHR ''=''
      then 0 else counter)"

definition calOptionSize :: "cstring \<Rightarrow> (nat \<times> nat) option" where
  "calOptionSize source =
     (if optionValidation source = 1 then
        (case strchr source CHR ''='' of
           None \<Rightarrow> None
         | Some i \<Rightarrow> Some (strcspn source ''='', length (drop (i + 1) source)))
      else None)"

definition allowed_char :: "cstring \<Rightarrow> char \<Rightarrow> bool" where
  "allowed_char extra c \<longleftrightarrow> isalnum c \<or> c \<in> set extra"

text \<open>
  \<open>parseOption\<close>: the status, and on success the two strings written. The last quote is
  overwritten at \<open>data[strlen(data) - 1]\<close>, which lies before the buffer when \<open>data\<close> is
  empty.
\<close>

definition parseOption :: "cstring \<Rightarrow> (cstring \<times> cstring) option result" where
  "parseOption source =
     (if optionValidation source = 1 then
        (case strchr source CHR ''='' of
           None \<Rightarrow> Inr None
         | Some i \<Rightarrow>
             let type = take (strcspn source ''='') source; pch = drop i source in
             if \<not> (\<forall>c\<in>set type. allowed_char ''-'' c) then Inr None
             else
               bindR (char_at pch 1) (\<lambda>c1.
               let data = (if c1 = CHR 0x22 then drop 2 pch else drop 1 pch) in
               bindR (char_at pch (int (length (drop 1 pch)))) (\<lambda>cl.
               bindR (if cl = CHR 0x22
                      then (if data = [] then Inl Out_of_bounds else Inr (butlast data))
                      else Inr data) (\<lambda>data.
               Inr (if \<forall>c\<in>set data. allowed_char ''-'' c then Some (type, data) else None)))))
      else Inr None)"

definition optionRegister :: "resource_ptr \<Rightarrow> cstring \<Rightarrow> (nat \<times> resource_ptr) result" where
  "optionRegister resource temp_str =
     (case calOptionSize temp_str of
        None \<Rightarrow> Inr (0, resource)
      | Some (type_size, data_size) \<Rightarrow>
          if type_size > 0 \<and> data_size > 0 then
            bindR (parseOption temp_str) (\<lambda>status.
            case status of
              None \<Rightarrow> Inr (0, resource)
            | Some (opt_type, opt_data) \<Rightarrow>
                (case resource of
                   RNull \<Rightarrow> Inr (1, RNull)
                 | RDangling \<Rightarrow> Inl Use_after_free
                 | RValid r \<Rightarrow>
                     Inr (1, RValid (coap_add_attr r (heap_string opt_type) (heap_string opt_data) 3))))
          else Inr (0, resource))"

section \<open>Paths\<close>

definition calPathSize :: "cstring \<Rightarrow> nat result" where
  "calPathSize source =
     bindR (char_at source 0) (\<lambda>c0.
     if c0 \<noteq> CHR ''<'' then Inr 0 else
     bindR (char_at source 1) (\<lambda>c1.
     if c1 = CHR ''/'' then Inr 0 else
     bindR (char_at source (int (length source) - 2)) (\<lambda>c2.
     if c2 = CHR ''/'' then Inr 0 else
     bindR (char_at source (int (length source) - 1)) (\<lambda>c3.
     if c3 \<noteq> CHR ''>'' then Inr 0 else Inr (length source - 2)))))"

definition parsePath :: "cstring \<Rightarrow> cstring option result" where
  "parsePath source =
     bindR (calPathSize source) (\<lambda>n.
     if n = 0 then Inr None
     else
       let path = take (length source - 2) (drop 1 source) in
       Inr (if \<forall>c\<in>set path. allowed_char ''/-'' c then Some path else None))"

definition pathRegister ::
  "coap_resource \<Rightarrow> resource_ptr \<Rightarrow> cstring \<Rightarrow> (nat \<times> resource_ptr) result" where
  "pathRegister old_resource new_resource temp_str =
     bindR (calPathSize temp_str) (\<lambda>n.
     if n = 0 then Inr (0, new_resource)
     else
       bindR (parsePath temp_str) (\<lambda>status.
       case status of
         None \<Rightarrow> Inr (0, new_resource)
       | Some rel_path \<Rightarrow>
           bindR (str_cstr (r_uri old_resource)) (\<lambda>uri.
           let parent_path = snprintf_s (str_length (r_uri old_resource) + 1) uri;
               abs_path = parent_path @ CHR ''/'' # rel_path in
           bindR (coap_resource_init (heap_string abs_path) 1) (\<lambda>r. Inr (1, RValid r)))))"

section \<open>The link-format line\<close>

text \<open>
  The loop of \<open>parseLinkFormat\<close>; \<open>counter\<close> is the index of the semicolon \<open>pch\<close> points to,
  \<open>last_counter\<close> that of the one before (0 at the start).
\<close>

function parse_loop ::
  "cstring \<Rightarrow> coap_resource \<Rightarrow> nat \<Rightarrow> nat \<Rightarrow> resource_ptr \<Rightarrow> (nat \<times> resource_ptr) result" where
  "parse_loop str old_resource last_counter counter resource =
     (let size = counter - last_counter in
      bindR (char_at str (int last_counter)) (\<lambda>c.
      bindR
        (if c \<noteq> CHR '';'' then
           bindR (pathRegister old_resource resource (take size (drop last_counter str)))
             (\<lambda>(status, resource). Inr (status \<noteq> 0, resource))
         else
           bindR (optionRegister resource (take (size - 1) (drop (last_counter + 1) str)))
             (\<lambda>(status, resource).
              if status = 0
              then bindR (coapFreeResource resource) (\<lambda>_. Inr (False, RDangling))
              else Inr (True, resource)))
        (\<lambda>(go_on, resource).
         if \<not> go_on then Inr (0, resource)
         else
           (case strchr_from str (counter + 1) CHR '';'' of
              Some pch \<Rightarrow> parse_loop str old_resource counter pch resource
            | None \<Rightarrow>
                bindR (optionRegister resource (drop (counter + 1) str)) (\<lambda>(status, resource).
                if status = 0
                then bindR (coapFreeResource resource) (\<lambda>_. Inr (0, RDangling))
                else Inr (1, resource))))))"
  by pat_completeness auto
termination
  by (relation "measure (\<lambda>(str, _, _, counter, _). length str - counter)")
    (auto dest: strchr_from_ge)

declare parse_loop.simps [simp del]

definition parseLinkFormat ::
  "cstring \<Rightarrow> coap_resource \<Rightarrow> resource_ptr \<Rightarrow> (nat \<times> resource_ptr) result" where
  "parseLinkFormat str old_resource resource =
     (if strchr str CHR '','' \<noteq> None then Inr (0, resource)
      else
        bindR (char_at str 0) (\<lambda>c.
        if c = CHR '';'' then Inr (0, resource)
        else
          (case strchr str CHR '';'' of
             None \<Rightarrow> Inr (0, resource)
           | Some counter \<Rightarrow> parse_loop str old_resource 0 counter resource)))"

section \<open>Queries and printing helpers\<close>

text \<open>
  \<open>parseOptionURIQuery\<close> gets a pointer into the message and the length of the option. Its
  \<open>snprintf\<close> copies at most that many bytes, but it looks for the terminator of the whole
  string, which lies behind the option if anywhere: the first argument is the memory from the
  value to the end of the message. The result is 1 and the two strings, 0 with both buffers allocated, or -1 with
  the out-parameters untouched.
\<close>

datatype query_result = Query_ok cstring cstring | Query_rejected | Query_malformed

definition parse_query :: "cstring \<Rightarrow> query_result result" where
  "parse_query temp_uri_query =
     (case calOptionSize temp_uri_query of
        None \<Rightarrow> Inr Query_malformed
      | Some (name_size, value_size) \<Rightarrow>
          if name_size > 0 \<and> value_size > 0 then
            bindR (parseOption temp_uri_query) (\<lambda>status.
            case status of
              Some (name, val) \<Rightarrow> Inr (Query_ok name val)
            | None \<Rightarrow> Inr Query_rejected)
          else Inr Query_malformed)"

definition parseOptionURIQuery :: "char list \<Rightarrow> nat \<Rightarrow> query_result result" where
  "parseOptionURIQuery option_value option_length =
     bindR (read_string option_value) (\<lambda>s. parse_query (snprintf_s (option_length + 1) s))"

lemma parseOptionURIQuery_value:
  "parseOptionURIQuery (val @ rest) (length val) =
     (if NUL \<in> set (val @ rest) then parse_query (cstr val) else Inl Out_of_bounds)"
  using cstr_take_append [of val rest]
  by (simp add: parseOptionURIQuery_def read_string_def snprintf_s_def)

definition dynamicConcatenate :: "cstring option \<Rightarrow> cstring option \<Rightarrow> cstring option" where
  "dynamicConcatenate str str2 =
     (case (str, str2) of
        (Some _, None) \<Rightarrow> None
      | (None, None) \<Rightarrow> None
      | (None, Some t) \<Rightarrow> Some t
      | (Some s, Some t) \<Rightarrow> Some (s @ t))"

fun attrs_size :: "coap_attr list \<Rightarrow> nat" where
  "attrs_size [] = 0"
| "attrs_size (a # as) = str_length (attr_name a) + str_length (attr_value a) + 2 + attrs_size as"

definition calculateResourceLF :: "coap_resource \<Rightarrow> nat" where
  "calculateResourceLF resource =
     str_length (r_uri resource) + 3 + attrs_size (link_attr resource)
     + (if r_observable resource then 4 else 0)"

end
