(* ===== verification/CoAPRD.thy ===== *)
theory CoAPRD
  imports CoapResource
begin

text \<open>
  The resource directory of \<open>src/src/c/CoAPRD.c\<close>: registrations are resources of the
  context and entries of a second table, keyed alike. Storage for a registration is taken
  to be available; \<open>ticks\<close> is the clock value \<open>coap_ticks\<close> would give.
\<close>

abbreviation (input) COAP_OPTION_ETAG :: nat where "COAP_OPTION_ETAG \<equiv> 4"
abbreviation (input) LOCSIZE :: nat where "LOCSIZE \<equiv> 68"

record rd_t =
  rd_key :: coap_key
  rd_etag :: "char list"
  rd_data :: "char list option"

definition rd_new :: rd_t where
  "rd_new = \<lparr>rd_key = zero_key, rd_etag = [], rd_data = None\<rparr>"

definition rd_find :: "coap_key \<Rightarrow> rd_t list \<Rightarrow> rd_t option" where
  "rd_find k rds = find (\<lambda>rd. rd_key rd = k) (rev rds)"

fun rd_remove_last :: "coap_key \<Rightarrow> rd_t list \<Rightarrow> rd_t list" where
  "rd_remove_last k [] = []"
| "rd_remove_last k (rd # rds) =
     (if rd_key rd = k \<and> rd_find k rds = None then rds else rd # rd_remove_last k rds)"

section \<open>Handlers of a registration\<close>

definition hnd_get_resource :: "rd_t list \<Rightarrow> coap_resource \<Rightarrow> coap_pdu \<Rightarrow> coap_pdu result" where
  "hnd_get_resource rds resource response =
     (let rd = rd_find (r_key resource) rds;
          response = response\<lparr>hdr_code := COAP_RESPONSE_CODE 205\<rparr>;
          response = snd (coap_add_option response COAP_OPTION_CONTENT_TYPE
            (coap_encode_var_bytes COAP_MEDIATYPE_APPLICATION_LINK_FORMAT)) in
      case rd of
        None \<Rightarrow> Inr response
      | Some rd \<Rightarrow>
          let response =
            (if rd_etag rd \<noteq> [] then snd (coap_add_option response COAP_OPTION_ETAG (rd_etag rd))
             else response) in
          (case rd_data rd of
             None \<Rightarrow> Inr response
           | Some d \<Rightarrow> bindR (coap_add_data response d) (\<lambda>(_, response). Inr response)))"

definition hnd_put_resource :: "coap_pdu \<Rightarrow> coap_pdu" where
  "hnd_put_resource response = response\<lparr>hdr_code := COAP_RESPONSE_CODE 501\<rparr>"

definition hnd_delete_resource ::
  "coap_context \<Rightarrow> rd_t list \<Rightarrow> coap_resource \<Rightarrow> coap_pdu \<Rightarrow>
   (coap_context \<times> rd_t list \<times> coap_pdu) result" where
  "hnd_delete_resource ctx rds resource response =
     (let rds = (if rd_find (r_key resource) rds \<noteq> None
                 then rd_remove_last (r_key resource) rds else rds) in
      bindR (coap_delete_resource ctx (r_key resource)) (\<lambda>(_, ctx).
      Inr (ctx, rds, response\<lparr>hdr_code := COAP_RESPONSE_CODE 202\<rparr>)))"

section \<open>Registration\<close>

definition hnd_get_rd :: "coap_pdu \<Rightarrow> coap_pdu" where
  "hnd_get_rd response =
     (let response = response\<lparr>hdr_code := COAP_RESPONSE_CODE 205\<rparr>;
          response = snd (coap_add_option response COAP_OPTION_CONTENT_TYPE
            (coap_encode_var_bytes COAP_MEDIATYPE_APPLICATION_LINK_FORMAT)) in
      snd (coap_add_option response COAP_OPTION_MAXAGE (coap_encode_var_bytes 0x2ffff)))"

text \<open>
  \<open>parse_param\<close>: whether the parameter was found, and the value the result points to
  (\<open>None\<close> when its pointer stays null). \<open>skip_param\<close> is the loop that proceeds to the byte
  after the next ampersand.
\<close>

fun skip_param :: "char list \<Rightarrow> char list" where
  "skip_param [] = []"
| "skip_param (c # rest) =
     (if rest = [] then [] else if c = CHR ''&'' then rest else skip_param rest)"

lemma skip_param_length: "length (skip_param bs) \<le> length bs - 1"
  by (induction bs rule: skip_param.induct) (auto simp: Suc_le_eq)

definition param_value :: "char list \<Rightarrow> char list option" where
  "param_value rest =
     (let data = dropWhile (\<lambda>c. c \<noteq> CHR ''='') rest in
      if length data > 1 then Some (takeWhile (\<lambda>c. c \<noteq> CHR ''&'') (tl data)) else None)"

function parse_param :: "char list \<Rightarrow> char list \<Rightarrow> bool \<times> char list option" where
  "parse_param search data =
     (if search = [] \<or> length data < length search then (False, None)
      else if take (length search) data = search then
        (let rest = drop (length search) data in
         if rest = [] \<or> hd rest = CHR ''='' \<or> hd rest = CHR ''&''
         then (True, param_value rest)
         else parse_param search (skip_param rest))
      else parse_param search (skip_param data))"
  by pat_completeness auto
termination
proof (relation "measure (\<lambda>(s, d). length d)", goal_cases)
  case 1
  show ?case by simp
next
  case (2 s d r)
  then show ?case using skip_param_length [of r] by (cases s) auto
next
  case (3 s d)
  then show ?case using skip_param_length [of d] by (cases s) auto
qed

declare parse_param.simps [simp del]

fun hex_digit :: "nat \<Rightarrow> char" where
  "hex_digit d = (if d < 10 then char_of (d + 48) else char_of (d + 87))"

fun show_hex :: "nat \<Rightarrow> cstring" where
  "show_hex n = (if n < 16 then [hex_digit n] else show_hex (n div 16) @ [hex_digit (n mod 16)])"

declare show_hex.simps [simp del]

definition hex2 :: "char \<Rightarrow> cstring" where
  "hex2 c = [hex_digit (code c div 16), hex_digit (code c mod 16)]"

fun hex_groups :: "char list \<Rightarrow> cstring" where
  "hex_groups (a # b # []) = hex2 a @ hex2 b"
| "hex_groups (a # b # cs) = hex2 a @ hex2 b @ CHR '':'' # hex_groups cs"
| "hex_groups _ = []"

definition source_address :: "coap_address \<Rightarrow> cstring" where
  "source_address peer =
     [CHR 0x22]
     @ (if sa_family peer = AF_INET6 then
          ''['' @ hex_groups (sin_addr peer) @ '']''
          @ (if sin_port peer \<noteq> 13078 then '':'' @ show_nat (sin_port peer) else [])
        else [])
     @ [CHR 0x22]"

definition heap_bytes :: "char list \<Rightarrow> str" where
  "heap_bytes bs = \<lparr>str_s = Some bs, str_length = length bs, str_heap = True\<rparr>"

definition add_source_address :: "coap_resource \<Rightarrow> coap_address \<Rightarrow> coap_resource" where
  "add_source_address resource peer =
     coap_add_attr resource (literal ''A'' 1) (heap_bytes (source_address peer)) 2"

definition opt_bytes :: "char list \<Rightarrow> char list" where
  "opt_bytes opt = take (coap_opt_length opt) (the (coap_opt_value opt))"

definition make_rd :: "coap_pdu \<Rightarrow> rd_t" where
  "make_rd pdu =
     (let rd = rd_new;
          rd = (case coap_get_data pdu of
                  (True, _, data) \<Rightarrow> rd\<lparr>rd_data := Some data\<rparr>
                | _ \<Rightarrow> rd) in
      case coap_check_option pdu COAP_OPTION_ETAG of
        None \<Rightarrow> rd
      | Some etag \<Rightarrow> rd\<lparr>rd_etag := take 8 (opt_bytes etag)\<rparr>)"

text \<open>
  The location of a registration: the bytes written to \<open>loc\<close>, and whether a terminator
  follows them. After a hyphen at the last byte of the buffer the space that is left wraps
  around and the instance name is copied past the end.
\<close>

definition copy_ins :: "char list \<Rightarrow> char list \<Rightarrow> char list result" where
  "copy_ins loc ins =
     (let loc = loc @ ''-'' in
      if length loc \<ge> LOCSIZE then Inl Out_of_bounds
      else Inr (loc @ take (min (length ins) (LOCSIZE - length loc - 1)) ins))"

definition rd_location ::
  "char list option \<Rightarrow> char list option \<Rightarrow> nat \<Rightarrow> nat \<Rightarrow> (char list \<times> bool) result" where
  "rd_location h ins mid ticks =
     (let loc = ''rd/''; hb = (case h of None \<Rightarrow> [] | Some b \<Rightarrow> b);
          ib = (case ins of None \<Rightarrow> [] | Some b \<Rightarrow> b) in
      if hb \<noteq> [] then
        (let loc = loc @ take (min (length hb) (LOCSIZE - length loc - 1)) hb in
         if ib \<noteq> [] then bindR (copy_ins loc ib) (\<lambda>loc. Inr (loc, False)) else Inr (loc, False))
      else
        (let loc = loc @ show_hex mid in
         if ib \<noteq> [] then bindR (copy_ins loc ib) (\<lambda>loc. Inr (loc, False))
         else Inr (loc @ ''-'' @ show_hex (ticks mod 2 ^ 32), True)))"

definition quoted_attr :: "cstring \<Rightarrow> char list option \<Rightarrow> coap_resource \<Rightarrow> coap_resource" where
  "quoted_attr name val r =
     (case val of
        None \<Rightarrow> r
      | Some v \<Rightarrow>
          coap_add_attr r (literal name (length name))
            (heap_bytes (CHR 0x22 # v @ [CHR 0x22])) 2)"

fun add_segments :: "nat \<Rightarrow> char list \<Rightarrow> coap_pdu \<Rightarrow> coap_pdu" where
  "add_segments 0 b response = response"
| "add_segments (Suc n) b response =
     add_segments n (drop (case opt_at b of None \<Rightarrow> 0 | Some (_, sz) \<Rightarrow> sz) b)
       (snd (coap_add_option response COAP_OPTION_LOCATION_PATH (opt_bytes b)))"

definition hnd_post_rd ::
  "coap_context \<Rightarrow> rd_t list \<Rightarrow> nat \<Rightarrow> coap_address \<Rightarrow> coap_pdu \<Rightarrow> coap_pdu \<Rightarrow>
   (coap_context \<times> rd_t list \<times> coap_pdu) result" where
  "hnd_post_rd ctx rds ticks peer request response =
     (let query = coap_check_option request COAP_OPTION_URI_QUERY;
          param = (\<lambda>name. case query of
                     None \<Rightarrow> None | Some q \<Rightarrow> snd (parse_param name (opt_bytes q)));
          h = param ''h''; ins = param ''ins''; rt = param ''rt'' in
      bindR (rd_location h ins (hdr_id request) ticks) (\<lambda>(loc, terminated).
      bindR (coap_resource_init
        \<lparr>str_s = Some (loc @ (if terminated then [NUL] else [])), str_length = length loc,
         str_heap = True\<rparr> 1) (\<lambda>r.
      bindR (coap_register_handler r COAP_REQUEST_GET Hnd_get_resource) (\<lambda>r.
      bindR (coap_register_handler r COAP_REQUEST_PUT Hnd_put_resource) (\<lambda>r.
      bindR (coap_register_handler r COAP_REQUEST_DELETE Hnd_delete_resource) (\<lambda>r.
      let r = add_source_address (quoted_attr ''rt'' rt (quoted_attr ''ins'' ins r)) peer;
          rds = rds @ [(make_rd request)\<lparr>rd_key := coap_hash_path loc\<rparr>];
          ctx = coap_add_resource ctx r;
          response = response\<lparr>hdr_code := COAP_RESPONSE_CODE 201\<rparr> in
      bindR (coap_split_path loc LOCSIZE) (\<lambda>(nseg, b).
      Inr (ctx, rds, add_segments nseg b response))))))))"

definition init_rd_resources :: "coap_context \<Rightarrow> coap_context result" where
  "init_rd_resources ctx =
     bindR (coap_resource_init (literal ''rd'' 2) 0) (\<lambda>r.
     bindR (coap_register_handler r COAP_REQUEST_GET Hnd_get_rd) (\<lambda>r.
     bindR (coap_register_handler r COAP_REQUEST_POST Hnd_post_rd) (\<lambda>r.
     let r = coap_add_attr r (literal ''ct'' 2) (literal ''40'' 2) 0;
         q = [CHR 0x22];
         r = coap_add_attr r (literal ''rt'' 2) (literal (q @ ''core.rd'' @ q) 9) 0;
         r = coap_add_attr r (literal ''ins'' 2) (literal (q @ ''default'' @ q) 9) 0 in
     Inr (coap_add_resource ctx r))))"

end
