(* ===== verification/LinkedListDB.thy ===== *)
theory LinkedListDB
  imports CString
begin

text \<open>
  The topic database of \<open>src/src/c/LinkedListDB.c\<close>: a singly linked list of heap nodes,
  each with a path, an optional datum, two expiry times and two read-write locks. The heap
  is a partial map from addresses to nodes, so that following a pointer to a freed node,
  taking a lock the thread already excludes itself from, or walking a cyclic list are
  visible as faults. This theory holds the operations; \<open>TopicSpec\<close> proves them correct.

  The model is that of one thread: a blocking lock that no other thread can release is a
  \<open>Deadlock\<close>. Loops over the list get the number of addresses handed out so far as fuel:
  a longer walk visits a node twice and never ends (\<open>Diverges\<close>). The allocator has a
  budget of nodes (\<open>avail\<close>), after which \<open>malloc\<close> of a node returns \<open>NULL\<close>; the strings
  of a node are values, their blocks are counted in \<open>strings\<close>.
\<close>

section \<open>Locks\<close>

datatype rwlock = Readers nat | Writer

abbreviation Unlocked :: rwlock where
  "Unlocked \<equiv> Readers 0"

fun rdlock :: "rwlock \<Rightarrow> rwlock result" where
  "rdlock (Readers n) = Inr (Readers (Suc n))"
| "rdlock Writer = Inl Deadlock"

fun wrlock :: "rwlock \<Rightarrow> rwlock result" where
  "wrlock (Readers 0) = Inr Writer"
| "wrlock (Readers (Suc n)) = Inl Deadlock"
| "wrlock Writer = Inl Deadlock"

fun unlock :: "rwlock \<Rightarrow> rwlock result" where
  "unlock (Readers 0) = Inl Bad_unlock"
| "unlock (Readers (Suc n)) = Inr (Readers n)"
| "unlock Writer = Inr Unlocked"

section \<open>Nodes, heap and database\<close>

record topic =
  td_path :: cstring
  td_data :: "cstring option"
  td_topic_ma :: int
  td_data_ma :: int

record topicData = topic +
  nextPtr :: "addr option"
  node_lock :: rwlock
  data_lock :: rwlock

record db =
  topicDB :: "addr option"
  heap :: "addr \<Rightarrow> topicData option"
  brk :: addr
  avail :: nat
  strings :: nat

definition load :: "addr \<Rightarrow> db \<Rightarrow> topicData result" where
  "load a d = (case heap d a of None \<Rightarrow> Inl Use_after_free | Some n \<Rightarrow> Inr n)"

definition store :: "addr \<Rightarrow> topicData \<Rightarrow> db \<Rightarrow> db result" where
  "store a n d =
     (case heap d a of None \<Rightarrow> Inl Use_after_free
      | Some _ \<Rightarrow> Inr (d\<lparr>heap := (heap d)(a \<mapsto> n)\<rparr>))"

definition malloc_node :: "db \<Rightarrow> addr option \<times> db" where
  "malloc_node d =
     (if avail d = 0 then (None, d)
      else (Some (brk d), d\<lparr>brk := Suc (brk d), avail := avail d - 1\<rparr>))"

definition init_node :: "addr \<Rightarrow> topicData \<Rightarrow> db \<Rightarrow> db" where
  "init_node a n d = d\<lparr>heap := (heap d)(a \<mapsto> n)\<rparr>"

definition count_data :: "topicData \<Rightarrow> nat" where
  "count_data n = (if td_data n = None then 0 else 1)"

definition set_nextPtr :: "addr \<Rightarrow> addr option \<Rightarrow> db \<Rightarrow> db result" where
  "set_nextPtr a q d = bindR (load a d) (\<lambda>n. store a (n\<lparr>nextPtr := q\<rparr>) d)"

section \<open>Lock operations on a node\<close>

definition topicNodeRLock :: "addr \<Rightarrow> db \<Rightarrow> db result" where
  "topicNodeRLock a d =
     bindR (load a d) (\<lambda>n. bindR (rdlock (node_lock n)) (\<lambda>l. store a (n\<lparr>node_lock := l\<rparr>) d))"

definition topicNodeWLock :: "addr \<Rightarrow> db \<Rightarrow> db result" where
  "topicNodeWLock a d =
     bindR (load a d) (\<lambda>n. bindR (wrlock (node_lock n)) (\<lambda>l. store a (n\<lparr>node_lock := l\<rparr>) d))"

definition topicNodeUnlock :: "addr \<Rightarrow> db \<Rightarrow> db result" where
  "topicNodeUnlock a d =
     bindR (load a d) (\<lambda>n. bindR (unlock (node_lock n)) (\<lambda>l. store a (n\<lparr>node_lock := l\<rparr>) d))"

definition topicDataRLock :: "addr \<Rightarrow> db \<Rightarrow> db result" where
  "topicDataRLock a d =
     bindR (load a d) (\<lambda>n. bindR (rdlock (data_lock n)) (\<lambda>l. store a (n\<lparr>data_lock := l\<rparr>) d))"

definition topicDataWLock :: "addr \<Rightarrow> db \<Rightarrow> db result" where
  "topicDataWLock a d =
     bindR (load a d) (\<lambda>n. bindR (wrlock (data_lock n)) (\<lambda>l. store a (n\<lparr>data_lock := l\<rparr>) d))"

definition topicDataUnlock :: "addr \<Rightarrow> db \<Rightarrow> db result" where
  "topicDataUnlock a d =
     bindR (load a d) (\<lambda>n. bindR (unlock (data_lock n)) (\<lambda>l. store a (n\<lparr>data_lock := l\<rparr>) d))"

section \<open>Operations\<close>

definition compareString :: "cstring option \<Rightarrow> cstring option \<Rightarrow> nat" where
  "compareString a b =
     (case (a, b) of (Some s, Some t) \<Rightarrow> (if s = t then 1 else 0) | _ \<Rightarrow> 0)"

definition DBEmpty :: "addr option \<Rightarrow> bool" where
  "DBEmpty p \<longleftrightarrow> p = None"

text \<open>
  \<open>freeTopic\<close>, and the same sequence inlined in \<open>deleteTopic\<close> and \<open>cleanDB\<close>: free the
  strings, destroy the locks (which must not be held), free the node.
\<close>

definition free_node :: "addr \<Rightarrow> db \<Rightarrow> db result" where
  "free_node a d =
     bindR (case heap d a of None \<Rightarrow> Inl Double_free | Some n \<Rightarrow> Inr n)
       (\<lambda>n. if node_lock n = Unlocked \<and> data_lock n = Unlocked
             then Inr (d\<lparr>heap := (heap d)(a := None), avail := Suc (avail d),
                         strings := strings d - (1 + count_data n)\<rparr>)
             else Inl Bad_unlock)"

definition freeTopic :: "addr option \<Rightarrow> db \<Rightarrow> (nat \<times> db) result" where
  "freeTopic topic d =
     (case topic of
        None \<Rightarrow> Inr (0, d)
      | Some a \<Rightarrow> bindR (free_node a d) (\<lambda>d. Inr (1, d)))"

text \<open>
  The search loop shared by \<open>getTopic\<close>, \<open>cloneTopic\<close> and \<open>deleteTopic\<close>. It leaves the
  node it stops at read-locked.
\<close>

fun walk :: "nat \<Rightarrow> cstring option \<Rightarrow> addr option \<Rightarrow> addr option \<Rightarrow> db \<Rightarrow>
    (addr option \<times> addr option \<times> db) result" where
  "walk 0 path previousPtr currentPtr d = Inl Diverges"
| "walk (Suc k) path previousPtr currentPtr d =
     (case currentPtr of
        None \<Rightarrow> Inr (previousPtr, None, d)
      | Some c \<Rightarrow>
          bindR (topicNodeRLock c d) (\<lambda>d.
          bindR (load c d) (\<lambda>n.
          if compareString (Some (td_path n)) path = 1 then Inr (previousPtr, Some c, d)
          else bindR (topicNodeUnlock c d) (\<lambda>d. walk k path (Some c) (nextPtr n) d))))"

definition getTopic :: "cstring option \<Rightarrow> db \<Rightarrow> (addr option \<times> db) result" where
  "getTopic path d =
     (if path = None \<or> DBEmpty (topicDB d) then Inr (None, d)
      else
        bindR (deref (topicDB d)) (\<lambda>h.
        bindR (topicNodeRLock h d) (\<lambda>d.
        bindR (load h d) (\<lambda>n.
        if compareString (Some (td_path n)) path = 1
        then bindR (topicNodeUnlock h d) (\<lambda>d. Inr (Some h, d))
        else
          bindR (topicNodeUnlock h d) (\<lambda>d.
          bindR (walk (Suc (brk d)) path (Some h) (nextPtr n) d) (\<lambda>(previousPtr, currentPtr, d).
          case currentPtr of
            Some c \<Rightarrow> bindR (topicNodeUnlock c d) (\<lambda>d. Inr (Some c, d))
          | None \<Rightarrow> Inr (None, d)))))))"

text \<open>
  The copy made by \<open>cloneTopic\<close> of the node it found: \<open>snprintf(t, size + 1, "%s", s)\<close>
  with \<open>size = strlen(s)\<close> for both strings, fresh locks, no successor.
\<close>

definition clone_node :: "topicData \<Rightarrow> topicData" where
  "clone_node t =
     \<lparr>td_path = snprintf_s (length (td_path t) + 1) (td_path t),
      td_data = map_option (\<lambda>s. snprintf_s (length s + 1) s) (td_data t),
      td_topic_ma = td_topic_ma t, td_data_ma = td_data_ma t,
      nextPtr = None, node_lock = Unlocked, data_lock = Unlocked\<rparr>"

definition clone_at :: "addr \<Rightarrow> db \<Rightarrow> (addr option \<times> db) result" where
  "clone_at c d =
     bindR (load c d) (\<lambda>t.
     case malloc_node d of
       (Some a, d) \<Rightarrow>
         bindR (topicNodeUnlock c
             (init_node a (clone_node t) d\<lparr>strings := strings d + 1 + count_data t\<rparr>))
           (\<lambda>d. Inr (Some a, d))
     | (None, d) \<Rightarrow> bindR (topicNodeUnlock c d) (\<lambda>d. Inr (None, d)))"

definition cloneTopic :: "cstring option \<Rightarrow> db \<Rightarrow> (addr option \<times> db) result" where
  "cloneTopic path d =
     (if path = None \<or> DBEmpty (topicDB d) then Inr (None, d)
      else
        bindR (deref (topicDB d)) (\<lambda>h.
        bindR (topicNodeRLock h d) (\<lambda>d.
        bindR (load h d) (\<lambda>n.
        if compareString (Some (td_path n)) path = 1 then clone_at h d
        else
          bindR (topicNodeUnlock h d) (\<lambda>d.
          bindR (walk (Suc (brk d)) path (Some h) (nextPtr n) d) (\<lambda>(previousPtr, currentPtr, d).
          case currentPtr of
            Some c \<Rightarrow> clone_at c d
          | None \<Rightarrow> Inr (None, d)))))))"

text \<open>The accessors lock the node and its data around the read of one field.\<close>

definition reading :: "addr \<Rightarrow> (topicData \<Rightarrow> 'a result) \<Rightarrow> db \<Rightarrow> ('a \<times> db) result" where
  "reading a f d =
     bindR (topicNodeRLock a d) (\<lambda>d.
     bindR (topicDataRLock a d) (\<lambda>d.
     bindR (load a d) (\<lambda>n.
     bindR (f n) (\<lambda>x.
     bindR (topicDataUnlock a d) (\<lambda>d.
     bindR (topicNodeUnlock a d) (\<lambda>d. Inr (x, d)))))))"

definition getTopicPath :: "addr option \<Rightarrow> db \<Rightarrow> (nat \<times> cstring option \<times> db) result" where
  "getTopicPath topic d =
     (case topic of
        None \<Rightarrow> Inr (0, None, d)
      | Some a \<Rightarrow>
          bindR (reading a (\<lambda>n. Inr (snprintf_s (length (td_path n) + 1) (td_path n))) d)
            (\<lambda>(p, d). Inr (1, Some p, d\<lparr>strings := strings d + 1\<rparr>)))"

definition getTopicData :: "addr option \<Rightarrow> db \<Rightarrow> (nat \<times> cstring option \<times> db) result" where
  "getTopicData topic d =
     (case topic of
        None \<Rightarrow> Inr (0, None, d)
      | Some a \<Rightarrow>
          bindR (reading a (\<lambda>n. bindR (deref (td_data n))
                                (\<lambda>s. Inr (snprintf_s (length s + 1) s))) d)
            (\<lambda>(s, d). Inr (1, Some s, d\<lparr>strings := strings d + 1\<rparr>)))"

definition getTopicMA :: "addr option \<Rightarrow> db \<Rightarrow> (int \<times> db) result" where
  "getTopicMA topic d =
     (case topic of None \<Rightarrow> Inr (-1, d) | Some a \<Rightarrow> reading a (\<lambda>n. Inr (td_topic_ma n)) d)"

definition getTopicDataMA :: "addr option \<Rightarrow> db \<Rightarrow> (int \<times> db) result" where
  "getTopicDataMA topic d =
     (case topic of None \<Rightarrow> Inr (-1, d) | Some a \<Rightarrow> reading a (\<lambda>n. Inr (td_data_ma n)) d)"

text \<open>
  \<open>setTopic\<close>. A datum of positive size replaces the old one, whose block is freed; with
  no datum the pointer is overwritten and the old block stays allocated.
\<close>

definition setTopic :: "cstring option \<Rightarrow> char list option \<Rightarrow> nat \<Rightarrow> int \<Rightarrow> int \<Rightarrow> db \<Rightarrow>
    (nat \<times> db) result" where
  "setTopic path data data_size topic_ma data_ma d =
     bindR (getTopic path d) (\<lambda>(topic, d).
     case topic of
       None \<Rightarrow> Inr (0, d)
     | Some a \<Rightarrow>
         bindR (topicNodeRLock a d) (\<lambda>d.
         bindR (topicDataWLock a d) (\<lambda>d.
         bindR (load a d) (\<lambda>n.
         bindR
           (if data_size > 0 \<and> data \<noteq> None
            then bindR (store a (n\<lparr>td_data := Some (snprintf_s (data_size + 1) (cstr (the data)))\<rparr>) d)
                   (\<lambda>d. Inr (d\<lparr>strings := strings d + 1 - count_data n\<rparr>))
            else store a (n\<lparr>td_data := None\<rparr>) d) (\<lambda>d.
         bindR (load a d) (\<lambda>n.
         bindR (store a (n\<lparr>td_topic_ma := topic_ma, td_data_ma := data_ma\<rparr>) d) (\<lambda>d.
         bindR (topicDataUnlock a d) (\<lambda>d.
         bindR (topicNodeUnlock a d) (\<lambda>d. Inr (1, d))))))))))"

definition topicExist :: "cstring option \<Rightarrow> db \<Rightarrow> (nat \<times> db) result" where
  "topicExist path d =
     bindR (getTopic path d) (\<lambda>(topic, d). Inr (if topic = None then 0 else 1, d))"

text \<open>The loop of \<open>addTopic\<close> that walks to the end of the list.\<close>

fun walk_end :: "nat \<Rightarrow> addr option \<Rightarrow> addr option \<Rightarrow> db \<Rightarrow>
    (addr option \<times> addr option \<times> db) result" where
  "walk_end 0 previousPtr currentPtr d = Inl Diverges"
| "walk_end (Suc k) previousPtr currentPtr d =
     (case currentPtr of
        None \<Rightarrow> Inr (previousPtr, None, d)
      | Some c \<Rightarrow>
          bindR (topicNodeRLock c d) (\<lambda>d.
          bindR (load c d) (\<lambda>n.
          bindR (topicNodeUnlock c d) (\<lambda>d. walk_end k (Some c) (nextPtr n) d))))"

definition addTopic :: "cstring option \<Rightarrow> nat \<Rightarrow> int \<Rightarrow> db \<Rightarrow> (nat \<times> db) result" where
  "addTopic path path_size topic_ma d =
     (case malloc_node d of
        (None, d) \<Rightarrow> Inr (0, d)
      | (Some a, d) \<Rightarrow>
          if path_size > 0 \<and> path \<noteq> None then
            (let d = init_node a
                   \<lparr>td_path = snprintf_s (path_size + 1) (cstr (the path)), td_data = None,
                    td_topic_ma = topic_ma, td_data_ma = 0,
                    nextPtr = None, node_lock = Unlocked, data_lock = Unlocked\<rparr>
                   (d\<lparr>strings := strings d + 1\<rparr>) in
             bindR (walk_end (Suc (brk d)) None (topicDB d) d) (\<lambda>(previousPtr, currentPtr, d).
             case previousPtr of
               None \<Rightarrow>
                 bindR (set_nextPtr a (topicDB d) d) (\<lambda>d. Inr (1, d\<lparr>topicDB := Some a\<rparr>))
             | Some p \<Rightarrow>
                 bindR (topicNodeWLock p d) (\<lambda>d.
                 bindR (set_nextPtr p (Some a) d) (\<lambda>d.
                 bindR (set_nextPtr a currentPtr d) (\<lambda>d.
                 bindR (topicNodeUnlock p d) (\<lambda>d. Inr (1, d)))))))
          else Inr (0, d\<lparr>avail := Suc (avail d)\<rparr>))"

definition deleteTopic :: "cstring option \<Rightarrow> db \<Rightarrow> (nat \<times> db) result" where
  "deleteTopic path d =
     (if path = None \<or> DBEmpty (topicDB d) then Inr (0, d)
      else
        bindR (deref (topicDB d)) (\<lambda>h.
        bindR (topicNodeRLock h d) (\<lambda>d.
        bindR (load h d) (\<lambda>n.
        bindR (topicNodeUnlock h d) (\<lambda>d.
        if compareString (Some (td_path n)) path = 1 then
          bindR (topicNodeWLock h d) (\<lambda>d.
          bindR (load h d) (\<lambda>n.
          bindR (topicNodeUnlock h (d\<lparr>topicDB := nextPtr n\<rparr>)) (\<lambda>d.
          bindR (free_node h d) (\<lambda>d. Inr (1, d)))))
        else
          bindR (walk (Suc (brk d)) path (Some h) (nextPtr n) d) (\<lambda>(previousPtr, currentPtr, d).
          case currentPtr of
            None \<Rightarrow> Inr (0, d)
          | Some c \<Rightarrow>
              bindR (topicNodeUnlock c d) (\<lambda>d.
              bindR (deref previousPtr) (\<lambda>p.
              bindR (topicNodeWLock p d) (\<lambda>d.
              bindR (topicNodeWLock c d) (\<lambda>d.
              bindR (load c d) (\<lambda>n.
              bindR (set_nextPtr p (nextPtr n) d) (\<lambda>d.
              bindR (topicNodeUnlock c d) (\<lambda>d.
              bindR (topicNodeUnlock p d) (\<lambda>d.
              bindR (free_node c d) (\<lambda>d. Inr (1, d))))))))))))))))"

definition deleteTopicData :: "cstring option \<Rightarrow> db \<Rightarrow> (nat \<times> db) result" where
  "deleteTopicData path d =
     bindR (getTopic path d) (\<lambda>(topic, d).
     case topic of
       None \<Rightarrow> Inr (0, d)
     | Some a \<Rightarrow>
         bindR (topicNodeRLock a d) (\<lambda>d.
         bindR (topicDataWLock a d) (\<lambda>d.
         bindR (load a d) (\<lambda>n.
         bindR (store a (n\<lparr>td_data := None, td_data_ma := 0\<rparr>)
                  (d\<lparr>strings := strings d - count_data n\<rparr>)) (\<lambda>d.
         bindR (topicDataUnlock a d) (\<lambda>d.
         bindR (topicNodeUnlock a d) (\<lambda>d. Inr (1, d))))))))"

definition updateTopicInfo :: "cstring option \<Rightarrow> int \<Rightarrow> db \<Rightarrow> (nat \<times> db) result" where
  "updateTopicInfo path topic_ma d =
     bindR (getTopic path d) (\<lambda>(temp, d).
     case temp of
       None \<Rightarrow> Inr (0, d)
     | Some a \<Rightarrow>
         bindR (load a d) (\<lambda>n.
         let data_size = (case td_data n of None \<Rightarrow> 0 | Some s \<Rightarrow> length s) in
         setTopic path (td_data n) data_size topic_ma (td_data_ma n) d))"

definition updateTopicData :: "cstring option \<Rightarrow> int \<Rightarrow> char list option \<Rightarrow> nat \<Rightarrow> db \<Rightarrow>
    (nat \<times> db) result" where
  "updateTopicData path data_ma data data_size d =
     bindR (getTopic path d) (\<lambda>(temp, d).
     case temp of
       None \<Rightarrow> Inr (0, d)
     | Some a \<Rightarrow>
         bindR (load a d) (\<lambda>n. setTopic path data data_size (td_topic_ma n) data_ma d))"

definition addTopicWEC :: "cstring option \<Rightarrow> nat \<Rightarrow> int \<Rightarrow> db \<Rightarrow> (nat \<times> db) result" where
  "addTopicWEC path path_size topic_ma d =
     bindR (getTopic path d) (\<lambda>(temp, d).
     if temp \<noteq> None then updateTopicInfo path topic_ma d
     else addTopic path path_size topic_ma d)"

fun clean_loop :: "nat \<Rightarrow> db \<Rightarrow> db result" where
  "clean_loop 0 d = Inl Diverges"
| "clean_loop (Suc k) d =
     (if DBEmpty (topicDB d) then Inr d
      else
        bindR (deref (topicDB d)) (\<lambda>t.
        bindR (topicNodeWLock t d) (\<lambda>d.
        bindR (load t d) (\<lambda>n.
        bindR (topicNodeUnlock t (d\<lparr>topicDB := nextPtr n\<rparr>)) (\<lambda>d.
        bindR (free_node t d) (\<lambda>d. clean_loop k d))))))"

definition cleanDB :: "db \<Rightarrow> db result" where
  "cleanDB d = clean_loop (Suc (brk d)) d"

text \<open>The database at start-up: no nodes, and a budget for \<open>m\<close> of them.\<close>

definition db_init :: "nat \<Rightarrow> db" where
  "db_init m = \<lparr>topicDB = None, heap = (\<lambda>_. None), brk = 0, avail = m, strings = 0\<rparr>"

end
