(* ===== verification/SendQueue.thy ===== *)
theory SendQueue
  imports CoapResource
begin

text \<open>
  Confirmable messages of \<open>net.c\<close>: transaction identifiers, the queue of messages that wait
  for an acknowledgement, and retransmission. The queue holds times relative to the message
  before; its meaning is the list of absolute times \<open>due\<close>, on which insertion and removal are
  those of a list kept sorted by time.
\<close>

section \<open>Transaction identifiers\<close>

abbreviation (input) COAP_INVALID_TID :: int where "COAP_INVALID_TID \<equiv> -1"

definition le16 :: "nat \<Rightarrow> char list" where
  "le16 n = [char_of (n mod 256), char_of (n div 256)]"

definition coap_transaction_id :: "coap_address \<Rightarrow> coap_pdu \<Rightarrow> int \<Rightarrow> int" where
  "coap_transaction_id peer pdu old =
     (let h = (if sa_family peer = AF_INET
               then Some (coap_hash (take 4 (sin_addr peer)) (coap_hash (le16 (sin_port peer)) zero_key))
               else if sa_family peer = AF_INET6
               then Some (coap_hash (take 16 (sin_addr peer)) (coap_hash (le16 (sin_port peer)) zero_key))
               else None) in
      case h of
        None \<Rightarrow> old
      | Some h \<Rightarrow>
          (case coap_hash (le16 (hdr_id pdu)) h of (h0, h1, h2, h3) \<Rightarrow>
             ((uint h0 * 256 + uint h1) XOR (uint h2 * 256 + uint h3)) AND 0x7FFFFFFF))"

text \<open>Peers that are equal to the library give equal identifiers, whatever was there before.\<close>

lemma transaction_id_same_peer:
  assumes "coap_address_equals a b" "hdr_id p = hdr_id q"
  shows "coap_transaction_id a p i = coap_transaction_id b q j"
  using assms by (auto simp: coap_address_equals_def coap_transaction_id_def Let_def split: if_splits)

section \<open>The queue\<close>

text \<open>The loop of \<open>coap_insert_node\<close> that looks for the place behind the first node.\<close>

fun insert_behind :: "queue_node \<Rightarrow> queue_node list \<Rightarrow> queue_node list" where
  "insert_behind node [] = [node]"
| "insert_behind node (q # qs) =
     (if q_t q \<le> q_t node
      then q # insert_behind (node\<lparr>q_t := q_t node - q_t q\<rparr>) qs
      else node # q\<lparr>q_t := q_t q - q_t node\<rparr> # qs)"

fun coap_insert_node :: "queue_node \<Rightarrow> queue_node list \<Rightarrow> queue_node list" where
  "coap_insert_node node [] = [node]"
| "coap_insert_node node (q # qs) =
     (if q_t node < q_t q then node # q\<lparr>q_t := q_t q - q_t node\<rparr> # qs
      else q # insert_behind (node\<lparr>q_t := q_t node - q_t q\<rparr>) qs)"

text \<open>What follows a node that is taken out is put off by its time.\<close>

fun put_off :: "coap_tick \<Rightarrow> queue_node list \<Rightarrow> queue_node list" where
  "put_off t [] = []"
| "put_off t (q # qs) = q\<lparr>q_t := q_t q + t\<rparr> # qs"

fun coap_pop_next :: "queue_node list \<Rightarrow> (queue_node \<times> queue_node list) option" where
  "coap_pop_next [] = None"
| "coap_pop_next (q # qs) = Some (q, put_off (q_t q) qs)"

fun coap_remove_from_queue :: "int \<Rightarrow> queue_node list \<Rightarrow> queue_node option \<times> queue_node list" where
  "coap_remove_from_queue i [] = (None, [])"
| "coap_remove_from_queue i (q # qs) =
     (if i = node_id q then (Some q, put_off (q_t q) qs)
      else (let (node, qs) = coap_remove_from_queue i qs in (node, q # qs)))"

definition coap_find_transaction :: "int \<Rightarrow> queue_node list \<Rightarrow> queue_node option" where
  "coap_find_transaction i qs = find (\<lambda>q. node_id q = i) qs"

text \<open>The messages of a peer and token; times of the remaining ones are not adjusted.\<close>

definition token_match :: "char list \<Rightarrow> char list \<Rightarrow> bool" where
  "token_match a b \<longleftrightarrow> length a = length b \<and> (a = [] \<or> a = b)"

definition cancelled :: "coap_address \<Rightarrow> char list \<Rightarrow> queue_node \<Rightarrow> bool" where
  "cancelled dst token q \<longleftrightarrow>
     coap_address_equals dst (node_remote q) \<and> token_match token (hdr_token (node_pdu q))"

definition coap_cancel_all_messages ::
  "coap_address \<Rightarrow> char list \<Rightarrow> coap_context \<Rightarrow> coap_context" where
  "coap_cancel_all_messages dst token c =
     c\<lparr>sendqueue :=
       (case dropWhile (cancelled dst token) (sendqueue c) of
          [] \<Rightarrow> []
        | p # qs \<Rightarrow> p # filter (\<lambda>q. \<not> cancelled dst token q) qs)\<rparr>"

section \<open>Observers that do not answer\<close>

text \<open>
  \<open>coap_remove_failed_observers\<close>: its loop ends after the first subscriber, because the
  \<open>break\<close> stands outside the test. An observer that is removed takes its messages with it.
\<close>

definition coap_remove_failed_observers ::
  "coap_context \<Rightarrow> coap_resource \<Rightarrow> coap_address \<Rightarrow> char list \<Rightarrow> coap_resource \<times> coap_context" where
  "coap_remove_failed_observers c r peer token =
     (case subscribers r of
        [] \<Rightarrow> (r, c)
      | obs # rest \<Rightarrow>
          if coap_address_equals peer (sub_addr obs) \<and> token = sub_token obs then
            (if fail_cnt obs < COAP_OBS_MAX_FAIL
             then (r\<lparr>subscribers := obs\<lparr>fail_cnt := fail_cnt obs + 1\<rparr> # rest\<rparr>, c)
             else (r\<lparr>subscribers := rest\<rparr>,
                   coap_cancel_all_messages (sub_addr obs) (sub_token obs) c))
          else (r, c))"

fun failed_notify_loop ::
  "coap_resource list \<Rightarrow> coap_address \<Rightarrow> char list \<Rightarrow> coap_context \<Rightarrow> coap_resource list \<times> coap_context"
  where
  "failed_notify_loop [] peer token c = ([], c)"
| "failed_notify_loop (r # rs) peer token c =
     (let (r, c) = coap_remove_failed_observers c r peer token;
          (rs, c) = failed_notify_loop rs peer token c in
      (r # rs, c))"

definition coap_handle_failed_notify ::
  "coap_context \<Rightarrow> coap_address \<Rightarrow> char list \<Rightarrow> coap_context" where
  "coap_handle_failed_notify c peer token =
     (let (rs, c) = failed_notify_loop (resources c) peer token c in c\<lparr>resources := rs\<rparr>)"

section \<open>Time\<close>

text \<open>
  \<open>coap_adjust_basetime\<close>. When the clock went forward, the nodes that have timed out get the
  relative time zero, and the first other node the time that has passed since.
\<close>

fun adjust_forward :: "coap_tick \<Rightarrow> coap_tick \<Rightarrow> queue_node list \<Rightarrow> nat \<times> queue_node list" where
  "adjust_forward delta t [] = (0, [])"
| "adjust_forward delta t (q # qs) =
     (if t + q_t q < delta
      then (let (n, qs) = adjust_forward delta (t + q_t q) qs in (Suc n, q\<lparr>q_t := 0\<rparr> # qs))
      else (0, q\<lparr>q_t := delta - t\<rparr> # qs))"

definition coap_adjust_basetime :: "coap_tick \<Rightarrow> coap_context \<Rightarrow> nat \<times> coap_context" where
  "coap_adjust_basetime now c =
     (let delta = now - sendqueue_basetime c;
          (n, qs) = (case sendqueue c of
             [] \<Rightarrow> (0, [])
           | q # qs \<Rightarrow>
               if sint delta \<le> 0 then (0, q\<lparr>q_t := q_t q - delta\<rparr> # qs)
               else adjust_forward delta 0 (q # qs)) in
      (n, c\<lparr>sendqueue := qs, sendqueue_basetime := sendqueue_basetime c + delta\<rparr>))"

section \<open>Sending\<close>

abbreviation (input) COAP_DEFAULT_MAX_RETRANSMIT :: nat where "COAP_DEFAULT_MAX_RETRANSMIT \<equiv> 4"

text \<open>Fixed point numbers with six fractional bits: 64 is 1, 96 is 1.5, 128 is 2.\<close>

definition SHR_FP :: "nat \<Rightarrow> nat \<Rightarrow> nat" where
  "SHR_FP v frac = (v + 2 ^ (frac - 1)) div 2 ^ frac"

definition calc_timeout :: "nat \<Rightarrow> nat" where
  "calc_timeout r =
     (let inner = SHR_FP ((96 - 64) * r) 8;
          secs = SHR_FP ((inner + 64) * 128) 6 in
      SHR_FP (1000 * secs) 6)"

text \<open>A transmission and its transaction; the identifier is invalid when it failed.\<close>

definition coap_send :: "coap_address \<Rightarrow> coap_pdu \<Rightarrow> coap_context \<Rightarrow> int \<times> coap_context" where
  "coap_send dst pdu c =
     (if send_ok c (length (sent c))
      then (coap_transaction_id dst pdu COAP_INVALID_TID, c\<lparr>sent := sent c @ [(dst, pdu)]\<rparr>)
      else (COAP_INVALID_TID, c))"

definition coap_send_confirmed :: "coap_address \<Rightarrow> coap_pdu \<Rightarrow> coap_context \<Rightarrow> int \<times> coap_context" where
  "coap_send_confirmed dst pdu c =
     (let (tid, c) = coap_send dst pdu c in
      if tid = COAP_INVALID_TID then (COAP_INVALID_TID, c)
      else
        let node_timeout = of_nat (calc_timeout (prng c (length (sent c)) mod 256)) :: u32;
            node = \<lparr>q_t = ucast node_timeout, retransmit_cnt = 0, timeout = node_timeout, node_remote = dst,
                    node_id = tid, node_pdu = pdu\<rparr> in
        (tid,
         if sendqueue c = [] then c\<lparr>sendqueue := [node], sendqueue_basetime := lib_ticks c\<rparr>
         else c\<lparr>sendqueue := coap_insert_node
                 (node\<lparr>q_t := (lib_ticks c - sendqueue_basetime c) + ucast node_timeout\<rparr>) (sendqueue c)\<rparr>))"

text \<open>
  \<open>coap_retransmit\<close> of a node that was taken off the queue. Its identifier becomes the result
  of sending, after it has been queued.
\<close>

definition coap_retransmit :: "queue_node \<Rightarrow> coap_context \<Rightarrow> coap_context" where
  "coap_retransmit node c =
     (if retransmit_cnt node < COAP_DEFAULT_MAX_RETRANSMIT then
        let k = retransmit_cnt node + 1;
            (tid, c) = coap_send (node_remote node) (node_pdu node) c;
            node = node\<lparr>retransmit_cnt := k, q_t := ucast (push_bit k (timeout node)),
              node_id := tid\<rparr> in
        c\<lparr>sendqueue := coap_insert_node node (sendqueue c)\<rparr>
      else if hdr_code (node_pdu node) \<ge> 64
      then coap_handle_failed_notify c (node_remote node) (hdr_token (node_pdu node))
      else c)"

section \<open>Absolute times\<close>

fun due :: "nat \<Rightarrow> queue_node list \<Rightarrow> (nat \<times> queue_node) list" where
  "due b [] = []"
| "due b (q # qs) = (b + unat (q_t q), q\<lparr>q_t := 0\<rparr>) # due (b + unat (q_t q)) qs"

text \<open>Insertion into a list sorted by time, behind the elements of the same time.\<close>

fun put_due :: "nat \<times> 'a \<Rightarrow> (nat \<times> 'a) list \<Rightarrow> (nat \<times> 'a) list" where
  "put_due x [] = [x]"
| "put_due x (y # ys) = (if fst x < fst y then x # y # ys else y # put_due x ys)"

lemma sorted_due: "sorted (map fst (due b qs)) \<and> (\<forall>x\<in>set (due b qs). b \<le> fst x)"
  by (induction qs arbitrary: b) force+

lemma insert_behind_eq: "insert_behind = coap_insert_node"
proof (intro ext)
  fix node qs show "insert_behind node qs = coap_insert_node node qs"
    by (cases qs) (simp_all add: not_less [symmetric])
qed

lemma due_insert:
  "due b (coap_insert_node node qs) = put_due (b + unat (q_t node), node\<lparr>q_t := 0\<rparr>) (due b qs)"
proof (induction qs arbitrary: b node)
  case Nil
  then show ?case by simp
next
  case (Cons q qs)
  have sub: "unat (x - y) = unat x - unat y" "unat y \<le> unat x" if "y \<le> x" for x y :: coap_tick
    using that by (simp_all add: unat_sub word_le_nat_alt)
  show ?case
  proof (cases "q_t node < q_t q")
    case True
    then have "q_t node \<le> q_t q" by simp
    moreover have "unat (q_t node) < unat (q_t q)" using True by (simp add: word_less_nat_alt)
    ultimately show ?thesis using True sub [of "q_t node" "q_t q"] by simp
  next
    case False
    then have "q_t q \<le> q_t node" by simp
    then show ?thesis
      using False sub [of "q_t q" "q_t node"] Cons.IH [of "b + unat (q_t q)" "node\<lparr>q_t := q_t node - q_t q\<rparr>"]
      by (simp add: insert_behind_eq word_less_nat_alt)
  qed
qed

text \<open>Removal keeps the times of the others, as long as the sum of the times fits.\<close>

definition span :: "queue_node list \<Rightarrow> nat" where
  "span qs = sum_list (map (\<lambda>q. unat (q_t q)) qs)"

lemma span_simps [simp]: "span [] = 0" "span (q # qs) = unat (q_t q) + span qs"
  by (simp_all add: span_def)

lemma due_put_off:
  assumes "unat t + span qs < 2 ^ 64"
  shows "due b (put_off t qs) = due (b + unat t) qs"
proof (cases qs)
  case (Cons q ps)
  have "unat (q_t q + t) = unat (q_t q) + unat t"
    using assms by (intro unat_add_lem [THEN iffD1]) (simp add: Cons)
  then show ?thesis by (simp add: Cons ac_simps)
qed simp

fun drop_due :: "int \<Rightarrow> (nat \<times> queue_node) list \<Rightarrow> (nat \<times> queue_node) list" where
  "drop_due i [] = []"
| "drop_due i (x # xs) = (if i = node_id (snd x) then xs else x # drop_due i xs)"

lemma due_remove:
  "span qs < 2 ^ 64 \<Longrightarrow> due b (snd (coap_remove_from_queue i qs)) = drop_due i (due b qs)"
proof (induction qs arbitrary: b)
  case (Cons q qs)
  have "span qs < 2 ^ 64" using Cons.prems by simp
  then show ?case using Cons.IH Cons.prems due_put_off [of "q_t q" qs] by (simp add: split_beta Let_def)
qed simp

lemma removed_is_found:
  "fst (coap_remove_from_queue i qs) = coap_find_transaction i qs"
  by (induction qs) (auto simp: coap_find_transaction_def split_beta Let_def)

lemma due_pop:
  "coap_pop_next qs = Some (q, qs') \<Longrightarrow> span qs < 2 ^ 64 \<Longrightarrow> due b qs = (b + unat (q_t q), q\<lparr>q_t := 0\<rparr>) # due b qs'"
  by (cases qs) (auto simp: due_put_off)

lemma cancel_all_filter:
  "sendqueue (coap_cancel_all_messages dst token c) = filter (\<lambda>q. \<not> cancelled dst token q) (sendqueue c)"
proof -
  have "(case dropWhile P qs of [] \<Rightarrow> [] | p # ps \<Rightarrow> p # filter (\<lambda>q. \<not> P q) ps) = filter (\<lambda>q. \<not> P q) qs"
    for P :: "queue_node \<Rightarrow> bool" and qs
    by (induction qs) auto
  then show ?thesis by (simp add: coap_cancel_all_messages_def)
qed

text \<open>Giving up on a message only takes messages off the queue, and sends none.\<close>

lemma cancel_all_sent: "sent (coap_cancel_all_messages dst token c) = sent c"
  by (simp add: coap_cancel_all_messages_def)

lemma failed_notify_loop_queue:
  "\<exists>P. sendqueue (snd (failed_notify_loop rs peer token c)) = filter P (sendqueue c) \<and>
     sent (snd (failed_notify_loop rs peer token c)) = sent c"
proof (induction rs arbitrary: c)
  case Nil
  show ?case by (rule exI [of _ "\<lambda>_. True"]) simp
next
  case (Cons r rs)
  obtain r' c' where r: "coap_remove_failed_observers c r peer token = (r', c')" by fastforce
  have "\<exists>P. sendqueue c' = filter P (sendqueue c) \<and> sent c' = sent c"
  proof (cases "sendqueue c' = sendqueue c \<and> sent c' = sent c")
    case True
    then show ?thesis by (intro exI [of _ "\<lambda>_. True"]) simp
  next
    case False
    then have "\<exists>dst tok. c' = coap_cancel_all_messages dst tok c"
      using r by (auto simp: coap_remove_failed_observers_def split: list.splits if_splits)
    then show ?thesis using cancel_all_filter cancel_all_sent by metis
  qed
  then obtain P where P: "sendqueue c' = filter P (sendqueue c)" "sent c' = sent c" by blast
  obtain Q where "sendqueue (snd (failed_notify_loop rs peer token c')) = filter Q (sendqueue c')"
    "sent (snd (failed_notify_loop rs peer token c')) = sent c'" using Cons.IH by blast
  then have "sendqueue (snd (failed_notify_loop (r # rs) peer token c)) = filter (\<lambda>q. Q q \<and> P q) (sendqueue c) \<and>
      sent (snd (failed_notify_loop (r # rs) peer token c)) = sent c"
    using r P by (simp add: split_beta Let_def conj_commute)
  then show ?case by (intro exI [of _ "\<lambda>q. Q q \<and> P q"])
qed

lemma handle_failed_notify_queue:
  obtains P where "sendqueue (coap_handle_failed_notify c peer token) = filter P (sendqueue c)"
    "sent (coap_handle_failed_notify c peer token) = sent c"
  using failed_notify_loop_queue [of "resources c" peer token c]
  by (auto simp: coap_handle_failed_notify_def split_beta Let_def)

section \<open>Timeouts and the end of retransmission\<close>

lemma SHR_FP_mono: "a \<le> b \<Longrightarrow> SHR_FP a k \<le> SHR_FP b k"
  by (simp add: SHR_FP_def div_le_mono)

lemma calc_timeout_mono: "r \<le> s \<Longrightarrow> calc_timeout r \<le> calc_timeout s"
  unfolding calc_timeout_def Let_def by (intro SHR_FP_mono mult_le_mono add_le_mono) simp_all

lemma calc_timeout_bounds:
  assumes "r < 256"
  shows "2000 \<le> calc_timeout r \<and> calc_timeout r \<le> 3000"
proof -
  have "calc_timeout 0 = 2000" "calc_timeout 255 = 3000" by (simp_all add: calc_timeout_def SHR_FP_def)
  then show ?thesis using calc_timeout_mono [of 0 r] calc_timeout_mono [of r 255] assms by simp
qed

text \<open>
  The work left in a queue: how often its messages can still be taken off it. One turn takes
  the first message off and retransmits it.
\<close>

definition retransmit_turn :: "coap_context \<Rightarrow> coap_context" where
  "retransmit_turn c =
     (case coap_pop_next (sendqueue c) of
        None \<Rightarrow> c
      | Some (q, qs) \<Rightarrow> coap_retransmit q (c\<lparr>sendqueue := qs\<rparr>))"

definition queue_work :: "queue_node list \<Rightarrow> nat" where
  "queue_work qs = sum_list (map (\<lambda>q. 5 - retransmit_cnt q) qs)"

lemma queue_work_simps [simp]: "queue_work [] = 0" "queue_work (q # qs) = (5 - retransmit_cnt q) + queue_work qs"
  by (simp_all add: queue_work_def)

lemma queue_work_put_off [simp]: "queue_work (put_off t qs) = queue_work qs"
  by (cases qs) simp_all

lemma queue_work_insert: "queue_work (coap_insert_node node qs) = (5 - retransmit_cnt node) + queue_work qs"
  by (induction qs arbitrary: node) (simp_all add: insert_behind_eq)

text \<open>How often its messages can still be sent.\<close>

definition queue_sends :: "queue_node list \<Rightarrow> nat" where
  "queue_sends qs = sum_list (map (\<lambda>q. 4 - retransmit_cnt q) qs)"

lemma queue_sends_simps [simp]: "queue_sends [] = 0" "queue_sends (q # qs) = (4 - retransmit_cnt q) + queue_sends qs"
  by (simp_all add: queue_sends_def)

lemma queue_sends_put_off [simp]: "queue_sends (put_off t qs) = queue_sends qs"
  by (cases qs) simp_all

lemma queue_sends_insert: "queue_sends (coap_insert_node node qs) = (4 - retransmit_cnt node) + queue_sends qs"
  by (induction qs arbitrary: node) (simp_all add: insert_behind_eq)

lemma queue_filter_le: "queue_work (filter P qs) \<le> queue_work qs \<and> queue_sends (filter P qs) \<le> queue_sends qs"
  by (induction qs) auto

definition cnt_ok :: "queue_node list \<Rightarrow> bool" where
  "cnt_ok qs \<longleftrightarrow> (\<forall>q\<in>set qs. retransmit_cnt q \<le> 4)"

lemma cnt_ok_simps [simp]: "cnt_ok []" "cnt_ok (q # qs) \<longleftrightarrow> retransmit_cnt q \<le> 4 \<and> cnt_ok qs"
  by (simp_all add: cnt_ok_def)

lemma cnt_ok_insert [simp]: "cnt_ok (coap_insert_node node qs) \<longleftrightarrow> retransmit_cnt node \<le> 4 \<and> cnt_ok qs"
  by (induction qs arbitrary: node) (auto simp: insert_behind_eq)

lemma cnt_ok_put_off [simp]: "cnt_ok (put_off t qs) = cnt_ok qs"
  by (cases qs) simp_all

lemma coap_send_queue: "sendqueue (snd (coap_send dst pdu c)) = sendqueue c"
  by (simp add: coap_send_def)

lemma queue_fields: "sendqueue (c\<lparr>sendqueue := qs\<rparr>) = qs" "sent (c\<lparr>sendqueue := qs\<rparr>) = sent c"
  by simp_all

lemma retransmit_turn_work:
  assumes "cnt_ok (sendqueue c)"
  shows "queue_work (sendqueue (retransmit_turn c)) \<le> queue_work (sendqueue c) - 1"
    "cnt_ok (sendqueue (retransmit_turn c))"
    "length (sent (retransmit_turn c)) + queue_sends (sendqueue (retransmit_turn c)) \<le>
     length (sent c) + queue_sends (sendqueue c)"
proof -
  have "queue_work (sendqueue (retransmit_turn c)) \<le> queue_work (sendqueue c) - 1 \<and>
    cnt_ok (sendqueue (retransmit_turn c)) \<and>
    length (sent (retransmit_turn c)) + queue_sends (sendqueue (retransmit_turn c)) \<le>
    length (sent c) + queue_sends (sendqueue c)"
  proof (cases "sendqueue c")
    case Nil
    then show ?thesis by (simp add: retransmit_turn_def)
  next
    case (Cons q qs)
    have q: "retransmit_cnt q \<le> 4" "cnt_ok qs" using assms Cons by auto
    let ?c = "c\<lparr>sendqueue := put_off (q_t q) qs\<rparr>"
    show ?thesis
    proof (cases "retransmit_cnt q < 4")
      case True
      have "length (sent (snd (coap_send (node_remote q) (node_pdu q) ?c))) \<le> Suc (length (sent c))"
        by (simp add: coap_send_def)
      then show ?thesis
        using q True by (simp add: retransmit_turn_def Cons coap_retransmit_def split_beta Let_def
            queue_work_insert queue_sends_insert coap_send_queue)
    next
      case False
      obtain P where P: "sendqueue (coap_handle_failed_notify ?c (node_remote q) (hdr_token (node_pdu q))) =
          filter P (put_off (q_t q) qs)"
        "sent (coap_handle_failed_notify ?c (node_remote q) (hdr_token (node_pdu q))) = sent c"
        using handle_failed_notify_queue [of ?c "node_remote q" "hdr_token (node_pdu q)"] by (metis queue_fields)
      have ok: "cnt_ok (filter P (put_off (q_t q) qs))"
        using q(2) cnt_ok_put_off [of "q_t q" qs] by (simp add: cnt_ok_def)
      show ?thesis
        using q False ok P queue_filter_le [of P "put_off (q_t q) qs"]
        by (auto simp: retransmit_turn_def Cons coap_retransmit_def)
    qed
  qed
  then show "queue_work (sendqueue (retransmit_turn c)) \<le> queue_work (sendqueue c) - 1"
    "cnt_ok (sendqueue (retransmit_turn c))"
    "length (sent (retransmit_turn c)) + queue_sends (sendqueue (retransmit_turn c)) \<le>
     length (sent c) + queue_sends (sendqueue c)" by blast+
qed

lemma queue_work_zero: "cnt_ok qs \<Longrightarrow> queue_work qs = 0 \<Longrightarrow> qs = []"
  by (cases qs) auto

lemma retransmission_ends:
  assumes "cnt_ok (sendqueue c)" "queue_work (sendqueue c) \<le> n"
  shows "sendqueue ((retransmit_turn ^^ n) c) = []"
    "length (sent ((retransmit_turn ^^ n) c)) \<le> length (sent c) + queue_sends (sendqueue c)"
proof -
  have k: "queue_work (sendqueue ((retransmit_turn ^^ k) c)) \<le> queue_work (sendqueue c) - k \<and>
    cnt_ok (sendqueue ((retransmit_turn ^^ k) c)) \<and>
    length (sent ((retransmit_turn ^^ k) c)) + queue_sends (sendqueue ((retransmit_turn ^^ k) c)) \<le>
    length (sent c) + queue_sends (sendqueue c)" for k
  proof (induction k)
    case 0
    then show ?case using assms(1) by simp
  next
    case (Suc k)
    then show ?case using retransmit_turn_work [of "(retransmit_turn ^^ k) c"] by simp linarith
  qed
  have "queue_work (sendqueue ((retransmit_turn ^^ n) c)) = 0" using k [of n] assms(2) by simp
  then show "sendqueue ((retransmit_turn ^^ n) c) = []" using k [of n] queue_work_zero by blast
  show "length (sent ((retransmit_turn ^^ n) c)) \<le> length (sent c) + queue_sends (sendqueue c)"
    using k [of n] by simp
qed

lemma queue_sends_le: "queue_sends qs \<le> 4 * length qs"
  by (induction qs) simp_all

lemma queue_work_le: "queue_work qs \<le> 5 * length qs"
  by (induction qs) simp_all

section \<open>A confirmed message and its removal\<close>

lemma remove_inserted:
  "node_id node \<notin> node_id ` set qs \<Longrightarrow>
   \<exists>t. coap_remove_from_queue (node_id node) (coap_insert_node node qs) = (Some (node\<lparr>q_t := t\<rparr>), qs)"
proof (induction qs arbitrary: node)
  case Nil
  show ?case by (rule exI [of _ "q_t node"]) simp
next
  case (Cons q qs)
  show ?case
  proof (cases "q_t node < q_t q")
    case True
    then show ?thesis by (intro exI [of _ "q_t node"]) simp
  next
    case False
    then show ?thesis
      using Cons.prems Cons.IH [of "node\<lparr>q_t := q_t node - q_t q\<rparr>"] by (auto simp: insert_behind_eq)
  qed
qed

lemma transaction_id_valid:
  "sa_family peer \<in> {AF_INET, AF_INET6} \<Longrightarrow> 0 \<le> coap_transaction_id peer pdu old"
  by (auto simp: coap_transaction_id_def Let_def split: prod.split)

lemma send_confirmed_run:
  assumes "sa_family dst \<in> {AF_INET, AF_INET6}" "send_ok c (length (sent c))"
  obtains node b where "coap_send_confirmed dst pdu c =
      (coap_transaction_id dst pdu COAP_INVALID_TID,
       c\<lparr>sent := sent c @ [(dst, pdu)], sendqueue := coap_insert_node node (sendqueue c), sendqueue_basetime := b\<rparr>)"
    "node_id node = coap_transaction_id dst pdu COAP_INVALID_TID" "node_remote node = dst" "node_pdu node = pdu"
    "retransmit_cnt node = 0" "2000 \<le> unat (timeout node)" "unat (timeout node) \<le> 3000"
    "b = (if sendqueue c = [] then lib_ticks c else sendqueue_basetime c)"
    "b + q_t node = lib_ticks c + ucast (timeout node)"
proof -
  have v: "coap_transaction_id dst pdu COAP_INVALID_TID \<noteq> COAP_INVALID_TID"
    using transaction_id_valid [OF assms(1), of pdu COAP_INVALID_TID] by simp
  let ?c = "c\<lparr>sent := sent c @ [(dst, pdu)]\<rparr>"
  let ?ms = "calc_timeout (prng ?c (length (sent ?c)) mod 256)"
  let ?to = "of_nat ?ms :: u32"
  let ?n = "\<lparr>q_t = ucast ?to, retransmit_cnt = 0, timeout = ?to, node_remote = dst,
    node_id = coap_transaction_id dst pdu COAP_INVALID_TID, node_pdu = pdu\<rparr>"
  have ms: "2000 \<le> ?ms \<and> ?ms \<le> 3000" by (rule calc_timeout_bounds) simp
  then have to: "2000 \<le> unat ?to" "unat ?to \<le> 3000" by (simp_all add: unsigned_of_nat take_bit_eq_mod)
  have s: "coap_send dst pdu c = (coap_transaction_id dst pdu COAP_INVALID_TID, ?c)"
    using assms(2) by (simp add: coap_send_def)
  show ?thesis
  proof (cases "sendqueue c = []")
    case True
    then show ?thesis
      using v s to by (intro that [of "lib_ticks c" ?n]) (simp_all add: coap_send_confirmed_def Let_def)
  next
    case False
    let ?m = "?n\<lparr>q_t := (lib_ticks c - sendqueue_basetime c) + ucast ?to\<rparr>"
    show ?thesis
      using v s False to
      by (intro that [of "sendqueue_basetime c" ?m]) (simp_all add: coap_send_confirmed_def Let_def)
  qed
qed

lemma retransmit_backoff:
  assumes "unat (timeout node) \<le> 3000" "retransmit_cnt node < 4"
  obtains q where "coap_retransmit node c =
      c\<lparr>sent := (if send_ok c (length (sent c)) then sent c @ [(node_remote node, node_pdu node)] else sent c),
        sendqueue := coap_insert_node q (sendqueue c)\<rparr>"
    "unat (q_t q) = unat (timeout node) * 2 ^ (retransmit_cnt node + 1)" "retransmit_cnt q = retransmit_cnt node + 1"
    "timeout q = timeout node" "node_remote q = node_remote node" "node_pdu q = node_pdu node"
proof -
  let ?k = "retransmit_cnt node + 1"
  have "(2 :: nat) ^ ?k \<le> 2 ^ 4" using assms(2) by (intro power_increasing) auto
  then have "unat (timeout node) * 2 ^ ?k \<le> 3000 * 2 ^ 4" using assms(1) by (intro mult_le_mono)
  then have small: "unat (timeout node) * 2 ^ ?k < 2 ^ 32" by simp
  then have "take_bit 32 (push_bit ?k (unat (timeout node))) = unat (timeout node) * 2 ^ ?k"
    by (simp add: push_bit_eq_mult take_bit_eq_mod)
  then have p: "unat (push_bit ?k (timeout node)) = unat (timeout node) * 2 ^ ?k"
    unfolding unsigned_push_bit_eq by simp
  then have u: "unat (ucast (push_bit ?k (timeout node)) :: coap_tick) = unat (timeout node) * 2 ^ ?k"
    using small by (simp add: unsigned_ucast_eq take_bit_eq_mod)
  obtain tid where s: "coap_send (node_remote node) (node_pdu node) c =
      (tid, c\<lparr>sent := (if send_ok c (length (sent c)) then sent c @ [(node_remote node, node_pdu node)] else sent c)\<rparr>)"
    by (cases "send_ok c (length (sent c))") (auto simp: coap_send_def)
  show ?thesis
    by (rule that [of "node\<lparr>retransmit_cnt := ?k, q_t := ucast (push_bit ?k (timeout node)), node_id := tid\<rparr>"])
      (use assms(2) s u in \<open>simp_all add: coap_retransmit_def Let_def\<close>)
qed

text \<open>After the last one nothing is sent, and the message is not queued again.\<close>

lemma retransmit_given_up:
  assumes "4 \<le> retransmit_cnt node"
  obtains P where "sendqueue (coap_retransmit node c) = filter P (sendqueue c)" "sent (coap_retransmit node c) = sent c"
proof (cases "hdr_code (node_pdu node) \<ge> 64")
  case True
  obtain P where "sendqueue (coap_handle_failed_notify c (node_remote node) (hdr_token (node_pdu node))) = filter P (sendqueue c)"
    "sent (coap_handle_failed_notify c (node_remote node) (hdr_token (node_pdu node))) = sent c"
    by (rule handle_failed_notify_queue)
  then show ?thesis using that [of P] True assms by (simp add: coap_retransmit_def)
next
  case False
  then show ?thesis using that [of "\<lambda>_. True"] assms by (simp add: coap_retransmit_def)
qed

end
