(* ===== verification/Broker.thy ===== *)
theory Broker
  imports LinkFormatParser CoAPRD LinkedListDB SendQueue
begin

text \<open>
  The broker of \<open>src/src/c/main/coap-broker.c\<close>: its global state and the handlers of the
  resource \<open>ps\<close> and of the topic resources below it. A \<open>coap_resource_t *\<close> parameter is the
  identifier of a resource of the context; a response is the buffer the handler was given,
  returned with what the handler added. The clock does not advance inside one handler.
\<close>

section \<open>State\<close>

datatype mqtt_call =
    Mqtt_connect
  | Mqtt_subscribe cstring
  | Mqtt_unsubscribe cstring
  | Mqtt_publish cstring "char list"
  | Mqtt_disconnect

record broker =
  ctx :: coap_context
  topics :: db
  earliest_topic_max_age :: int
  earliest_data_max_age :: int
  quit :: bool
  mqtt_bridge :: bool
  mqtt_calls :: "mqtt_call list"
  rd_server :: bool
  rd_resources :: "rd_t list"
  clock :: int

definition get_resource :: "nat \<Rightarrow> broker \<Rightarrow> coap_resource result" where
  "get_resource rid st =
     (case find (\<lambda>r. r_id r = rid) (resources (ctx st)) of
        None \<Rightarrow> Inl Use_after_free | Some r \<Rightarrow> Inr r)"

definition mqtt :: "mqtt_call \<Rightarrow> broker \<Rightarrow> broker" where
  "mqtt c st = (if mqtt_bridge st then st\<lparr>mqtt_calls := mqtt_calls st @ [c]\<rparr> else st)"

text \<open>A database operation on the global \<open>topicDB\<close>.\<close>

definition with_db :: "(db \<Rightarrow> ('a \<times> db) result) \<Rightarrow> broker \<Rightarrow> ('a \<times> broker) result" where
  "with_db f st = bindR (f (topics st)) (\<lambda>(x, d). Inr (x, st\<lparr>topics := d\<rparr>))"

text \<open>\<open>unsigned char buf[3]\<close> as the target of \<open>coap_encode_var_bytes\<close>.\<close>

definition encode_buf3 :: "u32 \<Rightarrow> char list result" where
  "encode_buf3 v =
     (let bs = coap_encode_var_bytes v in if length bs > 3 then Inl Out_of_bounds else Inr bs)"

definition add_uint_option :: "nat \<Rightarrow> u32 \<Rightarrow> coap_pdu \<Rightarrow> coap_pdu result" where
  "add_uint_option type v response =
     bindR (encode_buf3 v) (\<lambda>bs. Inr (snd (coap_add_option response type bs)))"

definition add_data :: "char list \<Rightarrow> coap_pdu \<Rightarrow> coap_pdu result" where
  "add_data data response = bindR (coap_add_data response data) (\<lambda>(_, response). Inr response)"

section \<open>GET on a topic\<close>

definition ct_attr_value :: "coap_resource \<Rightarrow> int result" where
  "ct_attr_value resource =
     bindR (coap_find_attr (RValid resource) ''ct'') (\<lambda>a.
     bindR (deref a) (\<lambda>a.
     bindR (str_cstr (attr_value a)) (\<lambda>s. Inr (atoi s))))"

definition hnd_get_topic ::
  "coap_resource \<Rightarrow> coap_address \<Rightarrow> char list option \<Rightarrow> coap_pdu option \<Rightarrow> coap_pdu \<Rightarrow> broker \<Rightarrow>
   (coap_pdu \<times> broker) result" where
  "hnd_get_topic resource peer token request response st =
     bindR (ct_attr_value resource) (\<lambda>ct_attr.
     let ct_opt = Option.bind request (first_option COAP_OPTION_CONTENT_TYPE);
         observed = coap_find_observer resource peer token \<noteq> None;
         is_observe_notification_response = (observed \<and> request = None) in
     if ct_opt \<noteq> None \<and> \<not> is_observe_notification_response \<and> ct_opt \<noteq> Some (word_of_int ct_attr)
     then bindR (reply_phrase 415 response) (\<lambda>response. Inr (response, st))
     else if ct_opt = None \<and> \<not> is_observe_notification_response
     then bindR (reply_phrase 400 response) (\<lambda>response. Inr (response, st))
     else
       bindR (str_cstr (r_uri resource)) (\<lambda>uri.
       bindR (with_db (cloneTopic (Some uri)) st) (\<lambda>(temp, st).
       case temp of
         None \<Rightarrow> bindR (reply_phrase 404 response) (\<lambda>response. Inr (response, st))
       | Some a \<Rightarrow>
           bindR (load a (topics st)) (\<lambda>t.
           bindR
             (if observed
              then add_uint_option COAP_OPTION_OBSERVE (of_nat (observe (ctx st))) response
              else Inr response) (\<lambda>response.
           let remaining_maxage_time = td_data_ma t - clock st in
           bindR
             (case td_data t of
                None \<Rightarrow>
                  bindR (add_uint_option COAP_OPTION_CONTENT_TYPE (word_of_int ct_attr) response)
                    (\<lambda>response. add_data ''No Content''
                       (response\<lparr>hdr_code := COAP_RESPONSE_CODE 204\<rparr>))
              | Some data \<Rightarrow>
                  if remaining_maxage_time < 0 \<and> td_data_ma t \<noteq> 0 then
                    bindR (add_uint_option COAP_OPTION_CONTENT_TYPE (word_of_int ct_attr) response)
                      (\<lambda>response. add_data ''No Content''
                         (response\<lparr>hdr_code := COAP_RESPONSE_CODE 204\<rparr>))
                  else
                    bindR (add_uint_option COAP_OPTION_CONTENT_TYPE (word_of_int ct_attr)
                        (response\<lparr>hdr_code := COAP_RESPONSE_CODE 205\<rparr>)) (\<lambda>response.
                    bindR
                      (if td_data_ma t \<noteq> 0
                       then add_uint_option COAP_OPTION_MAXAGE
                              (word_of_int remaining_maxage_time) response
                       else Inr response)
                      (\<lambda>response. add_data data response))) (\<lambda>response.
           bindR (with_db (freeTopic (Some a)) st) (\<lambda>(_, st). Inr (response, st))))))))"

section \<open>Notification\<close>

text \<open>
  The GET handler of an observable resource, called without a request. The other handlers
  start by reading the request, which \<open>coap_option_iterator_init\<close> and \<open>coap_get_data\<close>
  assert to be there.
\<close>

definition call_notify_handler ::
  "method_handler \<Rightarrow> coap_resource \<Rightarrow> coap_address \<Rightarrow> char list \<Rightarrow> coap_pdu \<Rightarrow> broker \<Rightarrow>
   (coap_pdu \<times> broker) result" where
  "call_notify_handler h r peer token response st =
     (case h of
        Hnd_get_topic \<Rightarrow> hnd_get_topic r peer (Some token) None response st
      | Hnd_get_rd \<Rightarrow> Inr (hnd_get_rd response, st)
      | Hnd_get_resource \<Rightarrow>
          bindR (hnd_get_resource (rd_resources st) r response) (\<lambda>response. Inr (response, st))
      | _ \<Rightarrow> Inl Assert_failed)"

definition coap_new_message_id :: "coap_context \<Rightarrow> nat \<times> coap_context" where
  "coap_new_message_id c =
     (let i = (message_id c + 1) mod 65536 in
      (i div 256 + 256 * (i mod 256), c\<lparr>message_id := i\<rparr>))"

text \<open>
  One round of the loop of \<open>coap_notify_observers\<close>; \<open>notify_non\<close> is the test for a
  non-confirmable notification.
\<close>

definition notify_non :: "coap_resource \<Rightarrow> coap_subscription \<Rightarrow> bool" where
  "notify_non r obs \<longleftrightarrow> r_flags r AND 2 = 0 \<and> non_cnt obs < COAP_OBS_MAX_NON"

definition notify_one ::
  "method_handler \<Rightarrow> coap_resource \<Rightarrow> coap_subscription \<Rightarrow> broker \<Rightarrow>
   (coap_subscription \<times> bool \<times> broker) result" where
  "notify_one h r obs st =
     (if \<not> r_dirty r \<and> \<not> sub_dirty obs then Inr (obs, False, st)
      else
        let obs = obs\<lparr>sub_dirty := False\<rparr> in
        bindR (coap_pdu_init COAP_MESSAGE_CON 0 0 COAP_MAX_PDU_SIZE) (\<lambda>response.
        case coap_add_token response (sub_token obs) of
          (_, None) \<Rightarrow> Inr (obs\<lparr>sub_dirty := True\<rparr>, True, st)
        | (ok, Some response) \<Rightarrow>
            if ok = 0 then Inr (obs\<lparr>sub_dirty := True\<rparr>, True, st)
            else
              let (i, c) = coap_new_message_id (ctx st);
                  non = notify_non r obs;
                  response = response\<lparr>hdr_id := i,
                    hdr_type := (if non then COAP_MESSAGE_NON else COAP_MESSAGE_CON)\<rparr> in
              bindR (call_notify_handler h r (sub_addr obs) (sub_token obs) response
                  (st\<lparr>ctx := c\<rparr>)) (\<lambda>(response, st).
              let con = (hdr_type response = COAP_MESSAGE_CON);
                  (tid, c) = (if con then coap_send_confirmed else coap_send) (sub_addr obs) response (ctx st);
                  obs = obs\<lparr>non_cnt := (if con then 0 else non_cnt obs + 1)\<rparr>;
                  failed = (tid = COAP_INVALID_TID) in
              Inr (obs\<lparr>sub_dirty := failed\<rparr>, failed, st\<lparr>ctx := c\<rparr>))))"

fun notify_loop ::
  "method_handler \<Rightarrow> coap_resource \<Rightarrow> coap_subscription list \<Rightarrow> coap_subscription list \<Rightarrow>
   broker \<Rightarrow> (coap_resource \<times> broker) result" where
  "notify_loop h r seen [] st = Inr (r\<lparr>subscribers := seen\<rparr>, st)"
| "notify_loop h r seen (obs # rest) st =
     bindR (notify_one h (r\<lparr>subscribers := seen @ obs # rest\<rparr>) obs st) (\<lambda>(obs, failed, st).
     notify_loop h (r\<lparr>r_partiallydirty := r_partiallydirty r \<or> failed\<rparr>) (seen @ [obs]) rest st)"

definition coap_notify_observers :: "nat \<Rightarrow> broker \<Rightarrow> broker result" where
  "coap_notify_observers rid st =
     bindR (get_resource rid st) (\<lambda>r.
     bindR
       (if r_observable r \<and> (r_dirty r \<or> r_partiallydirty r) then
          (case r_handler r ! 0 of
             None \<Rightarrow> Inl Assert_failed
           | Some h \<Rightarrow>
               bindR (notify_loop h (r\<lparr>r_partiallydirty := False\<rparr>) [] (subscribers r) st) (\<lambda>(r, st).
               Inr (r, st\<lparr>ctx := (ctx st)\<lparr>observe := observe (ctx st) + 1\<rparr>\<rparr>)))
        else Inr (r, st)) (\<lambda>(r, st).
     Inr (st\<lparr>ctx := update_resource rid (\<lambda>_. r\<lparr>r_dirty := False\<rparr>) (ctx st)\<rparr>)))"

fun notify_each :: "nat list \<Rightarrow> broker \<Rightarrow> broker result" where
  "notify_each [] st = Inr st"
| "notify_each (i # is) st = bindR (coap_notify_observers i st) (\<lambda>st. notify_each is st)"

definition coap_check_notify :: "broker \<Rightarrow> broker result" where
  "coap_check_notify st = notify_each (map r_id (resources (ctx st))) st"

section \<open>PUT on a topic\<close>

definition note_data_max_age :: "int \<Rightarrow> broker \<Rightarrow> broker" where
  "note_data_max_age ma st =
     (if ma < earliest_data_max_age st \<and> ma \<noteq> 0 then st\<lparr>earliest_data_max_age := ma\<rparr> else st)"

text \<open>
  The datum as \<open>setTopic\<close> reads it (\<open>snprintf\<close> with \<open>%s\<close>, when there is one and its size is
  positive): the payload of the request, which the block of the message ends. The functions
  of the database are given the string, so that the fault shows here; between the call and
  the copy nothing can fault when the topic is there.
\<close>

definition data_arg :: "bool \<Rightarrow> nat \<Rightarrow> char list \<Rightarrow> cstring option result" where
  "data_arg has_data data_size data =
     (if has_data \<and> data_size > 0 then bindR (read_string data) (\<lambda>s. Inr (Some s)) else Inr None)"

definition hnd_put_topic :: "nat \<Rightarrow> coap_pdu \<Rightarrow> coap_pdu \<Rightarrow> broker \<Rightarrow> (coap_pdu \<times> broker) result"
  where
  "hnd_put_topic rid request response st =
     (let (has_data, size, data) = coap_get_data request;
          ma_opt = first_option COAP_OPTION_MAXAGE request;
          ct_opt = first_option COAP_OPTION_CONTENT_TYPE request;
          ma_opt_val_time_t = (case ma_opt of None \<Rightarrow> 0 | Some v \<Rightarrow> int (unat v) + clock st) in
      case ct_opt of
        None \<Rightarrow> bindR (reply_phrase 400 response) (\<lambda>response. Inr (response, st))
      | Some ct \<Rightarrow>
          bindR (get_resource rid st) (\<lambda>resource.
          bindR (ct_attr_value resource) (\<lambda>ct_attr.
          if word_of_int ct_attr \<noteq> ct
          then bindR (reply_phrase 415 response) (\<lambda>response. Inr (response, st))
          else
            bindR (str_cstr (r_uri resource)) (\<lambda>uri.
            bindR (with_db (cloneTopic (Some uri)) st) (\<lambda>(temp, st).
            case temp of
              None \<Rightarrow> bindR (reply_phrase 404 response) (\<lambda>response. Inr (response, st))
            | Some a \<Rightarrow>
                bindR (data_arg has_data size data) (\<lambda>datum.
                bindR (with_db (updateTopicData (Some uri) ma_opt_val_time_t datum size) st)
                  (\<lambda>(updated, st).
                if updated = 0 then Inr (response, st)
                else
                  let st = note_data_max_age ma_opt_val_time_t st;
                      st = mqtt (Mqtt_publish uri data) st;
                      st = st\<lparr>ctx := update_resource rid (\<lambda>r. r\<lparr>r_dirty := True\<rparr>) (ctx st)\<rparr> in
                  bindR (coap_check_notify st) (\<lambda>st.
                  bindR (reply_phrase 204 response) (\<lambda>response.
                  bindR (with_db (freeTopic (Some a)) st) (\<lambda>(_, st). Inr (response, st)))))))))))"

section \<open>DELETE on a topic\<close>

text \<open>The part of the loops over all resources that removes one of them.\<close>

definition remove_resource :: "cstring \<Rightarrow> coap_resource \<Rightarrow> broker \<Rightarrow> broker result" where
  "remove_resource uri r st =
     (let st = mqtt (Mqtt_unsubscribe uri) st in
      bindR (coapFreeResource (RValid r)) (\<lambda>_. Inr (st\<lparr>ctx := RESOURCES_DELETE (ctx st) (r_id r)\<rparr>)))"

fun delete_subtopics :: "cstring \<Rightarrow> coap_resource list \<Rightarrow> nat \<Rightarrow> broker \<Rightarrow> (nat \<times> broker) result" where
  "delete_subtopics sub [] counter st = Inr (counter, st)"
| "delete_subtopics sub (r # rs) counter st =
     bindR (str_cstr (r_uri r)) (\<lambda>uri.
     if strstr uri sub then
       bindR (with_db (deleteTopic (Some uri)) st) (\<lambda>(deleted, st).
       if deleted \<noteq> 0
       then bindR (remove_resource uri r st) (\<lambda>st. delete_subtopics sub rs (counter + 1) st)
       else delete_subtopics sub rs counter st)
     else delete_subtopics sub rs counter st)"

fun count_digits :: "nat \<Rightarrow> nat" where
  "count_digits n = (if n = 0 then 0 else Suc (count_digits (n div 10)))"

declare count_digits.simps [simp del]

definition hnd_delete_topic :: "nat \<Rightarrow> coap_pdu \<Rightarrow> broker \<Rightarrow> (coap_pdu \<times> broker) result" where
  "hnd_delete_topic rid response st =
     bindR (get_resource rid st) (\<lambda>resource.
     bindR (str_cstr (r_uri resource)) (\<lambda>uri.
     let deleted_sub_uri = snprintf_s (str_length (r_uri resource) + 2) (uri @ ''/'') in
     bindR (with_db (deleteTopic (Some uri)) st) (\<lambda>(counter, st).
     bindR
       (if counter \<noteq> 0 then
          bindR (remove_resource uri resource st) (\<lambda>st.
          delete_subtopics deleted_sub_uri (resources (ctx st)) counter st)
        else Inr (counter, st)) (\<lambda>(counter, st).
     let response = response\<lparr>hdr_code := COAP_RESPONSE_CODE (if counter \<noteq> 0 then 202 else 404)\<rparr>;
         counter_digit = count_digits (if counter \<noteq> 0 then counter else 1);
         payload_data = snprintf_s (counter_digit + 1) (show_nat counter) in
     bindR (add_uint_option COAP_OPTION_CONTENT_TYPE COAP_MEDIATYPE_TEXT_PLAIN response) (\<lambda>response.
     bindR (add_data payload_data response) (\<lambda>response.
     Inr (response, st)))))))"

end
