(* ===== verification/BrokerRoot.thy ===== *)
theory BrokerRoot
  imports Broker
begin

text \<open>
  The handlers of the resource \<open>ps\<close> (\<open>hnd_get_broker\<close>, \<open>hnd_post_broker\<close>,
  \<open>hnd_delete_broker\<close>) and the creation of topics below another topic
  (\<open>hnd_post_topic\<close>) of \<open>src/src/c/main/coap-broker.c\<close>.
\<close>

section \<open>Creating a topic\<close>

text \<open>The expiry time a Max-Age option gives: none or zero means never.\<close>

definition abs_topic_max_age :: "u32 option \<Rightarrow> int \<Rightarrow> int" where
  "abs_topic_max_age ma now =
     (case ma of None \<Rightarrow> 0 | Some v \<Rightarrow> if unat v < 1 then 0 else now + int (unat v))"

definition note_topic_max_age :: "int \<Rightarrow> broker \<Rightarrow> broker" where
  "note_topic_max_age ma st =
     (if ma < earliest_topic_max_age st \<and> ma \<noteq> 0 then st\<lparr>earliest_topic_max_age := ma\<rparr> else st)"

text \<open>The check of a \<open>ct\<close> attribute: digits only, and a value of at most 65535.\<close>

definition ct_value_valid :: "str \<Rightarrow> bool result" where
  "ct_value_valid val =
     bindR (str_bytes val) (\<lambda>bs.
     if \<forall>c\<in>set bs. isdigit c then
       bindR (str_cstr val) (\<lambda>s. let v = atoi s in Inr (\<not> (v < 0 \<or> v > 65535)))
     else Inr False)"

fun find_uri :: "cstring \<Rightarrow> coap_resource list \<Rightarrow> bool result" where
  "find_uri uri [] = Inr False"
| "find_uri uri (r # rs) =
     bindR (str_is (r_uri r) uri) (\<lambda>eq. if eq then Inr True else find_uri uri rs)"

text \<open>The branch for a topic that is already there.\<close>

definition topic_exists ::
  "cstring \<Rightarrow> coap_resource \<Rightarrow> int \<Rightarrow> coap_pdu \<Rightarrow> broker \<Rightarrow> (coap_pdu \<times> broker) result" where
  "topic_exists uri new_resource abs_topic_ma response st =
     bindR (with_db (updateTopicInfo (Some uri) abs_topic_ma) (note_topic_max_age abs_topic_ma st))
       (\<lambda>(_, st).
     bindR (coapFreeResource (RValid new_resource)) (\<lambda>_.
     bindR (reply_phrase 403 response) (\<lambda>response. Inr (response, st))))"

text \<open>The branch that creates it.\<close>

definition register_topic_handlers :: "coap_resource \<Rightarrow> coap_resource result" where
  "register_topic_handlers r =
     bindR (coap_register_handler r COAP_REQUEST_GET Hnd_get_topic) (\<lambda>r.
     bindR (coap_register_handler r COAP_REQUEST_POST Hnd_post_topic) (\<lambda>r.
     bindR (coap_register_handler r COAP_REQUEST_PUT Hnd_put_topic) (\<lambda>r.
     coap_register_handler r COAP_REQUEST_DELETE Hnd_delete_topic)))"

definition topic_created ::
  "cstring \<Rightarrow> coap_resource \<Rightarrow> int \<Rightarrow> coap_pdu \<Rightarrow> broker \<Rightarrow> (coap_pdu \<times> broker) result" where
  "topic_created uri new_resource abs_topic_ma response st =
     (let st = mqtt (Mqtt_subscribe uri) (note_topic_max_age abs_topic_ma st) in
      bindR (register_topic_handlers new_resource) (\<lambda>r.
      let r = r\<lparr>r_observable := True\<rparr>;
          st = st\<lparr>ctx := coap_add_resource (ctx st) r\<rparr> in
      bindR (str_bytes (r_uri r)) (\<lambda>location.
      let response = snd (coap_add_option response COAP_OPTION_LOCATION_PATH location) in
      bindR (with_db (addTopicWEC (Some uri) (str_length (r_uri r)) abs_topic_ma) st) (\<lambda>(_, st).
      bindR (reply_phrase 201 response) (\<lambda>response. Inr (response, st))))))"

text \<open>
  The decisions after the parser, on its status and the resource it made. Content formats
  other than link-format free the resource and become a malformed request; so does a
  missing \<open>ct\<close> attribute.
\<close>

definition post_parsed ::
  "nat \<Rightarrow> resource_ptr \<Rightarrow> int \<Rightarrow> int \<Rightarrow> coap_pdu \<Rightarrow> broker \<Rightarrow> (coap_pdu \<times> broker) result" where
  "post_parsed status new_resource ct_opt_val_integer abs_topic_ma response st =
     bindR
       (if ct_opt_val_integer \<noteq> 40
        then bindR (coapFreeResource new_resource) (\<lambda>_. Inr (0, RDangling))
        else Inr (status, new_resource)) (\<lambda>(status, new_resource).
     if status = 0 then bindR (reply_phrase 400 response) (\<lambda>response. Inr (response, st))
     else
       bindR (coap_find_attr new_resource ''ct'') (\<lambda>new_resource_attr.
       case new_resource_attr of
         None \<Rightarrow>
           bindR (coapFreeResource new_resource) (\<lambda>_.
           bindR (reply_phrase 400 response) (\<lambda>response. Inr (response, st)))
       | Some attr \<Rightarrow>
           bindR (ct_value_valid (attr_value attr)) (\<lambda>valid.
           if \<not> valid then
             bindR (coapFreeResource new_resource) (\<lambda>_.
             bindR (reply_phrase 406 response) (\<lambda>response. Inr (response, st)))
           else
             (case new_resource of
                RNull \<Rightarrow> Inl Null_deref
              | RDangling \<Rightarrow> Inl Use_after_free
              | RValid r \<Rightarrow>
                  bindR (str_cstr (r_uri r)) (\<lambda>uri.
                  bindR (find_uri uri (resources (ctx st))) (\<lambda>found_resource.
                  if found_resource then topic_exists uri r abs_topic_ma response st
                  else topic_created uri r abs_topic_ma response st))))))"

definition hnd_post_broker :: "nat \<Rightarrow> coap_pdu \<Rightarrow> coap_pdu \<Rightarrow> broker \<Rightarrow> (coap_pdu \<times> broker) result"
  where
  "hnd_post_broker rid request response st =
     (let (_, size, data) = coap_get_data request in
      bindR (payload_string request) (\<lambda>s.
      let data_safe = snprintf_s (size + 1) s in
      bindR (get_resource rid st) (\<lambda>resource.
      bindR (parseLinkFormat data_safe resource RNull) (\<lambda>(status, new_resource).
      let ct_opt_val_integer =
            (case first_option COAP_OPTION_CONTENT_TYPE request of
               None \<Rightarrow> -1 | Some v \<Rightarrow> to_int32 (int (unat v)));
          abs_topic_ma = abs_topic_max_age (first_option COAP_OPTION_MAXAGE request) (clock st) in
      post_parsed status new_resource ct_opt_val_integer abs_topic_ma response st))))"

text \<open>The code of \<open>hnd_post_topic\<close> is a second copy of that of \<open>hnd_post_broker\<close>.\<close>

definition hnd_post_topic :: "nat \<Rightarrow> coap_pdu \<Rightarrow> coap_pdu \<Rightarrow> broker \<Rightarrow> (coap_pdu \<times> broker) result"
  where
  "hnd_post_topic rid request response st =
     (let (_, size, data) = coap_get_data request in
      bindR (payload_string request) (\<lambda>s.
      let data_safe = snprintf_s (size + 1) s in
      bindR (get_resource rid st) (\<lambda>resource.
      bindR (parseLinkFormat data_safe resource RNull) (\<lambda>(status, new_resource).
      let ct_opt_val_integer =
            (case first_option COAP_OPTION_CONTENT_TYPE request of
               None \<Rightarrow> -1 | Some v \<Rightarrow> to_int32 (int (unat v)));
          abs_topic_ma = abs_topic_max_age (first_option COAP_OPTION_MAXAGE request) (clock st) in
      post_parsed status new_resource ct_opt_val_integer abs_topic_ma response st))))"

definition hnd_delete_broker :: "coap_pdu \<Rightarrow> broker \<Rightarrow> coap_pdu \<times> broker" where
  "hnd_delete_broker response st = (response, st\<lparr>quit := True\<rparr>)"

section \<open>Discovery\<close>

text \<open>
  The loop over the options of a request for one resource; an option is its type, its value
  and the bytes behind the value. The result is how many queries match, or \<open>None\<close> for a
  malformed one. A query the parser does not even measure leaves two pointers
  uninitialised that the handler frees.
\<close>

fun match_queries :: "coap_resource \<Rightarrow> (nat \<times> char list \<times> char list) list \<Rightarrow> nat \<Rightarrow> nat option result" where
  "match_queries r [] found_query = Inr (Some found_query)"
| "match_queries r ((type, val, rest) # opts) found_query =
     (if type = COAP_OPTION_URI_QUERY then
        bindR (parseOptionURIQuery (val @ rest) (length val)) (\<lambda>status.
        case status of
          Query_malformed \<Rightarrow> Inl Uninitialised
        | Query_rejected \<Rightarrow> Inr None
        | Query_ok query_name query_value \<Rightarrow>
            bindR (coap_find_attr (RValid r) query_name) (\<lambda>temp_attr.
            case temp_attr of
              None \<Rightarrow> match_queries r opts found_query
            | Some a \<Rightarrow>
                bindR (if str_s (attr_value a) = None then Inr None
                       else bindR (str_cstr (attr_value a)) (\<lambda>s. Inr (Some s))) (\<lambda>s.
                match_queries r opts
                  (if compareString s (Some query_value) = 1 then found_query + 1
                   else found_query))))
      else match_queries r opts found_query)"

text \<open>The link of one resource, in an array of \<open>calculateResourceLF\<close> bytes and a terminator.\<close>

definition resource_link :: "coap_resource \<Rightarrow> cstring result" where
  "resource_link r =
     (let response_size = calculateResourceLF r in
      bindR (coap_print_link r response_size 0) (\<lambda>(response_data, _, _, _).
      if length response_data < response_size \<and> NUL \<notin> set response_data then Inl Uninitialised
      else Inr (cstr (response_data @ [NUL]))))"

datatype discovery = Bad_query | Links nat "cstring option"

fun discover ::
  "(nat \<times> char list \<times> char list) list \<Rightarrow> nat \<Rightarrow> coap_resource list \<Rightarrow> nat \<Rightarrow> cstring option \<Rightarrow> discovery result"
  where
  "discover opts requested_query [] counter links = Inr (Links counter links)"
| "discover opts requested_query (r # rs) counter links =
     bindR (str_cstr (r_uri r)) (\<lambda>uri.
     if length uri > 3 \<and> uri ! 0 = CHR ''p'' \<and> uri ! 1 = CHR ''s'' \<and> uri ! 2 = CHR ''/'' then
       bindR (match_queries r opts 0) (\<lambda>res.
       case res of
         None \<Rightarrow> Inr Bad_query
       | Some found_query \<Rightarrow>
           if requested_query = found_query then
             bindR (resource_link r) (\<lambda>response_data.
             let counter = counter + 1;
                 links = (if counter = 1 then dynamicConcatenate links (Some response_data)
                          else dynamicConcatenate (dynamicConcatenate links (Some '',''))
                                 (Some response_data)) in
             discover opts requested_query rs counter links)
           else discover opts requested_query rs counter links)
     else discover opts requested_query rs counter links)"

definition send_links :: "coap_pdu option \<Rightarrow> cstring \<Rightarrow> coap_pdu \<Rightarrow> coap_pdu result" where
  "send_links request data response =
     (case request of
        None \<Rightarrow> Inr (response\<lparr>hdr_code := COAP_RESPONSE_CODE 205\<rparr>)
      | Some req \<Rightarrow>
          (case coap_get_block request COAP_OPTION_BLOCK2 of
             (True, block) \<Rightarrow>
               (let (res, block, response) =
                  coap_write_block_opt block COAP_OPTION_BLOCK2 response (length data) in
                if res = -2 then reply_phrase 400 response
                else if res = -1 then Inl Assert_failed
                else if res = -3 then reply_phrase 500 response
                else
                  bindR (coap_add_block response data (blk_num block) (blk_szx block))
                    (\<lambda>(_, response). Inr (response\<lparr>hdr_code := COAP_RESPONSE_CODE 205\<rparr>)))
           | (False, block) \<Rightarrow>
               bindR (coap_add_data response data) (\<lambda>(ok, response).
               bindR
                 (if ok = 0 then
                    (let (_, block, response) =
                       coap_write_block_opt (block\<lparr>blk_szx := 6\<rparr>) COAP_OPTION_BLOCK2 response
                         (length data) in
                     bindR (coap_add_block response data (blk_num block) (blk_szx block))
                       (\<lambda>(_, response). Inr response))
                  else Inr response)
                 (\<lambda>response. Inr (response\<lparr>hdr_code := COAP_RESPONSE_CODE 205\<rparr>)))))"

definition hnd_get_broker :: "coap_pdu \<Rightarrow> coap_pdu \<Rightarrow> broker \<Rightarrow> (coap_pdu \<times> broker) result" where
  "hnd_get_broker request response st =
     (let opts = pdu_option_tails request;
          requested_query = length (filter (\<lambda>(ty, _). ty = COAP_OPTION_URI_QUERY) opts) in
      bindR (discover opts requested_query (resources (ctx st)) 0 None) (\<lambda>res.
      bindR
        (case res of
           Bad_query \<Rightarrow> reply_phrase 400 response
         | Links counter links \<Rightarrow>
             if counter > 0 then
               bindR (deref links) (\<lambda>data.
               bindR (add_uint_option COAP_OPTION_CONTENT_TYPE
                        COAP_MEDIATYPE_APPLICATION_LINK_FORMAT response) (\<lambda>response.
               send_links (Some request) data response))
             else reply_phrase 404 response)
        (\<lambda>response. Inr (response, st))))"

end
