(* ===== verification/BrokerServer.thy ===== *)
theory BrokerServer
  imports BrokerRoot
begin

text \<open>
  What runs around the handlers: the expiry monitors, the MQTT callback, start-up and
  shutdown of \<open>src/src/c/main/coap-broker.c\<close>.
\<close>

section \<open>Expiry monitors\<close>

definition on_topics :: "(db \<Rightarrow> db result) \<Rightarrow> broker \<Rightarrow> broker result" where
  "on_topics f st = bindR (f (topics st)) (\<lambda>d. Inr (st\<lparr>topics := d\<rparr>))"

text \<open>The next earliest expiry time, as both monitors collect it.\<close>

definition next_earliest :: "int \<Rightarrow> int \<Rightarrow> int \<Rightarrow> int" where
  "next_earliest ma earliest acc = (if ma \<noteq> 0 \<and> ma \<noteq> earliest \<and> ma < acc then ma else acc)"

fun data_monitor_loop :: "nat \<Rightarrow> addr option \<Rightarrow> int \<Rightarrow> broker \<Rightarrow> (int \<times> broker) result" where
  "data_monitor_loop 0 currentPtr acc st = Inl Diverges"
| "data_monitor_loop (Suc k) currentPtr acc st =
     (case currentPtr of
        None \<Rightarrow> Inr (acc, st)
      | Some c \<Rightarrow>
          bindR (on_topics (topicNodeRLock c) st) (\<lambda>st.
          bindR (load c (topics st)) (\<lambda>n.
          bindR (on_topics (topicDataRLock c) st) (\<lambda>st.
          let acc = next_earliest (td_data_ma n) (earliest_data_max_age st) acc in
          bindR (on_topics (topicDataUnlock c) st) (\<lambda>st.
          bindR (on_topics (topicNodeUnlock c) st) (\<lambda>st.
          bindR
            (if td_data_ma n < clock st \<and> td_data_ma n \<noteq> 0
             then with_db (deleteTopicData (Some (td_path n))) st
             else Inr (0, st)) (\<lambda>(_, st).
          data_monitor_loop k (nextPtr n) acc st)))))))"

definition topicDataMAMonitor :: "broker \<Rightarrow> broker result" where
  "topicDataMAMonitor st =
     (if topicDB (topics st) = None then Inr st
      else if earliest_data_max_age st < clock st then
        bindR (data_monitor_loop (Suc (brk (topics st))) (topicDB (topics st)) LONG_MAX st)
          (\<lambda>(next_earliest_data_ma, st). Inr (st\<lparr>earliest_data_max_age := next_earliest_data_ma\<rparr>))
      else Inr st)"

text \<open>
  The loop over the resources for an expired topic at node \<open>c\<close>: every match unlocks the
  node, and the first one whose topic could be deleted ends the loop.
\<close>

fun expire_resource :: "addr \<Rightarrow> cstring \<Rightarrow> coap_resource list \<Rightarrow> broker \<Rightarrow> broker result" where
  "expire_resource c path [] st = Inr st"
| "expire_resource c path (r # rs) st =
     bindR (str_is (r_uri r) path) (\<lambda>eq.
     if eq then
       bindR (on_topics (topicDataUnlock c) st) (\<lambda>st.
       bindR (on_topics (topicNodeUnlock c) st) (\<lambda>st.
       bindR (with_db (deleteTopic (Some path)) st) (\<lambda>(deleted, st).
       if deleted \<noteq> 0 then remove_resource path r st
       else expire_resource c path rs st)))
     else expire_resource c path rs st)"

fun topic_monitor_loop :: "nat \<Rightarrow> addr option \<Rightarrow> int \<Rightarrow> broker \<Rightarrow> (int \<times> broker) result" where
  "topic_monitor_loop 0 currentPtr acc st = Inl Diverges"
| "topic_monitor_loop (Suc k) currentPtr acc st =
     (case currentPtr of
        None \<Rightarrow> Inr (acc, st)
      | Some c \<Rightarrow>
          bindR (on_topics (topicNodeRLock c) st) (\<lambda>st.
          bindR (load c (topics st)) (\<lambda>n.
          bindR (on_topics (topicDataRLock c) st) (\<lambda>st.
          let acc = next_earliest (td_topic_ma n) (earliest_topic_max_age st) acc in
          bindR
            (if td_topic_ma n < clock st \<and> td_topic_ma n \<noteq> 0
             then expire_resource c (td_path n) (resources (ctx st)) st
             else bindR (on_topics (topicDataUnlock c) st) (\<lambda>st. on_topics (topicNodeUnlock c) st))
            (\<lambda>st. topic_monitor_loop k (nextPtr n) acc st)))))"

definition topicMAMonitor :: "broker \<Rightarrow> broker result" where
  "topicMAMonitor st =
     (if topicDB (topics st) = None then Inr st
      else if earliest_topic_max_age st < clock st then
        bindR (topic_monitor_loop (Suc (brk (topics st))) (topicDB (topics st)) LONG_MAX st)
          (\<lambda>(next_earliest_topic_ma, st). Inr (st\<lparr>earliest_topic_max_age := next_earliest_topic_ma\<rparr>))
      else Inr st)"

section \<open>MQTT callback\<close>

text \<open>
  \<open>msgarrvd\<close>: the payload of a message is a block of exactly its length, which is read as a
  string before the clone is looked at.
\<close>

fun msgarrvd_loop :: "coap_resource list \<Rightarrow> cstring \<Rightarrow> char list \<Rightarrow> broker \<Rightarrow> (nat \<times> broker) result"
  where
  "msgarrvd_loop [] topicName payload st = Inr (0, st)"
| "msgarrvd_loop (r # rs) topicName payload st =
     bindR (str_is (r_uri r) topicName) (\<lambda>eq.
     if eq then
       bindR (with_db (cloneTopic (Some topicName)) st) (\<lambda>(temp_data, st).
       bindR (read_string payload) (\<lambda>s.
       let temp_payload = snprintf_s (length payload + 1) s in
       bindR (deref temp_data) (\<lambda>a.
       bindR (load a (topics st)) (\<lambda>t.
       bindR
         (if compareString (td_data t) (Some temp_payload) \<noteq> 1 then
            bindR (with_db (updateTopicData (Some topicName) 0 (Some s) (length payload)) st)
              (\<lambda>(_, st).
            coap_check_notify
              (st\<lparr>ctx := update_resource (r_id r) (\<lambda>r. r\<lparr>r_dirty := True\<rparr>) (ctx st)\<rparr>))
          else Inr st) (\<lambda>st.
       bindR (with_db (freeTopic (Some a)) st) (\<lambda>(_, st). Inr (1, st)))))))
     else msgarrvd_loop rs topicName payload st)"

definition msgarrvd :: "cstring \<Rightarrow> char list \<Rightarrow> broker \<Rightarrow> (nat \<times> broker) result" where
  "msgarrvd topicName payload st = msgarrvd_loop (resources (ctx st)) topicName payload st"

section \<open>Start-up and shutdown\<close>

text \<open>
  Command line: the options \<open>getopt\<close> delivers, with their arguments. \<open>None\<close> is the usage
  message and \<open>exit(1)\<close>; the flags are those of the MQTT bridge and the resource directory.
\<close>

fun parse_args :: "(char \<times> cstring) list \<Rightarrow> bool \<Rightarrow> bool \<Rightarrow> int \<Rightarrow> (bool \<times> bool \<times> int) option" where
  "parse_args [] mq rd log_level = Some (mq, rd, log_level)"
| "parse_args ((opt, optarg) # args) mq rd log_level =
     (if opt = CHR ''e'' then
        (if compareString (Some optarg) (Some ''mqtt'') = 1 then parse_args args True rd log_level
         else if compareString (Some optarg) (Some ''rd'') = 1 then parse_args args mq True log_level
         else None)
      else if opt = CHR ''v'' then parse_args args mq rd (to_int32 (strtol10 optarg))
      else None)"

definition broker_path :: cstring where
  "broker_path = ''ps''"

definition broker_resource :: "coap_resource result" where
  "broker_resource =
     bindR (coap_resource_init (literal broker_path (length broker_path)) 0) (\<lambda>r.
     bindR (coap_register_handler r COAP_REQUEST_GET Hnd_get_broker) (\<lambda>r.
     bindR (coap_register_handler r COAP_REQUEST_POST Hnd_post_broker) (\<lambda>r.
     bindR (coap_register_handler r COAP_REQUEST_DELETE Hnd_delete_broker) (\<lambda>r.
     let r = coap_add_attr r (literal ''ct'' 2) (literal ''40'' 2) 0;
         r = coap_add_attr r (literal ''rt'' 2) (literal ''core.ps'' 7) 0 in
     Inr r))))"

text \<open>The context that \<open>coap_new_context\<close> makes; the clock starts with it.\<close>

definition coap_new_context :: "nat \<Rightarrow> (nat \<Rightarrow> bool) \<Rightarrow> (nat \<Rightarrow> nat) \<Rightarrow> coap_context" where
  "coap_new_context mid net rnd =
     \<lparr>known_options = coap_option_filter_clear, resources = [], next_id = 0, message_id = mid, observe = 0,
      sendqueue = [], sendqueue_basetime = 0, sent = [], send_ok = net, lib_ticks = 0, prng = rnd\<rparr>"

text \<open>
  Initialisation up to the main loop, with room for \<open>mem\<close> topic nodes, a first message
  identifier (random in the library), a network and random bytes. \<open>rc\<close> is the result of
  \<open>MQTTClient_connect\<close>, which is called when the bridge is on, and \<open>sock\<close> says whether
  \<open>coap_new_context\<close> got its memory and its endpoint. The result \<open>None\<close> is the call of
  \<open>exit\<close>, after a usage error, a failed connection, or without a context.
\<close>

abbreviation (input) MQTTCLIENT_SUCCESS :: int where "MQTTCLIENT_SUCCESS \<equiv> 0"

definition main_init ::
  "(char \<times> cstring) list \<Rightarrow> int \<Rightarrow> bool \<Rightarrow> nat \<Rightarrow> nat \<Rightarrow> (nat \<Rightarrow> bool) \<Rightarrow> (nat \<Rightarrow> nat) \<Rightarrow> int \<Rightarrow>
   broker option result" where
  "main_init args rc sock mem mid net rnd now =
     (case parse_args args False False 4 of
        None \<Rightarrow> Inr None
      | Some (mq, rd, _) \<Rightarrow>
          if mq \<and> rc \<noteq> MQTTCLIENT_SUCCESS then Inr None
          else if \<not> sock then Inr None
          else
          let c = coap_new_context mid net rnd in
          bindR (if rd then init_rd_resources c else Inr c) (\<lambda>c.
          bindR broker_resource (\<lambda>r.
          Inr (Some
            \<lparr>ctx = coap_add_resource c r, topics = db_init mem,
             earliest_topic_max_age = LONG_MAX, earliest_data_max_age = LONG_MAX,
             quit = False, mqtt_bridge = mq,
             mqtt_calls = (if mq then [Mqtt_connect] else []),
             rd_server = rd, rd_resources = [], clock = now\<rparr>))))"

text \<open>
  The loop that both \<open>main\<close> and \<open>handleSIGINT\<close> run over the resources before they free the
  context. The test is meant to keep what is not below \<open>ps/\<close>; its conjunction lets a
  resource pass as soon as one of the three characters agrees.
\<close>

fun cleanup_resources :: "coap_resource list \<Rightarrow> broker \<Rightarrow> broker result" where
  "cleanup_resources [] st = Inr st"
| "cleanup_resources (r # rs) st =
     bindR (str_is (r_uri r) broker_path) (\<lambda>eq.
     if eq then cleanup_resources rs st
     else
       bindR (str_cstr (r_uri r)) (\<lambda>uri.
       if length uri < 3 then cleanup_resources rs st
       else if uri ! 0 \<noteq> CHR ''p'' \<and> uri ! 1 \<noteq> CHR ''s'' \<and> uri ! 2 \<noteq> CHR ''/''
       then cleanup_resources rs st
       else
         bindR (with_db (deleteTopic (Some uri)) st) (\<lambda>(_, st).
         bindR (remove_resource uri r st) (\<lambda>st. cleanup_resources rs st))))"

fun free_all :: "coap_resource list \<Rightarrow> unit result" where
  "free_all [] = Inr ()"
| "free_all (r # rs) = bindR (coap_free_resource r) (\<lambda>_. free_all rs)"

definition coap_delete_all_resources :: "coap_context \<Rightarrow> coap_context result" where
  "coap_delete_all_resources c = bindR (free_all (resources c)) (\<lambda>_. Inr (c\<lparr>resources := []\<rparr>))"

text \<open>\<open>coap_free_context\<close> up to the release of the endpoint and of the context itself.\<close>

definition coap_free_context :: "coap_context \<Rightarrow> coap_context result" where
  "coap_free_context c = coap_delete_all_resources (c\<lparr>sendqueue := []\<rparr>)"

definition main_cleanup :: "broker \<Rightarrow> broker result" where
  "main_cleanup st =
     bindR (cleanup_resources (resources (ctx st)) st) (\<lambda>st.
     bindR (coap_free_context (ctx st)) (\<lambda>c.
     Inr (mqtt Mqtt_disconnect (st\<lparr>ctx := c\<rparr>))))"

definition handleSIGINT :: "broker \<Rightarrow> broker result" where
  "handleSIGINT st =
     (let st = st\<lparr>quit := True\<rparr> in
      bindR (cleanup_resources (resources (ctx st)) st) (\<lambda>st.
      bindR (coap_free_context (ctx st)) (\<lambda>c.
      Inr (mqtt Mqtt_disconnect (st\<lparr>ctx := c\<rparr>)))))"

end
