(* ===== verification/WellKnown.thy ===== *)
theory WellKnown
  imports CoapResource
begin

text \<open>
  The answer to a GET on \<open>.well-known/core\<close>: selection and printing of the resources
  (\<open>match\<close> and \<open>coap_print_wellknown\<close> of \<open>resource.c\<close>) and the response with its blocks
  (\<open>coap_wellknown_response\<close> of \<open>net.c\<close>). A query option is the list of the bytes from where
  it starts to the end of its message.
\<close>

section \<open>Matching a value\<close>

text \<open>
  The loop over the words of a text of \<open>n\<close> bytes; \<open>bs\<close> are the bytes of its block. A prefix
  longer than what is left of the text is compared with what comes after it.
\<close>

function match_words :: "char list \<Rightarrow> bool \<Rightarrow> char list \<Rightarrow> nat \<Rightarrow> bool result" where
  "match_words pat match_prefix bs n =
     (if n = 0 then Inr False
      else
        let k = length (takeWhile (\<lambda>c. c \<noteq> CHR '' '') (take n bs)) in
        if k = length bs \<and> k < n then Inl Out_of_bounds
        else if (match_prefix \<or> length pat = k) \<and> length bs < length pat then Inl Out_of_bounds
        else if (match_prefix \<or> length pat = k) \<and> take (length pat) bs = pat then Inr True
        else if k = n then Inr False
        else match_words pat match_prefix (drop (k + 1) bs) (n - (k + 1)))"
  by pat_completeness auto
termination
  by (relation "measure (\<lambda>(_, _, _, n). n)") auto

declare match_words.simps [simp del]

definition match :: "str \<Rightarrow> char list \<Rightarrow> bool \<Rightarrow> bool \<Rightarrow> bool result" where
  "match text pat match_prefix match_substring =
     (if str_length text < length pat then Inr False
      else if match_substring then
        (if str_length text = 0 then Inr False
         else bindR (deref (str_s text)) (\<lambda>bs. match_words pat match_prefix bs (str_length text)))
      else if match_prefix \<or> length pat = str_length text then
        (if pat = [] then Inr True
         else bindR (deref (str_s text)) (\<lambda>bs.
           if length bs < length pat then Inl Out_of_bounds else Inr (take (length pat) bs = pat)))
      else Inr False)"

section \<open>The query filter\<close>

record wkc_query =
  resource_param :: "char list"
  query_pattern :: "char list"
  wkc_uri :: bool
  wkc_prefix :: bool
  wkc_substring :: bool

definition no_query :: wkc_query where
  "no_query = \<lparr>resource_param = [], query_pattern = [], wkc_uri = False, wkc_prefix = False, wkc_substring = False\<rparr>"

text \<open>
  The first byte of the pattern is looked at even when there is no pattern, which reads the
  byte behind the option.
\<close>

definition split_query :: "char list option \<Rightarrow> wkc_query result" where
  "split_query query_filter =
     (case query_filter of
        None \<Rightarrow> Inr no_query
      | Some opt \<Rightarrow>
          let len = coap_opt_length opt; val = the (coap_opt_value opt);
              param = takeWhile (\<lambda>c. c \<noteq> CHR ''='') (take len val);
              n = len - (length param + 1);
              rest = drop (length param + 1) val;
              uri = (param = ''href'') in
          if length param \<ge> len then Inr (no_query\<lparr>resource_param := param\<rparr>)
          else if rest = [] then Inl Out_of_bounds
          else if hd rest = CHR ''/'' \<and> uri \<and> n = 0 then Inl Out_of_bounds
          else
            let pat = (if hd rest = CHR ''/'' \<and> uri then take (n - 1) (tl rest) else take n rest);
                star = (pat \<noteq> [] \<and> last pat = CHR ''*'') in
            Inr \<lparr>resource_param = param, query_pattern = (if star then butlast pat else pat), wkc_uri = uri,
                 wkc_prefix = star, wkc_substring = param \<in> {''rt'', ''if'', ''rel''}\<rparr>)"

text \<open>The value of an attribute without its quotation marks; lengths are those of a \<open>size_t\<close>.\<close>

definition unquoted :: "str \<Rightarrow> str result" where
  "unquoted v =
     bindR (deref (str_s v)) (\<lambda>bs.
     if bs = [] then Inl Out_of_bounds
     else if hd bs = CHR 0x22
     then Inr (v\<lparr>str_s := Some (tl bs), str_length := nat ((int (str_length v) - 2) mod 2 ^ 64)\<rparr>)
     else Inr v)"

definition selected :: "wkc_query \<Rightarrow> coap_resource \<Rightarrow> bool result" where
  "selected q r =
     (if resource_param q = [] then Inr True
      else if wkc_uri q then match (r_uri r) (query_pattern q) (wkc_prefix q) (wkc_substring q)
      else
        bindR (coap_find_attr (RValid r) (resource_param q)) (\<lambda>attr.
        case attr of
          None \<Rightarrow> Inr False
        | Some a \<Rightarrow>
            bindR (unquoted (attr_value a)) (\<lambda>v.
            match v (query_pattern q) (wkc_prefix q) (wkc_substring q))))"

section \<open>Printing\<close>

fun print_resources ::
  "wkc_query \<Rightarrow> nat \<Rightarrow> coap_resource list \<Rightarrow> bool \<Rightarrow> print_st \<Rightarrow> print_st result" where
  "print_resources q cap [] subsequent st = Inr st"
| "print_resources q cap (r # rs) subsequent st =
     bindR (selected q r) (\<lambda>sel.
     if \<not> sel then print_resources q cap rs subsequent st
     else
       let (out, offset, written) = (if subsequent then print_cond cap CHR '','' st else st) in
       bindR (coap_print_link r (cap - length out) offset) (\<lambda>(bs, _, len, offset).
       print_resources q cap rs True (out @ bs, offset, written + len)))"

text \<open>The result: the bytes written, the truncation flag and \<open>*buflen\<close>.\<close>

definition coap_print_wellknown ::
  "coap_context \<Rightarrow> nat \<Rightarrow> nat \<Rightarrow> char list option \<Rightarrow> (char list \<times> bool \<times> nat) result" where
  "coap_print_wellknown context cap offset query_filter =
     bindR (split_query query_filter) (\<lambda>q.
     bindR (print_resources q cap (resources context) False ([], offset, 0)) (\<lambda>(out, offset', written).
     Inr (out, length out + offset - offset' < written, written)))"

definition get_wkc_len :: "coap_context \<Rightarrow> char list option \<Rightarrow> nat result" where
  "get_wkc_len context query_filter =
     bindR (coap_print_wellknown context 0 (2 ^ 32 - 1) query_filter) (\<lambda>(_, _, len). Inr len)"

section \<open>The response\<close>

abbreviation (input) COAP_MAX_BLOCK_SZX :: nat where "COAP_MAX_BLOCK_SZX \<equiv> 4"
abbreviation (input) COAP_MESSAGE_ACK :: nat where "COAP_MESSAGE_ACK \<equiv> 2"

definition SZX_TO_BYTES :: "nat \<Rightarrow> nat" where
  "SZX_TO_BYTES szx = 2 ^ (szx + 4)"

text \<open>The largest block size that fits; none when even the smallest does not.\<close>

fun fitting_szx :: "nat \<Rightarrow> nat \<Rightarrow> nat option" where
  "fitting_szx payloadlen szx =
     (if payloadlen < SZX_TO_BYTES szx
      then (case szx of 0 \<Rightarrow> None | Suc s \<Rightarrow> fitting_szx payloadlen s) else Some szx)"

declare fitting_szx.simps [simp del]

definition wkc_error :: "nat \<Rightarrow> coap_pdu \<Rightarrow> coap_pdu" where
  "wkc_error n resp = resp\<lparr>hdr_code := COAP_RESPONSE_CODE n, pdu_body := [], pdu_data := None\<rparr>"

text \<open>The block of the request, with its size cut down to the largest one in use; an invalid size is refused.\<close>

definition wkc_block :: "coap_pdu \<Rightarrow> (bool \<times> nat \<times> coap_block_t) option" where
  "wkc_block request =
     (let (requested, block) = coap_get_block (Some request) COAP_OPTION_BLOCK2;
          offset = block_start (blk_num block) (blk_szx block) in
      if \<not> requested then Some (False, 0, block)
      else if blk_szx block > 6 then None
      else if blk_szx block > COAP_MAX_BLOCK_SZX
      then Some (True, offset, block\<lparr>blk_szx := COAP_MAX_BLOCK_SZX,
                   blk_num := of_nat (offset div 2 ^ (COAP_MAX_BLOCK_SZX + 4))\<rparr>)
      else Some (True, offset, block))"

text \<open>The payload is printed into the buffer behind the marker.\<close>

definition wkc_payload ::
  "coap_context \<Rightarrow> nat \<Rightarrow> nat \<Rightarrow> char list option \<Rightarrow> coap_pdu \<Rightarrow> coap_pdu result" where
  "wkc_payload context len offset query_filter resp =
     (if pdu_length resp \<ge> max_size resp then Inl Out_of_bounds
      else
        bindR (coap_print_wellknown context len offset query_filter) (\<lambda>(out, _, _).
        if pdu_length resp + 1 + length out > max_size resp then Inl Out_of_bounds
        else Inr (resp\<lparr>pdu_data := Some (length (pdu_body resp) + 1),
                       pdu_body := pdu_body resp @ COAP_PAYLOAD_START # out\<rparr>)))"

text \<open>The part after the space check: content format, Block2 where needed, payload.\<close>

definition wkc_content ::
  "coap_context \<Rightarrow> nat \<Rightarrow> char list option \<Rightarrow> bool \<Rightarrow> nat \<Rightarrow> coap_block_t \<Rightarrow> coap_pdu \<Rightarrow> coap_pdu result" where
  "wkc_content context wkc_len query_filter need_block2 offset block resp =
     (let resp = snd (coap_add_option resp COAP_OPTION_CONTENT_TYPE
                   (coap_encode_var_bytes COAP_MEDIATYPE_APPLICATION_LINK_FORMAT));
          room = max_size resp - pdu_length resp;
          plan = (if \<not> need_block2 \<and> room < wkc_len
                  then map_option (\<lambda>szx. (True, block\<lparr>blk_num := 0, blk_m := False, blk_szx := szx\<rparr>))
                         (fitting_szx room COAP_MAX_BLOCK_SZX)
                  else Some (need_block2, block)) in
      case plan of
        None \<Rightarrow> Inr (wkc_error 503 resp)
      | Some (False, _) \<Rightarrow>
          wkc_payload context (max_size resp - (pdu_length resp + 1)) offset query_filter resp
      | Some (True, block) \<Rightarrow>
          let (result, block, resp) = coap_write_block_opt block COAP_OPTION_BLOCK2 resp wkc_len in
          if result < 0 then Inr (wkc_error 503 resp)
          else wkc_payload context (SZX_TO_BYTES (blk_szx block)) offset query_filter resp)"

definition coap_wellknown_response :: "coap_context \<Rightarrow> coap_pdu \<Rightarrow> coap_pdu option result" where
  "coap_wellknown_response context request =
     bindR (coap_pdu_init (if hdr_type request = COAP_MESSAGE_CON then COAP_MESSAGE_ACK else COAP_MESSAGE_NON)
              (COAP_RESPONSE_CODE 205) (hdr_id request) COAP_MAX_PDU_SIZE) (\<lambda>resp.
     case resp of
       None \<Rightarrow> Inr None
     | Some resp0 \<Rightarrow>
         (case coap_add_token (Some resp0) (hdr_token request) of
            (_, None) \<Rightarrow> Inr (Some (wkc_error 503 resp0))
          | (ok, Some resp) \<Rightarrow>
              if ok = 0 then Inr (Some (wkc_error 503 resp))
              else
                let query_filter = coap_check_option request COAP_OPTION_URI_QUERY in
                bindR (get_wkc_len context query_filter) (\<lambda>wkc_len.
                if wkc_len = 0 then Inr (Some (wkc_error 400 resp))
                else case wkc_block request of
                  None \<Rightarrow> Inr (Some (resp\<lparr>hdr_code := COAP_RESPONSE_CODE 400\<rparr>))
                | Some (need_block2, offset, block) \<Rightarrow>
                    if max_size resp \<le> pdu_length resp + 3 then Inr (Some (wkc_error 503 resp))
                    else bindR (wkc_content context wkc_len query_filter need_block2 offset block resp)
                           (\<lambda>resp. Inr (Some resp)))))"

end
