(* ===== verification/NetServer.thy ===== *)
theory NetServer
  imports BrokerServer WellKnown
begin

text \<open>
  The server side of \<open>net.c\<close>: error responses, requests and their handlers, acknowledgements
  and resets, the dispatcher, reading a datagram, and a turn of the main loop of
  \<open>coap-broker.c\<close>.
\<close>

section \<open>Messages received\<close>

abbreviation (input) COAP_MESSAGE_RST :: nat where "COAP_MESSAGE_RST \<equiv> 3"
abbreviation (input) COAP_OPTION_NORESPONSE :: nat where "COAP_OPTION_NORESPONSE \<equiv> 258"

definition COAP_RESPONSE_CLASS :: "nat \<Rightarrow> nat" where
  "COAP_RESPONSE_CLASS c = c div 32 mod 256"

text \<open>A received message: sender, content, and whether it came in by multicast.\<close>

record coap_queue =
  q_remote :: coap_address
  q_pdu :: coap_pdu
  q_mcast :: bool

datatype respond_t = RESPONSE_DEFAULT | RESPONSE_DROP | RESPONSE_SEND

definition no_response :: "coap_pdu \<Rightarrow> coap_pdu \<Rightarrow> respond_t" where
  "no_response request response =
     (if COAP_RESPONSE_CLASS (hdr_code response) > 0 then
        (case coap_check_option request COAP_OPTION_NORESPONSE of
           None \<Rightarrow> RESPONSE_DEFAULT
         | Some nores \<Rightarrow>
             let val = unat (coap_decode_var_bytes (opt_bytes nores)) mod 256 in
             if odd (val div 2 ^ (COAP_RESPONSE_CLASS (hdr_code response) - 1))
             then RESPONSE_DROP else RESPONSE_SEND)
      else RESPONSE_DEFAULT)"

section \<open>Error responses\<close>

text \<open>
  The loop \<open>while ((option = coap_option_next(&it)))\<close> with a filter, as the list of the types
  and options it sees; an option is the list of the bytes from where it starts.
\<close>

lemma next_loop_shorter:
  "next_loop oi = (Some p, oi') \<Longrightarrow> length (oi_next oi') < length (oi_next oi)"
proof (induction oi rule: next_loop.induct)
  case (1 oi)
  show ?case
  proof (cases "opt_at (oi_next oi)")
    case None
    then show ?thesis using "1.prems" by (subst (asm) next_loop.simps) simp
  next
    case (Some x)
    obtain opt sz where x: "x = (opt, sz)" by (cases x)
    have sz: "0 < sz" "sz \<le> length (oi_next oi)" using opt_at_size [OF Some [unfolded x]] by auto
    let ?oi = "oi\<lparr>oi_next := drop sz (oi_next oi), oi_type := (oi_type oi + opt_delta opt) mod 65536\<rparr>"
    let ?P = "case oi_filter oi of None \<Rightarrow> True | Some f \<Rightarrow> coap_option_filter_get f (oi_type ?oi) > 0"
    show ?thesis
    proof (cases ?P)
      case True
      then show ?thesis using "1.prems" Some x sz by (subst (asm) next_loop.simps) (auto split: option.splits)
    next
      case False
      then have "next_loop oi = next_loop ?oi" using Some x by (subst next_loop.simps) simp
      then show ?thesis using "1.IH" [OF Some x [symmetric] refl] False "1.prems" sz by fastforce
    qed
  qed
qed

lemma option_next_shorter:
  "coap_option_next oi = (Some p, oi') \<Longrightarrow> length (oi_next oi') < length (oi_next oi)"
  by (auto simp: coap_option_next_def dest: next_loop_shorter split: if_splits)

function options_seen :: "coap_opt_iterator \<Rightarrow> (nat \<times> char list) list" where
  "options_seen oi =
     (case coap_option_next oi of
        (None, _) \<Rightarrow> []
      | (Some p, oi') \<Rightarrow> (oi_type oi', p) # options_seen oi')"
  by pat_completeness auto
termination
  by (relation "measure (\<lambda>oi. length (oi_next oi))") (auto dest: option_next_shorter [OF sym])

declare options_seen.simps [simp del]

text \<open>The size that is reserved for the options; the difference of two types is an \<open>unsigned short\<close>.\<close>

fun options_size :: "nat \<Rightarrow> (nat \<times> char list) list \<Rightarrow> nat" where
  "options_size ty [] = 0"
| "options_size ty ((t, p) # ps) =
     (let delta = (t + 65536 - ty) mod 65536; nib = code (p ! 0) mod 16 in
      (if delta < 13 then 1 else if delta < 269 then 2 else 3) + coap_opt_length p +
      (if nib = 14 then 2 else if nib = 13 then 1 else 0) + options_size t ps)"

fun copy_options :: "coap_pdu \<Rightarrow> (nat \<times> char list) list \<Rightarrow> coap_pdu" where
  "copy_options response [] = response"
| "copy_options response ((t, p) # ps) =
     copy_options (snd (coap_add_option response t (opt_bytes p))) ps"

definition coap_new_error_response ::
  "coap_pdu \<Rightarrow> nat \<Rightarrow> coap_opt_filter \<Rightarrow> coap_pdu option result" where
  "coap_new_error_response request c opts =
     (let phrase = coap_response_phrase c;
          type = (if hdr_type request = COAP_MESSAGE_CON then COAP_MESSAGE_ACK else COAP_MESSAGE_NON);
          opts = snd (coap_option_filter_unset opts COAP_OPTION_CONTENT_TYPE);
          options = options_seen (coap_option_iterator_init request (Some opts));
          sz = 4 + length (hdr_token request) + (case phrase of None \<Rightarrow> 0 | Some p \<Rightarrow> length p + 1)
               + options_size 0 options in
      bindR (coap_pdu_init type c (hdr_id request) sz) (\<lambda>response.
      case coap_add_token response (hdr_token request) of
        (_, None) \<Rightarrow> Inr None
      | (ok, Some response) \<Rightarrow>
          if ok = 0 then Inr None
          else
            let response = copy_options response options in
            (case phrase of
               None \<Rightarrow> Inr (Some response)
             | Some p \<Rightarrow> bindR (coap_add_data response p) (\<lambda>(_, response). Inr (Some response)))))"

definition reply :: "coap_queue \<Rightarrow> coap_pdu \<Rightarrow> broker \<Rightarrow> broker" where
  "reply node response st =
     (if q_mcast node \<and> COAP_RESPONSE_CLASS (hdr_code response) > 2 then st
      else st\<lparr>ctx := snd (coap_send (q_remote node) response (ctx st))\<rparr>)"

definition send_error :: "coap_queue \<Rightarrow> nat \<Rightarrow> broker \<Rightarrow> broker result" where
  "send_error node c st =
     bindR (coap_new_error_response (q_pdu node) c coap_option_filter_clear) (\<lambda>response.
     case response of
       None \<Rightarrow> Inr st
     | Some response \<Rightarrow>
         if no_response (q_pdu node) response \<noteq> RESPONSE_DROP then Inr (reply node response st)
         else Inr st)"

section \<open>Requests\<close>

text \<open>A call through the table of handlers; \<open>ticks\<close> is derived from the clock.\<close>

definition call_handler ::
  "method_handler \<Rightarrow> nat \<Rightarrow> coap_queue \<Rightarrow> coap_pdu \<Rightarrow> broker \<Rightarrow> (coap_pdu \<times> broker) result" where
  "call_handler h rid node response st =
     (let request = q_pdu node in
      case h of
        Hnd_get_broker \<Rightarrow> hnd_get_broker request response st
      | Hnd_post_broker \<Rightarrow> hnd_post_broker rid request response st
      | Hnd_delete_broker \<Rightarrow> Inr (hnd_delete_broker response st)
      | Hnd_get_topic \<Rightarrow>
          bindR (get_resource rid st) (\<lambda>r.
          hnd_get_topic r (q_remote node) (Some (hdr_token request)) (Some request) response st)
      | Hnd_put_topic \<Rightarrow> hnd_put_topic rid request response st
      | Hnd_post_topic \<Rightarrow> hnd_post_topic rid request response st
      | Hnd_delete_topic \<Rightarrow> hnd_delete_topic rid response st
      | Hnd_get_rd \<Rightarrow> Inr (hnd_get_rd response, st)
      | Hnd_post_rd \<Rightarrow>
          bindR (hnd_post_rd (ctx st) (rd_resources st) (nat (clock st)) (q_remote node) request
              response) (\<lambda>(c, rds, response).
          Inr (response, st\<lparr>ctx := c, rd_resources := rds\<rparr>))
      | Hnd_get_resource \<Rightarrow>
          bindR (get_resource rid st) (\<lambda>r.
          bindR (hnd_get_resource (rd_resources st) r response) (\<lambda>response. Inr (response, st)))
      | Hnd_put_resource \<Rightarrow> Inr (hnd_put_resource response, st)
      | Hnd_delete_resource \<Rightarrow>
          bindR (get_resource rid st) (\<lambda>r.
          bindR (hnd_delete_resource (ctx st) (rd_resources st) r response) (\<lambda>(c, rds, response).
          Inr (response, st\<lparr>ctx := c, rd_resources := rds\<rparr>))))"

text \<open>The registration or removal of an observer before the handler runs.\<close>

definition handle_observe :: "coap_queue \<Rightarrow> coap_resource \<Rightarrow> broker \<Rightarrow> bool \<times> broker" where
  "handle_observe node r st =
     (let token = Some (hdr_token (q_pdu node)) in
      if \<not> r_observable r then (False, st)
      else case coap_check_option (q_pdu node) COAP_OPTION_OBSERVE of
        None \<Rightarrow> (False, st)
      | Some opt \<Rightarrow>
          let action = coap_decode_var_bytes (opt_bytes opt) in
          if action AND 1 = 0 then
            (True, st\<lparr>ctx := coap_touch_observer
              (update_resource (r_id r) (\<lambda>r. coap_add_observer r (q_remote node) token) (ctx st))
              (q_remote node) token\<rparr>)
          else
            (True, st\<lparr>ctx := update_resource (r_id r)
              (\<lambda>r. snd (coap_delete_observer r (q_remote node) token)) (ctx st)\<rparr>))"

text \<open>What happens to the response of a handler.\<close>

definition finish_request ::
  "coap_queue \<Rightarrow> nat \<Rightarrow> bool \<Rightarrow> coap_pdu \<Rightarrow> broker \<Rightarrow> broker result" where
  "finish_request node rid observed response st =
     (let respond = no_response (q_pdu node) response in
      if respond = RESPONSE_DROP then Inr st
      else
        bindR
          (if observed \<and> COAP_RESPONSE_CLASS (hdr_code response) > 2
           then bindR (get_resource rid st) (\<lambda>_.
             Inr (st\<lparr>ctx := update_resource rid
               (\<lambda>r. snd (coap_delete_observer r (q_remote node) (Some (hdr_token (q_pdu node)))))
               (ctx st)\<rparr>))
           else Inr st) (\<lambda>st.
        let response =
          (if hdr_type response = COAP_MESSAGE_ACK \<and> hdr_code response = 0
           then response\<lparr>hdr_token := [], pdu_body := [], pdu_data := None\<rparr> else response) in
        Inr (if respond = RESPONSE_SEND \<or> hdr_type response \<noteq> COAP_MESSAGE_NON \<or>
                hdr_code response \<ge> 64 \<and> \<not> q_mcast node
             then reply node response st else st)))"

definition is_wkc :: "coap_key \<Rightarrow> bool" where
  "is_wkc k \<longleftrightarrow> k = coap_hash_path ''.well-known/core''"

definition handle_request ::
  "coap_queue \<Rightarrow> broker \<Rightarrow> broker result" where
  "handle_request node st =
     (let request = q_pdu node; key = coap_hash_request_uri request;
          answer_wellknown =
            bindR (coap_wellknown_response (ctx st) request) (\<lambda>response.
            case response of
              None \<Rightarrow> Inr st
            | Some response \<Rightarrow>
                if no_response request response \<noteq> RESPONSE_DROP
                then Inr (reply node response st) else Inr st) in
      case coap_get_resource_from_key (ctx st) key of
        None \<Rightarrow>
          if is_wkc key then
            (if hdr_code request = COAP_REQUEST_GET then answer_wellknown
             else send_error node (COAP_RESPONSE_CODE 405) st)
          else send_error node (COAP_RESPONSE_CODE 404) st
      | Some resource \<Rightarrow>
          (case (if 1 \<le> hdr_code request \<and> hdr_code request \<le> 4
                 then r_handler resource ! (hdr_code request - 1) else None) of
             None \<Rightarrow>
               if hdr_code request = COAP_REQUEST_GET \<and> is_wkc key then answer_wellknown
               else send_error node (COAP_RESPONSE_CODE 405) st
           | Some h \<Rightarrow>
               bindR (coap_pdu_init
                   (if hdr_type request = COAP_MESSAGE_CON then COAP_MESSAGE_ACK else COAP_MESSAGE_NON)
                   0 (hdr_id request) COAP_MAX_PDU_SIZE) (\<lambda>response.
               case coap_add_token response (hdr_token request) of
                 (_, None) \<Rightarrow> Inr st
               | (ok, Some response) \<Rightarrow>
                   if ok = 0 then Inr st
                   else
                     let (observed, st) = handle_observe node resource st in
                     bindR (call_handler h (r_id resource) node response st) (\<lambda>(response, st).
                     finish_request node (r_id resource) observed response st))))"

section \<open>Acknowledgements, resets and responses\<close>

text \<open>\<open>sizeof(coap_pdu_t)\<close> on a 64-bit machine; what is sent is the header alone.\<close>

abbreviation (input) SIZEOF_COAP_PDU :: nat where "SIZEOF_COAP_PDU \<equiv> 32"

definition coap_send_message_type :: "coap_queue \<Rightarrow> nat \<Rightarrow> broker \<Rightarrow> broker result" where
  "coap_send_message_type node type st =
     bindR (coap_pdu_init type 0 (hdr_id (q_pdu node)) SIZEOF_COAP_PDU) (\<lambda>response.
     case response of None \<Rightarrow> Inr st | Some response \<Rightarrow> Inr (reply node response st))"

definition coap_send_ack :: "coap_queue \<Rightarrow> broker \<Rightarrow> broker result" where
  "coap_send_ack node st =
     (if hdr_type (q_pdu node) = COAP_MESSAGE_CON
      then bindR (coap_pdu_init COAP_MESSAGE_ACK 0 (hdr_id (q_pdu node)) SIZEOF_COAP_PDU) (\<lambda>response.
        case response of None \<Rightarrow> Inr st | Some response \<Rightarrow> Inr (reply node response st))
      else Inr st)"

text \<open>The broker registers no handler for responses.\<close>

definition handle_response :: "coap_queue \<Rightarrow> broker \<Rightarrow> broker result" where
  "handle_response rcvd st =
     bindR (coap_send_ack rcvd st) (\<lambda>st.
     Inr (st\<lparr>ctx := coap_cancel_all_messages (q_remote rcvd) (hdr_token (q_pdu rcvd)) (ctx st)\<rparr>))"

text \<open>Every resource loses the observer, and with each of them the messages are cancelled.\<close>

definition coap_cancel :: "queue_node \<Rightarrow> coap_context \<Rightarrow> coap_context" where
  "coap_cancel sent_node context =
     (let token = hdr_token (node_pdu sent_node);
          c = context\<lparr>resources := map (\<lambda>r. snd (coap_delete_observer r (node_remote sent_node) (Some token)))
                                 (resources context)\<rparr> in
      fold (\<lambda>_. coap_cancel_all_messages (node_remote sent_node) token) (resources context) c)"

lemma cancel_all_again:
  "coap_cancel_all_messages dst token (coap_cancel_all_messages dst token c) = coap_cancel_all_messages dst token c"
proof -
  have run: "coap_cancel_all_messages dst token c = c\<lparr>sendqueue := filter (\<lambda>q. \<not> cancelled dst token q) (sendqueue c)\<rparr>" for c
    using cancel_all_filter [of dst token c] by (simp add: coap_cancel_all_messages_def)
  show ?thesis by (simp add: run)
qed

lemma coap_cancel_once:
  "coap_cancel q c =
     (let token = hdr_token (node_pdu q);
          c' = c\<lparr>resources := map (\<lambda>r. snd (coap_delete_observer r (node_remote q) (Some token))) (resources c)\<rparr> in
      if resources c = [] then c' else coap_cancel_all_messages (node_remote q) token c')"
proof -
  have "fold (\<lambda>_. coap_cancel_all_messages dst token) rs (coap_cancel_all_messages dst token d) =
      coap_cancel_all_messages dst token d" for dst token d and rs :: "coap_resource list"
    by (induction rs) (simp_all add: cancel_all_again)
  then show ?thesis by (cases "resources c") (simp_all add: coap_cancel_def Let_def)
qed

section \<open>Critical options\<close>

definition builtin_critical :: "nat list" where
  "builtin_critical = [1, 3, 5, 7, 11, 15, 17, 35, 39, 23, 27]"

text \<open>
  The loop of \<open>coap_option_check_critical\<close>. Its \<open>break\<close> leaves the \<open>switch\<close>, not the loop, so
  that the result of \<open>coap_option_filter_set\<close> makes no difference.
\<close>

fun check_critical ::
  "coap_opt_filter \<Rightarrow> (nat \<times> char list) list \<Rightarrow> coap_opt_filter \<Rightarrow> bool \<times> coap_opt_filter" where
  "check_critical known [] unknown = (True, unknown)"
| "check_critical known ((ty, p) # ps) unknown =
     (if odd ty \<and> ty \<notin> set builtin_critical \<and> coap_option_filter_get known ty = 0
      then (False, snd (check_critical known ps (snd (coap_option_filter_set unknown ty))))
      else check_critical known ps unknown)"

definition coap_option_check_critical ::
  "coap_context \<Rightarrow> coap_pdu \<Rightarrow> coap_opt_filter \<Rightarrow> bool \<times> coap_opt_filter" where
  "coap_option_check_critical c pdu unknown =
     check_critical (known_options c) (options_seen (coap_option_iterator_init pdu None)) unknown"

section \<open>The dispatcher\<close>

text \<open>What becomes of a message that is not dropped.\<close>

definition handle_locally :: "coap_queue \<Rightarrow> broker \<Rightarrow> broker result" where
  "handle_locally rcvd st =
     (let c = hdr_code (q_pdu rcvd) in
      if c \<noteq> 0 \<and> c < 32 then handle_request rcvd st
      else if c \<ge> 64 then handle_response rcvd st
      else if \<not> q_mcast rcvd then coap_send_message_type rcvd COAP_MESSAGE_RST st
      else Inr st)"

definition coap_dispatch :: "coap_queue \<Rightarrow> broker \<Rightarrow> broker result" where
  "coap_dispatch rcvd st =
     (let pdu = q_pdu rcvd;
          tid = coap_transaction_id (q_remote rcvd) pdu 0;
          (sent_node, queue) = coap_remove_from_queue tid (sendqueue (ctx st));
          removed = st\<lparr>ctx := (ctx st)\<lparr>sendqueue := queue\<rparr>\<rparr>;
          (ok, unknown) = coap_option_check_critical (ctx st) pdu coap_option_filter_clear in
      if hdr_type pdu = COAP_MESSAGE_ACK then
        (if hdr_code pdu = 0 then Inr removed
         else
           handle_locally rcvd
             (case sent_node of
                None \<Rightarrow> removed
              | Some q \<Rightarrow>
                  if COAP_RESPONSE_CLASS (hdr_code (node_pdu q)) = 2
                  then removed\<lparr>ctx := coap_touch_observer (ctx removed) (node_remote q)
                                       (Some (hdr_token (node_pdu q)))\<rparr>
                  else removed))
      else if hdr_type pdu = COAP_MESSAGE_RST then
        Inr (case sent_node of None \<Rightarrow> removed | Some q \<Rightarrow> removed\<lparr>ctx := coap_cancel q (ctx removed)\<rparr>)
      else if hdr_type pdu = COAP_MESSAGE_NON then
        (if ok then handle_locally rcvd st else Inr st)
      else if hdr_type pdu = COAP_MESSAGE_CON \<and> \<not> ok then
        bindR (coap_new_error_response pdu (COAP_RESPONSE_CODE 402) unknown) (\<lambda>response.
        case response of None \<Rightarrow> Inr st | Some response \<Rightarrow> Inr (reply rcvd response st))
      else handle_locally rcvd st)"

section \<open>Datagrams\<close>

text \<open>A datagram: its sender, whether its destination is a multicast address, and its bytes.\<close>

record coap_packet =
  pk_src :: coap_address
  pk_mcast :: bool
  pk_payload :: "char list"

definition coap_handle_message :: "coap_packet \<Rightarrow> broker \<Rightarrow> (int \<times> broker) result" where
  "coap_handle_message packet st =
     (let msg = pk_payload packet in
      if length msg < 4 then Inr (-1, st)
      else if code (hd msg) div 64 mod 4 \<noteq> 1 then Inr (-1, st)
      else
        bindR (coap_pdu_init 0 0 0 (length msg)) (\<lambda>pdu.
        case pdu of
          None \<Rightarrow> Inr (-2, st)
        | Some pdu \<Rightarrow>
            bindR (coap_pdu_parse msg pdu) (\<lambda>pdu.
            case pdu of
              None \<Rightarrow> Inr (-2, st)
            | Some pdu \<Rightarrow>
                bindR (coap_dispatch \<lparr>q_remote = pk_src packet, q_pdu = pdu, q_mcast = pk_mcast packet\<rparr> st)
                  (\<lambda>st. Inr (0, st)))))"

text \<open>
  \<open>coap_read\<close>: the socket gives at most \<open>COAP_MAX_PDU_SIZE\<close> bytes of a datagram; \<open>None\<close> is a
  read that failed or a datagram for another interface.
\<close>

definition coap_read :: "coap_packet option \<Rightarrow> broker \<Rightarrow> (int \<times> broker) result" where
  "coap_read packet st =
     (case packet of
        None \<Rightarrow> Inr (-1, st)
      | Some p \<Rightarrow> coap_handle_message (p\<lparr>pk_payload := take COAP_MAX_PDU_SIZE (pk_payload p)\<rparr>) st)"

definition coap_can_exit :: "coap_context \<Rightarrow> bool" where
  "coap_can_exit c \<longleftrightarrow> sendqueue c = []"

text \<open>One turn of the main loop.\<close>

definition main_turn :: "coap_packet option \<Rightarrow> broker \<Rightarrow> broker result" where
  "main_turn packet st =
     bindR (coap_read packet st) (\<lambda>(_, st).
     bindR (topicDataMAMonitor st) topicMAMonitor)"

end
