(* ===== verification/PduSpec.thy ===== *)
theory PduSpec
  imports CoapPdu
begin

text \<open>
  What a message buffer holds, as an abstract value: a list of numbered options and an
  optional payload. \<open>pdu_abs\<close> relates a buffer to it; the construction functions of
  \<open>pdu.c\<close> are shown to append to the abstract value, and the parser to recover it from
  the bytes on the wire.
\<close>

section \<open>Encoded option lists\<close>

text \<open>
  \<open>encodes opts bs ty\<close>: \<open>bs\<close> is the encoding of \<open>opts\<close> by successive calls of
  \<open>coap_opt_encode\<close>, the last option having type \<open>ty\<close>. Deltas and lengths of 269 are
  left out, because the header written for them is not the one the parser expects.
\<close>

definition opt_size_ok :: "nat \<Rightarrow> bool" where
  "opt_size_ok n \<longleftrightarrow> n < 65536 \<and> n \<noteq> 269"

inductive encodes :: "(nat \<times> char list) list \<Rightarrow> char list \<Rightarrow> nat \<Rightarrow> bool" where
  empty: "encodes [] [] 0"
| snoc: "encodes opts bs ty \<Longrightarrow> coap_opt_encode maxlen delta val = Some b \<Longrightarrow>
    opt_size_ok delta \<Longrightarrow> opt_size_ok (length val) \<Longrightarrow> ty + delta < 65536 \<Longrightarrow>
    encodes (opts @ [(ty + delta, val)]) (bs @ b) (ty + delta)"

inductive_cases encodesE: "encodes opts bs ty"

lemma options_from_encodes:
  "encodes opts bs ty \<Longrightarrow> options_from 0 (bs @ rest) = opts @ options_from ty rest"
proof (induction arbitrary: rest rule: encodes.induct)
  case empty
  then show ?case by simp
next
  case (snoc opts bs ty maxlen delta val b)
  have "options_from ty (b @ rest) = (ty + delta, val) # options_from (ty + delta) rest"
    using snoc.hyps by (intro options_from_encode) (auto simp: opt_size_ok_def)
  then show ?case using snoc.IH [of "b @ rest"] by simp
qed

lemma skip_options_encodes:
  "encodes opts bs ty \<Longrightarrow> skip_options (bs @ rest) = skip_options rest"
proof (induction arbitrary: rest rule: encodes.induct)
  case empty
  then show ?case by simp
next
  case (snoc opts bs ty maxlen delta val b)
  have "coap_opt_parse (b @ rest) = Inr (Some (\<lparr>opt_delta = delta, opt_value = val\<rparr>, length b))"
    using snoc.hyps by (intro coap_opt_parse_encode) (auto simp: opt_size_ok_def)
  with coap_opt_encode_hd [OF snoc.hyps(2)] have "skip_options (b @ rest) = skip_options rest"
    by (subst skip_options.simps) auto
  then show ?case using snoc.IH [of "b @ rest"] by simp
qed

lemma encodes_last_le: "encodes opts bs ty \<Longrightarrow> \<forall>(n, v)\<in>set opts. n \<le> ty"
  by (induction rule: encodes.induct) fastforce+

section \<open>The abstract value of a buffer\<close>

definition payload_bytes :: "char list option \<Rightarrow> char list" where
  "payload_bytes pl = (case pl of None \<Rightarrow> [] | Some d \<Rightarrow> COAP_PAYLOAD_START # d)"

definition pdu_abs :: "coap_pdu \<Rightarrow> (nat \<times> char list) list \<Rightarrow> char list option \<Rightarrow> bool" where
  "pdu_abs p opts pl \<longleftrightarrow>
     (\<exists>bs. encodes opts bs (max_delta p) \<and> pdu_body p = bs @ payload_bytes pl \<and>
           pdu_data p = (case pl of None \<Rightarrow> None | Some _ \<Rightarrow> Some (length bs + 1))) \<and>
     pl \<noteq> Some [] \<and> pdu_length p \<le> max_size p \<and> length (hdr_token p) \<le> 8 \<and>
     max_size p \<le> COAP_MAX_PDU_SIZE"

lemma pdu_abs_options: "pdu_abs p opts pl \<Longrightarrow> pdu_options p = opts"
  using options_from_encodes [where rest = "[]"]
  by (auto simp: pdu_abs_def pdu_options_def options_from_encodes payload_bytes_def
      split: option.splits)

lemma pdu_abs_get_data:
  "pdu_abs p opts pl \<Longrightarrow>
   coap_get_data p = (case pl of None \<Rightarrow> (False, 0, []) | Some d \<Rightarrow> (True, length d, d))"
  by (auto simp: pdu_abs_def coap_get_data_def payload_bytes_def split: option.splits)

lemma pdu_abs_data_None: "pdu_abs p opts None \<Longrightarrow> pdu_data p = None"
  by (auto simp: pdu_abs_def)

lemma pdu_abs_hdr [simp]:
  "pdu_abs (p\<lparr>hdr_code := c\<rparr>) opts pl = pdu_abs p opts pl"
  "pdu_abs (p\<lparr>hdr_type := t\<rparr>) opts pl = pdu_abs p opts pl"
  "pdu_abs (p\<lparr>hdr_id := i\<rparr>) opts pl = pdu_abs p opts pl"
  by (simp_all add: pdu_abs_def pdu_length_def)

lemma pdu_init_abs:
  assumes "4 \<le> n" "n \<le> COAP_MAX_PDU_SIZE"
  obtains p where "coap_pdu_init type cd i n = Inr (Some p)" "pdu_abs p [] None"
    "max_size p = n" "hdr_code p = cd" "hdr_token p = []" "pdu_length p = 4"
  using assms encodes.empty
  by (force simp: coap_pdu_init_def pdu_abs_def pdu_length_def payload_bytes_def)

lemma pdu_add_token_abs:
  assumes "pdu_abs p opts pl" "length tok \<le> 8" "length tok + 4 \<le> max_size p"
  obtains p' where "coap_add_token (Some p) tok = (1, Some p')" "pdu_abs p' [] None"
    "max_size p' = max_size p" "hdr_token p' = tok" "pdu_length p' = length tok + 4"
    "hdr_code p' = hdr_code p" "hdr_type p' = hdr_type p" "hdr_id p' = hdr_id p"
  using assms encodes.empty
  by (force simp: coap_add_token_def pdu_abs_def pdu_length_def payload_bytes_def)

text \<open>The space an option takes.\<close>

definition opt_space :: "nat \<Rightarrow> nat \<Rightarrow> nat" where
  "opt_space delta len = 1 + length (snd (ext_form delta)) + length (snd (ext_form len)) + len"

lemma coap_opt_encode_space:
  "coap_opt_encode maxlen delta val =
     (if opt_space delta (length val) \<le> maxlen then
        Some (char_of (16 * fst (ext_form delta) + fst (ext_form (length val)))
              # snd (ext_form delta) @ snd (ext_form (length val)) @ val)
      else None)"
  by (auto simp: coap_opt_encode_def coap_opt_setheader_def opt_space_def split: prod.splits)

lemma opt_encode_fits:
  "opt_space delta (length val) \<le> n \<Longrightarrow>
   \<exists>b. coap_opt_encode n delta val = Some b \<and> length b = opt_space delta (length val)"
  by (simp add: coap_opt_encode_space) (simp add: opt_space_def)

lemma opt_space_le: "opt_space delta len \<le> len + 5"
  by (simp add: opt_space_def ext_form_def)

lemma pdu_add_option_abs:
  assumes abs: "pdu_abs p opts None" and ty: "max_delta p \<le> ty" "ty < 65536"
    and ok: "opt_size_ok (ty - max_delta p)" "opt_size_ok (length val)"
    and room: "pdu_length p + opt_space (ty - max_delta p) (length val) \<le> max_size p"
  obtains p' where "coap_add_option p ty val = (opt_space (ty - max_delta p) (length val), p')"
    "pdu_abs p' (opts @ [(ty, val)]) None" "max_delta p' = ty"
    "pdu_length p' = pdu_length p + opt_space (ty - max_delta p) (length val)"
    "max_size p' = max_size p" "hdr_code p' = hdr_code p" "hdr_token p' = hdr_token p"
proof -
  obtain bs where bs: "encodes opts bs (max_delta p)" "pdu_body p = bs" "pdu_data p = None"
    using abs by (auto simp: pdu_abs_def payload_bytes_def)
  have pl: "pdu_length (p\<lparr>pdu_data := None\<rparr>) = pdu_length p" by (simp add: pdu_length_def)
  let ?d = "ty - max_delta p"
  have "opt_space ?d (length val) \<le> max_size p - pdu_length p" using room by linarith
  from opt_encode_fits [OF this]
  obtain b where b: "coap_opt_encode (max_size p - pdu_length p) ?d val = Some b"
    "length b = opt_space ?d (length val)" by blast
  have enc: "encodes (opts @ [(ty, val)]) (bs @ b) ty"
    using encodes.snoc [OF bs(1) b(1) ok] ty by simp
  let ?p = "p\<lparr>pdu_data := None, max_delta := ty, pdu_body := pdu_body p @ b\<rparr>"
  have "coap_add_option p ty val = (length b, ?p)"
    using ty b pl by (simp add: coap_add_option_def Let_def)
  moreover have "pdu_abs ?p (opts @ [(ty, val)]) None"
    using abs enc bs room b by (auto simp: pdu_abs_def pdu_length_def payload_bytes_def)
  ultimately show ?thesis using that [of ?p] b by (simp add: pdu_length_def)
qed

text \<open>An option that is out of order or does not fit leaves the buffer as it was.\<close>

lemma pdu_add_option_rejected:
  assumes abs: "pdu_abs p opts None"
    and "ty < max_delta p \<or> max_size p < pdu_length p + opt_space (ty - max_delta p) (length val)"
  shows "coap_add_option p ty val = (0, p)"
proof -
  have "p\<lparr>pdu_data := None\<rparr> = p" using pdu_abs_data_None [OF abs] by (cases p) simp
  moreover have "pdu_length p \<le> max_size p" using abs by (simp add: pdu_abs_def)
  ultimately show ?thesis
    using assms by (auto simp: coap_add_option_def coap_opt_encode_space Let_def)
qed

lemma pdu_add_data_abs:
  assumes abs: "pdu_abs p opts None" and d: "data \<noteq> []"
    and room: "pdu_length p + length data + 1 \<le> max_size p"
  obtains p' where "coap_add_data p data = Inr (1, p')" "pdu_abs p' opts (Some data)"
    "hdr_code p' = hdr_code p" "hdr_token p' = hdr_token p" "max_size p' = max_size p"
  using assms by (force simp: coap_add_data_def pdu_abs_def pdu_length_def payload_bytes_def)

lemma pdu_add_data_rejected:
  assumes "pdu_abs p opts None" "data \<noteq> []" "max_size p < pdu_length p + length data + 1"
  shows "coap_add_data p data = Inr (0, p)"
  using assms by (auto simp: coap_add_data_def pdu_abs_data_None)

lemma pdu_add_data_nothing:
  "pdu_abs p opts None \<Longrightarrow> coap_add_data p [] = Inr (1, p)"
  by (auto simp: coap_add_data_def dest: pdu_abs_data_None)

section \<open>Wire format\<close>

lemma first_byte_fields:
  assumes "t < 4" "l \<le> 8"
  shows "(64 + 16 * t + l) div 16 mod 4 = t \<and> (64 + 16 * t + l) mod 16 = (l :: nat)"
proof -
  have e: "64 + 16 * t + l = l + 16 * (4 + t)" by simp
  have "(64 + 16 * t + l) div 16 = 4 + t"
    unfolding e using assms by (subst div_mult_self2) auto
  moreover have "(64 + 16 * t + l) mod 16 = l"
    unfolding e using assms by (subst mod_mult_self2) auto
  ultimately show ?thesis using assms by (simp add: mod_add_self1)
qed

lemma two_bytes:
  assumes "i < 65536"
  shows "i mod 256 + 256 * (i div 256 mod 256) = (i :: nat)"
proof -
  have "i div 256 < 256" using assms by (simp add: less_mult_imp_div_less)
  then have "i div 256 mod 256 = i div 256" by (rule mod_less)
  then show ?thesis using mod_mult_div_eq [of i 256] by simp
qed

lemma coap_pdu_parse_accept:
  assumes hdr: "t < 4" "0 < cd" "cd < 256" "length tok \<le> 8"
    and sk: "skip_options opt = Inr (Some rest)" "\<forall>c. rest \<noteq> [c]"
    and buf: "length opt + length tok + 4 \<le> max_size q"
  shows "coap_pdu_parse
      ([char_of (64 + 16 * t + length tok), char_of cd, b2, b3] @ tok @ opt) q =
    Inr (Some (q\<lparr>hdr_type := t, hdr_code := cd, hdr_id := code b2 + 256 * code b3,
                 hdr_token := tok, pdu_body := opt,
                 pdu_data := (if rest = [] then None
                              else Some (length opt - (length rest - 1)))\<rparr>))"
proof -
  let ?n = "64 + 16 * t + length tok"
  have n: "?n < 256" using hdr by linarith
  have t: "?n div 16 mod 4 = t" and l: "?n mod 16 = length tok"
    using first_byte_fields [OF hdr(1,4)] by blast+
  let ?d = "char_of ?n # char_of cd # b2 # b3 # tok @ opt"
  have dr: "drop (4 + length tok) ?d = opt" "take (length tok) (drop 4 ?d) = tok"
    by (simp_all add: eval_nat_numeral)
  have nth: "?d ! 0 = char_of ?n" "?d ! 1 = char_of cd" "?d ! 2 = b2" "?d ! 3 = b3"
    by (simp_all add: eval_nat_numeral)
  have len: "length ?d = 4 + length tok + length opt" by simp
  have cn: "code (char_of ?n) = ?n" "code (char_of cd) = cd" using n hdr by simp_all
  have guards: "\<not> max_size q < length ?d" "\<not> length ?d < 2"
    "\<not> (length ?d < 4 + length tok \<or> 8 < length tok)" "cd \<noteq> 0"
    using buf hdr unfolding len by auto
  have parse: "coap_pdu_parse ?d q =
    bindR (skip_options opt) (\<lambda>rest. case rest of
       None \<Rightarrow> Inr None
     | Some [] \<Rightarrow> Inr (Some (q\<lparr>hdr_type := t, hdr_code := cd,
           hdr_id := code b2 + 256 * code b3, hdr_token := tok, pdu_body := opt, pdu_data := None\<rparr>))
     | Some [_] \<Rightarrow> Inr None
     | Some (_ # payload) \<Rightarrow> Inr (Some (q\<lparr>hdr_type := t, hdr_code := cd,
           hdr_id := code b2 + 256 * code b3, hdr_token := tok, pdu_body := opt,
           pdu_data := Some (length opt - length payload)\<rparr>)))"
    unfolding coap_pdu_parse_def Let_def nth cn t l dr
    using guards by simp
  show ?thesis
    using parse sk by (auto split: list.splits)
qed

lemma pdu_parse_bytes:
  assumes abs: "pdu_abs p opts pl"
    and hdr: "hdr_type p < 4" "hdr_code p < 256" "hdr_code p \<noteq> 0" "hdr_id p < 65536"
    and buf: "pdu_length p \<le> max_size q"
  obtains r where "coap_pdu_parse (pdu_bytes p) q = Inr (Some r)"
    "hdr_type r = hdr_type p" "hdr_code r = hdr_code p" "hdr_id r = hdr_id p"
    "hdr_token r = hdr_token p" "pdu_options r = opts" "coap_get_data r = coap_get_data p"
proof -
  obtain bs where bs: "encodes opts bs (max_delta p)" "pdu_body p = bs @ payload_bytes pl"
    "pdu_data p = (case pl of None \<Rightarrow> None | Some _ \<Rightarrow> Some (length bs + 1))"
    and pl: "pl \<noteq> Some []" and tok: "length (hdr_token p) \<le> 8"
    using abs by (auto simp: pdu_abs_def)
  have i: "hdr_id p mod 256 + 256 * (hdr_id p div 256 mod 256) = hdr_id p"
    using hdr by (intro two_bytes)
  have sk: "skip_options (pdu_body p) = Inr (Some (payload_bytes pl))"
    unfolding bs(2) skip_options_encodes [OF bs(1)]
    by (subst skip_options.simps) (auto simp: payload_bytes_def split: option.splits)
  have one: "\<forall>c. payload_bytes pl \<noteq> [c]" using pl by (auto simp: payload_bytes_def split: option.splits)
  let ?r = "q\<lparr>hdr_type := hdr_type p, hdr_code := hdr_code p, hdr_id := hdr_id p,
              hdr_token := hdr_token p, pdu_body := pdu_body p, pdu_data := pdu_data p\<rparr>"
  have buf': "length (pdu_body p) + length (hdr_token p) + 4 \<le> max_size q"
    using buf by (simp add: pdu_length_def)
  have dat: "(if payload_bytes pl = [] then None
      else Some (length (pdu_body p) - (length (payload_bytes pl) - 1))) = pdu_data p"
    using bs by (auto simp: payload_bytes_def split: option.splits)
  have "coap_pdu_parse (pdu_bytes p) q = Inr (Some ?r)"
    using coap_pdu_parse_accept [OF hdr(1) _ hdr(2) tok sk one buf',
        of "char_of (hdr_id p)" "char_of (hdr_id p div 256)"] hdr(3) i
    unfolding dat by (simp add: pdu_bytes_def)
  moreover have "pdu_options ?r = opts"
    using pdu_abs_options [OF abs] by (simp add: pdu_options_def)
  moreover have "coap_get_data ?r = coap_get_data p" by (cases "pdu_data p") (simp_all add: coap_get_data_def)
  ultimately show ?thesis using that [of ?r] by simp
qed

section \<open>Accepted messages\<close>

definition parsed_header :: "char list \<Rightarrow> coap_pdu \<Rightarrow> coap_pdu" where
  "parsed_header bs q =
     (let tkl = code (bs ! 0) mod 16 in
      q\<lparr>hdr_type := code (bs ! 0) div 16 mod 4, hdr_code := code (bs ! 1),
        hdr_id := code (bs ! 2) + 256 * code (bs ! 3), hdr_token := take tkl (drop 4 bs),
        pdu_body := drop (4 + tkl) bs, pdu_data := None\<rparr>)"

lemma coap_pdu_parse_cases:
  assumes "coap_pdu_parse bs q = Inr (Some p)"
  obtains rest where "length bs \<le> max_size q" "4 + code (bs ! 0) mod 16 \<le> length bs"
    "code (bs ! 0) mod 16 \<le> 8" "skip_options (drop (4 + code (bs ! 0) mod 16) bs) = Inr (Some rest)"
    "rest = [] \<and> p = parsed_header bs q \<or>
     (\<exists>c payload. rest = c # payload \<and> payload \<noteq> [] \<and>
        p = (parsed_header bs q)\<lparr>pdu_data :=
          Some (length (drop (4 + code (bs ! 0) mod 16) bs) - length payload)\<rparr>)"
proof -
  let ?opt = "drop (4 + code (bs ! 0) mod 16) bs"
  have g: "length bs \<le> max_size q" "4 + code (bs ! 0) mod 16 \<le> length bs" "code (bs ! 0) mod 16 \<le> 8"
    "\<not> max_size q < length bs" "\<not> length bs < 2"
    "\<not> (length bs < 4 + code (bs ! 0) mod 16 \<or> 8 < code (bs ! 0) mod 16)"
    "\<not> (code (bs ! 1) = 0 \<and> (length bs \<noteq> 4 \<or> code (bs ! 0) mod 16 \<noteq> 0))"
    using assms by (auto simp: coap_pdu_parse_def Let_def split: if_splits)
  have r: "bindR (skip_options ?opt) (\<lambda>rest. case rest of
       None \<Rightarrow> Inr None
     | Some [] \<Rightarrow> Inr (Some (parsed_header bs q))
     | Some [_] \<Rightarrow> Inr None
     | Some (_ # payload) \<Rightarrow>
         Inr (Some ((parsed_header bs q)\<lparr>pdu_data := Some (length ?opt - length payload)\<rparr>)))
    = Inr (Some p)"
    using assms unfolding coap_pdu_parse_def Let_def parsed_header_def
    by (simp only: g(4-7) if_False)
  then obtain rest where sk: "skip_options ?opt = Inr (Some rest)"
    by (auto simp: bindR_eq_Inr split: option.splits)
  show ?thesis
    using r by (intro that [OF g(1-3) sk]) (auto simp: sk split: list.splits)
qed

section \<open>Headers that are cut off\<close>

text \<open>
  The end of the message lies inside an option header: the one case in which the parser
  reads behind the message.
\<close>

definition header_cut :: "char list \<Rightarrow> bool" where
  "header_cut opt =
     (case opt of
        [] \<Rightarrow> False
      | h # rest \<Rightarrow>
          let dn = code h div 16; ln = code h mod 16 in
          dn \<noteq> 15 \<and> \<not> (dn = 14 \<and> rest \<noteq> [] \<and> code (hd rest) = 255) \<and>
          length rest < ext_bytes dn + (if ln = 15 then 0 else ext_bytes ln))"

lemma parse_delta_fault:
  "parse_delta nib rest = Inl e \<longleftrightarrow> e = Out_of_bounds \<and> nib \<noteq> 15 \<and>
     \<not> (nib = 14 \<and> rest \<noteq> [] \<and> code (hd rest) = 255) \<and> length rest < ext_bytes nib"
proof -
  have "(code b * 256 + 269) mod 65536 < 269 \<longleftrightarrow> code b = 255" for b
  proof (cases "code b = 255")
    case False
    then have "code b * 256 + 269 < 65536" using code_less [of b] by linarith
    then show ?thesis using False by simp
  qed simp
  then show ?thesis by (auto simp: ext_bytes_def Let_def split: list.splits if_splits)
qed

lemma parse_length_fault:
  "parse_length nib rest = Inl e \<longleftrightarrow> e = Out_of_bounds \<and> nib \<noteq> 15 \<and> length rest < ext_bytes nib"
  by (auto simp: ext_bytes_def split: list.splits if_splits)

lemma parse_delta_none:
  "parse_delta nib rest = Inr None \<Longrightarrow> nib = 15 \<or> nib = 14 \<and> rest \<noteq> [] \<and> code (hd rest) = 255"
proof -
  have "code b = 255" if "(code b * 256 + 269) mod 65536 < 269" for b
  proof (rule ccontr)
    assume "code b \<noteq> 255"
    then have "code b * 256 + 269 < 65536" using code_less [of b] by linarith
    then show False using that by simp
  qed
  then show "parse_delta nib rest = Inr None \<Longrightarrow> ?thesis"
    by (auto simp: Let_def split: list.splits if_splits)
qed

text \<open>\<open>options_cut\<close> says that the walk over the options of a message meets such a header.\<close>

function options_cut :: "char list \<Rightarrow> bool" where
  "options_cut opt =
     (if opt = [] \<or> hd opt = COAP_PAYLOAD_START then False
      else header_cut opt \<or>
        (case opt_at opt of None \<Rightarrow> False | Some (_, sz) \<Rightarrow> options_cut (drop sz opt)))"
  by pat_completeness auto
termination
  by (relation "measure length") (auto dest: opt_at_size)

declare options_cut.simps [simp del]

lemma coap_opt_parse_fault:
  assumes "opt = h # rest"
  shows "coap_opt_parse opt = Inl e \<longleftrightarrow> e = Out_of_bounds \<and> header_cut opt"
proof (cases "parse_delta (code h div 16) rest")
  case (Inl e')
  then show ?thesis
    using parse_delta_fault [of "code h div 16" rest e'] assms
    by (auto simp: coap_opt_parse_def header_cut_def Let_def)
next
  case (Inr pd)
  show ?thesis
  proof (cases pd)
    case None
    then have "code h div 16 = 15 \<or> code h div 16 = 14 \<and> rest \<noteq> [] \<and> code (hd rest) = 255"
      using Inr parse_delta_none by blast
    then show ?thesis using Inr None assms by (auto simp: coap_opt_parse_def header_cut_def Let_def)
  next
    case (Some x)
    obtain d r where x: "x = (d, r)" by (cases x)
    note D = parse_delta_rest [OF Inr [unfolded Some x]]
    have nf: "\<not> (code h div 16 = 14 \<and> rest \<noteq> [] \<and> code (hd rest) = 255)"
      using Inr Some x by (auto simp: neq_Nil_conv split: if_splits)
    have "coap_opt_parse opt = Inl e \<longleftrightarrow> parse_length (code h mod 16) r = Inl e"
      using assms Inr Some x by (auto simp: coap_opt_parse_def bindR_def
          simp del: parse_delta.simps parse_length.simps split: sum.splits option.splits if_splits)
    also have "\<dots> \<longleftrightarrow> e = Out_of_bounds \<and> header_cut opt"
      using D nf by (auto simp: parse_length_fault header_cut_def assms Let_def ext_bytes_def
          simp del: parse_length.simps)
    finally show ?thesis .
  qed
qed

lemma skip_options_fault: "skip_options opt = Inl e \<longleftrightarrow> e = Out_of_bounds \<and> options_cut opt"
proof (induction opt rule: options_cut.induct)
  case (1 opt)
  show ?case
  proof (cases "opt = [] \<or> hd opt = COAP_PAYLOAD_START")
    case True
    then show ?thesis by (subst skip_options.simps, subst options_cut.simps) auto
  next
    case False
    then obtain h rest where o: "opt = h # rest" by (cases opt) auto
    show ?thesis
    proof (cases "coap_opt_parse opt")
      case (Inl e')
      then have h: "e' = Out_of_bounds" "header_cut opt" using coap_opt_parse_fault [OF o] by auto
      show ?thesis using False Inl h by (subst skip_options.simps, subst options_cut.simps) auto
    next
      case (Inr x)
      then have h: "\<not> header_cut opt" using coap_opt_parse_fault [OF o, of Out_of_bounds] by auto
      show ?thesis
      proof (cases x)
        case None
        then show ?thesis using False Inr h
          by (subst skip_options.simps, subst options_cut.simps) (auto simp: opt_at_def)
      next
        case (Some y)
        obtain v sz where y: "y = (v, sz)" by (cases y)
        have at: "opt_at opt = Some (v, sz)" using Inr Some y by (simp add: opt_at_def)
        have "(skip_options (drop sz opt) = Inl e) = (e = Out_of_bounds \<and> options_cut (drop sz opt))"
          by (rule "1" [OF False]) (use at in auto)
        then show ?thesis using False Inr Some y h at
          by (subst skip_options.simps, subst options_cut.simps) auto
      qed
    qed
  qed
qed

text \<open>
  In a message the parser accepts, and in one the library builds, no header is cut off.
\<close>

lemma accepted_headers_complete:
  assumes "coap_pdu_parse bs q = Inr (Some p)"
  shows "\<not> options_cut (pdu_body p)"
proof -
  obtain rest where "skip_options (pdu_body p) = Inr (Some rest)"
    using assms by (elim coap_pdu_parse_cases) (auto simp: parsed_header_def Let_def)
  then show ?thesis using skip_options_fault [of "pdu_body p" Out_of_bounds] by simp
qed

lemma built_headers_complete:
  assumes "pdu_abs p opts pl"
  shows "\<not> options_cut (pdu_body p)"
proof -
  obtain bs where "encodes opts bs (max_delta p)" "pdu_body p = bs @ payload_bytes pl"
    using assms by (auto simp: pdu_abs_def)
  then have "skip_options (pdu_body p) = skip_options (payload_bytes pl)"
    by (simp add: skip_options_encodes)
  also have "\<dots> = Inr (Some (payload_bytes pl))"
    by (subst skip_options.simps) (auto simp: payload_bytes_def split: option.splits)
  finally show ?thesis using skip_options_fault [of "pdu_body p" Out_of_bounds] by simp
qed

text \<open>
  On a datagram \<open>coap_pdu_parse\<close> leaves its block in these two cases and no other.
\<close>

definition datagram_cut :: "char list \<Rightarrow> bool" where
  "datagram_cut data \<longleftrightarrow>
     length data < 2 \<or>
     (code (data ! 1) \<noteq> 0 \<or> length data = 4 \<and> code (data ! 0) mod 16 = 0) \<and>
     4 + code (data ! 0) mod 16 \<le> length data \<and> code (data ! 0) mod 16 \<le> 8 \<and>
     options_cut (drop (4 + code (data ! 0) mod 16) data)"

lemma coap_pdu_parse_fault:
  assumes "length data \<le> max_size p"
  shows "coap_pdu_parse data p = Inl e \<longleftrightarrow> e = Out_of_bounds \<and> datagram_cut data"
proof (cases "length data < 2")
  case True
  with assms show ?thesis by (auto simp: coap_pdu_parse_def datagram_cut_def)
next
  case False
  show ?thesis
    using assms False skip_options_fault [of "drop (4 + code (data ! 0) mod 16) data" e]
    by (cases "skip_options (drop (4 + code (data ! 0) mod 16) data)")
      (auto simp: coap_pdu_parse_def datagram_cut_def Let_def split: option.splits list.splits)
qed

section \<open>Bounds\<close>

lemma skip_options_suffix: "skip_options opt = Inr (Some rest) \<Longrightarrow> length rest \<le> length opt"
proof (induction opt rule: skip_options.induct)
  case (1 opt)
  then show ?case
    by (subst (asm) (2) skip_options.simps) (fastforce split: if_splits option.splits sum.splits)
qed

lemma coap_pdu_parse_wf:
  assumes "coap_pdu_parse bs q = Inr (Some p)"
  shows "length (hdr_token p) \<le> 8 \<and> hdr_type p < 4 \<and> hdr_code p < 256 \<and> hdr_id p < 65536 \<and>
    pdu_length p = length bs \<and> pdu_length p \<le> max_size p \<and>
    (\<forall>i. pdu_data p = Some i \<longrightarrow> 0 < i \<and> i < length (pdu_body p))"
proof -
  let ?tkl = "code (bs ! 0) mod 16"
  let ?opt = "drop (4 + ?tkl) bs"
  let ?p = "parsed_header bs q"
  obtain rest where len: "length bs \<le> max_size q" "4 + ?tkl \<le> length bs" "?tkl \<le> 8"
    and rest: "skip_options ?opt = Inr (Some rest)" "rest = [] \<and> p = ?p \<or>
      (\<exists>c payload. rest = c # payload \<and> payload \<noteq> [] \<and> p = ?p\<lparr>pdu_data := Some (length ?opt - length payload)\<rparr>)"
    using assms by (elim coap_pdu_parse_cases)
  have id: "code (bs ! 2) + 256 * code (bs ! 3) < 65536"
    using code_less [of "bs ! 2"] code_less [of "bs ! 3"] by linarith
  have hdr: "length (hdr_token ?p) \<le> 8" "hdr_type ?p < 4" "hdr_code ?p < 256" "hdr_id ?p < 65536"
    "pdu_length ?p = length bs" "max_size ?p = max_size q" "pdu_body ?p = ?opt"
    "pdu_data ?p = None"
    using len id by (auto simp: pdu_length_def parsed_header_def Let_def)
  show ?thesis
    using rest(2)
  proof (elim disjE exE conjE)
    assume "p = ?p"
    then show ?thesis using hdr len by simp
  next
    fix c payload assume "rest = c # payload" "payload \<noteq> []"
      and p: "p = ?p\<lparr>pdu_data := Some (length ?opt - length payload)\<rparr>"
    then have "length payload < length ?opt" "0 < length payload"
      using skip_options_suffix [OF rest(1)] by auto
    then show ?thesis using hdr len unfolding p
      by (simp add: pdu_length_def del: length_greater_0_conv) linarith
  qed
qed

lemma encode_fits: "coap_opt_encode maxlen delta val = Some bs \<Longrightarrow> length bs \<le> maxlen"
  by (auto dest: coap_opt_encode_Some)

lemma add_option_bound:
  "pdu_length p \<le> max_size p \<Longrightarrow> pdu_length (snd (coap_add_option p ty val)) \<le> max_size p"
  using encode_fits [of "max_size p - pdu_length p" "ty - max_delta p" val]
  by (fastforce simp: coap_add_option_def pdu_length_def Let_def split: option.splits)

lemma add_data_bound:
  "pdu_length p \<le> max_size p \<Longrightarrow> coap_add_data p data = Inr (n, q) \<Longrightarrow> pdu_length q \<le> max_size p \<and> max_size q = max_size p"
  by (auto simp: coap_add_data_def pdu_length_def bindR_eq_Inr split: if_splits)

end
