(* ===== verification/ResourceSpec.thy ===== *)
theory ResourceSpec
  imports CoapResource
begin

text \<open>
  What printing, attributes and observers of a resource mean: the link-format text of a
  resource and its paging, the lookup of attributes, and the set of observers.
\<close>

section \<open>Well-formed strings\<close>

definition str_ok :: "str \<Rightarrow> bool" where
  "str_ok s \<longleftrightarrow> str_length s \<le> (case str_s s of None \<Rightarrow> 0 | Some bs \<Rightarrow> length bs)"

definition str_text :: "str \<Rightarrow> char list" where
  "str_text s = (case str_s s of None \<Rightarrow> [] | Some bs \<Rightarrow> take (str_length s) bs)"

lemma str_bytes_ok: "str_ok s \<Longrightarrow> str_bytes s = Inr (str_text s)"
  by (auto simp: str_ok_def str_bytes_def str_text_def split: option.splits)

lemma length_str_text: "str_ok s \<Longrightarrow> length (str_text s) = str_length s"
  by (auto simp: str_ok_def str_text_def split: option.splits)

lemma str_literal [simp]:
  "n \<le> length s \<Longrightarrow> str_text (literal s n) = take n s"
  "n \<le> length s \<Longrightarrow> str_ok (literal s n)"
  by (simp_all add: literal_def str_text_def str_ok_def)

lemma str_heap_string [simp]:
  "str_text (heap_string s) = s" "str_ok (heap_string s)" "str_heap (heap_string s)"
  "str_length (heap_string s) = length s" "str_s (heap_string s) = Some (s @ [NUL])"
  by (simp_all add: heap_string_def str_text_def str_ok_def)

lemma str_cstr_heap_string: "NUL \<notin> set s \<Longrightarrow> str_cstr (heap_string s) = Inr s"
  by (simp add: str_cstr_def cstr_append_NUL)

lemma free_heap_string [simp]: "free_str (heap_string s) = Inr ()"
  by (simp add: free_str_def)

section \<open>Link-format text\<close>

definition attr_ok :: "coap_attr \<Rightarrow> bool" where
  "attr_ok a \<longleftrightarrow> str_ok (attr_name a) \<and> str_ok (attr_value a)"

definition resource_ok :: "coap_resource \<Rightarrow> bool" where
  "resource_ok r \<longleftrightarrow> str_ok (r_uri r) \<and> (\<forall>a\<in>set (link_attr r). attr_ok a)"

definition attr_text :: "coap_attr \<Rightarrow> char list" where
  "attr_text a =
     '';'' @ str_text (attr_name a)
     @ (if str_s (attr_value a) = None then [] else ''='' @ str_text (attr_value a))"

definition link_text :: "coap_resource \<Rightarrow> char list" where
  "link_text r =
     ''</'' @ str_text (r_uri r) @ ''>'' @ concat (map attr_text (link_attr r))
     @ (if r_observable r then '';obs'' else [])"

text \<open>The state of the printer after the text \<open>t\<close>.\<close>

definition printed :: "nat \<Rightarrow> nat \<Rightarrow> char list \<Rightarrow> print_st" where
  "printed cap off t =
     (take cap (drop off t), if cap = 0 then off else off - length t, length t)"

lemma print_cond_printed: "print_cond cap c (printed cap off t) = printed cap off (t @ [c])"
  by (auto simp: print_cond_def printed_def Let_def)

lemma copy_cond_printed: "copy_cond cap s (printed cap off t) = printed cap off (t @ s)"
  by (induction s arbitrary: t) (auto simp: copy_cond_def print_cond_printed)

lemma print_attrs_printed:
  "\<forall>a\<in>set as. attr_ok a \<Longrightarrow>
   print_attrs cap as (printed cap off t) = Inr (printed cap off (t @ concat (map attr_text as)))"
  by (induction as arbitrary: t)
    (auto simp: attr_ok_def attr_text_def str_bytes_ok Let_def print_cond_printed copy_cond_printed)

lemma print_start: "([], off, 0) = printed cap off []"
  by (simp add: printed_def)

lemma print_link_text:
  assumes "resource_ok r"
  shows "coap_print_link r cap off =
    Inr (take cap (drop off (link_text r)),
         (if cap = 0 then True else cap + off < length (link_text r)),
         length (link_text r), if cap = 0 then off else off - length (link_text r))"
proof -
  have pos: "0 < length (link_text r)" by (simp add: link_text_def)
  have flag: "length (take cap (drop off t)) + off - (if cap = 0 then off else off - length t)
      < length t \<longleftrightarrow> (if cap = 0 then True else cap + off < length t)"
    if "0 < length t" for t :: "char list"
    using that by (auto split: split_min)
  show ?thesis
    using assms flag [OF pos]
    by (auto simp: resource_ok_def coap_print_link_def str_bytes_ok print_start [of off cap] Let_def
        print_cond_printed copy_cond_printed print_attrs_printed link_text_def)
      (simp_all add: printed_def)
qed

section \<open>Attributes\<close>

definition attr_named :: "cstring \<Rightarrow> coap_attr \<Rightarrow> bool" where
  "attr_named name a \<longleftrightarrow> str_text (attr_name a) = name"

lemma find_attr_in_find:
  "\<forall>a\<in>set as. attr_ok a \<Longrightarrow> find_attr_in name as = Inr (find (attr_named name) as)"
proof (induction as)
  case Nil
  then show ?case by simp
next
  case (Cons a as)
  have ok: "str_ok (attr_name a)" using Cons.prems by (simp add: attr_ok_def)
  show ?case
    using Cons length_str_text [OF ok] by (auto simp: str_bytes_ok [OF ok] attr_named_def)
qed

lemma coap_find_attr_ok:
  "resource_ok r \<Longrightarrow>
   coap_find_attr (RValid r) name = Inr (find (attr_named name) (link_attr r))"
  by (simp add: coap_find_attr_def resource_ok_def find_attr_in_find)

lemma coap_add_attr_ok:
  "resource_ok r \<Longrightarrow> str_ok name \<Longrightarrow> str_ok val \<Longrightarrow> resource_ok (coap_add_attr r name val flags)"
  by (auto simp: coap_add_attr_def resource_ok_def attr_ok_def str_ok_def split: option.splits)

definition attr_heap :: "coap_attr \<Rightarrow> bool" where
  "attr_heap a \<longleftrightarrow> (\<exists>n v. attr_name a = heap_string n \<and> attr_value a = heap_string v)"

lemma delete_heap_attrs: "\<forall>a\<in>set as. attr_heap a \<Longrightarrow> delete_attrs coapDeleteAttr as = Inr ()"
  by (induction as) (auto simp: attr_heap_def coapDeleteAttr_def)

section \<open>Observers\<close>

text \<open>One subscription per peer and token.\<close>

definition same_peer :: "coap_subscription \<Rightarrow> coap_subscription \<Rightarrow> bool" where
  "same_peer s s' \<longleftrightarrow>
     coap_address_equals (sub_addr s) (sub_addr s') \<and> sub_token s = sub_token s'"

fun observers_ok :: "coap_subscription list \<Rightarrow> bool" where
  "observers_ok [] = True"
| "observers_ok (s # ss) = ((\<forall>s'\<in>set ss. \<not> same_peer s' s) \<and> observers_ok ss)"

lemma address_equals_sym: "coap_address_equals a b = coap_address_equals b a"
  by (auto simp: coap_address_equals_def)

lemma address_equals_trans:
  "coap_address_equals a b \<Longrightarrow> coap_address_equals b c \<Longrightarrow> coap_address_equals a c"
  by (auto simp: coap_address_equals_def split: if_splits)

lemma address_equals_refl:
  "sa_family a \<in> {AF_INET, AF_INET6} \<Longrightarrow> coap_address_equals a a"
  by (auto simp: coap_address_equals_def)

lemma find_observer_added:
  assumes "sa_family peer \<in> {AF_INET, AF_INET6}" "length tok \<le> 8"
  shows "coap_find_observer (coap_add_observer r peer (Some tok)) peer (Some tok) \<noteq> None"
  using assms address_equals_refl [of peer]
  by (auto simp: coap_add_observer_def coap_find_observer_def coap_subscription_init_def
      is_observer_def split: option.splits)

lemma add_observer_ok:
  assumes "observers_ok (subscribers r)" "length tok \<le> 8"
  shows "observers_ok (subscribers (coap_add_observer r peer (Some tok)))"
  using assms
  by (auto simp: coap_add_observer_def coap_find_observer_def coap_subscription_init_def
      is_observer_def same_peer_def find_None_iff split: option.splits)

lemma remove_observer_ok: "observers_ok ss \<Longrightarrow> observers_ok (remove_observer P ss)"
proof (induction ss)
  case Nil
  then show ?case by simp
next
  case (Cons s ss)
  have "set (remove_observer P ss) \<subseteq> set ss" by (induction ss) auto
  with Cons show ?case by auto
qed

lemma remove_observer_gone:
  "observers_ok ss \<Longrightarrow> find (is_observer peer (Some t)) (remove_observer (is_observer peer (Some t)) ss) = None"
proof (induction ss)
  case Nil
  then show ?case by simp
next
  case (Cons s ss)
  show ?case
  proof (cases "is_observer peer (Some t) s")
    case True
    have "\<not> is_observer peer (Some t) s'" if m: "s' \<in> set ss" for s'
    proof
      assume o: "is_observer peer (Some t) s'"
      have "coap_address_equals (sub_addr s') (sub_addr s)"
        using o True address_equals_trans address_equals_sym
        unfolding is_observer_def by metis
      moreover have "sub_token s' = sub_token s" using o True by (simp add: is_observer_def)
      moreover have "\<not> same_peer s' s" using Cons.prems m by simp
      ultimately show False by (simp add: same_peer_def)
    qed
    with True show ?thesis by (auto simp: find_None_iff)
  next
    case False
    with Cons show ?thesis by auto
  qed
qed

end
