(* ===== verification/LinkFormatSpec.thy ===== *)
theory LinkFormatSpec
  imports LinkFormatParser ResourceSpec
begin

text \<open>
  A reference for the link-format parser: split the line at semicolons, the options at the
  equals sign, and read the pieces. \<open>parseLinkFormat_eq\<close> shows that the index arithmetic of
  the C code computes exactly this, the faults included.
\<close>

section \<open>Splitting\<close>

fun split_on :: "'a \<Rightarrow> 'a list \<Rightarrow> 'a list list" where
  "split_on c [] = [[]]"
| "split_on c (x # xs) =
     (if x = c then [] # split_on c xs
      else case split_on c xs of [] \<Rightarrow> [[x]] | y # ys \<Rightarrow> (x # y) # ys)"

lemma split_on_nonempty: "split_on c s \<noteq> []"
  by (induction s) (auto split: list.splits)

lemma split_on_none: "c \<notin> set s \<Longrightarrow> split_on c s = [s]"
  by (induction s) auto

lemma split_on_append: "c \<notin> set s \<Longrightarrow> split_on c (s @ c # t) = s # split_on c t"
  by (induction s) auto

lemma strchr_split:
  assumes "strchr s c = Some i"
  shows "s = take i s @ c # drop (Suc i) s" "c \<notin> set (take i s)" "length (take i s) = i"
proof -
  from assms have i: "i < length s" "s ! i = c" "\<forall>j<i. s ! j \<noteq> c" by (auto simp: strchr_Some)
  show "s = take i s @ c # drop (Suc i) s" using id_take_nth_drop [OF i(1)] i(2) by simp
  show "c \<notin> set (take i s)" using i by (auto simp: in_set_conv_nth)
  show "length (take i s) = i" using i(1) by simp
qed

section \<open>Options\<close>

lemma count_from_eq: "count_from s i = count_list (drop i s) CHR ''=''"
proof (induction s i rule: count_from.induct)
  case (1 s i)
  show ?case
  proof (cases "strchr (drop i s) CHR ''=''")
    case None
    then have "CHR ''='' \<notin> set (drop i s)" by (simp add: strchr_None)
    then have "count_list (drop i s) CHR ''='' = 0" by (rule count_notin)
    with None show ?thesis by (subst count_from.simps) (simp add: strchr_from_def)
  next
    case (Some k)
    note sp = strchr_split [OF Some]
    have "count_list (drop i s) CHR ''='' =
        count_list (take k (drop i s) @ CHR ''='' # drop (Suc k) (drop i s)) CHR ''=''"
      using sp(1) by simp
    also have "\<dots> = Suc (count_list (drop (Suc (i + k)) s) CHR ''='')"
      using sp(2) by (simp add: count_notin add.commute)
    finally show ?thesis
      using Some 1 by (subst count_from.simps) (simp add: strchr_from_def)
  qed
qed

definition unquote :: "cstring \<Rightarrow> cstring result" where
  "unquote v =
     (let d = (if hd v = CHR 0x22 then tl v else v) in
      if last v = CHR 0x22 then (if d = [] then Inl Out_of_bounds else Inr (butlast d)) else Inr d)"

definition name_ok :: "cstring \<Rightarrow> bool" where
  "name_ok s \<longleftrightarrow> (\<forall>c\<in>set s. allowed_char ''-'' c)"

definition option_of :: "cstring \<Rightarrow> (cstring \<times> cstring) option result" where
  "option_of s =
     (case split_on CHR ''='' s of
        [n, v] \<Rightarrow>
          if n \<noteq> [] \<and> v \<noteq> [] \<and> name_ok n
          then bindR (unquote v) (\<lambda>d. Inr (if name_ok d then Some (n, d) else None))
          else Inr None
      | _ \<Rightarrow> Inr None)"

lemma split_on_count: "length (split_on c s) = Suc (count_list s c)"
  by (induction s) (auto simp: split_on_nonempty split: list.splits)

lemma optionValidation_pair:
  assumes "CHR ''='' \<notin> set n" "CHR ''='' \<notin> set v"
  shows "optionValidation (n @ CHR ''='' # v) = 1 \<longleftrightarrow> n \<noteq> [] \<and> v \<noteq> []"
proof -
  have l: "length (n @ CHR ''='' # v) < 3 \<longleftrightarrow> n = [] \<and> length v < 2 \<or> v = [] \<and> length n < 2"
    by (cases n; cases v) auto
  have "v \<noteq> [] \<Longrightarrow> last v \<noteq> CHR ''=''" "n \<noteq> [] \<Longrightarrow> hd n \<noteq> CHR ''=''"
    using assms by (metis last_in_set, metis hd_in_set)
  then show ?thesis
    using assms l
    by (auto simp: optionValidation_def count_from_eq Let_def nth_append count_notin last_conv_nth
        hd_conv_nth nth_Cons' split: if_splits)
qed

lemma optionValidation_other:
  "length (split_on CHR ''='' s) \<noteq> 2 \<Longrightarrow> optionValidation s \<noteq> 1"
  by (auto simp: optionValidation_def count_from_eq split_on_count Let_def)

lemma split_on_two:
  fixes s :: cstring
  assumes "length (split_on c s) = 2"
  obtains n v where "s = n @ c # v" "c \<notin> set n" "c \<notin> set v" "split_on c s = [n, v]"
proof -
  have one: "count_list s c = 1" using assms by (simp add: split_on_count)
  then have "c \<in> set s" using count_notin [of c s] by fastforce
  then obtain i where i: "strchr s c = Some i" using strchr_None [of s c] by auto
  note sp = strchr_split [OF i]
  have "count_list s c = Suc (count_list (drop (Suc i) s) c)"
    using sp(2) count_notin [of c "take i s"] arg_cong [OF sp(1), of "\<lambda>x. count_list x c"] by simp
  then have "c \<notin> set (drop (Suc i) s)" using one count_list_0_iff by fastforce
  moreover have "split_on c s = [take i s, drop (Suc i) s]"
    using split_on_append [OF sp(2), of "drop (Suc i) s"] sp(1) split_on_none calculation by metis
  ultimately show ?thesis using that sp by blast
qed

lemma strchr_pair: "c \<notin> set n \<Longrightarrow> strchr (n @ c # v) c = Some (length n)"
  by (induction n) auto

lemma strcspn_pair: "c \<notin> set n \<Longrightarrow> strcspn (n @ c # v) [c] = length n"
  by (simp add: strcspn_strchr strchr_pair)

lemma parseOption_pair:
  assumes "CHR ''='' \<notin> set n" "CHR ''='' \<notin> set v" "n \<noteq> []" "v \<noteq> []"
  shows "parseOption (n @ CHR ''='' # v) =
    (if name_ok n then bindR (unquote v) (\<lambda>d. Inr (if name_ok d then Some (n, d) else None))
     else Inr None)"
proof -
  obtain x xs where v: "v = x # xs" using assms(4) by (cases v) auto
  have c1: "char_at (CHR ''='' # v) 1 = Inr x" by (simp add: char_at_def v)
  have cl: "char_at (CHR ''='' # v) (int (length v)) = Inr (last v)"
    using assms(4) by (simp add: char_at_def last_conv_nth)
  have "optionValidation (n @ CHR ''='' # v) = 1" using optionValidation_pair assms by blast
  then show ?thesis
    using assms(1) c1 cl
    by (simp add: parseOption_def strchr_pair strcspn_pair Let_def name_ok_def unquote_def v
        numeral_2_eq_2)
qed

text \<open>The parser of one option is the reference.\<close>

lemma optionRegister_eq:
  "optionRegister (RValid r) s =
     bindR (option_of s) (\<lambda>p. case p of
       None \<Rightarrow> Inr (0, RValid r)
     | Some (n, v) \<Rightarrow> Inr (1, RValid (coap_add_attr r (heap_string n) (heap_string v) 3)))"
proof (cases "length (split_on CHR ''='' s) = 2")
  case False
  have "option_of s = Inr None"
    using False by (auto simp: option_of_def split: list.splits)
  then show ?thesis
    using optionValidation_other [OF False] by (simp add: optionRegister_def calOptionSize_def)
next
  case True
  then obtain n v where s: "s = n @ CHR ''='' # v" "CHR ''='' \<notin> set n" "CHR ''='' \<notin> set v"
    "split_on CHR ''='' s = [n, v]" by (rule split_on_two)
  show ?thesis
  proof (cases "n \<noteq> [] \<and> v \<noteq> []")
    case True
    then have "calOptionSize s = Some (length n, length v)"
      using s optionValidation_pair [OF s(2,3)]
      by (simp add: calOptionSize_def strchr_pair strcspn_pair)
    moreover have "parseOption s = option_of s"
      using parseOption_pair [OF s(2,3)] True s by (simp add: option_of_def)
    ultimately show ?thesis
      using True by (auto simp: optionRegister_def bindR_def split: sum.splits option.splits)
  next
    case False
    then have "calOptionSize s = None"
      using s optionValidation_pair [OF s(2,3)] by (auto simp: calOptionSize_def)
    moreover have "option_of s = Inr None" using False s(4) by (auto simp: option_of_def)
    ultimately show ?thesis by (simp add: optionRegister_def)
  qed
qed

text \<open>The parser of a query is the same reference.\<close>

lemma parse_query_eq:
  "parse_query s =
     (case split_on CHR ''='' s of
        [n, v] \<Rightarrow>
          if n \<noteq> [] \<and> v \<noteq> [] then
            bindR (option_of s) (\<lambda>p. Inr (case p of None \<Rightarrow> Query_rejected | Some (n, v) \<Rightarrow> Query_ok n v))
          else Inr Query_malformed
      | _ \<Rightarrow> Inr Query_malformed)"
proof -
  let ?s = s
  show ?thesis
  proof (cases "length (split_on CHR ''='' ?s) = 2")
    case False
    then show ?thesis
      using optionValidation_other [OF False] unfolding parse_query_def
      by (auto simp: calOptionSize_def Let_def split: list.splits)
  next
    case True
    then obtain n v where s: "?s = n @ CHR ''='' # v" "CHR ''='' \<notin> set n" "CHR ''='' \<notin> set v"
      "split_on CHR ''='' ?s = [n, v]" by (rule split_on_two)
    show ?thesis
    proof (cases "n \<noteq> [] \<and> v \<noteq> []")
      case True
      then have "calOptionSize ?s = Some (length n, length v)"
        using s optionValidation_pair [OF s(2,3)]
        by (simp add: calOptionSize_def strchr_pair strcspn_pair)
      moreover have "parseOption ?s = option_of ?s"
        using parseOption_pair [OF s(2,3)] True s by (simp add: option_of_def)
      ultimately show ?thesis
        using True s(4) unfolding parse_query_def
        by (auto simp: bindR_def Let_def split: sum.splits option.splits)
    next
      case False
      then have "calOptionSize ?s = None"
        using s optionValidation_pair [OF s(2,3)] by (auto simp: calOptionSize_def)
      then show ?thesis
        using False s(4) unfolding parse_query_def by (auto simp: Let_def)
    qed
  qed
qed

section \<open>Paths\<close>

definition path_ok :: "cstring \<Rightarrow> bool" where
  "path_ok p \<longleftrightarrow>
     p \<noteq> [] \<and> hd p \<noteq> CHR ''/'' \<and> last p \<noteq> CHR ''/'' \<and> (\<forall>c\<in>set p. allowed_char ''/-'' c)"

definition path_of :: "cstring \<Rightarrow> cstring option result" where
  "path_of s =
     (if s = ''<'' then Inl Out_of_bounds
      else if s \<noteq> [] \<and> hd s = CHR ''<'' \<and> last s = CHR ''>'' \<and> path_ok (butlast (tl s))
      then Inr (Some (butlast (tl s)))
      else Inr None)"

lemma NUL_slash: "NUL \<noteq> CHR ''/''" "NUL \<noteq> CHR ''<''" "NUL \<noteq> CHR ''>''"
  by simp_all

lemma last_two:
  "char_at (x # p @ [y]) (int (length (x # p @ [y])) - 2) = Inr (if p = [] then x else last p)"
  "char_at (x # p @ [y]) (int (length (x # p @ [y])) - 1) = Inr y"
  by (auto simp: char_at_def nth_append last_conv_nth nth_Cons' nat_diff_distrib
      split: if_splits)

lemma calPathSize_cases:
  "calPathSize s =
     (if s = ''<'' then Inl Out_of_bounds
      else if s \<noteq> [] \<and> hd s = CHR ''<'' \<and> last s = CHR ''>'' \<and>
           (let p = butlast (tl s) in p \<noteq> [] \<and> hd p \<noteq> CHR ''/'' \<and> last p \<noteq> CHR ''/'')
      then Inr (length s - 2) else Inr 0)"
proof (cases s)
  case Nil
  then show ?thesis by (simp add: calPathSize_def char_at_def)
next
  case (Cons x xs)
  note s = Cons
  show ?thesis
  proof (cases xs rule: rev_cases)
    case Nil
    with s show ?thesis by (simp add: calPathSize_def char_at_def)
  next
    case (snoc p y)
    have "char_at (x # p @ [y]) 0 = Inr x" by (simp add: char_at_def)
    moreover have "char_at (x # p @ [y]) 1 = Inr (if p = [] then y else hd p)"
      by (cases p) (auto simp: char_at_def)
    ultimately show ?thesis
      using s snoc last_two [of x p y]
      by (auto simp: calPathSize_def Let_def butlast_append)
  qed
qed

lemma take_drop_butlast: "take (length s - 2) (drop (Suc 0) s) = butlast (tl s)"
  by (cases s) (simp_all add: butlast_conv_take)

lemma parsePath_eq: "parsePath s = path_of s"
proof -
  have "length s - 2 = 0 \<Longrightarrow> butlast (tl s) = []" by (cases s; cases "tl s") auto
  moreover have "length s - 2 \<noteq> 0 \<Longrightarrow> butlast (tl s) \<noteq> []"
    by (metis One_nat_def Suc_1 diff_Suc_eq_diff_pred length_butlast length_tl list.size(3) diff_diff_eq add_Suc plus_nat.add_0)
  ultimately show ?thesis
    by (auto simp: parsePath_def calPathSize_cases path_of_def path_ok_def take_drop_butlast Let_def)
qed

section \<open>Lines\<close>

fun add_options :: "coap_resource \<Rightarrow> cstring list \<Rightarrow> (nat \<times> resource_ptr) result" where
  "add_options r [] = Inr (1, RValid r)"
| "add_options r (s # ss) =
     bindR (option_of s) (\<lambda>p. case p of
       None \<Rightarrow> bindR (coapFreeResource (RValid r)) (\<lambda>_. Inr (0, RDangling))
     | Some (n, v) \<Rightarrow> add_options (coap_add_attr r (heap_string n) (heap_string v) 3) ss)"

definition parse_line ::
  "cstring \<Rightarrow> coap_resource \<Rightarrow> resource_ptr \<Rightarrow> (nat \<times> resource_ptr) result" where
  "parse_line str old resource =
     (if CHR '','' \<in> set str \<or> hd (split_on CHR '';'' str) = [] \<or> CHR '';'' \<notin> set str
      then Inr (0, resource)
      else
        bindR (path_of (hd (split_on CHR '';'' str))) (\<lambda>p. case p of
          None \<Rightarrow> Inr (0, resource)
        | Some rel \<Rightarrow>
            bindR (str_cstr (r_uri old)) (\<lambda>uri.
            bindR (coap_resource_init
                (heap_string (snprintf_s (str_length (r_uri old) + 1) uri @ CHR ''/'' # rel)) 1) (\<lambda>r.
            add_options r (tl (split_on CHR '';'' str))))))"

lemma char_at_nth: "i < length s \<Longrightarrow> char_at s (int i) = Inr (s ! i)"
  by (simp add: char_at_def)

lemma strchr_from_split:
  "strchr_from (pre @ t) (length pre) c = map_option ((+) (length pre)) (strchr t c)"
  by (simp add: strchr_from_def)

text \<open>The tail of the loop, from a semicolon on.\<close>

definition finish_loop ::
  "cstring \<Rightarrow> coap_resource \<Rightarrow> nat \<Rightarrow> resource_ptr \<Rightarrow> (nat \<times> resource_ptr) result" where
  "finish_loop str old counter resource =
     (case strchr_from str (counter + 1) CHR '';'' of
        Some pch \<Rightarrow> parse_loop str old counter pch resource
      | None \<Rightarrow>
          bindR (optionRegister resource (drop (counter + 1) str)) (\<lambda>(status, resource).
          if status = 0
          then bindR (coapFreeResource resource) (\<lambda>_. Inr (0, RDangling))
          else Inr (1, resource)))"

lemma add_options_one:
  "bindR (optionRegister (RValid r) s) (\<lambda>(status, resource).
      if status = 0 then bindR (coapFreeResource resource) (\<lambda>_. Inr (0, RDangling))
      else Inr (1, resource)) = add_options r [s]"
  by (auto simp: optionRegister_eq bindR_def split: sum.splits option.splits)

lemma parse_loop_options:
  "\<forall>last counter r seg pre. str = pre @ CHR '';'' # seg @ CHR '';'' # rest \<longrightarrow>
     CHR '';'' \<notin> set seg \<longrightarrow> last = length pre \<longrightarrow> counter = Suc (length pre + length seg) \<longrightarrow>
     parse_loop str old last counter (RValid r) = add_options r (seg # split_on CHR '';'' rest)"
proof (induction "length rest" arbitrary: rest rule: less_induct)
  case less
  have step: "parse_loop str old (length pre) (Suc (length pre + length seg)) (RValid r)
      = add_options r (seg # split_on CHR '';'' rest)"
    if str: "str = pre @ CHR '';'' # seg @ CHR '';'' # rest" and seg: "CHR '';'' \<notin> set seg" for r seg pre
  proof -
    let ?c = "Suc (length pre + length seg)"
    have c0: "char_at str (int (length pre)) = Inr CHR '';''"
      using str by (simp add: char_at_nth)
    have tk: "take (?c - length pre - 1) (drop (length pre + 1) str) = seg" using str by simp
    have pre': "str = (pre @ CHR '';'' # seg @ [CHR '';'']) @ rest" using str by simp
    have sf: "strchr_from str (?c + 1) CHR '';'' = map_option ((+) (?c + 1)) (strchr rest CHR '';'')"
      using strchr_from_split [of "pre @ CHR '';'' # seg @ [CHR '';'']" rest] unfolding pre' by simp
    have fin: "finish_loop str old ?c (RValid r') = add_options r' (split_on CHR '';'' rest)" for r'
    proof (cases "strchr rest CHR '';''")
      case None
      have d: "drop (?c + 1) str = rest" using pre' by simp
      have n: "CHR '';'' \<notin> set rest" using None by (simp add: strchr_None)
      show ?thesis
        unfolding finish_loop_def sf None d split_on_none [OF n]
        by (simp only: option.map option.case add_options_one)
    next
      case (Some k)
      note sp = strchr_split [OF Some]
      have lt: "length (drop (Suc k) rest) < length rest" using Some by (auto simp: strchr_Some)
      have "str = (pre @ CHR '';'' # seg) @ CHR '';'' # take k rest @ CHR '';'' # drop (Suc k) rest"
        using str sp(1) by simp
      from less.hyps [OF lt, rule_format, OF this sp(2) refl refl]
      have "parse_loop str old ?c (?c + 1 + k) (RValid r') =
          add_options r' (take k rest # split_on CHR '';'' (drop (Suc k) rest))"
        using sp(3) by (simp add: ac_simps)
      moreover have "split_on CHR '';'' rest = take k rest # split_on CHR '';'' (drop (Suc k) rest)"
        using split_on_append [OF sp(2), of "drop (Suc k) rest"] sp(1) by simp
      ultimately show ?thesis
        unfolding finish_loop_def sf Some by (simp only: option.map option.case)
    qed
    have "parse_loop str old (length pre) ?c (RValid r) =
        bindR (optionRegister (RValid r) seg) (\<lambda>(status, resource).
          if status = 0 then bindR (coapFreeResource resource) (\<lambda>_. Inr (0, RDangling))
          else finish_loop str old ?c resource)"
      by (subst parse_loop.simps)
        (simp add: c0 tk [simplified] Let_def bindR_def finish_loop_def split: sum.splits prod.splits)
    then show ?thesis
      by (auto simp: optionRegister_eq bindR_def fin split: sum.splits option.splits)
  qed
  then show ?case by blast
qed

lemma split_on_hd: "c \<in> set s \<Longrightarrow> hd (split_on c s) = takeWhile (\<lambda>x. x \<noteq> c) s"
  by (induction s) (auto split: list.splits simp: split_on_nonempty)

text \<open>The parser of a line is the reference.\<close>

lemma pathRegister_eq:
  "pathRegister old res s =
     bindR (path_of s) (\<lambda>p. case p of
       None \<Rightarrow> Inr (0, res)
     | Some rel \<Rightarrow>
         bindR (str_cstr (r_uri old)) (\<lambda>uri.
         bindR (coap_resource_init
             (heap_string (snprintf_s (str_length (r_uri old) + 1) uri @ CHR ''/'' # rel)) 1) (\<lambda>r.
         Inr (1, RValid r))))"
  using parsePath_eq [of s]
  by (auto simp: pathRegister_def parsePath_def Let_def bindR_def split: sum.splits if_splits)

lemma parseLinkFormat_eq: "parseLinkFormat str old resource = parse_line str old resource"
proof (cases "CHR '','' \<in> set str \<or> CHR '';'' \<notin> set str")
  case True
  then show ?thesis
    by (auto simp: parseLinkFormat_def parse_line_def strchr_None bindR_def char_at_def
        dest: strchr_None [THEN iffD2] split: option.splits sum.splits)
next
  case False
  then obtain k where k: "strchr str CHR '';'' = Some k" using strchr_None [of str "CHR '';''"] by auto
  note sp = strchr_split [OF k]
  let ?e = "take k str" and ?rest = "drop (Suc k) str"
  have split: "split_on CHR '';'' str = ?e # split_on CHR '';'' ?rest"
    using split_on_append [OF sp(2), of ?rest] sp(1) by simp
  have comma: "strchr str CHR '','' = None" using False by (simp add: strchr_None)
  have klen: "k < length str" using k by (simp add: strchr_Some)
  show ?thesis
  proof (cases "k = 0")
    case True
    then have "char_at str 0 = Inr CHR '';''" using k by (simp add: char_at_def strchr_Some)
    with True show ?thesis by (simp add: parseLinkFormat_def parse_line_def comma split)
  next
    case kpos: False
    have c0: "char_at str 0 = Inr (str ! 0)" "str ! 0 \<noteq> CHR '';''"
      using k kpos by (auto simp: char_at_def strchr_Some)
    have sf: "strchr_from str (k + 1) CHR '';'' = map_option ((+) (k + 1)) (strchr ?rest CHR '';'')"
      by (simp add: strchr_from_def)
    have fin: "finish_loop str old k (RValid r) = add_options r (split_on CHR '';'' ?rest)" for r
    proof (cases "strchr ?rest CHR '';''")
      case None
      have n: "CHR '';'' \<notin> set ?rest" using None by (simp add: strchr_None)
      show ?thesis
        unfolding finish_loop_def sf None split_on_none [OF n]
        by (simp only: option.map option.case add_options_one Suc_eq_plus1)
    next
      case (Some j)
      note sq = strchr_split [OF Some]
      have "str = ?e @ CHR '';'' # take j ?rest @ CHR '';'' # drop (Suc j) ?rest"
        using sp(1) sq(1) by simp
      from parse_loop_options [rule_format, OF this sq(2) refl refl]
      have "parse_loop str old k (k + 1 + j) (RValid r) =
          add_options r (take j ?rest # split_on CHR '';'' (drop (Suc j) ?rest))"
        using sp(3) sq(3) by simp
      moreover have "split_on CHR '';'' ?rest = take j ?rest # split_on CHR '';'' (drop (Suc j) ?rest)"
        using split_on_append [OF sq(2), of "drop (Suc j) ?rest"] sq(1) by simp
      ultimately show ?thesis
        unfolding finish_loop_def sf Some by (simp only: option.map option.case)
    qed
    have "parse_loop str old 0 k resource =
        bindR (pathRegister old resource ?e) (\<lambda>(status, resource).
          if status = 0 then Inr (0, resource) else finish_loop str old k resource)"
      by (subst parse_loop.simps)
        (simp add: c0 Let_def bindR_def finish_loop_def split: sum.splits prod.splits)
    moreover have "?e \<noteq> []" using kpos klen by auto
    ultimately show ?thesis
      using c0 False
      by (auto simp: parseLinkFormat_def parse_line_def comma k split pathRegister_eq bindR_def fin
          split: sum.splits option.splits)
  qed
qed

section \<open>What a successful parse yields\<close>

definition heap_attr :: "cstring \<times> cstring \<Rightarrow> coap_attr" where
  "heap_attr = (\<lambda>(n, v). \<lparr>attr_name = heap_string n, attr_value = heap_string v, attr_flags = 3\<rparr>)"

definition topic_resource :: "cstring \<Rightarrow> (cstring \<times> cstring) list \<Rightarrow> coap_resource" where
  "topic_resource uri attrs =
     \<lparr>r_id = 0, r_dirty = False, r_partiallydirty = False, r_observable = False,
      r_handler = replicate 4 None, r_key = coap_hash_path uri, link_attr = map heap_attr attrs,
      subscribers = [], r_uri = heap_string uri, r_flags = 1\<rparr>"

lemma resource_init_topic:
  "coap_resource_init (heap_string uri) 1 = Inr (topic_resource uri [])"
  by (simp add: coap_resource_init_def str_bytes_ok topic_resource_def)

lemma add_attr_topic:
  "coap_add_attr (topic_resource uri attrs) (heap_string n) (heap_string v) 3
     = topic_resource uri ((n, v) # attrs)"
  by (simp add: coap_add_attr_def topic_resource_def heap_attr_def heap_string_def)

lemma free_topic_resource [simp]: "coapFreeResource (RValid (topic_resource uri attrs)) = Inr ()"
proof -
  have "\<forall>a\<in>set (map heap_attr attrs). attr_heap a" by (auto simp: heap_attr_def attr_heap_def)
  then show ?thesis
    by (simp add: coapFreeResource_def topic_resource_def delete_heap_attrs free_uri_def)
qed

text \<open>A parse ends in a topic resource, in a rejection or in the out-of-bounds access.\<close>

lemma add_options_cases:
  "(\<exists>attrs'. add_options (topic_resource uri attrs) ss = Inr (1, RValid (topic_resource uri attrs'))) \<or>
   add_options (topic_resource uri attrs) ss = Inr (0, RDangling) \<or>
   add_options (topic_resource uri attrs) ss = Inl Out_of_bounds"
proof (induction ss arbitrary: attrs)
  case Nil
  then show ?case by auto
next
  case (Cons s ss)
  have "option_of s = Inl Out_of_bounds \<or> (\<exists>p. option_of s = Inr p)"
    by (auto simp: option_of_def unquote_def Let_def split: list.splits)
  then show ?case
  proof
    assume "option_of s = Inl Out_of_bounds"
    then show ?thesis by simp
  next
    assume "\<exists>p. option_of s = Inr p"
    then obtain p where p: "option_of s = Inr p" by blast
    show ?thesis
    proof (cases p)
      case None
      with p show ?thesis by simp
    next
      case (Some nv)
      then obtain n v where "p = Some (n, v)" by (cases nv) auto
      with p Cons.IH [of "(n, v) # attrs"] show ?thesis by (simp add: add_attr_topic)
    qed
  qed
qed

end
