(* ===== verification/TopicHeap.thy ===== *)
theory TopicHeap
  imports LinkedListDB
begin

text \<open>
  Reasoning about the heap of the topic database: which nodes a list runs through, what a
  read lock and its release do to the state, and where the search loops stop.
\<close>

section \<open>The strength of a lock\<close>

text \<open>
  A lock held by more readers is stronger, one held by a writer is strongest: taking a lock
  makes it stronger, releasing it weaker, and a free lock is the least.
\<close>

instantiation rwlock :: "{linorder, order_bot}"
begin

fun less_eq_rwlock :: "rwlock \<Rightarrow> rwlock \<Rightarrow> bool" where
  "less_eq_rwlock l Writer = True"
| "less_eq_rwlock Writer (Readers n) = False"
| "less_eq_rwlock (Readers m) (Readers n) = (m \<le> n)"

definition less_rwlock :: "rwlock \<Rightarrow> rwlock \<Rightarrow> bool" where
  "less_rwlock l m = (l \<le> m \<and> \<not> m \<le> l)"

definition bot_rwlock :: rwlock where
  "bot_rwlock = Readers 0"

instance
proof
  fix x y z :: rwlock
  show "x < y \<longleftrightarrow> x \<le> y \<and> \<not> y \<le> x" by (rule less_rwlock_def)
  show "x \<le> x" by (cases x) simp_all
  show "x \<le> y \<Longrightarrow> y \<le> z \<Longrightarrow> x \<le> z" by (cases x; cases y; cases z) simp_all
  show "x \<le> y \<Longrightarrow> y \<le> x \<Longrightarrow> x = y" by (cases x; cases y) simp_all
  show "x \<le> y \<or> y \<le> x" by (cases x; cases y) (simp_all add: linear)
  show "bot \<le> x" by (cases x) (simp_all add: bot_rwlock_def)
qed

end

fun_cases rdlockE: "rdlock l = Inr m"
fun_cases wrlockE: "wrlock l = Inr m"
fun_cases unlockE: "unlock l = Inr m"

lemma rdlock_stronger: "rdlock l = Inr m \<Longrightarrow> l < m \<and> unlock m = Inr l"
  by (elim rdlockE) (simp add: less_rwlock_def)

lemma wrlock_stronger: "wrlock l = Inr m \<Longrightarrow> l = bot \<and> l < m \<and> unlock m = Inr l"
  by (elim wrlockE) (simp_all add: less_rwlock_def bot_rwlock_def)

lemma unlock_weaker: "unlock l = Inr m \<Longrightarrow> m < l"
  by (elim unlockE) (simp_all add: less_rwlock_def)

text \<open>A free lock can be taken either way; a lock that refuses a writer is not free.\<close>

lemma lock_free_iff: "(\<exists>m. wrlock l = Inr m) \<longleftrightarrow> l = bot"
  by (cases l rule: wrlock.cases) (simp_all add: bot_rwlock_def)

section \<open>Paths in the heap\<close>

primrec path_to :: "(addr \<Rightarrow> topicData option) \<Rightarrow> addr option \<Rightarrow> addr list \<Rightarrow> addr option \<Rightarrow> bool" where
  "path_to h p [] q = (p = q)"
| "path_to h p (a # as) q = (p = Some a \<and> (\<exists>n. h a = Some n \<and> path_to h (nextPtr n) as q))"

lemma path_to_append:
  "path_to h p (as @ bs) q \<longleftrightarrow> (\<exists>r. path_to h p as r \<and> path_to h r bs q)"
  by (induction as arbitrary: p) auto

lemma path_to_frame:
  assumes "path_to h p as q" and "\<And>a. a \<in> set as \<Longrightarrow> map_option nextPtr (h' a) = map_option nextPtr (h a)"
  shows "path_to h' p as q"
  using assms
proof (induction as arbitrary: p)
  case Nil
  then show ?case by simp
next
  case (Cons a as)
  then obtain n where n: "p = Some a" "h a = Some n" "path_to h (nextPtr n) as q" by auto
  with Cons.prems(2) [of a] obtain n' where "h' a = Some n'" "nextPtr n' = nextPtr n" by auto
  with n Cons show ?case by auto
qed

lemma path_to_alloc: "path_to h p as q \<Longrightarrow> a \<in> set as \<Longrightarrow> \<exists>n. h a = Some n"
  by (induction as arbitrary: p) auto

lemma path_to_unique: "path_to h p as None \<Longrightarrow> path_to h p bs None \<Longrightarrow> as = bs"
proof (induction as arbitrary: p bs)
  case Nil
  then show ?case by (cases bs) auto
next
  case (Cons a as)
  then show ?case by (cases bs) auto
qed

section \<open>Representation\<close>

text \<open>
  \<open>db_rep d as cs\<close>: the list of \<open>d\<close> runs through the nodes \<open>as\<close> and ends; the other
  allocated nodes are the clones \<open>cs\<close>; nobody holds a lock; fresh addresses are fresh.
\<close>

definition unlocked :: "topicData \<Rightarrow> bool" where
  "unlocked n \<longleftrightarrow> node_lock n = Unlocked \<and> data_lock n = Unlocked"

definition db_rep :: "db \<Rightarrow> addr list \<Rightarrow> addr list \<Rightarrow> bool" where
  "db_rep d as cs \<longleftrightarrow>
     path_to (heap d) (topicDB d) as None \<and> distinct (as @ cs) \<and>
     dom (heap d) = set as \<union> set cs \<and> (\<forall>a\<in>dom (heap d). a < brk d) \<and>
     (\<forall>a n. heap d a = Some n \<longrightarrow> unlocked n)"

lemma db_rep_path: "db_rep d as cs \<Longrightarrow> path_to (heap d) (topicDB d) as None"
  by (simp add: db_rep_def)

lemma db_rep_distinct: "db_rep d as cs \<Longrightarrow> distinct (as @ cs)"
  by (simp add: db_rep_def)

lemma db_rep_dom: "db_rep d as cs \<Longrightarrow> dom (heap d) = set as \<union> set cs"
  by (simp add: db_rep_def)

lemma db_rep_node: "db_rep d as cs \<Longrightarrow> a \<in> set as \<union> set cs \<Longrightarrow> \<exists>n. heap d a = Some n \<and> unlocked n"
  unfolding db_rep_def by (metis domD)

lemma db_rep_brk: "db_rep d as cs \<Longrightarrow> heap d (brk d) = None"
  unfolding db_rep_def by (metis domIff nless_le)

lemma db_rep_length: "db_rep d as cs \<Longrightarrow> length as \<le> brk d"
proof -
  assume r: "db_rep d as cs"
  then have "set as \<subseteq> {..<brk d}" by (auto simp: db_rep_def)
  then have "card (set as) \<le> brk d" by (metis card_lessThan card_mono finite_lessThan)
  with r show ?thesis by (simp add: db_rep_def distinct_card)
qed

section \<open>Locking and unlocking\<close>

definition rlocked :: "addr \<Rightarrow> db \<Rightarrow> db" where
  "rlocked a d = d\<lparr>heap := (heap d)(a \<mapsto> (the (heap d a))\<lparr>node_lock := Readers 1\<rparr>)\<rparr>"

lemma topicNodeRLock_unlocked:
  "heap d a = Some n \<Longrightarrow> unlocked n \<Longrightarrow> topicNodeRLock a d = Inr (rlocked a d)"
  by (simp add: topicNodeRLock_def load_def store_def unlocked_def rlocked_def)

lemma load_rlocked:
  "heap d a = Some n \<Longrightarrow> load a (rlocked a d) = Inr (n\<lparr>node_lock := Readers 1\<rparr>)"
  by (simp add: load_def rlocked_def)

lemma topicNodeUnlock_rlocked:
  "heap d a = Some n \<Longrightarrow> unlocked n \<Longrightarrow> topicNodeUnlock a (rlocked a d) = Inr d"
  by (simp add: topicNodeUnlock_def load_def store_def unlocked_def rlocked_def fun_upd_idem)

lemma rlocked_fields [simp]:
  "topicDB (rlocked a d) = topicDB d" "brk (rlocked a d) = brk d"
  "avail (rlocked a d) = avail d" "strings (rlocked a d) = strings d"
  by (simp_all add: rlocked_def)

lemmas rlock_simps = topicNodeRLock_unlocked load_rlocked topicNodeUnlock_rlocked

section \<open>Searching\<close>

lemma compareString_eq [simp]: "compareString (Some s) (Some t) = (if s = t then 1 else 0)"
  by (simp add: compareString_def)

text \<open>
  The search loop stops at the first node with the path sought, read-locked, with its
  predecessor at hand, and nothing else has changed; enough fuel is one more than the nodes.
\<close>

lemma walk_spec:
  assumes "path_to (heap d) cur (us @ ws) None" and "length (us @ ws) < k"
    and "\<And>a n. heap d a = Some n \<Longrightarrow> unlocked n"
    and "\<forall>a\<in>set us. td_path (the (heap d a)) \<noteq> p"
    and "\<And>c vs. ws = c # vs \<Longrightarrow> td_path (the (heap d c)) = p"
  shows "walk k (Some p) prev cur d =
     (let q = (if us = [] then prev else Some (last us)) in
      case ws of [] \<Rightarrow> Inr (q, None, d) | c # _ \<Rightarrow> Inr (q, Some c, rlocked c d))"
  using assms
proof (induction us arbitrary: cur prev k)
  case Nil
  then obtain k' where k: "k = Suc k'" by (cases k) auto
  show ?case
  proof (cases ws)
    case Nil
    with Nil.prems k show ?thesis by simp
  next
    case (Cons c vs)
    with Nil.prems obtain n where n: "cur = Some c" "heap d c = Some n" by auto
    with Nil.prems(3) have "unlocked n" by blast
    moreover from n Nil.prems(5) Cons have "td_path n = p" by simp
    ultimately show ?thesis using n Cons k by (simp add: rlock_simps)
  qed
next
  case (Cons a us)
  then obtain k' where k: "k = Suc k'" by (cases k) auto
  from Cons.prems obtain n where n: "cur = Some a" "heap d a = Some n"
    "path_to (heap d) (nextPtr n) (us @ ws) None" by auto
  with Cons.prems have u: "unlocked n" "td_path n \<noteq> p" by auto
  have "walk k' (Some p) (Some a) (nextPtr n) d =
     (let q = (if us = [] then Some a else Some (last us)) in
      case ws of [] \<Rightarrow> Inr (q, None, d) | c # _ \<Rightarrow> Inr (q, Some c, rlocked c d))"
    using Cons.prems k by (intro Cons.IH n(3)) auto
  with n u k show ?case by (simp add: rlock_simps Let_def)
qed

lemma walk_end_spec:
  assumes "path_to (heap d) cur as None" and "length as < k"
    and "\<And>a n. a \<in> set as \<Longrightarrow> heap d a = Some n \<Longrightarrow> unlocked n"
  shows "walk_end k prev cur d = Inr (if as = [] then prev else Some (last as), None, d)"
  using assms
proof (induction k arbitrary: cur prev as)
  case 0
  then show ?case by simp
next
  case (Suc k)
  show ?case
  proof (cases as)
    case Nil
    with Suc.prems show ?thesis by simp
  next
    case (Cons a bs)
    with Suc.prems obtain n where n: "cur = Some a" "heap d a = Some n"
      "path_to (heap d) (nextPtr n) bs None" by auto
    with Suc.prems Cons have u: "unlocked n" by auto
    have "walk_end k (Some a) (nextPtr n) d = Inr (if bs = [] then Some a else Some (last bs), None, d)"
      using Suc.prems Cons by (intro Suc.IH n(3)) auto
    with n u Cons show ?thesis by (auto simp: rlock_simps)
  qed
qed

text \<open>\<open>getTopic\<close> finds the first node with the path and leaves the database as it was.\<close>

definition find_addr :: "db \<Rightarrow> addr list \<Rightarrow> cstring \<Rightarrow> addr option" where
  "find_addr d as p = find (\<lambda>a. td_path (the (heap d a)) = p) as"

lemma find_addr_cases:
  obtains (missing) "find_addr d as p = None" "\<forall>a\<in>set as. td_path (the (heap d a)) \<noteq> p"
  | (found) us c vs where "find_addr d as p = Some c" "as = us @ c # vs"
      "td_path (the (heap d c)) = p" "\<forall>a\<in>set us. td_path (the (heap d a)) \<noteq> p"
proof (cases "find_addr d as p")
  case None
  then show ?thesis using missing by (simp add: find_addr_def find_None_iff_ball)
next
  case (Some c)
  then show ?thesis
    using found find_split [of "\<lambda>a. td_path (the (heap d a)) = p" as c]
    unfolding find_addr_def by blast
qed

lemma db_rep_unlocked: "db_rep d as cs \<Longrightarrow> heap d a = Some n \<Longrightarrow> unlocked n"
  by (simp add: db_rep_def)

text \<open>The walk from the second node of a represented list.\<close>

lemma walk_rep_missing:
  assumes r: "db_rep d (a # bs) cs" and n: "heap d a = Some n"
    and "\<forall>b\<in>set bs. td_path (the (heap d b)) \<noteq> p"
  shows "walk (Suc (brk d)) (Some p) (Some a) (nextPtr n) d =
     Inr (if bs = [] then Some a else Some (last bs), None, d)"
proof -
  have "path_to (heap d) (nextPtr n) (bs @ []) None"
    using db_rep_path [OF r] n by auto
  moreover have "length (bs @ []) < Suc (brk d)" using db_rep_length [OF r] by simp
  ultimately show ?thesis
    using walk_spec [of d "nextPtr n" bs "[]" "Suc (brk d)" p "Some a"] assms(3)
      db_rep_unlocked [OF r] by (simp add: Let_def del: walk.simps)
qed

lemma walk_rep_found:
  assumes r: "db_rep d (a # us @ c # vs) cs" and n: "heap d a = Some n"
    and "\<forall>b\<in>set us. td_path (the (heap d b)) \<noteq> p" and "td_path (the (heap d c)) = p"
  shows "walk (Suc (brk d)) (Some p) (Some a) (nextPtr n) d =
     Inr (Some (last (a # us)), Some c, rlocked c d)"
proof -
  have "path_to (heap d) (nextPtr n) (us @ c # vs) None"
    using db_rep_path [OF r] n by auto
  moreover have "length (us @ c # vs) < Suc (brk d)" using db_rep_length [OF r] by simp
  ultimately show ?thesis
    using walk_spec [of d "nextPtr n" us "c # vs" "Suc (brk d)" p "Some a"] assms(3,4)
      db_rep_unlocked [OF r] by (simp add: Let_def del: walk.simps)
qed

lemma getTopic_rep:
  assumes r: "db_rep d as cs"
  shows "getTopic (Some p) d = Inr (find_addr d as p, d)"
proof (cases as)
  case Nil
  with r show ?thesis by (simp add: getTopic_def find_addr_def DBEmpty_def db_rep_def)
next
  case (Cons a bs)
  from r Cons obtain n where n: "topicDB d = Some a" "heap d a = Some n" "unlocked n"
    by (auto simp: db_rep_def)
  show ?thesis
  proof (cases "td_path n = p")
    case True
    with n Cons show ?thesis
      by (simp add: getTopic_def DBEmpty_def find_addr_def rlock_simps)
  next
    case False
    show ?thesis
    proof (rule find_addr_cases [of d bs p])
      assume f: "find_addr d bs p = None" "\<forall>b\<in>set bs. td_path (the (heap d b)) \<noteq> p"
      with n False Cons walk_rep_missing [OF r [unfolded Cons] n(2) f(2)] show ?thesis
        by (simp add: getTopic_def DBEmpty_def find_addr_def rlock_simps del: walk.simps)
    next
      fix us c vs
      assume f: "find_addr d bs p = Some c" "bs = us @ c # vs"
        "td_path (the (heap d c)) = p" "\<forall>b\<in>set us. td_path (the (heap d b)) \<noteq> p"
      from db_rep_node [OF r, of c] Cons f(2) obtain m where m: "heap d c = Some m" "unlocked m"
        by auto
      from n False Cons f(1) m walk_rep_found [OF r [unfolded Cons f(2)] n(2) f(4,3)]
      show ?thesis
        by (simp add: getTopic_def DBEmpty_def find_addr_def rlock_simps del: walk.simps)
    qed
  qed
qed

lemma getTopic_None [simp]: "getTopic None d = Inr (None, d)"
  by (simp add: getTopic_def)

end
