(* ===== verification/TopicSpec.thy ===== *)
theory TopicSpec
  imports TopicHeap
begin

text \<open>
  What the topic database promises, as operations on the plain list of its topics, and the
  proof that every operation of \<open>LinkedListDB\<close> implements them: it does not fault, it
  changes the topics as the specification says, it leaves every lock free and every clone
  alone, and it accounts for every string block.
\<close>

section \<open>Specification\<close>

definition lookup :: "cstring \<Rightarrow> topic list \<Rightarrow> topic option" where
  "lookup p xs = find (\<lambda>t. td_path t = p) xs"

fun update_first :: "cstring \<Rightarrow> (topic \<Rightarrow> topic) \<Rightarrow> topic list \<Rightarrow> topic list" where
  "update_first p f [] = []"
| "update_first p f (t # ts) = (if td_path t = p then f t # ts else t # update_first p f ts)"

fun remove_first :: "cstring \<Rightarrow> topic list \<Rightarrow> topic list" where
  "remove_first p [] = []"
| "remove_first p (t # ts) = (if td_path t = p then ts else t # remove_first p ts)"

definition paths :: "topic list \<Rightarrow> cstring list" where
  "paths xs = map td_path xs"

definition topic_blocks :: "topic \<Rightarrow> nat" where
  "topic_blocks t = (if td_data t = None then 1 else 2)"

definition blocks :: "topic list \<Rightarrow> nat" where
  "blocks xs = sum_list (map topic_blocks xs)"

text \<open>The datum \<open>setTopic\<close> stores for a buffer and a size.\<close>

definition stored_data :: "char list option \<Rightarrow> nat \<Rightarrow> cstring option" where
  "stored_data data n =
     (case data of
        Some bs \<Rightarrow> if n > 0 then Some (snprintf_s (n + 1) (cstr bs)) else None
      | None \<Rightarrow> None)"

subsection \<open>Laws of the specification\<close>

lemma stored_data_cstr [simp]: "stored_data (Some (cstr bs)) n = stored_data (Some bs) n"
  by (simp add: stored_data_def)

lemma lookup_Nil [simp]: "lookup p [] = None"
  by (simp add: lookup_def)

lemma lookup_Cons [simp]: "lookup p (t # ts) = (if td_path t = p then Some t else lookup p ts)"
  by (simp add: lookup_def)

lemma lookup_None_iff: "lookup p xs = None \<longleftrightarrow> p \<notin> set (paths xs)"
  by (auto simp: lookup_def paths_def find_None_iff)

lemma lookup_path: "lookup p xs = Some t \<Longrightarrow> td_path t = p \<and> t \<in> set xs"
  by (auto simp: lookup_def find_Some_iff)

lemma lookup_append: "lookup p (xs @ ys) = (case lookup p xs of None \<Rightarrow> lookup p ys | Some t \<Rightarrow> Some t)"
  by (simp add: lookup_def find_append split: option.split)

lemma lookup_update_first:
  assumes "\<And>t. td_path (f t) = td_path t"
  shows "lookup q (update_first p f xs) =
    (if q = p then map_option f (lookup p xs) else lookup q xs)"
  using assms by (induction xs) auto

lemma lookup_remove_first:
  "distinct (paths xs) \<Longrightarrow> lookup q (remove_first p xs) = (if q = p then None else lookup q xs)"
  by (induction xs) (auto simp: paths_def lookup_None_iff)

lemma paths_update_first:
  "(\<And>t. td_path (f t) = td_path t) \<Longrightarrow> paths (update_first p f xs) = paths xs"
  by (induction xs) (auto simp: paths_def)

lemma paths_remove_first: "paths (remove_first p xs) = remove1 p (paths xs)"
  by (induction xs) (auto simp: paths_def)

lemma update_first_missing: "lookup p xs = None \<Longrightarrow> update_first p f xs = xs"
  by (induction xs) (auto split: if_splits)

lemma remove_first_missing: "lookup p xs = None \<Longrightarrow> remove_first p xs = xs"
  by (induction xs) (auto split: if_splits)

lemma set_remove_first: "set (remove_first p xs) \<subseteq> set xs"
  by (induction xs) auto

lemma update_first_split:
  "\<forall>t\<in>set us. td_path t \<noteq> p \<Longrightarrow> td_path t = p \<Longrightarrow>
   update_first p f (us @ t # vs) = us @ f t # vs"
  by (induction us) auto

lemma remove_first_split:
  "\<forall>t\<in>set us. td_path t \<noteq> p \<Longrightarrow> td_path t = p \<Longrightarrow>
   remove_first p (us @ t # vs) = us @ vs"
  by (induction us) auto

lemma lookup_split:
  "\<forall>t\<in>set us. td_path t \<noteq> p \<Longrightarrow> td_path t = p \<Longrightarrow> lookup p (us @ t # vs) = Some t"
  by (induction us) auto

lemma set_update_first:
  "t' \<in> set (update_first u f xs) \<Longrightarrow> t' \<in> set xs \<or> (\<exists>t. lookup u xs = Some t \<and> t' = f t)"
  by (induction xs) (auto split: if_splits)

lemma stored_data_no_NUL: "stored_data data n = Some s \<Longrightarrow> NUL \<notin> set s"
  using cstr_no_NUL [of "the data"]
  by (auto simp: stored_data_def snprintf_s_def split: option.splits if_splits dest: in_set_takeD)

lemma blocks_simps [simp]:
  "blocks [] = 0" "blocks (t # ts) = topic_blocks t + blocks ts"
  "blocks (xs @ ys) = blocks xs + blocks ys"
  by (simp_all add: blocks_def)

section \<open>Abstraction\<close>

definition node_topic :: "db \<Rightarrow> addr \<Rightarrow> topic" where
  "node_topic d a = topic.truncate (the (heap d a))"

text \<open>
  \<open>db_abs d xs cs l\<close>: the database \<open>d\<close> holds the topics \<open>xs\<close>, the clones \<open>cs\<close> are
  allocated beside it, and \<open>l\<close> string blocks are allocated that no node points to.
\<close>

definition db_abs :: "db \<Rightarrow> topic list \<Rightarrow> (addr \<times> topic) list \<Rightarrow> nat \<Rightarrow> bool" where
  "db_abs d xs cs l \<longleftrightarrow>
     (\<exists>as. db_rep d as (map fst cs) \<and> xs = map (node_topic d) as \<and>
           (\<forall>(a, t)\<in>set cs. node_topic d a = t)) \<and>
     strings d = blocks xs + blocks (map snd cs) + l"

lemma db_absI:
  assumes "db_rep d as (map fst cs)" and "map (node_topic d) as = xs"
    and "\<And>a t. (a, t) \<in> set cs \<Longrightarrow> node_topic d a = t"
    and "strings d = blocks xs + blocks (map snd cs) + l"
  shows "db_abs d xs cs l"
  unfolding db_abs_def using assms by fast

lemma db_absE:
  assumes "db_abs d xs cs l"
  obtains as where "db_rep d as (map fst cs)" "xs = map (node_topic d) as"
    "\<And>a t. (a, t) \<in> set cs \<Longrightarrow> node_topic d a = t"
    "strings d = blocks xs + blocks (map snd cs) + l"
  using assms unfolding db_abs_def by fast

lemma truncate_sel [simp]:
  "td_path (topic.truncate n) = td_path n" "td_data (topic.truncate n) = td_data n"
  "td_topic_ma (topic.truncate n) = td_topic_ma n" "td_data_ma (topic.truncate n) = td_data_ma n"
  by (simp_all add: topic.truncate_def)

lemma truncate_topicData [simp]: "topic.truncate (topic.truncate n) = topic.truncate n"
  by (simp add: topic.truncate_def)

lemma node_topic_path: "td_path (node_topic d a) = td_path (the (heap d a))"
  by (simp add: node_topic_def)

text \<open>A search of the nodes is a search of the topics.\<close>

lemma lookup_find_addr:
  "lookup p (map (node_topic d) as) = map_option (node_topic d) (find_addr d as p)"
  by (induction as) (auto simp: find_addr_def node_topic_path)

lemma getTopic_refines:
  assumes "db_abs d xs cs l"
  obtains r where "getTopic (Some p) d = Inr (r, d)"
    "lookup p xs = map_option (node_topic d) r"
    "\<And>a. r = Some a \<Longrightarrow> \<exists>n. heap d a = Some n \<and> unlocked n"
proof -
  from assms obtain as where as: "db_rep d as (map fst cs)" "xs = map (node_topic d) as"
    by (rule db_absE)
  have "\<exists>n. heap d a = Some n \<and> unlocked n" if "find_addr d as p = Some a" for a
    using that db_rep_node [OF as(1), of a] by (auto simp: find_addr_def find_Some_iff)
  with as show ?thesis
    using that getTopic_rep [OF as(1)] lookup_find_addr by blast
qed

section \<open>Changing one node\<close>

lemma db_rep_update:
  assumes r: "db_rep d as cs" and n: "heap d a = Some n" and "unlocked n'" "nextPtr n' = nextPtr n"
  shows "db_rep (d\<lparr>heap := (heap d)(a \<mapsto> n'), strings := k\<rparr>) as cs"
  using assms by (auto simp: db_rep_def intro: path_to_frame)

text \<open>Updating the topic found by a search, in the heap and in the list.\<close>

lemma db_abs_update:
  assumes abs: "db_abs d xs cs l"
    and g: "getTopic (Some p) d = Inr (Some a, d)" and n: "heap d a = Some n"
    and n': "unlocked n'" "nextPtr n' = nextPtr n"
    and f: "topic.truncate n' = f (topic.truncate n)" "\<And>t. td_path (f t) = td_path t"
    and k: "k + topic_blocks (topic.truncate n) + l = strings d + topic_blocks (topic.truncate n') + l'"
  shows "db_abs (d\<lparr>heap := (heap d)(a \<mapsto> n'), strings := k\<rparr>) (update_first p f xs) cs l'"
proof -
  let ?d = "d\<lparr>heap := (heap d)(a \<mapsto> n'), strings := k\<rparr>"
  from abs obtain as where as: "db_rep d as (map fst cs)" "xs = map (node_topic d) as"
    "\<And>a t. (a, t) \<in> set cs \<Longrightarrow> node_topic d a = t"
    "strings d = blocks xs + blocks (map snd cs) + l" by (rule db_absE) fast
  from g getTopic_rep [OF as(1)] have "find_addr d as p = Some a" by simp
  then obtain us vs where s: "as = us @ a # vs" "td_path (the (heap d a)) = p"
    "\<forall>b\<in>set us. td_path (the (heap d b)) \<noteq> p"
    by (cases rule: find_addr_cases [of d as p]) auto
  have dist: "a \<notin> set us" "a \<notin> set vs" "a \<notin> fst ` set cs"
    using db_rep_distinct [OF as(1)] s(1) by auto
  have rep: "db_rep ?d as (map fst cs)" by (rule db_rep_update [OF as(1) n n'])
  have nt: "node_topic ?d b = node_topic d b" if "b \<noteq> a" for b
    using that by (simp add: node_topic_def)
  have a': "node_topic ?d a = f (node_topic d a)" using n f by (simp add: node_topic_def)
  have U: "update_first p f (map (node_topic d) us @ node_topic d a # map (node_topic d) vs) =
      map (node_topic d) us @ f (node_topic d a) # map (node_topic d) vs"
    by (rule update_first_split) (use s in \<open>auto simp: node_topic_path\<close>)
  have "map (node_topic ?d) us = map (node_topic d) us" "map (node_topic ?d) vs = map (node_topic d) vs"
    using dist nt by (simp_all only: map_eq_conv) (metis+)
  with a' U have xs: "map (node_topic ?d) as = update_first p f xs" by (simp add: as(2) s(1))
  show ?thesis
  proof (rule db_absI [OF rep xs])
    fix b t assume "(b, t) \<in> set cs"
    with dist(3) have "b \<noteq> a" by force
    with nt as(3) \<open>(b, t) \<in> set cs\<close> show "node_topic ?d b = t" by simp
  next
    have "node_topic d a = topic.truncate n" using n by (simp add: node_topic_def)
    with as(4) show "strings ?d = blocks (update_first p f xs) + blocks (map snd cs) + l'"
      using k f(1) U by (simp add: as(2) s(1))
  qed
qed

section \<open>The operations refine the specification\<close>

text \<open>Reading and writing a node between taking its locks and giving them back.\<close>

lemmas node_op_defs = topicNodeRLock_def topicNodeWLock_def topicNodeUnlock_def
  topicDataRLock_def topicDataWLock_def topicDataUnlock_def load_def store_def

lemma unlocked_restore:
  "unlocked n \<Longrightarrow> n\<lparr>node_lock := Unlocked, data_lock := Unlocked\<rparr> = n"
  by (cases n) (simp add: unlocked_def)

lemma setTopic_missing:
  assumes "getTopic (Some p) d = Inr (None, d)"
  shows "setTopic (Some p) data sz tma dma d = Inr (0, d)"
  using assms by (simp add: setTopic_def)

lemma setTopic_found:
  assumes g: "getTopic (Some p) d = Inr (Some a, d)" and n: "heap d a = Some n" "unlocked n"
  shows "setTopic (Some p) data sz tma dma d = Inr (1,
    d\<lparr>heap := (heap d)(a \<mapsto> n\<lparr>td_data := stored_data data sz, td_topic_ma := tma, td_data_ma := dma\<rparr>),
      strings := (if stored_data data sz = None then strings d else strings d + 1 - count_data n)\<rparr>)"
proof -
  obtain p' da t1 t2 np nl dl where e: "n = \<lparr>td_path = p', td_data = da, td_topic_ma = t1,
    td_data_ma = t2, nextPtr = np, node_lock = nl, data_lock = dl\<rparr>" by (cases n)
  with n(2) have "nl = Unlocked" "dl = Unlocked" by (simp_all add: unlocked_def)
  with g n(1) e show ?thesis
    by (cases data) (simp_all add: setTopic_def node_op_defs stored_data_def count_data_def)
qed

text \<open>
  \<open>setTopic\<close> returns 1 exactly when the path is known and then replaces datum and times of
  its topic; a datum that is overwritten by nothing is leaked.
\<close>

definition leaked_by :: "topic option \<Rightarrow> cstring option \<Rightarrow> nat" where
  "leaked_by t new = (case t of None \<Rightarrow> 0 | Some t \<Rightarrow> if new = None \<and> td_data t \<noteq> None then 1 else 0)"

lemma setTopic_refines:
  assumes abs: "db_abs d xs cs l"
  shows "\<exists>d'. setTopic (Some p) data sz tma dma d = Inr (if lookup p xs = None then 0 else 1, d') \<and>
    avail d' = avail d \<and>
    db_abs d' (update_first p (\<lambda>t. t\<lparr>td_data := stored_data data sz, td_topic_ma := tma, td_data_ma := dma\<rparr>) xs)
      cs (l + leaked_by (lookup p xs) (stored_data data sz))"
proof (rule getTopic_refines [OF abs, of p])
  fix r assume r: "getTopic (Some p) d = Inr (r, d)" "lookup p xs = map_option (node_topic d) r"
    "\<And>a. r = Some a \<Longrightarrow> \<exists>n. heap d a = Some n \<and> unlocked n"
  show ?thesis
  proof (cases r)
    case None
    with r abs show ?thesis
      by (simp add: setTopic_missing leaked_by_def update_first_missing)
  next
    case (Some a)
    with r obtain n where n: "heap d a = Some n" "unlocked n" by blast
    let ?n = "n\<lparr>td_data := stored_data data sz, td_topic_ma := tma, td_data_ma := dma\<rparr>"
    let ?k = "if stored_data data sz = None then strings d else strings d + 1 - count_data n"
    have lk: "lookup p xs = Some (topic.truncate n)" using r Some n by (simp add: node_topic_def)
    have "topic_blocks (topic.truncate n) \<le> blocks xs"
      using lookup_path [OF lk] by (auto simp: blocks_def intro: member_le_sum_list)
    then have ge: "count_data n \<le> strings d"
      using abs by (simp add: db_abs_def topic_blocks_def count_data_def split: if_splits)
    have "db_abs (d\<lparr>heap := (heap d)(a \<mapsto> ?n), strings := ?k\<rparr>)
      (update_first p (\<lambda>t. t\<lparr>td_data := stored_data data sz, td_topic_ma := tma, td_data_ma := dma\<rparr>) xs)
      cs (l + leaked_by (lookup p xs) (stored_data data sz))"
      using r(1) Some n ge
      by (intro db_abs_update [OF abs])
        (auto simp: unlocked_def topic.truncate_def lk leaked_by_def topic_blocks_def count_data_def)
    with setTopic_found [OF r(1) [unfolded Some] n] lk show ?thesis by simp
  qed
qed

subsection \<open>Updates of known topics\<close>

lemma updateTopicData_refines:
  assumes abs: "db_abs d xs cs l"
  shows "\<exists>d'. updateTopicData (Some p) dma data sz d = Inr (if lookup p xs = None then 0 else 1, d') \<and>
    avail d' = avail d \<and>
    db_abs d' (update_first p (\<lambda>t. t\<lparr>td_data := stored_data data sz, td_data_ma := dma\<rparr>) xs)
      cs (l + leaked_by (lookup p xs) (stored_data data sz))"
proof (rule getTopic_refines [OF abs, of p])
  fix r assume r: "getTopic (Some p) d = Inr (r, d)" "lookup p xs = map_option (node_topic d) r"
    "\<And>a. r = Some a \<Longrightarrow> \<exists>n. heap d a = Some n \<and> unlocked n"
  show ?thesis
  proof (cases r)
    case None
    with r abs show ?thesis
      by (simp add: updateTopicData_def leaked_by_def update_first_missing)
  next
    case (Some a)
    with r obtain n where n: "heap d a = Some n" "unlocked n" by blast
    have lk: "lookup p xs = Some (topic.truncate n)" using r Some n by (simp add: node_topic_def)
    have U: "update_first p (\<lambda>t. t\<lparr>td_data := D, td_topic_ma := td_topic_ma n, td_data_ma := dma\<rparr>) xs =
      update_first p (\<lambda>t. t\<lparr>td_data := D, td_data_ma := dma\<rparr>) xs" for D
      using lk by (induction xs) (auto split: if_splits)
    show ?thesis
      using setTopic_refines [OF abs, of p data sz "td_topic_ma n" dma] r(1) Some n lk
      by (simp add: updateTopicData_def load_def U)
  qed
qed

text \<open>
  \<open>updateTopicInfo\<close> writes the datum back through \<open>setTopic\<close>: a datum that is the empty
  string has size 0 and is lost.
\<close>

definition rewritten_data :: "cstring option \<Rightarrow> cstring option" where
  "rewritten_data s = (case s of None \<Rightarrow> None | Some s \<Rightarrow> if s = [] then None else Some s)"

lemma updateTopicInfo_refines:
  assumes abs: "db_abs d xs cs l"
    and nul: "\<And>t s. lookup p xs = Some t \<Longrightarrow> td_data t = Some s \<Longrightarrow> NUL \<notin> set s"
  shows "\<exists>d'. updateTopicInfo (Some p) tma d = Inr (if lookup p xs = None then 0 else 1, d') \<and>
    avail d' = avail d \<and>
    db_abs d' (update_first p (\<lambda>t. t\<lparr>td_data := rewritten_data (td_data t), td_topic_ma := tma\<rparr>) xs)
      cs (l + (case lookup p xs of None \<Rightarrow> 0 | Some t \<Rightarrow> if td_data t = Some [] then 1 else 0))"
proof (rule getTopic_refines [OF abs, of p])
  fix r assume r: "getTopic (Some p) d = Inr (r, d)" "lookup p xs = map_option (node_topic d) r"
    "\<And>a. r = Some a \<Longrightarrow> \<exists>n. heap d a = Some n \<and> unlocked n"
  show ?thesis
  proof (cases r)
    case None
    with r abs show ?thesis by (simp add: updateTopicInfo_def update_first_missing)
  next
    case (Some a)
    with r obtain n where n: "heap d a = Some n" "unlocked n" by blast
    have lk: "lookup p xs = Some (topic.truncate n)" using r Some n by (simp add: node_topic_def)
    let ?sz = "case td_data n of None \<Rightarrow> 0 | Some s \<Rightarrow> length s"
    have D: "stored_data (td_data n) ?sz = rewritten_data (td_data n)"
      using nul [OF lk] by (simp add: stored_data_def rewritten_data_def snprintf_s_def cstr_id
          split: option.splits)
    have U: "update_first p (\<lambda>t. t\<lparr>td_data := rewritten_data (td_data n), td_topic_ma := tma,
          td_data_ma := td_data_ma n\<rparr>) xs =
      update_first p (\<lambda>t. t\<lparr>td_data := rewritten_data (td_data t), td_topic_ma := tma\<rparr>) xs"
      using lk by (induction xs) (auto split: if_splits)
    have L: "leaked_by (lookup p xs) (rewritten_data (td_data n)) =
        (if td_data n = Some [] then 1 else 0)"
      by (simp add: lk leaked_by_def rewritten_data_def split: option.split)
    show ?thesis
      using setTopic_refines [OF abs, of p "td_data n" ?sz tma "td_data_ma n", unfolded D U L]
        r(1) Some n lk
      by (simp add: updateTopicInfo_def load_def Let_def cong: option.case_cong)
  qed
qed

lemma deleteTopicData_found:
  assumes g: "getTopic (Some p) d = Inr (Some a, d)" and n: "heap d a = Some n" "unlocked n"
  shows "deleteTopicData (Some p) d = Inr (1,
    d\<lparr>heap := (heap d)(a \<mapsto> n\<lparr>td_data := None, td_data_ma := 0\<rparr>), strings := strings d - count_data n\<rparr>)"
proof -
  obtain p' da t1 t2 np nl dl where e: "n = \<lparr>td_path = p', td_data = da, td_topic_ma = t1,
    td_data_ma = t2, nextPtr = np, node_lock = nl, data_lock = dl\<rparr>" by (cases n)
  with n(2) have "nl = Unlocked" "dl = Unlocked" by (simp_all add: unlocked_def)
  with g n(1) e show ?thesis
    by (simp add: deleteTopicData_def node_op_defs count_data_def)
qed

lemma deleteTopicData_refines:
  assumes abs: "db_abs d xs cs l"
  shows "\<exists>d'. deleteTopicData (Some p) d = Inr (if lookup p xs = None then 0 else 1, d') \<and>
    avail d' = avail d \<and>
    db_abs d' (update_first p (\<lambda>t. t\<lparr>td_data := None, td_data_ma := 0\<rparr>) xs) cs l"
proof (rule getTopic_refines [OF abs, of p])
  fix r assume r: "getTopic (Some p) d = Inr (r, d)" "lookup p xs = map_option (node_topic d) r"
    "\<And>a. r = Some a \<Longrightarrow> \<exists>n. heap d a = Some n \<and> unlocked n"
  show ?thesis
  proof (cases r)
    case None
    with r abs show ?thesis by (simp add: deleteTopicData_def update_first_missing)
  next
    case (Some a)
    with r obtain n where n: "heap d a = Some n" "unlocked n" by blast
    have lk: "lookup p xs = Some (topic.truncate n)" using r Some n by (simp add: node_topic_def)
    have "topic_blocks (topic.truncate n) \<le> blocks xs"
      using lookup_path [OF lk] by (auto simp: blocks_def intro: member_le_sum_list)
    then have ge: "count_data n \<le> strings d"
      using abs by (simp add: db_abs_def topic_blocks_def count_data_def split: if_splits)
    have "db_abs (d\<lparr>heap := (heap d)(a \<mapsto> n\<lparr>td_data := None, td_data_ma := 0\<rparr>),
          strings := strings d - count_data n\<rparr>)
      (update_first p (\<lambda>t. t\<lparr>td_data := None, td_data_ma := 0\<rparr>) xs) cs l"
      using r(1) Some n ge
      by (intro db_abs_update [OF abs])
        (auto simp: unlocked_def topic.truncate_def topic_blocks_def count_data_def)
    with deleteTopicData_found [OF r(1) [unfolded Some] n] lk show ?thesis by simp
  qed
qed

lemma topicExist_refines:
  assumes "db_abs d xs cs l"
  shows "topicExist (Some p) d = Inr (if lookup p xs = None then 0 else 1, d)"
  by (rule getTopic_refines [OF assms, of p]) (auto simp: topicExist_def)

subsection \<open>Adding a topic\<close>

definition new_topic :: "cstring \<Rightarrow> nat \<Rightarrow> int \<Rightarrow> topic" where
  "new_topic path sz tma =
     \<lparr>td_path = snprintf_s (sz + 1) (cstr path), td_data = None, td_topic_ma = tma, td_data_ma = 0\<rparr>"

definition new_node :: "topic \<Rightarrow> topicData" where
  "new_node t = topic.extend t \<lparr>nextPtr = None, node_lock = Unlocked, data_lock = Unlocked\<rparr>"

lemma new_node_simps [simp]:
  "topic.truncate (new_node t) = t" "unlocked (new_node t)" "nextPtr (new_node t) = None"
  by (simp_all add: new_node_def topic.truncate_def topic.extend_def unlocked_def)

text \<open>Linking a fresh node behind the last one.\<close>

lemma path_to_snoc:
  assumes "path_to h x (bs @ [p]) None" and "distinct (bs @ [p])" and "h p = Some n"
    and "a \<notin> set bs" "a \<noteq> p"
  shows "path_to (h(a \<mapsto> m\<lparr>nextPtr := None\<rparr>, p \<mapsto> n\<lparr>nextPtr := Some a\<rparr>)) x (bs @ [p, a]) None"
proof -
  let ?h = "h(a \<mapsto> m\<lparr>nextPtr := None\<rparr>, p \<mapsto> n\<lparr>nextPtr := Some a\<rparr>)"
  from assms(1) have 1: "path_to h x bs (Some p)" by (auto simp: path_to_append)
  have "path_to ?h x bs (Some p)"
    by (rule path_to_frame [OF 1]) (use assms in auto)
  with assms show ?thesis by (simp add: path_to_append)
qed

lemma db_rep_init_node:
  assumes r: "db_rep d as cs" and n: "unlocked n"
  shows "db_rep (d\<lparr>brk := Suc (brk d), avail := k, strings := j, heap := (heap d)(brk d \<mapsto> n)\<rparr>)
    as (brk d # cs)"
proof -
  have b: "brk d \<notin> set as \<union> set cs"
    using db_rep_brk [OF r] db_rep_dom [OF r] by (metis domIff)
  have "path_to ((heap d)(brk d \<mapsto> n)) (topicDB d) as None"
    by (rule path_to_frame [OF db_rep_path [OF r]]) (use b in auto)
  with r n b show ?thesis by (auto simp: db_rep_def less_Suc_eq)
qed

lemma addTopic_found:
  fixes path :: cstring and tma :: int
  assumes r: "db_rep d as cs" and "avail d > 0" and "sz > 0"
  defines "a \<equiv> brk d" and "n \<equiv> new_node (new_topic path sz tma)"
  shows "\<exists>d'. addTopic (Some path) sz tma d = Inr (1, d') \<and>
    topicDB d' = (if as = [] then Some a else topicDB d) \<and> brk d' = Suc a \<and>
    avail d' = avail d - 1 \<and> strings d' = strings d + 1 \<and>
    (if as = [] then heap d' = (heap d)(a \<mapsto> n)
     else \<exists>m. heap d (last as) = Some m \<and>
          heap d' = (heap d)(a \<mapsto> n\<lparr>nextPtr := None\<rparr>, last as \<mapsto> m\<lparr>nextPtr := Some a\<rparr>))"
proof -
  let ?d = "d\<lparr>brk := Suc (brk d), avail := avail d - 1, strings := strings d + 1,
             heap := (heap d)(brk d \<mapsto> n)\<rparr>"
  have N: "n = \<lparr>td_path = snprintf_s (sz + 1) (cstr path), td_data = None,
      td_topic_ma = tma, td_data_ma = 0, nextPtr = None, node_lock = Unlocked, data_lock = Unlocked\<rparr>"
    by (simp add: n_def new_node_def new_topic_def topic.extend_def)
  have r': "db_rep ?d as (brk d # cs)"
    by (rule db_rep_init_node [OF r]) (simp add: n_def)
  have W: "walk_end (Suc (brk ?d)) None (topicDB ?d) ?d =
      Inr (if as = [] then None else Some (last as), None, ?d)"
    by (rule walk_end_spec [OF db_rep_path [OF r']])
      (use db_rep_length [OF r'] db_rep_unlocked [OF r'] in auto)
  have S: "addTopic (Some path) sz tma d =
      bindR (walk_end (Suc (brk ?d)) None (topicDB ?d) ?d) (\<lambda>(previousPtr, currentPtr, d').
        case previousPtr of
          None \<Rightarrow> bindR (set_nextPtr (brk d) (topicDB d') d') (\<lambda>d'. Inr (1, d'\<lparr>topicDB := Some (brk d)\<rparr>))
        | Some p \<Rightarrow>
            bindR (topicNodeWLock p d') (\<lambda>d'. bindR (set_nextPtr p (Some (brk d)) d') (\<lambda>d'.
            bindR (set_nextPtr (brk d) currentPtr d') (\<lambda>d'.
            bindR (topicNodeUnlock p d') (\<lambda>d'. Inr (1, d'))))))"
    using assms(2,3) by (simp add: addTopic_def malloc_node_def init_node_def Let_def N
        del: walk_end.simps)
  show ?thesis
  proof (cases "as = []")
    case True
    with r have "topicDB d = None" by (simp add: db_rep_def)
    with True show ?thesis
      unfolding S W by (simp add: set_nextPtr_def load_def store_def N a_def)
  next
    case False
    then have L: "last as \<in> set as" by simp
    with db_rep_node [OF r] obtain m where m: "heap d (last as) = Some m" "unlocked m" by blast
    have ne: "last as \<noteq> brk d" using m db_rep_brk [OF r] by auto
    from m(2) have ul: "node_lock m = Unlocked" by (simp add: unlocked_def)
    obtain p' da t1 t2 np nl dl where e: "m = \<lparr>td_path = p', td_data = da, td_topic_ma = t1,
      td_data_ma = t2, nextPtr = np, node_lock = nl, data_lock = dl\<rparr>" by (cases m)
    show ?thesis
      unfolding S W using False m(1) ul ne ne [symmetric] e
      by (simp add: set_nextPtr_def node_op_defs fun_upd_twist N a_def)
  qed
qed

lemma db_rep_added:
  assumes r: "db_rep d as cs" and n: "unlocked n" "nextPtr n = None"
    and d': "topicDB d' = (if as = [] then Some (brk d) else topicDB d)" "brk d' = Suc (brk d)"
      "if as = [] then heap d' = (heap d)(brk d \<mapsto> n)
       else \<exists>m. heap d (last as) = Some m \<and>
          heap d' = (heap d)(brk d \<mapsto> n\<lparr>nextPtr := None\<rparr>, last as \<mapsto> m\<lparr>nextPtr := Some (brk d)\<rparr>)"
  shows "db_rep d' (as @ [brk d]) cs"
proof -
  have b: "brk d \<notin> set as \<union> set cs"
    using db_rep_brk [OF r] db_rep_dom [OF r] by (metis domIff)
  show ?thesis
  proof (cases "as = []")
    case True
    with r n d' b show ?thesis by (auto simp: db_rep_def less_Suc_eq)
  next
    case False
    then obtain bs p where as: "as = bs @ [p]" by (metis rev_exhaust)
    with d' obtain m where m: "heap d p = Some m"
      "heap d' = (heap d)(brk d \<mapsto> n\<lparr>nextPtr := None\<rparr>, p \<mapsto> m\<lparr>nextPtr := Some (brk d)\<rparr>)"
      by auto
    have "path_to (heap d') (topicDB d) (bs @ [p, brk d]) None"
      unfolding m(2)
      by (rule path_to_snoc [of "heap d" _ bs p m])
        (use db_rep_path [OF r] db_rep_distinct [OF r] as b m(1) in auto)
    moreover have "unlocked m" using r m(1) by (rule db_rep_unlocked)
    ultimately show ?thesis
      using r n d'(1,2) m b as by (auto simp: db_rep_def less_Suc_eq unlocked_def)
  qed
qed

text \<open>
  \<open>addTopic\<close> appends a topic with no datum when a node can be allocated; when not, or with
  an empty path, it returns 0 and changes nothing the callers see.
\<close>

lemma addTopic_refines:
  assumes abs: "db_abs d xs cs l" and "sz > 0" and "avail d > 0"
  shows "\<exists>d'. addTopic (Some path) sz tma d = Inr (1, d') \<and> avail d' = avail d - 1 \<and>
    db_abs d' (xs @ [new_topic path sz tma]) cs l"
proof -
  from abs obtain as where as: "db_rep d as (map fst cs)" "xs = map (node_topic d) as"
    "\<And>a t. (a, t) \<in> set cs \<Longrightarrow> node_topic d a = t"
    "strings d = blocks xs + blocks (map snd cs) + l" by (rule db_absE) fast
  let ?n = "new_node (new_topic path sz tma)"
  obtain d' where d': "addTopic (Some path) sz tma d = Inr (1, d')"
    "topicDB d' = (if as = [] then Some (brk d) else topicDB d)" "brk d' = Suc (brk d)"
    "avail d' = avail d - 1" "strings d' = strings d + 1"
    "if as = [] then heap d' = (heap d)(brk d \<mapsto> ?n)
     else \<exists>m. heap d (last as) = Some m \<and>
       heap d' = (heap d)(brk d \<mapsto> ?n\<lparr>nextPtr := None\<rparr>, last as \<mapsto> m\<lparr>nextPtr := Some (brk d)\<rparr>)"
    using addTopic_found [OF as(1) assms(3,2)] by blast
  have rep: "db_rep d' (as @ [brk d]) (map fst cs)"
    by (rule db_rep_added [OF as(1) _ _ d'(2,3,6)]) simp_all
  have nt: "node_topic d' b = node_topic d b" if "b \<noteq> brk d" for b
    using that d'(6) by (auto simp: node_topic_def topic.truncate_def split: if_splits)
  have "brk d \<notin> set as \<union> fst ` set cs"
    using db_rep_brk [OF as(1)] db_rep_dom [OF as(1)] by (metis domIff list.set_map)
  moreover have "node_topic d' (brk d) = new_topic path sz tma"
  proof (cases "as = []")
    case False
    then have "last as \<noteq> brk d" using calculation by (metis UnI1 last_in_set)
    with False d'(6) show ?thesis
      by (auto simp: node_topic_def topic.truncate_def new_node_def topic.extend_def)
  qed (use d'(6) in \<open>simp add: node_topic_def\<close>)
  ultimately have "map (node_topic d') (as @ [brk d]) = xs @ [new_topic path sz tma]"
    using nt as(2) by (auto simp: map_eq_conv) (metis nt)
  moreover have "node_topic d' b = t" if "(b, t) \<in> set cs" for b t
    using that nt as(3) \<open>brk d \<notin> set as \<union> fst ` set cs\<close> by force
  moreover have "topic_blocks (new_topic path sz tma) = 1" by (simp add: topic_blocks_def new_topic_def)
  ultimately have "db_abs d' (xs @ [new_topic path sz tma]) cs l"
    using as(4) d'(5) by (intro db_absI [OF rep]) auto
  with d'(1,4) show ?thesis by blast
qed

lemma addTopic_rejected:
  assumes "db_abs d xs cs l" and "avail d = 0 \<or> sz = 0 \<or> path = None"
  shows "\<exists>d'. addTopic path sz tma d = Inr (0, d') \<and> avail d' = avail d \<and> db_abs d' xs cs l"
proof (cases "avail d = 0")
  case True
  with assms(1) show ?thesis by (simp add: addTopic_def malloc_node_def)
next
  case False
  let ?d = "d\<lparr>brk := Suc (brk d), avail := Suc (avail d - 1)\<rparr>"
  have "db_rep ?d as cs'" if "db_rep d as cs'" for as cs'
    using that by (auto simp: db_rep_def less_Suc_eq)
  moreover have "node_topic ?d = node_topic d" by (simp add: node_topic_def fun_eq_iff)
  ultimately have "db_abs ?d xs cs l"
    using assms(1) by (auto elim!: db_absE intro!: db_absI)
  with False assms(2) show ?thesis
    by (auto simp: addTopic_def malloc_node_def)
qed

end
