(* ===== verification/TopicRefine.thy ===== *)
theory TopicRefine
  imports TopicSpec
begin

text \<open>
  The refinement proofs of \<open>TopicSpec\<close> continued: deletion, clones, the accessors, and
  emptying the database.
\<close>

section \<open>Deleting a topic\<close>

lemma path_to_delete:
  assumes p: "path_to h x (us @ [b, c] @ vs) None" and "distinct (us @ [b, c] @ vs)"
    and h: "h b = Some m" "h c = Some n"
  shows "path_to (h(b \<mapsto> m\<lparr>nextPtr := nextPtr n\<rparr>, c := None)) x (us @ [b] @ vs) None"
proof -
  let ?h = "h(b \<mapsto> m\<lparr>nextPtr := nextPtr n\<rparr>, c := None)"
  from p h have 1: "path_to h x us (Some b)" and 2: "path_to h (nextPtr n) vs None"
    by (auto simp: path_to_append)
  have "path_to ?h x us (Some b)"
    by (rule path_to_frame [OF 1]) (use assms(2) in auto)
  moreover have "path_to ?h (nextPtr n) vs None"
    by (rule path_to_frame [OF 2]) (use assms(2) in auto)
  ultimately show ?thesis using assms(2) h by (simp add: path_to_append)
qed

text \<open>Deleting the head.\<close>

lemma deleteTopic_head:
  assumes r: "db_rep d (a # as) cs" and n: "heap d a = Some n" and p: "td_path n = p"
  shows "\<exists>d'. deleteTopic (Some p) d = Inr (1, d') \<and> topicDB d' = nextPtr n \<and>
    heap d' = (heap d)(a := None) \<and> brk d' = brk d \<and> avail d' = Suc (avail d) \<and>
    strings d' = strings d - (1 + count_data n)"
proof -
  have t: "topicDB d = Some a" and u: "unlocked n"
    using r n by (auto simp: db_rep_def)
  obtain p' da t1 t2 np nl dl where e: "n = \<lparr>td_path = p', td_data = da, td_topic_ma = t1,
    td_data_ma = t2, nextPtr = np, node_lock = nl, data_lock = dl\<rparr>" by (cases n)
  with u have "nl = Unlocked" "dl = Unlocked" by (simp_all add: unlocked_def)
  with t n p e show ?thesis
    by (simp add: deleteTopic_def DBEmpty_def node_op_defs free_node_def count_data_def)
qed

lemma db_rep_deleted_head:
  assumes r: "db_rep d (a # as) cs" and n: "heap d a = Some n"
    and d': "topicDB d' = nextPtr n" "heap d' = (heap d)(a := None)" "brk d' = brk d"
  shows "db_rep d' as cs"
proof -
  have "path_to (heap d) (nextPtr n) as None" using db_rep_path [OF r] n by simp
  then have "path_to (heap d') (nextPtr n) as None"
    by (rule path_to_frame) (use r d' in \<open>auto simp: db_rep_def\<close>)
  with r d' n show ?thesis by (auto simp: db_rep_def)
qed

text \<open>Deleting a later node, from its predecessor.\<close>

lemma deleteTopic_later:
  assumes r: "db_rep d (a # us @ c # vs) cs"
    and m: "\<forall>b\<in>set (a # us). td_path (the (heap d b)) \<noteq> p"
    and n: "heap d c = Some n" "td_path n = p"
    and b: "b = last (a # us)" "heap d b = Some m"
  shows "\<exists>d'. deleteTopic (Some p) d = Inr (1, d') \<and> topicDB d' = topicDB d \<and>
    heap d' = (heap d)(b \<mapsto> m\<lparr>nextPtr := nextPtr n\<rparr>, c := None) \<and> brk d' = brk d \<and>
    avail d' = Suc (avail d) \<and> strings d' = strings d - (1 + count_data n)"
proof -
  obtain h where h: "topicDB d = Some a" "heap d a = Some h" "unlocked h"
    using r by (auto simp: db_rep_def)
  have W: "walk (Suc (brk d)) (Some p) (Some a) (nextPtr h) d = Inr (Some b, Some c, rlocked c d)"
    unfolding b(1) by (rule walk_rep_found [OF r h(2)]) (use m n in auto)
  have u: "unlocked m" "unlocked n" using r n b by (auto simp: db_rep_def)
  have "b \<in> set (a # us)" using b(1) by (metis last_in_set list.distinct(1))
  then have bc: "b \<noteq> c" "c \<noteq> b" using r by (auto simp: db_rep_def)
  have hp: "td_path h \<noteq> p" using m h(2) by simp
  obtain p' da t1 t2 np nl dl where e: "n = \<lparr>td_path = p', td_data = da, td_topic_ma = t1,
    td_data_ma = t2, nextPtr = np, node_lock = nl, data_lock = dl\<rparr>" by (cases n)
  obtain p1 da1 t11 t21 np1 nl1 dl1 where e1: "m = \<lparr>td_path = p1, td_data = da1, td_topic_ma = t11,
    td_data_ma = t21, nextPtr = np1, node_lock = nl1, data_lock = dl1\<rparr>" by (cases m)
  from u e e1 have ul: "nl = Unlocked" "dl = Unlocked" "nl1 = Unlocked" "dl1 = Unlocked"
    by (simp_all add: unlocked_def)
  have "deleteTopic (Some p) d =
      bindR (deref (Some b)) (\<lambda>p.
      bindR (topicNodeWLock p d) (\<lambda>d.
      bindR (topicNodeWLock c d) (\<lambda>d.
      bindR (load c d) (\<lambda>n.
      bindR (set_nextPtr p (nextPtr n) d) (\<lambda>d.
      bindR (topicNodeUnlock c d) (\<lambda>d.
      bindR (topicNodeUnlock p d) (\<lambda>d.
      bindR (free_node c d) (\<lambda>d. Inr (1, d)))))))))"
    using h hp W topicNodeUnlock_rlocked [OF n(1) u(2)]
    by (simp add: deleteTopic_def DBEmpty_def rlock_simps del: walk.simps)
  also have "\<dots> = (let d' = d\<lparr>heap := (heap d)(b \<mapsto> m\<lparr>nextPtr := nextPtr n\<rparr>, c := None),
      avail := Suc (avail d), strings := strings d - (1 + count_data n)\<rparr> in Inr (1, d'))"
    using n(1) b(2) bc ul e e1
    by (simp add: node_op_defs set_nextPtr_def free_node_def count_data_def fun_upd_twist)
  finally show ?thesis by (simp add: Let_def)
qed

lemma db_rep_deleted_later:
  assumes r: "db_rep d (us @ [b, c] @ vs) cs" and h: "heap d b = Some m" "heap d c = Some n"
    and d': "topicDB d' = topicDB d" "brk d' = brk d"
      "heap d' = (heap d)(b \<mapsto> m\<lparr>nextPtr := nextPtr n\<rparr>, c := None)"
  shows "db_rep d' (us @ [b] @ vs) cs"
proof -
  have "path_to (heap d') (topicDB d') (us @ [b] @ vs) None"
    unfolding d' by (rule path_to_delete [OF db_rep_path [OF r] _ h]) (use db_rep_distinct [OF r] in auto)
  with r h d' show ?thesis by (auto simp: db_rep_def unlocked_def)
qed

lemma deleteTopic_missing:
  assumes r: "db_rep d as cs" and f: "find_addr d as p = None"
  shows "deleteTopic (Some p) d = Inr (0, d)"
proof (cases as)
  case Nil
  with r show ?thesis by (simp add: deleteTopic_def DBEmpty_def db_rep_def)
next
  case (Cons a bs)
  from r Cons obtain n where n: "topicDB d = Some a" "heap d a = Some n" "unlocked n"
    by (auto simp: db_rep_def)
  from f have m: "\<forall>b\<in>set as. td_path (the (heap d b)) \<noteq> p"
    by (simp add: find_addr_def find_None_iff_ball)
  have "walk (Suc (brk d)) (Some p) (Some a) (nextPtr n) d =
     Inr (if bs = [] then Some a else Some (last bs), None, d)"
    by (rule walk_rep_missing [OF r [unfolded Cons] n(2)]) (use m Cons in auto)
  with n m Cons show ?thesis
    by (simp add: deleteTopic_def DBEmpty_def rlock_simps del: walk.simps)
qed

text \<open>
  \<open>deleteTopic\<close> removes the first topic with the path, frees its node and both strings,
  and returns 1; it returns 0 and changes nothing when there is none.
\<close>

lemma deleteTopic_refines:
  assumes abs: "db_abs d xs cs l"
  shows "\<exists>d'. deleteTopic (Some p) d = Inr (if lookup p xs = None then 0 else 1, d') \<and>
    avail d' = avail d + (if lookup p xs = None then 0 else 1) \<and>
    db_abs d' (remove_first p xs) cs l"
proof -
  from abs obtain as where as: "db_rep d as (map fst cs)" "xs = map (node_topic d) as"
    "\<And>a t. (a, t) \<in> set cs \<Longrightarrow> node_topic d a = t"
    "strings d = blocks xs + blocks (map snd cs) + l" by (rule db_absE) fast
  have lk: "lookup p xs = map_option (node_topic d) (find_addr d as p)"
    unfolding as(2) by (rule lookup_find_addr)
  show ?thesis
  proof (rule find_addr_cases [of d as p])
    assume "find_addr d as p = None"
    with deleteTopic_missing [OF as(1)] lk abs show ?thesis by (simp add: remove_first_missing)
  next
    fix us c vs
    assume f: "find_addr d as p = Some c" "as = us @ c # vs" "td_path (the (heap d c)) = p"
      "\<forall>a\<in>set us. td_path (the (heap d a)) \<noteq> p"
    from db_rep_node [OF as(1), of c] f(2) obtain n where n: "heap d c = Some n" "unlocked n" by auto
    have "\<exists>d'. deleteTopic (Some p) d = Inr (1, d') \<and> avail d' = Suc (avail d) \<and>
      strings d' = strings d - (1 + count_data n) \<and> db_rep d' (us @ vs) (map fst cs) \<and>
      (\<forall>b. b \<noteq> c \<longrightarrow> node_topic d' b = node_topic d b)"
    proof (cases us)
      case Nil
      with f as(1) have r: "db_rep d (c # vs) (map fst cs)" by simp
      obtain d' where d': "deleteTopic (Some p) d = Inr (1, d')" "topicDB d' = nextPtr n"
        "heap d' = (heap d)(c := None)" "brk d' = brk d" "avail d' = Suc (avail d)"
        "strings d' = strings d - (1 + count_data n)"
        using deleteTopic_head [OF r n(1), of p] f(3) n(1) by auto
      from db_rep_deleted_head [OF r n(1) d'(2-4)] d' Nil show ?thesis
        by (auto simp: node_topic_def)
    next
      case (Cons a us')
      with f as(1) have r: "db_rep d (a # us' @ c # vs) (map fst cs)" by simp
      let ?b = "last (a # us')"
      have us: "us = butlast us @ [?b]" using Cons by (metis append_butlast_last_id list.distinct(1))
      then have "?b \<in> set as" using f(2) by (metis Un_iff last_in_set Cons list.distinct(1) set_append)
      with db_rep_node [OF as(1)] obtain m where m: "heap d ?b = Some m" by blast
      obtain d' where d': "deleteTopic (Some p) d = Inr (1, d')" "topicDB d' = topicDB d"
        "heap d' = (heap d)(?b \<mapsto> m\<lparr>nextPtr := nextPtr n\<rparr>, c := None)" "brk d' = brk d"
        "avail d' = Suc (avail d)" "strings d' = strings d - (1 + count_data n)"
        using deleteTopic_later [OF r _ n(1) _ refl m, of p] f(3,4) n(1) Cons by auto
      have "db_rep d (butlast us @ [?b, c] @ vs) (map fst cs)" using as(1) f(2) us by (metis append_Cons append_assoc append_Nil)
      from db_rep_deleted_later [OF this m n(1) d'(2,4,3)]
      have "db_rep d' (us @ vs) (map fst cs)" using us by (metis append_assoc)
      moreover have "\<forall>b. b \<noteq> c \<longrightarrow> node_topic d' b = node_topic d b"
        using d'(3) m by (auto simp: node_topic_def topic.truncate_def)
      ultimately show ?thesis using d' by blast
    qed
    then obtain d' where d': "deleteTopic (Some p) d = Inr (1, d')" "avail d' = Suc (avail d)"
      "strings d' = strings d - (1 + count_data n)" "db_rep d' (us @ vs) (map fst cs)"
      "\<And>b. b \<noteq> c \<Longrightarrow> node_topic d' b = node_topic d b" by blast
    have dist: "c \<notin> set us" "c \<notin> set vs" "c \<notin> fst ` set cs"
      using db_rep_distinct [OF as(1)] f(2) by auto
    have R: "remove_first p xs = map (node_topic d) us @ map (node_topic d) vs"
      unfolding as(2) f(2) map_append list.map
      by (rule remove_first_split) (use f in \<open>auto simp: node_topic_path\<close>)
    have M: "map (node_topic d') us = map (node_topic d) us"
      "map (node_topic d') vs = map (node_topic d) vs"
      using dist d'(5) by (simp_all only: map_eq_conv) (metis+)
    have tb: "topic_blocks (node_topic d c) = 1 + count_data n"
      using n(1) by (simp add: topic_blocks_def count_data_def node_topic_def)
    have "db_abs d' (remove_first p xs) cs l"
    proof (rule db_absI [OF d'(4)])
      show "map (node_topic d') (us @ vs) = remove_first p xs" using R M by simp
      show "strings d' = blocks (remove_first p xs) + blocks (map snd cs) + l"
        using as(4) d'(3) tb R by (simp add: as(2) f(2))
      fix b t assume "(b, t) \<in> set cs"
      with dist(3) d'(5) as(3) show "node_topic d' b = t" by force
    qed
    with d' lk f(1) show ?thesis by simp
  qed
qed

section \<open>Adding or refreshing a topic\<close>

lemma getTopic_lookup:
  assumes "db_abs d xs cs l"
  shows "\<exists>r. getTopic (Some p) d = Inr (r, d) \<and> (r = None \<longleftrightarrow> lookup p xs = None) \<and>
    (\<forall>a. r = Some a \<longrightarrow> (\<exists>n. heap d a = Some n \<and> unlocked n \<and> lookup p xs = Some (topic.truncate n)))"
  by (rule getTopic_refines [OF assms, of p]) (force simp: node_topic_def)

lemma addTopicWEC_new:
  assumes abs: "db_abs d xs cs l" and "lookup path xs = None" and "sz > 0" and "avail d > 0"
  shows "\<exists>d'. addTopicWEC (Some path) sz tma d = Inr (1, d') \<and> avail d' = avail d - 1 \<and>
    db_abs d' (xs @ [new_topic path sz tma]) cs l"
  using getTopic_lookup [OF abs, of path] addTopic_refines [OF abs assms(3,4), of path tma] assms(2)
  by (auto simp: addTopicWEC_def)

lemma addTopicWEC_no_memory:
  assumes abs: "db_abs d xs cs l" and "lookup path xs = None" and "avail d = 0"
  shows "\<exists>d'. addTopicWEC (Some path) sz tma d = Inr (0, d') \<and> avail d' = avail d \<and> db_abs d' xs cs l"
  using getTopic_lookup [OF abs, of path] addTopic_rejected [OF abs, of sz "Some path" tma] assms(2,3)
  by (auto simp: addTopicWEC_def)

lemma addTopicWEC_known:
  assumes abs: "db_abs d xs cs l" and "lookup path xs \<noteq> None"
  shows "addTopicWEC (Some path) sz tma d = updateTopicInfo (Some path) tma d"
  using getTopic_lookup [OF abs, of path] assms(2) by (auto simp: addTopicWEC_def)

section \<open>Clones\<close>

lemma clone_at_rlocked:
  assumes n: "heap d c = Some n" "unlocked n" and b: "heap d (brk d) = None"
  shows "clone_at c (rlocked c d) =
    (if avail d = 0 then Inr (None, d)
     else Inr (Some (brk d), d\<lparr>brk := Suc (brk d), avail := avail d - 1,
        strings := strings d + 1 + count_data n,
        heap := (heap d)(brk d \<mapsto> n\<lparr>nextPtr := None\<rparr>)\<rparr>))"
proof -
  have ne: "c \<noteq> brk d" using n b by auto
  obtain p' da t1 t2 np nl dl where e: "n = \<lparr>td_path = p', td_data = da, td_topic_ma = t1,
    td_data_ma = t2, nextPtr = np, node_lock = nl, data_lock = dl\<rparr>" by (cases n)
  have id: "map_option (\<lambda>s. take (length s) s) da = da" by (cases da) simp_all
  from n(2) e have ul: "nl = Unlocked" "dl = Unlocked" by (simp_all add: unlocked_def)
  have h: "(heap d)(c \<mapsto> n) = heap d" using n(1) by (simp add: fun_upd_idem)
  show ?thesis
  proof (cases "avail d = 0")
    case True
    then show ?thesis
      using topicNodeUnlock_rlocked [OF n] load_rlocked [OF n(1)]
      by (simp add: clone_at_def malloc_node_def)
  next
    case False
    with n(1) ne ul e id h [unfolded e ul] show ?thesis
      by (simp add: clone_at_def malloc_node_def init_node_def node_op_defs rlocked_def
          clone_node_def count_data_def snprintf_s_def fun_upd_twist)
  qed
qed

lemma cloneTopic_rep:
  assumes r: "db_rep d as cs"
  shows "cloneTopic (Some p) d =
    (case find_addr d as p of None \<Rightarrow> Inr (None, d) | Some c \<Rightarrow> clone_at c (rlocked c d))"
proof (cases as)
  case Nil
  with r show ?thesis by (simp add: cloneTopic_def find_addr_def DBEmpty_def db_rep_def)
next
  case (Cons a bs)
  from r Cons obtain n where n: "topicDB d = Some a" "heap d a = Some n" "unlocked n"
    by (auto simp: db_rep_def)
  show ?thesis
  proof (cases "td_path n = p")
    case True
    with n Cons show ?thesis
      by (simp add: cloneTopic_def DBEmpty_def find_addr_def rlock_simps)
  next
    case False
    show ?thesis
    proof (rule find_addr_cases [of d bs p])
      assume f: "find_addr d bs p = None" "\<forall>b\<in>set bs. td_path (the (heap d b)) \<noteq> p"
      with n False Cons walk_rep_missing [OF r [unfolded Cons] n(2) f(2)] show ?thesis
        by (simp add: cloneTopic_def DBEmpty_def find_addr_def rlock_simps del: walk.simps)
    next
      fix us c vs
      assume f: "find_addr d bs p = Some c" "bs = us @ c # vs"
        "td_path (the (heap d c)) = p" "\<forall>b\<in>set us. td_path (the (heap d b)) \<noteq> p"
      from n False Cons f(1) walk_rep_found [OF r [unfolded Cons f(2)] n(2) f(4,3)]
      show ?thesis
        by (simp add: cloneTopic_def DBEmpty_def find_addr_def rlock_simps del: walk.simps)
    qed
  qed
qed

text \<open>
  \<open>cloneTopic\<close> returns a private copy of the topic when the path is known and a node can be
  allocated, and \<open>NULL\<close> otherwise; the topics themselves do not change.
\<close>

lemma cloneTopic_refines:
  assumes abs: "db_abs d xs cs l"
  shows "\<exists>r d'. cloneTopic (Some p) d = Inr (r, d') \<and>
    (case r of
       None \<Rightarrow> (lookup p xs = None \<or> avail d = 0) \<and> d' = d
     | Some a \<Rightarrow> \<exists>t. lookup p xs = Some t \<and> Suc (avail d') = avail d \<and> db_abs d' xs ((a, t) # cs) l)"
proof -
  from abs obtain as where as: "db_rep d as (map fst cs)" "xs = map (node_topic d) as"
    "\<And>a t. (a, t) \<in> set cs \<Longrightarrow> node_topic d a = t"
    "strings d = blocks xs + blocks (map snd cs) + l" by (rule db_absE) fast
  have lk: "lookup p xs = map_option (node_topic d) (find_addr d as p)"
    unfolding as(2) by (rule lookup_find_addr)
  show ?thesis
  proof (cases "find_addr d as p")
    case None
    with lk show ?thesis by (simp add: cloneTopic_rep [OF as(1)])
  next
    case (Some c)
    then have "c \<in> set as" by (auto simp: find_addr_def find_Some_iff)
    with db_rep_node [OF as(1)] obtain n where n: "heap d c = Some n" "unlocked n" by blast
    have t: "node_topic d c = topic.truncate n" using n by (simp add: node_topic_def)
    note C = clone_at_rlocked [OF n db_rep_brk [OF as(1)]]
    show ?thesis
    proof (cases "avail d = 0")
      case True
      with Some lk C show ?thesis by (simp add: cloneTopic_rep [OF as(1)])
    next
      case False
      let ?n = "n\<lparr>nextPtr := None\<rparr>"
      let ?d = "d\<lparr>brk := Suc (brk d), avail := avail d - 1, strings := strings d + 1 + count_data n,
                 heap := (heap d)(brk d \<mapsto> ?n)\<rparr>"
      have rep: "db_rep ?d as (map fst ((brk d, topic.truncate n) # cs))"
        unfolding list.map fst_conv by (rule db_rep_init_node [OF as(1)]) (use n(2) in \<open>simp add: unlocked_def\<close>)
      have b: "brk d \<notin> set as \<union> fst ` set cs"
        using db_rep_brk [OF as(1)] db_rep_dom [OF as(1)] by (metis domIff list.set_map)
      have nt: "node_topic ?d e = node_topic d e" if "e \<noteq> brk d" for e
        using that by (simp add: node_topic_def)
      have nb: "node_topic ?d (brk d) = topic.truncate n" by (simp add: node_topic_def topic.truncate_def)
      have "db_abs ?d xs ((brk d, topic.truncate n) # cs) l"
      proof (rule db_absI [OF rep])
        show "map (node_topic ?d) as = xs" unfolding as(2) map_eq_conv using b nt by (metis UnI1)
        show "strings ?d = blocks xs + blocks (map snd ((brk d, topic.truncate n) # cs)) + l"
          using as(4) by (simp add: topic_blocks_def count_data_def)
        fix e u assume "(e, u) \<in> set ((brk d, topic.truncate n) # cs)"
        then consider "e = brk d" "u = topic.truncate n" | "(e, u) \<in> set cs" by auto
        then show "node_topic ?d e = u"
        proof cases
          case 2
          with b have "e \<noteq> brk d" by force
          with nt as(3) 2 show ?thesis by simp
        qed (use nb in simp)
      qed
      with Some False lk t C show ?thesis by (auto simp: cloneTopic_rep [OF as(1)])
    qed
  qed
qed

lemma clone_load:
  assumes "db_abs d xs cs l" and "(a, t) \<in> set cs"
  shows "\<exists>n. load a d = Inr n \<and> heap d a = Some n \<and> unlocked n \<and> topic.truncate n = t"
proof -
  from assms(1) obtain as where as: "db_rep d as (map fst cs)"
    "\<And>a t. (a, t) \<in> set cs \<Longrightarrow> node_topic d a = t" by (rule db_absE) fast
  from assms(2) have "a \<in> set (map fst cs)" by force
  with db_rep_node [OF as(1)] obtain n where "heap d a = Some n" "unlocked n" by blast
  with as(2) [OF assms(2)] show ?thesis by (simp add: load_def node_topic_def)
qed

text \<open>Releasing a clone gives back its node and strings and touches nothing else.\<close>

lemma freeTopic_refines:
  assumes abs: "db_abs d xs ((a, t) # cs) l"
  shows "\<exists>d'. freeTopic (Some a) d = Inr (1, d') \<and> avail d' = Suc (avail d) \<and> db_abs d' xs cs l"
proof -
  from abs obtain as where as: "db_rep d as (map fst ((a, t) # cs))" "xs = map (node_topic d) as"
    "\<And>b u. (b, u) \<in> set ((a, t) # cs) \<Longrightarrow> node_topic d b = u"
    "strings d = blocks xs + blocks (map snd ((a, t) # cs)) + l" by (rule db_absE) fast
  obtain n where n: "heap d a = Some n" "unlocked n" "topic.truncate n = t"
    using clone_load [OF abs, of a t] by auto
  have dist: "a \<notin> set as" "a \<notin> fst ` set cs" using db_rep_distinct [OF as(1)] by auto
  let ?d = "d\<lparr>heap := (heap d)(a := None), avail := Suc (avail d), strings := strings d - (1 + count_data n)\<rparr>"
  have "path_to (heap ?d) (topicDB d) as None"
    by (rule path_to_frame [OF db_rep_path [OF as(1)]]) (use dist in auto)
  with as(1) have rep: "db_rep ?d as (map fst cs)" by (auto simp: db_rep_def)
  have tb: "topic_blocks t = 1 + count_data n"
    using n(3) by (auto simp: topic_blocks_def count_data_def)
  have nt: "node_topic ?d e = node_topic d e" if "e \<noteq> a" for e
    using that by (simp add: node_topic_def)
  have "db_abs ?d xs cs l"
  proof (rule db_absI [OF rep])
    show "map (node_topic ?d) as = xs" unfolding as(2) map_eq_conv using dist nt by metis
    show "strings ?d = blocks xs + blocks (map snd cs) + l" using as(4) tb by simp
    fix e u assume m: "(e, u) \<in> set cs"
    with dist(2) have "e \<noteq> a" by force
    with nt as(3) m show "node_topic ?d e = u" by simp
  qed
  moreover have "freeTopic (Some a) d = Inr (1, ?d)"
    using n by (simp add: freeTopic_def free_node_def unlocked_def)
  ultimately show ?thesis by simp
qed

section \<open>Accessors\<close>

lemma reading_unlocked:
  assumes n: "heap d a = Some n" "unlocked n"
  shows "reading a f d = bindR (f (n\<lparr>node_lock := Readers 1, data_lock := Readers 1\<rparr>)) (\<lambda>x. Inr (x, d))"
proof -
  obtain p' da t1 t2 np nl dl where e: "n = \<lparr>td_path = p', td_data = da, td_topic_ma = t1,
    td_data_ma = t2, nextPtr = np, node_lock = nl, data_lock = dl\<rparr>" by (cases n)
  with n(2) have "nl = Unlocked" "dl = Unlocked" by (simp_all add: unlocked_def)
  with n(1) e show ?thesis by (simp add: reading_def node_op_defs fun_upd_idem)
qed

lemma accessors_refine:
  assumes n: "heap d a = Some n" "unlocked n"
  shows "getTopicMA (Some a) d = Inr (td_topic_ma n, d)"
    and "getTopicDataMA (Some a) d = Inr (td_data_ma n, d)"
    and "getTopicPath (Some a) d = Inr (1, Some (td_path n), d\<lparr>strings := strings d + 1\<rparr>)"
    and "getTopicData (Some a) d =
      (case td_data n of None \<Rightarrow> Inl Null_deref | Some s \<Rightarrow> Inr (1, Some s, d\<lparr>strings := strings d + 1\<rparr>))"
  by (simp_all add: getTopicMA_def getTopicDataMA_def getTopicPath_def getTopicData_def
      reading_unlocked [OF n] snprintf_s_def split: option.split)

section \<open>Emptying the database\<close>

lemma db_abs_pop:
  assumes abs: "db_abs d (t # xs) cs l" and k: "k > 0"
  shows "\<exists>d'. clean_loop k d = clean_loop (k - 1) d' \<and> avail d' = Suc (avail d) \<and> db_abs d' xs cs l"
proof -
  obtain as0 where as0: "db_rep d as0 (map fst cs)" "t # xs = map (node_topic d) as0"
    "\<And>a t. (a, t) \<in> set cs \<Longrightarrow> node_topic d a = t"
    "strings d = blocks (t # xs) + blocks (map snd cs) + l"
    by (rule db_absE [OF abs]) (rule that)
  then obtain a as where a: "as0 = a # as" by (cases as0) auto
  note r = as0(1) [unfolded a]
  obtain n where n: "topicDB d = Some a" "heap d a = Some n" "unlocked n"
    using r by (auto simp: db_rep_def)
  let ?d = "d\<lparr>topicDB := nextPtr n, heap := (heap d)(a := None), avail := Suc (avail d),
             strings := strings d - (1 + count_data n)\<rparr>"
  obtain p' da t1 t2 np nl dl where e: "n = \<lparr>td_path = p', td_data = da, td_topic_ma = t1,
    td_data_ma = t2, nextPtr = np, node_lock = nl, data_lock = dl\<rparr>" by (cases n)
  with n(3) have "nl = Unlocked" "dl = Unlocked" by (simp_all add: unlocked_def)
  with n e k have step: "clean_loop k d = clean_loop (k - 1) ?d"
    by (cases k) (simp_all add: DBEmpty_def node_op_defs free_node_def count_data_def fun_upd_idem)
  have rep: "db_rep ?d as (map fst cs)" by (rule db_rep_deleted_head [OF r n(2)]) simp_all
  have dist: "a \<notin> set as" "a \<notin> fst ` set cs" using db_rep_distinct [OF r] by auto
  have nt: "node_topic ?d e = node_topic d e" if "e \<noteq> a" for e
    using that by (simp add: node_topic_def)
  have t: "t = topic.truncate n" "xs = map (node_topic d) as"
    using as0(2) a n(2) by (simp_all add: node_topic_def)
  have "db_abs ?d xs cs l"
  proof (rule db_absI [OF rep])
    show "map (node_topic ?d) as = xs" unfolding t(2) map_eq_conv using dist nt by metis
    show "strings ?d = blocks xs + blocks (map snd cs) + l"
      using as0(4) t(1) by (simp add: topic_blocks_def count_data_def)
    fix e u assume m: "(e, u) \<in> set cs"
    with dist(2) have "e \<noteq> a" by force
    with nt as0(3) m show "node_topic ?d e = u" by simp
  qed
  with step show ?thesis by (intro exI [of _ ?d]) simp
qed

lemma clean_loop_refines:
  assumes "db_abs d xs cs l" and "length xs < k"
  shows "\<exists>d'. clean_loop k d = Inr d' \<and> avail d' = avail d + length xs \<and> db_abs d' [] cs l"
  using assms
proof (induction xs arbitrary: d k)
  case Nil
  then have "topicDB d = None" by (auto simp: db_abs_def db_rep_def)
  with Nil show ?case by (cases k) (simp_all add: DBEmpty_def)
next
  case (Cons t xs)
  then have "k > 0" by simp
  from db_abs_pop [OF Cons.prems(1) this] obtain d1 where
    d1: "clean_loop k d = clean_loop (k - 1) d1" "avail d1 = Suc (avail d)" "db_abs d1 xs cs l" by blast
  from Cons.IH [OF d1(3), of "k - 1"] Cons.prems(2) d1 show ?case by auto
qed

lemma cleanDB_refines:
  assumes abs: "db_abs d xs cs l"
  shows "\<exists>d'. cleanDB d = Inr d' \<and> avail d' = avail d + length xs \<and> db_abs d' [] cs l"
proof -
  from abs have "length xs \<le> brk d" by (auto simp: db_abs_def dest: db_rep_length)
  then show ?thesis unfolding cleanDB_def by (intro clean_loop_refines [OF abs]) simp
qed

lemma db_init_abs: "db_abs (db_init m) [] [] 0"
  by (rule db_absI [of _ "[]"]) (auto simp: db_rep_def db_init_def)

end
