(* ===== verification/TopicReply.thy ===== *)
theory TopicReply
  imports BrokerServer PduSpec LinkFormatSpec TopicRefine
begin

text \<open>
  GET on a topic: what the answer says about the stored topic, and that the handler leaves
  the database as it found it.
\<close>

section \<open>Response building\<close>

lemma var_len_bound: "i < 256 ^ n \<Longrightarrow> var_len k i 0 \<le> n"
proof (induction k arbitrary: i n)
  case 0
  then show ?case by simp
next
  case (Suc k)
  show ?case
  proof (cases "i = 0")
    case True
    then show ?thesis by simp
  next
    case False
    with Suc.prems obtain m where n: "n = Suc m" by (cases n) auto
    have "i div 256 < 256 ^ m" using Suc.prems n by (simp add: less_mult_imp_div_less mult.commute)
    from Suc.IH [OF this] show ?thesis
      using False n var_len_add [of k "i div 256" "Suc 0"] by simp
  qed
qed

lemma length_encode_small: "unat v < 2 ^ 24 \<Longrightarrow> length (coap_encode_var_bytes v) \<le> 3"
  using var_len_bound [of "unat v" 3 4] by (simp add: coap_encode_var_bytes_def)

lemma add_uint_option_ok:
  assumes abs: "pdu_abs p opts None" and v: "unat v < 2 ^ 24"
    and ty: "max_delta p \<le> ty" "ty < 256" and room: "pdu_length p + 8 \<le> max_size p"
  obtains p' where "add_uint_option ty v p = Inr p'"
    "pdu_abs p' (opts @ [(ty, coap_encode_var_bytes v)]) None" "max_delta p' = ty"
    "pdu_length p' \<le> pdu_length p + 8" "max_size p' = max_size p"
    "hdr_code p' = hdr_code p" "hdr_token p' = hdr_token p"
proof -
  let ?bs = "coap_encode_var_bytes v"
  have len: "length ?bs \<le> 3" using length_encode_small [OF v] .
  then have sp: "opt_space (ty - max_delta p) (length ?bs) \<le> 8"
    using opt_space_le [of "ty - max_delta p" "length ?bs"] by linarith
  have ok: "opt_size_ok (ty - max_delta p)" "opt_size_ok (length ?bs)"
    using ty len by (auto simp: opt_size_ok_def)
  obtain p' where p': "coap_add_option p ty ?bs = (opt_space (ty - max_delta p) (length ?bs), p')"
    "pdu_abs p' (opts @ [(ty, ?bs)]) None" "max_delta p' = ty"
    "pdu_length p' = pdu_length p + opt_space (ty - max_delta p) (length ?bs)"
    "max_size p' = max_size p" "hdr_code p' = hdr_code p" "hdr_token p' = hdr_token p"
    using sp room by (rule_tac pdu_add_option_abs [OF abs ty(1) _ ok]) (use ty in auto)
  have "add_uint_option ty v p = Inr p'"
    using len p'(1) by (simp add: add_uint_option_def encode_buf3_def Let_def)
  with that p' sp show ?thesis by simp
qed

lemma add_data_ok:
  assumes "pdu_abs p opts None" "data \<noteq> []" "pdu_length p + length data + 1 \<le> max_size p"
  obtains p' where "add_data data p = Inr p'" "pdu_abs p' opts (Some data)"
    "hdr_code p' = hdr_code p" "hdr_token p' = hdr_token p"
  by (rule pdu_add_data_abs [OF assms]) (simp add: add_data_def that)

lemma add_data_total:
  assumes "pdu_abs p opts None"
  shows "\<exists>p'. add_data data p = Inr p' \<and> hdr_code p' = hdr_code p \<and> hdr_token p' = hdr_token p"
  using pdu_abs_data_None [OF assms] by (auto simp: add_data_def coap_add_data_def)

text \<open>A reply with a phrase, for the codes the broker uses.\<close>

lemma response_phrases [pdu_simps]:
  "coap_response_phrase (COAP_RESPONSE_CODE 201) = Some ''Created''"
  "coap_response_phrase (COAP_RESPONSE_CODE 204) = Some ''Changed''"
  "coap_response_phrase (COAP_RESPONSE_CODE 400) = Some ''Bad Request''"
  "coap_response_phrase (COAP_RESPONSE_CODE 403) = Some ''Forbidden''"
  "coap_response_phrase (COAP_RESPONSE_CODE 404) = Some ''Not Found''"
  "coap_response_phrase (COAP_RESPONSE_CODE 405) = Some ''Method Not Allowed''"
  "coap_response_phrase (COAP_RESPONSE_CODE 406) = Some ''Not Acceptable''"
  "coap_response_phrase (COAP_RESPONSE_CODE 415) = Some ''Unsupported Content-Format''"
  "coap_response_phrase (COAP_RESPONSE_CODE 500) = Some ''Internal Server Error''"
  by (simp_all add: coap_response_phrase_def coap_error_def COAP_RESPONSE_CODE_def)

lemma reply_phrase_total:
  assumes "pdu_abs p opts None" "coap_response_phrase (COAP_RESPONSE_CODE n) = Some ph"
  shows "\<exists>p'. reply_phrase n p = Inr p' \<and> hdr_code p' = COAP_RESPONSE_CODE n \<and>
    hdr_token p' = hdr_token p"
  using pdu_abs_data_None [OF assms(1)] assms(2)
  by (auto simp: reply_phrase_def coap_add_data_def Let_def)

lemma reply_phrase_ok:
  assumes abs: "pdu_abs p opts None" and ph: "coap_response_phrase (COAP_RESPONSE_CODE n) = Some ph"
    and "ph \<noteq> []" "pdu_length p + length ph + 1 \<le> max_size p"
  obtains p' where "reply_phrase n p = Inr p'" "pdu_abs p' opts (Some ph)"
    "hdr_code p' = COAP_RESPONSE_CODE n" "hdr_token p' = hdr_token p"
proof -
  let ?q = "p\<lparr>hdr_code := COAP_RESPONSE_CODE n\<rparr>"
  have "pdu_abs ?q opts None" using abs by simp
  moreover have "pdu_length ?q + length ph + 1 \<le> max_size ?q"
    using assms(4) by (simp add: pdu_length_def)
  ultimately obtain q where "coap_add_data ?q ph = Inr (1, q)" "pdu_abs q opts (Some ph)"
    "hdr_code q = hdr_code ?q" "hdr_token q = hdr_token ?q"
    by (rule pdu_add_data_abs [OF _ assms(3)])
  then show ?thesis using that ph by (simp add: reply_phrase_def)
qed

section \<open>The answer to a GET\<close>

text \<open>
  \<open>topic_reply\<close>: the part of \<open>hnd_get_topic\<close> that answers from a copy of the topic, as a
  function of the topic alone.
\<close>

definition expired :: "int \<Rightarrow> int \<Rightarrow> bool" where
  "expired now ma \<longleftrightarrow> ma < now \<and> ma \<noteq> 0"

definition readable :: "int \<Rightarrow> topic \<Rightarrow> cstring option" where
  "readable now t = (if expired now (td_data_ma t) then None else td_data t)"

definition topic_reply ::
  "u32 \<Rightarrow> u32 option \<Rightarrow> int \<Rightarrow> topic \<Rightarrow> coap_pdu \<Rightarrow> coap_pdu result" where
  "topic_reply ct obs now t response =
     bindR (case obs of Some v \<Rightarrow> add_uint_option COAP_OPTION_OBSERVE v response
                      | None \<Rightarrow> Inr response) (\<lambda>response.
     case readable now t of
       None \<Rightarrow>
         bindR (add_uint_option COAP_OPTION_CONTENT_TYPE ct response)
           (\<lambda>response. add_data ''No Content'' (response\<lparr>hdr_code := COAP_RESPONSE_CODE 204\<rparr>))
     | Some data \<Rightarrow>
         bindR (add_uint_option COAP_OPTION_CONTENT_TYPE ct
             (response\<lparr>hdr_code := COAP_RESPONSE_CODE 205\<rparr>)) (\<lambda>response.
         bindR (if td_data_ma t \<noteq> 0
                then add_uint_option COAP_OPTION_MAXAGE (word_of_int (td_data_ma t - now)) response
                else Inr response) (add_data data)))"

definition reply_options :: "u32 \<Rightarrow> u32 option \<Rightarrow> int \<Rightarrow> topic \<Rightarrow> (nat \<times> char list) list" where
  "reply_options ct obs now t =
     (case obs of None \<Rightarrow> [] | Some v \<Rightarrow> [(COAP_OPTION_OBSERVE, coap_encode_var_bytes v)])
     @ [(COAP_OPTION_CONTENT_TYPE, coap_encode_var_bytes ct)]
     @ (if readable now t \<noteq> None \<and> td_data_ma t \<noteq> 0
        then [(COAP_OPTION_MAXAGE, coap_encode_var_bytes (word_of_int (td_data_ma t - now)))] else [])"

definition reply_code :: "int \<Rightarrow> topic \<Rightarrow> nat" where
  "reply_code now t = COAP_RESPONSE_CODE (if readable now t = None then 204 else 205)"

definition reply_payload :: "int \<Rightarrow> topic \<Rightarrow> char list" where
  "reply_payload now t = (case readable now t of None \<Rightarrow> ''No Content'' | Some d \<Rightarrow> d)"

text \<open>The numbers of a reply that fit the three-byte buffer.\<close>

definition small_reply :: "u32 \<Rightarrow> u32 option \<Rightarrow> int \<Rightarrow> topic \<Rightarrow> bool" where
  "small_reply ct obs now t \<longleftrightarrow>
     unat ct < 2 ^ 24 \<and> (\<forall>v. obs = Some v \<longrightarrow> unat v < 2 ^ 24) \<and>
     (readable now t \<noteq> None \<longrightarrow> td_data_ma t \<noteq> 0 \<longrightarrow> td_data_ma t - now < 2 ^ 24)"

lemma unat_word_of_int_small:
  assumes "0 \<le> i" "i < 2 ^ 24"
  shows "unat (word_of_int i :: u32) = nat i"
  using assms by (simp add: unsigned_of_int take_bit_int_eq_self nat_less_iff)

lemma readable_remaining:
  "readable now t \<noteq> None \<Longrightarrow> td_data_ma t \<noteq> 0 \<Longrightarrow> 0 \<le> td_data_ma t - now"
  by (auto simp: readable_def expired_def split: if_splits)

lemma topic_reply_options:
  assumes abs: "pdu_abs p [] None" and len: "pdu_length p \<le> 12" "max_size p = COAP_MAX_PDU_SIZE"
    and small: "small_reply ct obs now t"
  obtains q where "topic_reply ct obs now t p = add_data (reply_payload now t) q"
    "pdu_abs q (reply_options ct obs now t) None" "pdu_length q \<le> 36"
    "max_size q = COAP_MAX_PDU_SIZE" "hdr_code q = reply_code now t" "hdr_token q = hdr_token p"
proof -
  have md: "max_delta p = 0" using abs by (auto simp: pdu_abs_def elim: encodes.cases)
  let ?o1 = "case obs of None \<Rightarrow> [] | Some v \<Rightarrow> [(COAP_OPTION_OBSERVE, coap_encode_var_bytes v)]"
  obtain p1 where p1: "(case obs of Some v \<Rightarrow> add_uint_option COAP_OPTION_OBSERVE v p | None \<Rightarrow> Inr p) = Inr p1"
    "pdu_abs p1 ?o1 None" "max_delta p1 \<le> 6" "pdu_length p1 \<le> 20"
    "max_size p1 = COAP_MAX_PDU_SIZE" "hdr_token p1 = hdr_token p"
  proof (cases obs)
    case None
    then show ?thesis using that [of p] abs md len by simp
  next
    case (Some v)
    have v: "unat v < 2 ^ 24" using small Some by (simp add: small_reply_def)
    show ?thesis
      by (rule add_uint_option_ok [OF abs v, of COAP_OPTION_OBSERVE])
        (use md len Some that in auto)
  qed
  let ?p1 = "p1\<lparr>hdr_code := reply_code now t\<rparr>"
  have a1: "pdu_abs ?p1 ?o1 None" using p1 by simp
  have ct: "unat ct < 2 ^ 24" using small by (simp add: small_reply_def)
  obtain p2 where p2: "add_uint_option COAP_OPTION_CONTENT_TYPE ct ?p1 = Inr p2"
    "pdu_abs p2 (?o1 @ [(COAP_OPTION_CONTENT_TYPE, coap_encode_var_bytes ct)]) None"
    "max_delta p2 = 12" "pdu_length p2 \<le> 28" "max_size p2 = COAP_MAX_PDU_SIZE"
    "hdr_code p2 = reply_code now t" "hdr_token p2 = hdr_token p"
    by (rule add_uint_option_ok [OF a1 ct, of COAP_OPTION_CONTENT_TYPE])
      (use p1 that in \<open>auto simp: pdu_length_def\<close>)
  show ?thesis
  proof (cases "readable now t")
    case None
    obtain p3 where p3: "add_uint_option COAP_OPTION_CONTENT_TYPE ct p1 = Inr p3"
      "pdu_abs p3 (?o1 @ [(COAP_OPTION_CONTENT_TYPE, coap_encode_var_bytes ct)]) None"
      "pdu_length p3 \<le> 28" "max_size p3 = COAP_MAX_PDU_SIZE" "hdr_token p3 = hdr_token p"
      by (rule add_uint_option_ok [OF p1(2) ct, of COAP_OPTION_CONTENT_TYPE]) (use p1 that in auto)
    let ?q = "p3\<lparr>hdr_code := reply_code now t\<rparr>"
    have "topic_reply ct obs now t p = add_data (reply_payload now t) ?q"
      using p1(1) p3(1) None by (simp add: topic_reply_def reply_payload_def reply_code_def)
    moreover have "pdu_length ?q \<le> 36" using p3(3) by (simp add: pdu_length_def)
    ultimately show ?thesis using that [of ?q] p3 None by (simp add: reply_options_def)
  next
    case (Some data)
    show ?thesis
    proof (cases "td_data_ma t = 0")
      case True
      have "topic_reply ct obs now t p = add_data (reply_payload now t) p2"
        using p1(1) p2(1) Some True by (simp add: topic_reply_def reply_payload_def reply_code_def)
      then show ?thesis using that [of p2] p2 Some True by (simp add: reply_options_def)
    next
      case False
      have rem: "0 \<le> td_data_ma t - now" "td_data_ma t - now < 2 ^ 24"
        using Some False small readable_remaining [of now t] by (auto simp: small_reply_def)
      then have r: "unat (word_of_int (td_data_ma t - now) :: u32) < 2 ^ 24"
        unfolding unat_word_of_int_small [OF rem] using rem by (simp only: nat_less_iff) simp
      show ?thesis
        by (rule add_uint_option_ok [OF p2(2) r, of COAP_OPTION_MAXAGE])
          (use p1(1) p2 Some False that in
            \<open>auto simp: topic_reply_def reply_payload_def reply_code_def reply_options_def\<close>)
    qed
  qed
qed

section \<open>Topic resources\<close>

definition topic_handlers :: "method_handler option list" where
  "topic_handlers =
     [Some Hnd_get_topic, Some Hnd_post_topic, Some Hnd_put_topic, Some Hnd_delete_topic]"

definition ct_ok :: "cstring \<Rightarrow> bool" where
  "ct_ok v \<longleftrightarrow> (\<forall>c\<in>set v. isdigit c) \<and> 0 \<le> atoi v \<and> atoi v \<le> 65535"

text \<open>
  \<open>topic_res r uri attrs\<close>: \<open>r\<close> is a resource the broker created for a topic, with everything
  its handlers rely on.
\<close>

definition topic_res :: "coap_resource \<Rightarrow> cstring \<Rightarrow> (cstring \<times> cstring) list \<Rightarrow> bool" where
  "topic_res r uri attrs \<longleftrightarrow>
     r_uri r = heap_string uri \<and> link_attr r = map heap_attr attrs \<and> r_flags r = 1 \<and>
     r_key r = coap_hash_path uri \<and> r_handler r = topic_handlers \<and> r_observable r \<and>
     NUL \<notin> set uri \<and> is_prefix ''ps/'' uri \<and> (\<forall>(n, v)\<in>set attrs. NUL \<notin> set n \<and> NUL \<notin> set v) \<and>
     (\<exists>v. map_of attrs ''ct'' = Some v \<and> ct_ok v) \<and>
     (\<forall>s\<in>set (subscribers r). length (sub_token s) \<le> 8)"

lemma topic_res_uri [simp]: "topic_res r uri attrs \<Longrightarrow> str_cstr (r_uri r) = Inr uri"
  by (simp add: topic_res_def str_cstr_heap_string)

lemma heap_attr_ok: "\<forall>a\<in>set (map heap_attr attrs). attr_ok a"
  by (auto simp: heap_attr_def attr_ok_def)

lemma topic_res_ok: "topic_res r uri attrs \<Longrightarrow> resource_ok r"
  using heap_attr_ok [of attrs] by (simp add: topic_res_def resource_ok_def)

lemma find_heap_attr:
  "find (attr_named name) (map heap_attr attrs) =
     map_option (\<lambda>v. heap_attr (name, v)) (map_of attrs name)"
  by (induction attrs) (auto simp: attr_named_def heap_attr_def)

lemma topic_res_ct:
  assumes "topic_res r uri attrs"
  obtains v where "map_of attrs ''ct'' = Some v" "ct_ok v" "ct_attr_value r = Inr (atoi v)"
proof -
  obtain v where v: "map_of attrs ''ct'' = Some v" "ct_ok v"
    using assms by (auto simp: topic_res_def)
  then have "NUL \<notin> set v" using assms by (auto simp: topic_res_def dest: map_of_SomeD)
  moreover have "coap_find_attr (RValid r) ''ct'' = Inr (Some (heap_attr (''ct'', v)))"
    using coap_find_attr_ok [OF topic_res_ok [OF assms]] assms v
    by (simp add: topic_res_def find_heap_attr)
  ultimately have "ct_attr_value r = Inr (atoi v)"
    by (simp add: ct_attr_value_def heap_attr_def str_cstr_heap_string)
  with that v show ?thesis by blast
qed

lemma topic_res_free: "topic_res r uri attrs \<Longrightarrow> coapFreeResource (RValid r) = Inr ()"
proof -
  assume r: "topic_res r uri attrs"
  have "\<forall>a\<in>set (map heap_attr attrs). attr_heap a" by (auto simp: heap_attr_def attr_heap_def)
  with r show ?thesis
    by (simp add: topic_res_def coapFreeResource_def delete_heap_attrs free_uri_def)
qed

section \<open>The handler\<close>

lemma with_db_Inr [broker_simps]:
  "f (topics st) = Inr (x, d) \<Longrightarrow> with_db f st = Inr (x, st\<lparr>topics := d\<rparr>)"
  by (simp add: with_db_def)

text \<open>
  Reading the copy of a topic: \<open>hnd_get_topic\<close> past its checks is a clone, \<open>topic_reply\<close> and
  a free, and the database is as before.
\<close>

definition get_checks ::
  "int \<Rightarrow> bool \<Rightarrow> coap_pdu option \<Rightarrow> nat option" where
  "get_checks ct_attr observed request =
     (let ct_opt = Option.bind request (first_option COAP_OPTION_CONTENT_TYPE) in
      if observed \<and> request = None then None
      else case ct_opt of
        None \<Rightarrow> Some 400
      | Some v \<Rightarrow> if v = word_of_int ct_attr then None else Some 415)"

lemma hnd_get_topic_refused:
  assumes "topic_res r uri attrs" "ct_attr_value r = Inr ct"
    and "get_checks ct (coap_find_observer r peer token \<noteq> None) request = Some n"
  shows "hnd_get_topic r peer token request response st =
    bindR (reply_phrase n response) (\<lambda>response. Inr (response, st))"
  using assms
  by (auto simp: hnd_get_topic_def get_checks_def Let_def split: option.splits if_splits)

lemma hnd_get_topic_read:
  assumes r: "topic_res r uri attrs" "ct_attr_value r = Inr ct"
    and chk: "get_checks ct (coap_find_observer r peer token \<noteq> None) request = None"
    and abs: "db_abs (topics st) xs cs l" and t: "lookup uri xs = Some t" "avail (topics st) > 0"
  defines "obs \<equiv> (if coap_find_observer r peer token \<noteq> None
                    then Some (of_nat (observe (ctx st))) else None)"
  obtains d where "hnd_get_topic r peer token request response st =
      bindR (topic_reply (word_of_int ct) obs (clock st) t response)
        (\<lambda>response. Inr (response, st\<lparr>topics := d\<rparr>))"
    "db_abs d xs cs l" "avail d = avail (topics st)"
proof -
  obtain a d1 where c: "cloneTopic (Some uri) (topics st) = Inr (Some a, d1)"
    "Suc (avail d1) = avail (topics st)" "db_abs d1 xs ((a, t) # cs) l"
    using cloneTopic_refines [OF abs, of uri] t by (auto split: option.splits)
  obtain n where n: "load a d1 = Inr n" "topic.truncate n = t"
    using clone_load [OF c(3), of a t] by auto
  have f: "td_data n = td_data t" "td_data_ma n = td_data_ma t" using n(2) by auto
  obtain d2 where fr: "freeTopic (Some a) d1 = Inr (1, d2)" "avail d2 = Suc (avail d1)"
    "db_abs d2 xs cs l"
    using freeTopic_refines [OF c(3)] by auto
  have pass: "\<not> (Option.bind request (first_option COAP_OPTION_CONTENT_TYPE) \<noteq> None \<and>
      \<not> (coap_find_observer r peer token \<noteq> None \<and> request = None) \<and>
      Option.bind request (first_option COAP_OPTION_CONTENT_TYPE) \<noteq> Some (word_of_int ct))"
    "\<not> (Option.bind request (first_option COAP_OPTION_CONTENT_TYPE) = None \<and>
      \<not> (coap_find_observer r peer token \<noteq> None \<and> request = None))"
    using chk by (auto simp: get_checks_def Let_def split: option.splits if_splits)
  have "hnd_get_topic r peer token request response st =
      bindR (topic_reply (word_of_int ct) obs (clock st) t response)
        (\<lambda>response. Inr (response, st\<lparr>topics := d2\<rparr>))"
    unfolding hnd_get_topic_def Let_def r(2) bindR_Inr if_not_P [OF pass(1)] if_not_P [OF pass(2)]
      topic_res_uri [OF r(1)] with_db_Inr [of "cloneTopic (Some uri)", OF c(1)]
    by (auto simp: with_db_def fr n(1) f topic_reply_def readable_def expired_def obs_def bindR_assoc
        split: option.splits cong: if_cong)
  with that fr c(2) show ?thesis by simp
qed

lemma hnd_get_topic_answers:
  assumes r: "topic_res r u a" "ct_attr_value r = Inr ct"
    and chk: "get_checks ct (coap_find_observer r peer token \<noteq> None) request = None"
    and abs: "db_abs (topics st) xs cs l" and t: "lookup u xs = Some t" "avail (topics st) > 0"
    and p: "pdu_abs response [] None" "pdu_length response \<le> 12" "max_size response = COAP_MAX_PDU_SIZE"
    and small: "small_reply (word_of_int ct) obs (clock st) t" "length (reply_payload (clock st) t) \<le> 1300"
    and obs: "obs = (if coap_find_observer r peer token \<noteq> None then Some (of_nat (observe (ctx st))) else None)"
  shows "\<exists>d resp. hnd_get_topic r peer token request response st = Inr (resp, st\<lparr>topics := d\<rparr>) \<and>
    db_abs d xs cs l \<and> avail d = avail (topics st) \<and>
    hdr_code resp = reply_code (clock st) t \<and> hdr_token resp = hdr_token response \<and>
    pdu_abs resp (reply_options (word_of_int ct) obs (clock st) t)
      (if reply_payload (clock st) t = [] then None else Some (reply_payload (clock st) t))"
proof -
  let ?m = "topic_reply (word_of_int ct) obs (clock st) t response"
  obtain d where d: "hnd_get_topic r peer token request response st =
      bindR ?m (\<lambda>response. Inr (response, st\<lparr>topics := d\<rparr>))" "db_abs d xs cs l" "avail d = avail (topics st)"
    unfolding obs by (rule hnd_get_topic_read [OF r chk abs t])
  obtain q where q: "?m = add_data (reply_payload (clock st) t) q"
    "pdu_abs q (reply_options (word_of_int ct) obs (clock st) t) None" "pdu_length q \<le> 36"
    "max_size q = COAP_MAX_PDU_SIZE" "hdr_code q = reply_code (clock st) t" "hdr_token q = hdr_token response"
    by (rule topic_reply_options [OF p small(1)])
  show ?thesis
  proof (cases "reply_payload (clock st) t = []")
    case True
    have "?m = Inr q" using q(1) pdu_add_data_nothing [OF q(2)] by (simp add: True add_data_def)
    then show ?thesis using d q(2,5,6) True by (simp, intro exI [of _ d], simp)
  next
    case False
    have room: "pdu_length q + length (reply_payload (clock st) t) + 1 \<le> max_size q" using q(3,4) small(2) by simp
    obtain p' where "add_data (reply_payload (clock st) t) q = Inr p'"
      "pdu_abs p' (reply_options (word_of_int ct) obs (clock st) t) (Some (reply_payload (clock st) t))"
      "hdr_code p' = hdr_code q" "hdr_token p' = hdr_token q"
      by (rule add_data_ok [OF q(2) False room])
    then show ?thesis using d q(1,5,6) False by (simp, intro exI [of _ d], simp)
  qed
qed

end
