(* ===== verification/BrokerInv.thy ===== *)
theory BrokerInv
  imports TopicReply
begin

text \<open>
  The invariant of the broker and the notification of observers: what the resources of the
  context and the topics of the database have to do with each other, and that sending
  notifications changes nothing of it.
\<close>

section \<open>Invariant\<close>

definition uri_of :: "coap_resource \<Rightarrow> cstring" where
  "uri_of r = str_text (r_uri r)"

definition broker_res :: "coap_resource \<Rightarrow> bool" where
  "broker_res r \<longleftrightarrow>
     r_uri r = literal broker_path 2 \<and> r_key r = coap_hash_path broker_path \<and>
     r_handler r = [Some Hnd_get_broker, Some Hnd_post_broker, None, Some Hnd_delete_broker] \<and>
     \<not> r_observable r \<and> r_flags r = 0 \<and> resource_ok r \<and>
     delete_attrs coap_delete_attr (link_attr r) = Inr ()"

text \<open>The resource \<open>ps\<close> comes first, every other resource is a topic, no URI occurs twice.\<close>

definition resources_inv :: "coap_resource list \<Rightarrow> nat \<Rightarrow> bool" where
  "resources_inv rs n \<longleftrightarrow>
     rs \<noteq> [] \<and> broker_res (hd rs) \<and> (\<forall>r\<in>set (tl rs). \<exists>u a. topic_res r u a) \<and>
     distinct (map r_id rs) \<and> (\<forall>r\<in>set rs. r_id r < n) \<and> distinct (map uri_of rs)"

text \<open>The earliest expiry time bounds the expiry times that are set.\<close>

definition expiry_ok :: "int \<Rightarrow> (topic \<Rightarrow> int) \<Rightarrow> topic list \<Rightarrow> bool" where
  "expiry_ok e f xs \<longleftrightarrow> (\<forall>t\<in>set xs. f t \<noteq> 0 \<longrightarrow> e \<le> f t)"

definition topics_ok :: "topic list \<Rightarrow> bool" where
  "topics_ok xs \<longleftrightarrow>
     distinct (paths xs) \<and> (\<forall>p\<in>set (paths xs). is_prefix ''ps/'' p) \<and>
     (\<forall>t\<in>set xs. \<forall>s. td_data t = Some s \<longrightarrow> NUL \<notin> set s)"

definition broker_inv :: "broker \<Rightarrow> topic list \<Rightarrow> (addr \<times> topic) list \<Rightarrow> nat \<Rightarrow> bool" where
  "broker_inv st xs cs l \<longleftrightarrow>
     db_abs (topics st) xs cs l \<and> resources_inv (resources (ctx st)) (next_id (ctx st)) \<and>
     topics_ok xs \<and> set (paths xs) \<subseteq> set (map uri_of (resources (ctx st))) \<and>
     expiry_ok (earliest_topic_max_age st) td_topic_ma xs \<and>
     expiry_ok (earliest_data_max_age st) td_data_ma xs"

lemma topic_res_uri_of: "topic_res r u a \<Longrightarrow> uri_of r = u"
  by (simp add: topic_res_def uri_of_def)

lemma broker_res_uri: "broker_res r \<Longrightarrow> uri_of r = broker_path \<and> str_cstr (r_uri r) = Inr broker_path"
  by (simp add: broker_res_def uri_of_def broker_path_def literal_def str_text_def str_cstr_def cstr_def)

lemma resources_inv_cases:
  assumes "resources_inv rs n" "r \<in> set rs"
  obtains "broker_res r" "r = hd rs" | u a where "topic_res r u a" "r \<in> set (tl rs)"
  using assms unfolding resources_inv_def by (cases rs) auto

lemma resources_inv_cstr:
  "resources_inv rs n \<Longrightarrow> r \<in> set rs \<Longrightarrow> str_cstr (r_uri r) = Inr (uri_of r)"
  by (erule (1) resources_inv_cases) (auto simp: broker_res_uri topic_res_uri_of)

lemma resources_inv_prefix:
  assumes "resources_inv rs n" "r \<in> set rs" "is_prefix ''ps/'' (uri_of r)"
  obtains a where "topic_res r (uri_of r) a"
  using assms(1,2)
proof (cases rule: resources_inv_cases)
  case 1
  then show ?thesis using assms(3) broker_res_uri [of r] by (simp add: broker_path_def)
next
  case (2 u a)
  then show ?thesis using that topic_res_uri_of [of r u a] by simp
qed

lemma get_resource_found:
  assumes "resources_inv rs n" "r \<in> set rs" "resources (ctx st) = rs"
  shows "get_resource (r_id r) st = Inr r"
proof -
  have "find (\<lambda>x. r_id x = r_id r) rs = Some r"
  proof -
    have "inj_on r_id (set rs)" using assms(1) by (simp add: resources_inv_def distinct_map)
    then have "\<forall>x\<in>set rs. r_id x = r_id r \<longrightarrow> x = r" using assms(2) by (auto dest: inj_onD)
    then show ?thesis using assms(2) by (induction rs) auto
  qed
  then show ?thesis using assms(3) by (simp add: get_resource_def)
qed

section \<open>Updates that keep a resource what it is\<close>

definition same_core :: "coap_resource \<Rightarrow> coap_resource \<Rightarrow> bool" where
  "same_core r r' \<longleftrightarrow>
     r_id r' = r_id r \<and> r_uri r' = r_uri r \<and> link_attr r' = link_attr r \<and> r_flags r' = r_flags r \<and>
     r_key r' = r_key r \<and> r_handler r' = r_handler r \<and> r_observable r' = r_observable r \<and>
     ((\<forall>s\<in>set (subscribers r). length (sub_token s) \<le> 8) \<longrightarrow>
      (\<forall>s\<in>set (subscribers r'). length (sub_token s) \<le> 8))"

lemma same_core_refl [simp]: "same_core r r"
  by (simp add: same_core_def)

lemma same_core_topic: "same_core r r' \<Longrightarrow> topic_res r u a \<Longrightarrow> topic_res r' u a"
  by (simp add: same_core_def topic_res_def)

lemma same_core_broker: "same_core r r' \<Longrightarrow> broker_res r \<Longrightarrow> broker_res r'"
  by (auto simp: same_core_def broker_res_def resource_ok_def)

lemma resources_inv_map:
  assumes inv: "resources_inv rs n" and core: "\<And>r. r \<in> set rs \<Longrightarrow> same_core r (f r)"
  shows "resources_inv (map f rs) n" "map uri_of (map f rs) = map uri_of rs"
    "map r_id (map f rs) = map r_id rs"
proof -
  have uri: "map (uri_of \<circ> f) rs = map uri_of rs" and ids: "map (r_id \<circ> f) rs = map r_id rs"
    using core by (auto simp: same_core_def uri_of_def)
  show "map uri_of (map f rs) = map uri_of rs" "map r_id (map f rs) = map r_id rs"
    using uri ids by simp_all
  obtain b ts where rs: "rs = b # ts" using inv by (cases rs) (auto simp: resources_inv_def)
  have "broker_res (f b)" using inv core same_core_broker by (auto simp: resources_inv_def rs)
  moreover have "\<exists>u a. topic_res (f r) u a" if "r \<in> set ts" for r
    using inv core [of r] same_core_topic [of r "f r"] that by (fastforce simp: resources_inv_def rs)
  moreover have "r_id (f r) < n" if "r \<in> set rs" for r
    using inv core [OF that] that by (auto simp: resources_inv_def same_core_def)
  moreover have "distinct (map uri_of (map f rs))" "distinct (map r_id (map f rs))"
    using uri ids inv unfolding resources_inv_def map_map by presburger+
  ultimately show "resources_inv (map f rs) n"
    unfolding resources_inv_def by (auto simp: rs)
qed

lemma update_resource_inv:
  assumes inv: "broker_inv st xs cs l"
    and core: "\<And>r. r \<in> set (resources (ctx st)) \<Longrightarrow> r_id r = rid \<Longrightarrow> same_core r (f r)"
  shows "broker_inv (st\<lparr>ctx := update_resource rid f (ctx st)\<rparr>) xs cs l"
proof -
  let ?g = "\<lambda>r. if r_id r = rid then f r else r"
  have g: "\<And>r. r \<in> set (resources (ctx st)) \<Longrightarrow> same_core r (?g r)" using core by simp
  have ri: "resources_inv (resources (ctx st)) (next_id (ctx st))" using inv by (simp add: broker_inv_def)
  note m = resources_inv_map [OF ri, of ?g, OF g]
  show ?thesis
    using inv m by (simp add: broker_inv_def update_resource_def)
qed

section \<open>Removing and adding resources\<close>

lemma RESOURCES_DELETE_set:
  "resources_inv rs n \<Longrightarrow> r \<in> set rs \<Longrightarrow> set (filter (\<lambda>x. r_id x \<noteq> r_id r) rs) = set rs - {r}"
  by (auto simp: resources_inv_def distinct_map dest: inj_onD)

lemma resources_inv_delete:
  assumes inv: "resources_inv rs n" and r: "r \<in> set rs" "topic_res r u a"
  shows "resources_inv (filter (\<lambda>x. r_id x \<noteq> r_id r) rs) n"
proof -
  obtain b ts where rs: "rs = b # ts" using inv by (cases rs) (auto simp: resources_inv_def)
  have "b \<noteq> r"
    using inv r broker_res_uri [of b] topic_res_uri_of [OF r(2)]
    by (auto simp: resources_inv_def rs topic_res_def broker_path_def)
  then have "r \<in> set ts" using r(1) rs by auto
  then have "r_id b \<noteq> r_id r" using inv by (auto simp: resources_inv_def rs)
  then show ?thesis using inv by (auto simp: resources_inv_def rs distinct_map_filter)
qed

lemma paths_remove_first_set:
  "distinct (paths xs) \<Longrightarrow> set (paths (remove_first p xs)) = set (paths xs) - {p}"
  by (simp add: paths_remove_first)

lemma topics_ok_remove: "topics_ok xs \<Longrightarrow> topics_ok (remove_first p xs)"
proof -
  assume ok: "topics_ok xs"
  have d: "distinct (paths xs)" using ok by (simp add: topics_ok_def)
  then have "distinct (paths (remove_first p xs))" by (simp add: paths_remove_first)
  then show ?thesis
    using ok set_remove_first [of p xs] paths_remove_first_set [OF d, of p]
    unfolding topics_ok_def by blast
qed

lemma expiry_ok_remove: "expiry_ok e f xs \<Longrightarrow> expiry_ok e f (remove_first p xs)"
  using set_remove_first [of p xs] by (auto simp: expiry_ok_def)

lemma remove_resource_run:
  assumes r: "topic_res r u a"
  shows "remove_resource uri r st =
    Inr ((mqtt (Mqtt_unsubscribe uri) st)\<lparr>ctx := RESOURCES_DELETE (ctx st) (r_id r)\<rparr>)"
  using topic_res_free [OF r] by (simp add: remove_resource_def mqtt_def Let_def)

text \<open>Deleting a topic and its resource.\<close>

lemma delete_topic_inv:
  assumes inv: "broker_inv st xs cs l" and r: "r \<in> set (resources (ctx st))" "topic_res r u a"
    and d: "db_abs d (remove_first u xs) cs l"
  shows "broker_inv ((mqtt c (st\<lparr>topics := d\<rparr>))\<lparr>ctx := RESOURCES_DELETE (ctx st) (r_id r)\<rparr>)
    (remove_first u xs) cs l"
proof -
  have ri: "resources_inv (resources (ctx st)) (next_id (ctx st))" using inv by (simp add: broker_inv_def)
  have dis: "distinct (paths xs)" using inv by (simp add: broker_inv_def topics_ok_def)
  have sub: "set (paths (remove_first u xs)) \<subseteq>
      uri_of ` set (filter (\<lambda>x. r_id x \<noteq> r_id r) (resources (ctx st)))"
    using inv paths_remove_first_set [OF dis, of u] RESOURCES_DELETE_set [OF ri r(1)]
      topic_res_uri_of [OF r(2)]
    by (auto simp: broker_inv_def)
  show ?thesis
    using inv d sub resources_inv_delete [OF ri r] topics_ok_remove expiry_ok_remove
    by (simp add: broker_inv_def RESOURCES_DELETE_def mqtt_def)
qed

section \<open>Notification\<close>

text \<open>
  What a step of the notification leaves alone: only the database's clones come and go, and
  in the context only the message identifier, the Observe value and the datagrams change.
\<close>

definition rest_eq :: "broker \<Rightarrow> broker \<Rightarrow> bool" where
  "rest_eq st st' \<longleftrightarrow>
     earliest_topic_max_age st' = earliest_topic_max_age st \<and>
     earliest_data_max_age st' = earliest_data_max_age st \<and> quit st' = quit st \<and>
     mqtt_bridge st' = mqtt_bridge st \<and> mqtt_calls st' = mqtt_calls st \<and>
     rd_server st' = rd_server st \<and> rd_resources st' = rd_resources st \<and> clock st' = clock st"

text \<open>Datagrams are added, and the network is the one it was.\<close>

definition sends_more :: "broker \<Rightarrow> broker \<Rightarrow> bool" where
  "sends_more st st' \<longleftrightarrow>
     (\<exists>ms. sent (ctx st') = sent (ctx st) @ ms) \<and> send_ok (ctx st') = send_ok (ctx st)"

lemma sends_more_refl: "sends_more st st"
  by (simp add: sends_more_def)

lemma sends_more_trans: "sends_more st st' \<Longrightarrow> sends_more st' st'' \<Longrightarrow> sends_more st st''"
  by (auto simp: sends_more_def)

definition notify_frame :: "topic list \<Rightarrow> (addr \<times> topic) list \<Rightarrow> nat \<Rightarrow> broker \<Rightarrow> broker \<Rightarrow> bool" where
  "notify_frame xs cs l st st' \<longleftrightarrow>
     rest_eq st st' \<and> db_abs (topics st') xs cs l \<and> avail (topics st') = avail (topics st) \<and>
     resources (ctx st') = resources (ctx st) \<and> next_id (ctx st') = next_id (ctx st) \<and>
     observe (ctx st') = observe (ctx st) \<and> sends_more st st'"

text \<open>The conditions under which every number a GET answers with fits three bytes.\<close>

definition small_numbers :: "broker \<Rightarrow> topic list \<Rightarrow> bool" where
  "small_numbers st xs \<longleftrightarrow>
     observe (ctx st) < 2 ^ 24 \<and> (\<forall>t\<in>set xs. td_data_ma t - clock st < 2 ^ 24)"

lemma topics_self [simp]: "st\<lparr>topics := topics st\<rparr> = (st :: broker)"
  by simp

lemma atoi_ct_small: "ct_ok v \<Longrightarrow> unat (word_of_int (atoi v) :: u32) < 2 ^ 24"
  by (subst unat_word_of_int_small) (auto simp: ct_ok_def nat_less_iff)

lemma observe_small: "n < 2 ^ 24 \<Longrightarrow> unat (of_nat n :: u32) < 2 ^ 24"
  by (simp add: unsigned_of_nat take_bit_eq_mod)

lemma hnd_get_topic_gone:
  assumes r: "topic_res r uri attrs" "ct_attr_value r = Inr ct"
    and chk: "get_checks ct (coap_find_observer r peer token \<noteq> None) request = None"
    and c: "cloneTopic (Some uri) (topics st) = Inr (None, topics st)"
  shows "hnd_get_topic r peer token request response st =
    bindR (reply_phrase 404 response) (\<lambda>response. Inr (response, st))"
  using chk r c
  by (auto simp: hnd_get_topic_def get_checks_def Let_def with_db_def split: option.splits if_splits)

lemma hnd_get_topic_ends:
  assumes r: "topic_res r uri attrs" and abs: "db_abs (topics st) xs cs l"
    and p: "pdu_abs response [] None" "pdu_length response \<le> 12" "max_size response = COAP_MAX_PDU_SIZE"
    and small: "B \<Longrightarrow> observe (ctx st) < 2 ^ 24"
      "\<And>t. B \<Longrightarrow> lookup uri xs = Some t \<Longrightarrow> td_data_ma t - clock st < 2 ^ 24"
  shows "ends B (hnd_get_topic r peer token request response st) (\<lambda>(resp, st').
    \<exists>d. st' = st\<lparr>topics := d\<rparr> \<and> db_abs d xs cs l \<and> avail d = avail (topics st))"
proof -
  obtain v where v: "ct_ok v" "ct_attr_value r = Inr (atoi v)" using topic_res_ct [OF r] by blast
  show ?thesis
  proof (cases "get_checks (atoi v) (coap_find_observer r peer token \<noteq> None) request")
    case (Some n)
    then have "n = 400 \<or> n = 415"
      by (auto simp: get_checks_def Let_def split: option.splits if_splits)
    then obtain q where "reply_phrase n response = Inr q"
      using reply_phrase_total [OF p(1)] response_phrases by fastforce
    then have "hnd_get_topic r peer token request response st = Inr (q, st\<lparr>topics := topics st\<rparr>)"
      using hnd_get_topic_refused [OF r v(2) Some] by simp
    with abs show ?thesis by (auto intro!: exI [of _ "topics st"])
  next
    case chk: None
    show ?thesis
    proof (cases "lookup uri xs = None \<or> avail (topics st) = 0")
      case True
      then have c: "cloneTopic (Some uri) (topics st) = Inr (None, topics st)"
        using cloneTopic_refines [OF abs, of uri] by (auto split: option.splits)
      obtain q where "reply_phrase 404 response = Inr q"
        using reply_phrase_total [OF p(1)] response_phrases by fastforce
      then have "hnd_get_topic r peer token request response st = Inr (q, st\<lparr>topics := topics st\<rparr>)"
        using hnd_get_topic_gone [OF r v(2) chk c] by simp
      with abs show ?thesis by (auto intro!: exI [of _ "topics st"])
    next
      case False
      then obtain t where t: "lookup uri xs = Some t" "avail (topics st) > 0" by auto
      let ?obs = "if coap_find_observer r peer token \<noteq> None
                  then Some (of_nat (observe (ctx st)) :: u32) else None"
      let ?m = "topic_reply (word_of_int (atoi v)) ?obs (clock st) t response"
      obtain d where d: "hnd_get_topic r peer token request response st =
          bindR ?m (\<lambda>response. Inr (response, st\<lparr>topics := d\<rparr>))"
        "db_abs d xs cs l" "avail d = avail (topics st)"
        by (rule hnd_get_topic_read [OF r v(2) chk abs t])
      have total: "\<exists>x. ?m = Inr x" if B
      proof -
        have sm: "small_reply (word_of_int (atoi v)) ?obs (clock st) t"
          using small [OF that] t(1) atoi_ct_small [OF v(1)] observe_small by (simp add: small_reply_def)
        obtain q where "?m = add_data (reply_payload (clock st) t) q"
          "pdu_abs q (reply_options (word_of_int (atoi v)) ?obs (clock st) t) None"
          using topic_reply_options [OF p sm] by blast
        then show ?thesis using add_data_total by metis
      qed
      show ?thesis
        using d total by (cases ?m) auto
    qed
  qed
qed

lemma resource_uris:
  assumes "broker_inv st xs cs l" "r \<in> set (resources (ctx st))"
  shows "uri_of r = broker_path \<or> is_prefix ''ps/'' (uri_of r)"
proof -
  have "resources_inv (resources (ctx st)) (next_id (ctx st))" using assms(1) by (simp add: broker_inv_def)
  from this assms(2) show ?thesis
  proof (cases rule: resources_inv_cases)
    case 1
    then show ?thesis by (simp add: broker_res_uri)
  next
    case (2 u a)
    then show ?thesis using topic_res_uri_of [OF 2(1)] by (simp add: topic_res_def)
  qed
qed

end
