(* ===== verification/Notify.thy ===== *)
theory Notify
  imports BrokerInv
begin

text \<open>
  Notification of observers: with small numbers no call of the GET handler faults, the
  database is unchanged, and resources change in their subscription bookkeeping only.
\<close>

section \<open>One observer\<close>

lemma notify_frame_refl:
  "db_abs (topics st) xs cs l \<Longrightarrow> notify_frame xs cs l st st"
  by (simp add: notify_frame_def rest_eq_def sends_more_refl)

lemma notify_frame_trans:
  assumes "notify_frame xs cs l st st'" "notify_frame xs cs l st' st''"
  shows "notify_frame xs cs l st st''"
  using assms sends_more_trans [of st st' st''] by (simp add: notify_frame_def rest_eq_def)

lemma notify_frame_small:
  "notify_frame xs cs l st st' \<Longrightarrow> small_numbers st xs \<Longrightarrow> small_numbers st' xs"
  by (simp add: notify_frame_def rest_eq_def small_numbers_def)

lemma lookup_small:
  "small_numbers st xs \<Longrightarrow> lookup u xs = Some t \<Longrightarrow> td_data_ma t - clock st < 2 ^ 24"
  using lookup_path [of u xs t] by (simp add: small_numbers_def)

definition fresh_pdu :: coap_pdu where
  "fresh_pdu = \<lparr>max_size = COAP_MAX_PDU_SIZE, hdr_type = COAP_MESSAGE_CON, hdr_code = 0, hdr_id = 0,
     hdr_token = [], max_delta = 0, pdu_body = [], pdu_data = None\<rparr>"

lemma notify_response:
  assumes "length tok \<le> 8"
  obtains p where "coap_pdu_init COAP_MESSAGE_CON 0 0 COAP_MAX_PDU_SIZE = Inr (Some fresh_pdu)"
    "coap_add_token (Some fresh_pdu) tok = (1, Some p)" "pdu_abs p [] None" "pdu_length p \<le> 12"
    "max_size p = COAP_MAX_PDU_SIZE"
proof -
  have init: "coap_pdu_init COAP_MESSAGE_CON 0 0 COAP_MAX_PDU_SIZE = Inr (Some fresh_pdu)"
    by (simp add: coap_pdu_init_def fresh_pdu_def)
  have "pdu_abs fresh_pdu [] None"
    using encodes.empty by (auto simp: pdu_abs_def pdu_length_def payload_bytes_def fresh_pdu_def)
  then obtain p where "coap_add_token (Some fresh_pdu) tok = (1, Some p)" "pdu_abs p [] None"
    "max_size p = max_size fresh_pdu" "pdu_length p = length tok + 4"
    by (rule pdu_add_token_abs) (use assms in \<open>auto simp: fresh_pdu_def\<close>)
  then show ?thesis using that init assms by (simp add: fresh_pdu_def)
qed

text \<open>One round: the handler fills a fresh message, which is sent.\<close>

lemma notify_one_run:
  assumes tok: "length (sub_token obs) \<le> 8" and dirty: "\<not> (\<not> r_dirty r \<and> \<not> sub_dirty obs)"
  obtains p c where "notify_one Hnd_get_topic r obs st =
      bindR (hnd_get_topic r (sub_addr obs) (Some (sub_token obs)) None p (st\<lparr>ctx := c\<rparr>)) (\<lambda>(response, st).
      let con = (hdr_type response = COAP_MESSAGE_CON);
          (tid, c) = (if con then coap_send_confirmed else coap_send) (sub_addr obs) response (ctx st) in
      Inr (obs\<lparr>sub_dirty := (tid = COAP_INVALID_TID), non_cnt := (if con then 0 else non_cnt obs + 1)\<rparr>,
           tid = COAP_INVALID_TID, st\<lparr>ctx := c\<rparr>))"
    "pdu_abs p [] None" "pdu_length p \<le> 12" "max_size p = COAP_MAX_PDU_SIZE" "hdr_token p = sub_token obs"
    "hdr_type p = (if notify_non r obs then COAP_MESSAGE_NON else COAP_MESSAGE_CON)"
    "resources c = resources (ctx st)" "next_id c = next_id (ctx st)" "observe c = observe (ctx st)"
    "send_ok c = send_ok (ctx st)" "sent c = sent (ctx st)"
proof -
  obtain p where p: "coap_pdu_init COAP_MESSAGE_CON 0 0 COAP_MAX_PDU_SIZE = Inr (Some fresh_pdu)"
    "coap_add_token (Some fresh_pdu) (sub_token obs) = (1, Some p)" "pdu_abs p [] None"
    "pdu_length p \<le> 12" "max_size p = COAP_MAX_PDU_SIZE"
    by (rule notify_response [OF tok])
  have ptok: "hdr_token p = sub_token obs" using p(2) tok by (auto simp: coap_add_token_def split: if_splits)
  obtain i c where ic: "coap_new_message_id (ctx st) = (i, c)" by (cases "coap_new_message_id (ctx st)")
  have c: "resources c = resources (ctx st)" "next_id c = next_id (ctx st)"
    "observe c = observe (ctx st)" "send_ok c = send_ok (ctx st)" "sent c = sent (ctx st)"
    using ic by (auto simp: coap_new_message_id_def Let_def)
  define non where "non = notify_non r obs"
  have non: "notify_non r (obs\<lparr>sub_dirty := False\<rparr>) = non" by (simp add: non_def notify_non_def)
  define p' where "p' = p\<lparr>hdr_id := i, hdr_type := (if non then COAP_MESSAGE_NON else COAP_MESSAGE_CON)\<rparr>"
  have p': "pdu_abs p' [] None" "pdu_length p' \<le> 12" "max_size p' = COAP_MAX_PDU_SIZE"
    "hdr_token p' = sub_token obs" "hdr_type p' = (if notify_non r obs then COAP_MESSAGE_NON else COAP_MESSAGE_CON)"
    using p(3-5) ptok by (simp_all add: p'_def pdu_length_def non_def)
  let ?g = "hnd_get_topic r (sub_addr obs) (Some (sub_token obs)) None p' (st\<lparr>ctx := c\<rparr>)"
  have run: "notify_one Hnd_get_topic r obs st = bindR ?g (\<lambda>(response, st).
      let con = (hdr_type response = COAP_MESSAGE_CON);
          (tid, c) = (if con then coap_send_confirmed else coap_send) (sub_addr obs) response (ctx st) in
      Inr (obs\<lparr>sub_dirty := (tid = COAP_INVALID_TID), non_cnt := (if con then 0 else non_cnt obs + 1)\<rparr>,
           tid = COAP_INVALID_TID, st\<lparr>ctx := c\<rparr>))"
    using p(1,2) ic non unfolding notify_one_def if_not_P [OF dirty]
    by (cases ?g) (auto simp: Let_def call_notify_handler_def p'_def split: prod.split)
  show ?thesis by (rule that [OF run p' c])
qed

lemma notify_one_ends:
  assumes r: "topic_res r u a" and tok: "length (sub_token obs) \<le> 8"
    and abs: "db_abs (topics st) xs cs l" and small: "B \<Longrightarrow> small_numbers st xs"
  shows "ends B (notify_one Hnd_get_topic r obs st) (\<lambda>(obs', failed, st').
    sub_token obs' = sub_token obs \<and> sub_addr obs' = sub_addr obs \<and> notify_frame xs cs l st st')"
proof (cases "\<not> r_dirty r \<and> \<not> sub_dirty obs")
  case True
  then show ?thesis
    using notify_frame_refl [OF abs] by (auto simp: notify_one_def)
next
  case False
  obtain p c where run: "notify_one Hnd_get_topic r obs st =
      bindR (hnd_get_topic r (sub_addr obs) (Some (sub_token obs)) None p (st\<lparr>ctx := c\<rparr>)) (\<lambda>(response, st).
      let con = (hdr_type response = COAP_MESSAGE_CON);
          (tid, c) = (if con then coap_send_confirmed else coap_send) (sub_addr obs) response (ctx st) in
      Inr (obs\<lparr>sub_dirty := (tid = COAP_INVALID_TID), non_cnt := (if con then 0 else non_cnt obs + 1)\<rparr>,
           tid = COAP_INVALID_TID, st\<lparr>ctx := c\<rparr>))"
    and p: "pdu_abs p [] None" "pdu_length p \<le> 12" "max_size p = COAP_MAX_PDU_SIZE"
    and c: "resources c = resources (ctx st)" "next_id c = next_id (ctx st)" "observe c = observe (ctx st)"
      "send_ok c = send_ok (ctx st)" "sent c = sent (ctx st)"
    by (rule notify_one_run [OF tok False])
  let ?g = "hnd_get_topic r (sub_addr obs) (Some (sub_token obs)) None p (st\<lparr>ctx := c\<rparr>)"
  have "ends B ?g (\<lambda>(resp, st'). \<exists>d. st' = (st\<lparr>ctx := c\<rparr>)\<lparr>topics := d\<rparr> \<and> db_abs d xs cs l \<and>
      avail d = avail (topics (st\<lparr>ctx := c\<rparr>)))"
    by (rule hnd_get_topic_ends [OF r _ p])
      (use abs small c lookup_small in \<open>auto simp: small_numbers_def\<close>)
  then show ?thesis
    unfolding run
    by (intro ends_bindI, elim ends_mono)
      (auto simp: coap_send_def coap_send_confirmed_def Let_def c notify_frame_def rest_eq_def sends_more_def
        split: if_splits)
qed

section \<open>All observers of a resource\<close>

definition same_observers :: "coap_subscription list \<Rightarrow> coap_subscription list \<Rightarrow> bool" where
  "same_observers ss ss' \<longleftrightarrow>
     map (\<lambda>s. (sub_addr s, sub_token s)) ss = map (\<lambda>s. (sub_addr s, sub_token s)) ss'"

lemma same_observers_tokens:
  "same_observers ss ss' \<Longrightarrow>
   (\<forall>s\<in>set ss. length (sub_token s) \<le> 8) \<longleftrightarrow> (\<forall>s\<in>set ss'. length (sub_token s) \<le> 8)"
proof -
  assume "same_observers ss ss'"
  then have "map snd (map (\<lambda>s. (sub_addr s, sub_token s)) ss) = map snd (map (\<lambda>s. (sub_addr s, sub_token s)) ss')"
    by (simp only: same_observers_def)
  then have e: "sub_token ` set ss = sub_token ` set ss'"
    by (simp add: comp_def) (metis list.set_map)
  have all: "(\<forall>s\<in>set ss. length (sub_token s) \<le> 8) \<longleftrightarrow> (\<forall>t\<in>sub_token ` set ss. length t \<le> 8)" for ss
    by blast
  show ?thesis unfolding all [of ss] all [of ss'] e ..
qed

lemma notify_loop_ends:
  assumes "topic_res (r\<lparr>subscribers := seen @ rest\<rparr>) u a"
    and "db_abs (topics st) xs cs l" and "B \<Longrightarrow> small_numbers st xs"
  shows "ends B (notify_loop Hnd_get_topic r seen rest st) (\<lambda>(r', st').
    \<exists>b ss. r' = r\<lparr>r_partiallydirty := b, subscribers := ss\<rparr> \<and>
    same_observers (seen @ rest) ss \<and> notify_frame xs cs l st st')"
  using assms
proof (induction rest arbitrary: r seen st)
  case Nil
  have "\<exists>b ss. r\<lparr>subscribers := seen\<rparr> = r\<lparr>r_partiallydirty := b, subscribers := ss\<rparr> \<and>
      same_observers (seen @ []) ss \<and> notify_frame xs cs l st st"
    by (rule exI [of _ "r_partiallydirty r"], rule exI [of _ seen])
      (simp add: notify_frame_refl [OF Nil.prems(2)] same_observers_def)
  then show ?case by simp
next
  case (Cons obs rest)
  have tok: "length (sub_token obs) \<le> 8" using Cons.prems(1) by (simp add: topic_res_def)
  let ?post = "\<lambda>(r', st'). \<exists>b ss. r' = r\<lparr>r_partiallydirty := b, subscribers := ss\<rparr> \<and>
    same_observers (seen @ obs # rest) ss \<and> notify_frame xs cs l st st'"
  have step: "ends B (notify_loop Hnd_get_topic (r\<lparr>r_partiallydirty := r_partiallydirty r \<or> failed\<rparr>)
      (seen @ [obs']) rest st1) ?post"
    if one: "sub_token obs' = sub_token obs" "sub_addr obs' = sub_addr obs" "notify_frame xs cs l st st1"
    for obs' failed st1
  proof -
    let ?r = "r\<lparr>r_partiallydirty := r_partiallydirty r \<or> failed\<rparr>"
    have t: "topic_res (?r\<lparr>subscribers := (seen @ [obs']) @ rest\<rparr>) u a"
      using Cons.prems(1) one(1) by (simp add: topic_res_def)
    have d: "db_abs (topics st1) xs cs l" using one(3) by (simp add: notify_frame_def)
    have s: "B \<Longrightarrow> small_numbers st1 xs" using notify_frame_small [OF one(3)] Cons.prems(3) by blast
    show ?thesis
      by (rule ends_mono [OF Cons.IH [OF t d s]])
        (use one notify_frame_trans [OF one(3)] in \<open>force simp: same_observers_def\<close>)+
  qed
  show ?case
    unfolding notify_loop.simps
    by (rule ends_bindI, rule ends_mono [OF notify_one_ends [OF Cons.prems(1) tok Cons.prems(2,3)]])
      (use step in auto)
qed

section \<open>All resources\<close>

definition notified :: "topic list \<Rightarrow> (addr \<times> topic) list \<Rightarrow> nat \<Rightarrow> broker \<Rightarrow> broker \<Rightarrow> bool" where
  "notified xs cs l st st' \<longleftrightarrow>
     rest_eq st st' \<and> db_abs (topics st') xs cs l \<and> avail (topics st') = avail (topics st) \<and>
     list_all2 same_core (resources (ctx st)) (resources (ctx st')) \<and>
     next_id (ctx st') = next_id (ctx st)"

lemma same_core_trans: "same_core r s \<Longrightarrow> same_core s t \<Longrightarrow> same_core r t"
  by (simp add: same_core_def)

lemma notified_refl: "db_abs (topics st) xs cs l \<Longrightarrow> notified xs cs l st st"
  by (simp add: notified_def rest_eq_def list_all2_refl)

lemma notified_trans:
  assumes 1: "notified xs cs l st st'" and 2: "notified xs cs l st' st''"
  shows "notified xs cs l st st''"
proof -
  have "list_all2 same_core (resources (ctx st)) (resources (ctx st''))"
    using 1 2 by (auto simp: notified_def intro: list_all2_trans [of same_core same_core same_core, OF same_core_trans])
  with 1 2 show ?thesis by (simp add: notified_def rest_eq_def)
qed

lemma resources_inv_all2:
  assumes "resources_inv rs n" "list_all2 same_core rs rs'"
  shows "resources_inv rs' n" "map uri_of rs' = map uri_of rs"
proof -
  have ids: "map r_id rs' = map r_id rs" and uris: "map uri_of rs' = map uri_of rs"
    using assms(2) by (induction rule: list_all2_induct) (auto simp: same_core_def uri_of_def)
  obtain b ts where rs: "rs = b # ts" using assms(1) by (cases rs) (auto simp: resources_inv_def)
  obtain b' ts' where rs': "rs' = b' # ts'" "same_core b b'" "list_all2 same_core ts ts'"
    using assms(2) rs by (auto simp: list_all2_Cons1)
  have "\<exists>u a. topic_res r' u a" if r': "r' \<in> set ts'" for r'
  proof -
    obtain r where "r \<in> set ts" "same_core r r'"
      using rs'(3) r' unfolding list_all2_conv_all_nth in_set_conv_nth by metis
    then show ?thesis using assms(1) same_core_topic by (fastforce simp: resources_inv_def rs)
  qed
  moreover have "broker_res b'" using assms(1) rs'(2) same_core_broker by (simp add: resources_inv_def rs)
  moreover have "\<forall>r\<in>set rs'. r_id r < n"
  proof -
    have "\<forall>i\<in>set (map r_id rs'). i < n" unfolding ids using assms(1) by (simp add: resources_inv_def)
    then show ?thesis by simp
  qed
  moreover have "distinct (map uri_of rs')" "distinct (map r_id rs')"
    using assms(1) ids uris by (simp_all add: resources_inv_def)
  ultimately show "resources_inv rs' n" by (simp add: resources_inv_def rs')
  show "map uri_of rs' = map uri_of rs" by (rule uris)
qed

lemma notified_inv:
  assumes "broker_inv st xs cs l" "notified xs cs l st st'"
  shows "broker_inv st' xs cs l"
proof -
  have "resources_inv (resources (ctx st)) (next_id (ctx st))"
    and a2: "list_all2 same_core (resources (ctx st)) (resources (ctx st'))"
    using assms by (simp_all add: broker_inv_def notified_def)
  note r = resources_inv_all2 [OF this]
  have "set (map uri_of (resources (ctx st'))) = set (map uri_of (resources (ctx st)))"
    using r(2) by metis
  with assms r(1) show ?thesis by (simp add: broker_inv_def notified_def rest_eq_def)
qed

lemma list_all2_map_same_core:
  "(\<And>r. r \<in> set rs \<Longrightarrow> same_core r (f r)) \<Longrightarrow> list_all2 same_core rs (map f rs)"
  by (simp add: list_all2_conv_all_nth)

text \<open>Exactly the identified resource is updated.\<close>

lemma update_resource_core:
  assumes "resources_inv rs n" "r \<in> set rs" "same_core r r'" "resources c = rs"
  shows "list_all2 same_core rs (resources (update_resource (r_id r) (\<lambda>_. r') c))"
proof -
  have "inj_on r_id (set rs)" using assms(1) by (simp add: resources_inv_def distinct_map)
  then have u: "x = r" if "x \<in> set rs" "r_id x = r_id r" for x
    using that assms(2) by (auto dest: inj_onD)
  have "same_core x (if r_id x = r_id r then r' else x)" if "x \<in> set rs" for x
    using u [OF that] assms(3) by auto
  then show ?thesis
    using assms(4) by (simp add: update_resource_def list_all2_map_same_core)
qed

text \<open>
  The turns of some resources: datagrams are added, the Observe value grows by at most one each,
  the other resources stay, and those whose turn it was are no longer dirty.
\<close>

definition notify_turns :: "nat list \<Rightarrow> broker \<Rightarrow> broker \<Rightarrow> bool" where
  "notify_turns is st st' \<longleftrightarrow>
     sends_more st st' \<and> observe (ctx st) \<le> observe (ctx st') \<and>
     observe (ctx st') \<le> observe (ctx st) + length is \<and>
     (\<forall>r. r_id r \<notin> set is \<longrightarrow> (r \<in> set (resources (ctx st')) \<longleftrightarrow> r \<in> set (resources (ctx st)))) \<and>
     (\<forall>r\<in>set (resources (ctx st')). r_id r \<in> set is \<longrightarrow> \<not> r_dirty r)"

lemma notify_turns_Nil: "notify_turns [] st st"
  by (simp add: notify_turns_def sends_more_refl)

lemma notify_turns_Cons:
  assumes "notify_turns [i] st st1" "notify_turns is st1 st'"
  shows "notify_turns (i # is) st st'"
  unfolding notify_turns_def
proof (intro conjI allI impI ballI)
  show "sends_more st st'" using assms sends_more_trans by (auto simp: notify_turns_def)
  show "observe (ctx st) \<le> observe (ctx st')" "observe (ctx st') \<le> observe (ctx st) + length (i # is)"
    using assms by (simp_all add: notify_turns_def)
  show "(r \<in> set (resources (ctx st'))) = (r \<in> set (resources (ctx st)))" if "r_id r \<notin> set (i # is)" for r
    using assms that by (simp add: notify_turns_def)
  show "\<not> r_dirty r" if r: "r \<in> set (resources (ctx st'))" "r_id r \<in> set (i # is)" for r
  proof (cases "r_id r \<in> set is")
    case True
    then show ?thesis using assms(2) r(1) by (simp add: notify_turns_def)
  next
    case False
    then have "r \<in> set (resources (ctx st1))" using assms(2) r(1) by (simp add: notify_turns_def)
    then show ?thesis using assms(1) r(2) False by (simp add: notify_turns_def)
  qed
qed

lemma update_resource_turn:
  assumes r': "r_id r' = i" "\<not> r_dirty r'"
    and more: "sends_more st st1" "resources (ctx st1) = resources (ctx st)"
    and c: "c = (ctx st1)\<lparr>observe := n\<rparr>" "observe (ctx st) \<le> n" "n \<le> observe (ctx st) + 1"
  shows "notify_turns [i] st (st1\<lparr>ctx := update_resource i (\<lambda>_. r') c\<rparr>)"
proof -
  have "sent (update_resource i (\<lambda>_. r') c) = sent (ctx st1)" "send_ok (update_resource i (\<lambda>_. r') c) = send_ok (ctx st1)"
    "observe (update_resource i (\<lambda>_. r') c) = n"
    "resources (update_resource i (\<lambda>_. r') c) = map (\<lambda>r. if r_id r = i then r' else r) (resources (ctx st))"
    using more(2) by (simp_all add: c update_resource_def)
  then show ?thesis using r' more c(2,3) by (auto simp: notify_turns_def sends_more_def)
qed

lemma coap_notify_observers_ends:
  assumes inv: "broker_inv st xs cs l" and r: "r \<in> set (resources (ctx st))"
    and small: "B \<Longrightarrow> small_numbers st xs"
  shows "ends B (coap_notify_observers (r_id r) st) (\<lambda>st'. notified xs cs l st st' \<and>
    notify_turns [r_id r] st st')"
proof -
  have ri: "resources_inv (resources (ctx st)) (next_id (ctx st))" and abs: "db_abs (topics st) xs cs l"
    using inv by (simp_all add: broker_inv_def)
  have get: "get_resource (r_id r) st = Inr r" by (rule get_resource_found [OF ri r refl])
  show ?thesis
  proof (cases "r_observable r \<and> (r_dirty r \<or> r_partiallydirty r)")
    case False
    let ?c = "update_resource (r_id r) (\<lambda>_. r\<lparr>r_dirty := False\<rparr>) (ctx st)"
    have "same_core r (r\<lparr>r_dirty := False\<rparr>)" by (simp add: same_core_def)
    from update_resource_core [OF ri r this refl]
    have "notified xs cs l st (st\<lparr>ctx := ?c\<rparr>)"
      using abs by (simp add: notified_def rest_eq_def) (simp add: update_resource_def)
    moreover have "coap_notify_observers (r_id r) st = Inr (st\<lparr>ctx := ?c\<rparr>)"
      using get False by (auto simp: coap_notify_observers_def)
    moreover have "notify_turns [r_id r] st (st\<lparr>ctx := ?c\<rparr>)"
      by (rule update_resource_turn [where n = "observe (ctx st)"]) (simp_all add: sends_more_refl)
    ultimately show ?thesis by simp
  next
    case True
    obtain u a where t: "topic_res r u a"
      using resources_inv_cases [OF ri r] True by (metis broker_res_def)
    let ?r = "r\<lparr>r_partiallydirty := False\<rparr>"
    let ?fin = "\<lambda>(r, st). (st :: broker)\<lparr>ctx := update_resource (r_id r) (\<lambda>_. r\<lparr>r_dirty := False\<rparr>)
      ((ctx st)\<lparr>observe := observe (ctx st) + 1\<rparr>)\<rparr>"
    have h: "r_handler r ! 0 = Some Hnd_get_topic" using t by (simp add: topic_res_def topic_handlers_def)
    have t': "topic_res (?r\<lparr>subscribers := [] @ subscribers r\<rparr>) u a" using t by (simp add: topic_res_def)
    have fin: "notified xs cs l st (?fin (r', st1)) \<and> notify_turns [r_id r] st (?fin (r', st1))"
      if e: "r' = ?r\<lparr>r_partiallydirty := b, subscribers := ss\<rparr>"
        and so: "same_observers ([] @ subscribers r) ss" and fr: "notify_frame xs cs l st st1" for r' b ss st1
    proof -
      have rid: "r_id r' = r_id r" by (simp add: e)
      have core: "same_core r (r'\<lparr>r_dirty := False\<rparr>)"
        using same_observers_tokens [OF so] by (simp add: e same_core_def)
      have "list_all2 same_core (resources (ctx st)) (resources (ctx (?fin (r', st1))))"
        using update_resource_core [OF ri r core, of "(ctx st1)\<lparr>observe := observe (ctx st1) + 1\<rparr>"] fr
        by (simp add: notify_frame_def e)
      then have "notified xs cs l st (?fin (r', st1))"
        using fr by (simp add: notified_def notify_frame_def rest_eq_def) (simp add: update_resource_def)
      moreover have "notify_turns [r_id r] st (?fin (r', st1))"
        unfolding case_prod_conv by (subst rid, rule update_resource_turn [where n = "observe (ctx st1) + 1"])
          (use fr in \<open>simp_all add: e notify_frame_def\<close>)
      ultimately show ?thesis by blast
    qed
    have run: "coap_notify_observers (r_id r) st =
        bindR (notify_loop Hnd_get_topic ?r [] (subscribers r) st) (\<lambda>(r', st1).
          Inr (st1\<lparr>ctx := update_resource (r_id r) (\<lambda>_. r'\<lparr>r_dirty := False\<rparr>)
            ((ctx st1)\<lparr>observe := observe (ctx st1) + 1\<rparr>)\<rparr>))"
      using get True h by (simp add: coap_notify_observers_def bindR_assoc case_prod_unfold)
    show ?thesis
      unfolding run
    proof (intro ends_bindI ends_mono [OF notify_loop_ends [OF t' abs small]], assumption)
      fix x assume "case x of (r', st') \<Rightarrow> \<exists>b ss. r' = ?r\<lparr>r_partiallydirty := b, subscribers := ss\<rparr> \<and>
          same_observers ([] @ subscribers r) ss \<and> notify_frame xs cs l st st'"
      then obtain r' st1 b ss where x: "x = (r', st1)" "r' = ?r\<lparr>r_partiallydirty := b, subscribers := ss\<rparr>"
        "same_observers ([] @ subscribers r) ss" "notify_frame xs cs l st st1" by blast
      have "r_id r' = r_id r" using x(2) by simp
      then show "ends B (case x of (r', st1) \<Rightarrow>
          Inr (st1\<lparr>ctx := update_resource (r_id r) (\<lambda>_. r'\<lparr>r_dirty := False\<rparr>)
            ((ctx st1)\<lparr>observe := observe (ctx st1) + 1\<rparr>)\<rparr>))
          (\<lambda>st'. notified xs cs l st st' \<and> notify_turns [r_id r] st st')"
        using fin [OF x(2-4)] x(1) by simp
    qed
  qed
qed

lemma list_all2_same_core_ids: "list_all2 same_core rs rs' \<Longrightarrow> map r_id rs' = map r_id rs"
  by (induction rule: list_all2_induct) (auto simp: same_core_def)

definition data_small :: "int \<Rightarrow> topic list \<Rightarrow> bool" where
  "data_small now xs \<longleftrightarrow> (\<forall>t\<in>set xs. td_data_ma t - now < 2 ^ 24)"

lemma notify_each_ends:
  assumes "broker_inv st xs cs l" and "set is \<subseteq> r_id ` set (resources (ctx st))"
    and "B \<Longrightarrow> observe (ctx st) + length is \<le> 2 ^ 24" and "B \<Longrightarrow> data_small (clock st) xs"
  shows "ends B (notify_each is st) (\<lambda>st'. notified xs cs l st st' \<and> notify_turns is st st')"
  using assms
proof (induction "is" arbitrary: st)
  case Nil
  then show ?case using notified_refl notify_turns_Nil by (auto simp: broker_inv_def)
next
  case (Cons i "is")
  obtain r where r: "r \<in> set (resources (ctx st))" "i = r_id r" using Cons.prems(2) by auto
  have small: "B \<Longrightarrow> small_numbers st xs"
    using Cons.prems(3,4) by (simp add: small_numbers_def data_small_def)
  have step: "ends B (notify_each is st1) (\<lambda>st'. notified xs cs l st st' \<and> notify_turns (i # is) st st')"
    if n: "notified xs cs l st st1" "notify_turns [i] st st1" for st1
  proof -
    have "map r_id (resources (ctx st1)) = map r_id (resources (ctx st))"
      using n(1) by (intro list_all2_same_core_ids) (simp add: notified_def)
    then have "r_id ` set (resources (ctx st1)) = r_id ` set (resources (ctx st))"
      by (metis list.set_map)
    moreover have "clock st1 = clock st" using n(1) by (simp add: notified_def rest_eq_def)
    moreover have "observe (ctx st1) \<le> observe (ctx st) + 1" using n(2) by (simp add: notify_turns_def)
    ultimately have "ends B (notify_each is st1) (\<lambda>st'. notified xs cs l st1 st' \<and> notify_turns is st1 st')"
      using Cons.IH [OF notified_inv [OF Cons.prems(1) n(1)]] Cons.prems(2,3,4) by fastforce
    then show ?thesis
      by (rule ends_mono) (use notified_trans [OF n(1)] notify_turns_Cons [OF n(2)] in blast)
  qed
  show ?case
    unfolding notify_each.simps r(2)
    by (intro ends_bindI ends_mono [OF coap_notify_observers_ends [OF Cons.prems(1) r(1) small]])
      (use step r(2) in auto)
qed

lemma coap_check_notify_ends:
  assumes "broker_inv st xs cs l"
    and "B \<Longrightarrow> observe (ctx st) + length (resources (ctx st)) \<le> 2 ^ 24"
    and "B \<Longrightarrow> data_small (clock st) xs"
  shows "ends B (coap_check_notify st) (notified xs cs l st)"
  using ends_mono [OF notify_each_ends [OF assms(1), of "map r_id (resources (ctx st))" B]] assms(2,3)
  by (simp add: coap_check_notify_def)

section \<open>What the observers are told\<close>

text \<open>The handler leaves type, identifier and token of the message alone.\<close>

definition same_header :: "coap_pdu \<Rightarrow> coap_pdu \<Rightarrow> bool" where
  "same_header p q \<longleftrightarrow> hdr_type q = hdr_type p \<and> hdr_id q = hdr_id p"

lemma same_header_trans: "same_header p q \<Longrightarrow> same_header q r \<Longrightarrow> same_header p r"
  by (simp add: same_header_def)

lemma add_uint_header: "add_uint_option ty v p = Inr q \<Longrightarrow> same_header p q"
  by (auto simp: add_uint_option_def bindR_eq_Inr coap_add_option_def Let_def same_header_def
      split: option.splits)

lemma add_data_header: "add_data d p = Inr q \<Longrightarrow> same_header p q"
  by (auto simp: add_data_def bindR_eq_Inr coap_add_data_def same_header_def split: if_splits)

lemma topic_reply_header: "topic_reply ct obs now t p = Inr q \<Longrightarrow> same_header p q"
  unfolding topic_reply_def bindR_eq_Inr
  by (auto simp: bindR_eq_Inr same_header_def dest!: add_uint_header add_data_header split: option.splits if_splits)

text \<open>
  The message an observer of a topic gets: the answer to a GET, with its token and the present
  Observe value; confirmable when the last ones were not.
\<close>

definition tells ::
  "u32 \<Rightarrow> int \<Rightarrow> topic \<Rightarrow> nat \<Rightarrow> coap_subscription \<Rightarrow> coap_address \<times> coap_pdu \<Rightarrow> bool" where
  "tells ct now t n s m \<longleftrightarrow>
     fst m = sub_addr s \<and> hdr_token (snd m) = sub_token s \<and> hdr_code (snd m) = reply_code now t \<and>
     hdr_type (snd m) = (if non_cnt s < COAP_OBS_MAX_NON then COAP_MESSAGE_NON else COAP_MESSAGE_CON) \<and>
     pdu_abs (snd m) (reply_options ct (Some (of_nat n)) now t)
       (if reply_payload now t = [] then None else Some (reply_payload now t))"

text \<open>The conditions: memory for a clone, a network that takes everything, a datum that fits one message.\<close>

definition tellable :: "broker \<Rightarrow> topic \<Rightarrow> bool" where
  "tellable st t \<longleftrightarrow>
     0 < avail (topics st) \<and> (\<forall>i. send_ok (ctx st) i) \<and> length (reply_payload (clock st) t) \<le> 1300"

lemma tellable_frame: "notify_frame xs cs l st st' \<Longrightarrow> tellable st' t = tellable st t"
  by (simp add: notify_frame_def tellable_def sends_more_def rest_eq_def)

lemma sent_send:
  assumes "\<forall>i. send_ok c i"
  shows "sent (snd (coap_send dst p c)) = sent c @ [(dst, p)]"
    "sent (snd (coap_send_confirmed dst p c)) = sent c @ [(dst, p)]"
  using assms by (simp_all add: coap_send_def coap_send_confirmed_def Let_def)

lemma notify_one_tells:
  assumes r: "topic_res r u a" "ct_attr_value r = Inr ct" "r_dirty r"
    and obs: "obs \<in> set (subscribers r)" "sa_family (sub_addr obs) \<in> {AF_INET, AF_INET6}"
    and abs: "db_abs (topics st) xs cs l" and t: "lookup u xs = Some t" and small: "small_numbers st xs"
    and ok: "tellable st t"
  obtains obs' failed st' m where "notify_one Hnd_get_topic r obs st = Inr (obs', failed, st')"
    "sent (ctx st') = sent (ctx st) @ [m]"
    "tells (word_of_int ct) (clock st) t (observe (ctx st)) obs m"
proof -
  have tok: "length (sub_token obs) \<le> 8" using r(1) obs(1) by (simp add: topic_res_def)
  have dirty: "\<not> (\<not> r_dirty r \<and> \<not> sub_dirty obs)" using r(3) by simp
  obtain p' c where run: "notify_one Hnd_get_topic r obs st =
      bindR (hnd_get_topic r (sub_addr obs) (Some (sub_token obs)) None p' (st\<lparr>ctx := c\<rparr>)) (\<lambda>(response, st).
      let con = (hdr_type response = COAP_MESSAGE_CON);
          (tid, c) = (if con then coap_send_confirmed else coap_send) (sub_addr obs) response (ctx st) in
      Inr (obs\<lparr>sub_dirty := (tid = COAP_INVALID_TID), non_cnt := (if con then 0 else non_cnt obs + 1)\<rparr>,
           tid = COAP_INVALID_TID, st\<lparr>ctx := c\<rparr>))"
    and p': "pdu_abs p' [] None" "pdu_length p' \<le> 12" "max_size p' = COAP_MAX_PDU_SIZE"
      "hdr_token p' = sub_token obs"
    and pty: "hdr_type p' = (if notify_non r obs then COAP_MESSAGE_NON else COAP_MESSAGE_CON)"
    and c: "observe c = observe (ctx st)" "send_ok c = send_ok (ctx st)" "sent c = sent (ctx st)"
    by (rule notify_one_run [OF tok dirty])
  have non_iff: "notify_non r obs \<longleftrightarrow> non_cnt obs < COAP_OBS_MAX_NON"
    using r(1) by (simp add: notify_non_def topic_res_def)
  define s1 where "s1 = st\<lparr>ctx := c\<rparr>"
  have s1: "clock s1 = clock st" "ctx s1 = c" "topics s1 = topics st" by (simp_all add: s1_def)
  let ?g = "hnd_get_topic r (sub_addr obs) (Some (sub_token obs)) None p' s1"
  have seen: "coap_find_observer r (sub_addr obs) (Some (sub_token obs)) \<noteq> None"
    using obs address_equals_refl [of "sub_addr obs"]
    by (auto simp: coap_find_observer_def find_None_iff is_observer_def)
  have chk: "get_checks ct (coap_find_observer r (sub_addr obs) (Some (sub_token obs)) \<noteq> None) None = None"
    using seen by (simp add: get_checks_def Let_def)
  let ?obs = "if coap_find_observer r (sub_addr obs) (Some (sub_token obs)) \<noteq> None
    then Some (of_nat (observe (ctx s1)) :: u32) else None"
  have db: "db_abs (topics s1) xs cs l" "0 < avail (topics s1)"
    using abs ok by (simp_all add: tellable_def s1)
  obtain d where d: "?g = bindR (topic_reply (word_of_int ct) ?obs (clock s1) t p')
      (\<lambda>response. Inr (response, s1\<lparr>topics := d\<rparr>))"
    by (rule hnd_get_topic_read [OF r(1,2) chk db(1) t db(2)])
  obtain v where v: "ct_ok v" "ct_attr_value r = Inr (atoi v)" using topic_res_ct [OF r(1)] by blast
  have ctv: "ct = atoi v" using v(2) r(2) by simp
  have sm: "small_reply (word_of_int ct) ?obs (clock s1) t"
    using small lookup_small [OF small t] atoi_ct_small [OF v(1)] observe_small ctv
    by (simp add: small_reply_def small_numbers_def c s1)
  have "length (reply_payload (clock s1) t) \<le> 1300" using ok by (simp add: tellable_def s1)
  from hnd_get_topic_answers [OF r(1,2) chk db(1) t db(2) p'(1-3) sm this refl]
  obtain d' q where q: "?g = Inr (q, s1\<lparr>topics := d'\<rparr>)"
    "hdr_code q = reply_code (clock s1) t" "hdr_token q = hdr_token p'"
    "pdu_abs q (reply_options (word_of_int ct) ?obs (clock s1) t)
      (if reply_payload (clock s1) t = [] then None
       else Some (reply_payload (clock s1) t))" by blast
  have "same_header p' q"
    using q(1) d topic_reply_header by (fastforce simp: bindR_eq_Inr)
  then have ty: "hdr_type q = (if notify_non r obs then COAP_MESSAGE_NON else COAP_MESSAGE_CON)"
    using pty by (simp add: same_header_def)
  have told: "tells (word_of_int ct) (clock st) t (observe (ctx st)) obs (sub_addr obs, q)"
    using q(2-4) [unfolded s1] ty non_iff p'(4) seen by (simp add: tells_def c)
  have snd_ok: "\<forall>i. send_ok c i" using ok by (simp add: tellable_def c)
  let ?f = "if hdr_type q = COAP_MESSAGE_CON then coap_send_confirmed else coap_send"
  obtain tid c2 where s: "?f (sub_addr obs) q c = (tid, c2)" by fastforce
  have c2: "sent c2 = sent (ctx st) @ [(sub_addr obs, q)]"
    using sent_send [of c "sub_addr obs" q] s snd_ok c by (auto split: if_splits)
  have "notify_one Hnd_get_topic r obs st =
      Inr (obs\<lparr>sub_dirty := (tid = COAP_INVALID_TID), non_cnt := (if hdr_type q = COAP_MESSAGE_CON then 0 else non_cnt obs + 1)\<rparr>,
        tid = COAP_INVALID_TID, (s1\<lparr>topics := d'\<rparr>)\<lparr>ctx := c2\<rparr>)"
    using s unfolding run [folded s1_def] q(1) by (simp add: Let_def s1)
  then show ?thesis by (rule that) (use c2 told in simp_all)
qed

lemma notify_loop_tells:
  assumes "topic_res (r\<lparr>subscribers := seen @ rest\<rparr>) u a" and "ct_attr_value r = Inr ct" and "r_dirty r"
    and "\<forall>s\<in>set rest. sa_family (sub_addr s) \<in> {AF_INET, AF_INET6}"
    and "db_abs (topics st) xs cs l" and "lookup u xs = Some t" and "small_numbers st xs" and "tellable st t"
  shows "\<exists>r' st' ms. notify_loop Hnd_get_topic r seen rest st = Inr (r', st') \<and>
    sent (ctx st') = sent (ctx st) @ ms \<and>
    list_all2 (tells (word_of_int ct) (clock st) t (observe (ctx st))) rest ms"
  using assms
proof (induction rest arbitrary: r seen st)
  case Nil
  then show ?case by simp
next
  case (Cons obs rest)
  let ?r = "r\<lparr>subscribers := seen @ obs # rest\<rparr>"
  have cta: "ct_attr_value (r\<lparr>subscribers := ss\<rparr>) = Inr ct" "ct_attr_value (r\<lparr>r_partiallydirty := b\<rparr>) = Inr ct" for ss b
    using Cons.prems(2) by (simp_all add: ct_attr_value_def coap_find_attr_def)
  have tok: "length (sub_token obs) \<le> 8" using Cons.prems(1) by (simp add: topic_res_def)
  have dirty: "r_dirty ?r" and mem: "obs \<in> set (subscribers ?r)" and fam: "sa_family (sub_addr obs) \<in> {AF_INET, AF_INET6}"
    using Cons.prems(3,4) by simp_all
  obtain obs' failed st1 m where one: "notify_one Hnd_get_topic ?r obs st = Inr (obs', failed, st1)"
    "sent (ctx st1) = sent (ctx st) @ [m]" "tells (word_of_int ct) (clock st) t (observe (ctx st)) obs m"
    by (rule notify_one_tells [OF Cons.prems(1) cta(1) dirty mem fam Cons.prems(5-8)])
  have fr: "sub_token obs' = sub_token obs" "notify_frame xs cs l st st1"
    using notify_one_ends [OF Cons.prems(1) tok Cons.prems(5), of True] one(1) Cons.prems(7) by simp_all
  let ?q = "r\<lparr>r_partiallydirty := r_partiallydirty r \<or> failed\<rparr>"
  have t: "topic_res (?q\<lparr>subscribers := (seen @ [obs']) @ rest\<rparr>) u a"
    using Cons.prems(1) fr(1) by (simp add: topic_res_def)
  have "\<exists>r' st' ms. notify_loop Hnd_get_topic ?q (seen @ [obs']) rest st1 = Inr (r', st') \<and>
      sent (ctx st') = sent (ctx st1) @ ms \<and>
      list_all2 (tells (word_of_int ct) (clock st1) t (observe (ctx st1))) rest ms"
    by (rule Cons.IH [OF t cta(2)])
      (use Cons.prems fr(2) notify_frame_small [OF fr(2)] tellable_frame [OF fr(2)] in
        \<open>simp_all add: notify_frame_def\<close>)
  then obtain r' st' ms where "notify_loop Hnd_get_topic ?q (seen @ [obs']) rest st1 = Inr (r', st')"
    "sent (ctx st') = sent (ctx st1) @ ms"
    "list_all2 (tells (word_of_int ct) (clock st1) t (observe (ctx st1))) rest ms" by blast
  moreover have "clock st1 = clock st" "observe (ctx st1) = observe (ctx st)"
    using fr(2) by (simp_all add: notify_frame_def rest_eq_def)
  ultimately show ?case
    using one by (intro exI [of _ r'] exI [of _ st'] exI [of _ "m # ms"]) simp
qed

text \<open>\<open>told\<close>: between two states every observer of a resource has been sent the topic once, in order.\<close>

definition told ::
  "u32 \<Rightarrow> int \<Rightarrow> topic \<Rightarrow> coap_subscription list \<Rightarrow> broker \<Rightarrow> broker \<Rightarrow> bool" where
  "told ct now t ss st st' \<longleftrightarrow>
     (\<exists>before ms after n. sent (ctx st') = sent (ctx st) @ before @ ms @ after \<and>
        list_all2 (tells ct now t n) ss ms \<and> observe (ctx st) \<le> n \<and> n < observe (ctx st'))"

lemma coap_notify_observers_tells:
  assumes inv: "broker_inv st xs cs l" and r: "r \<in> set (resources (ctx st))" "topic_res r u a"
      "ct_attr_value r = Inr ct" "r_dirty r"
    and fam: "\<forall>s\<in>set (subscribers r). sa_family (sub_addr s) \<in> {AF_INET, AF_INET6}"
    and t: "lookup u xs = Some t" and small: "small_numbers st xs" and ok: "tellable st t"
  obtains st' where "coap_notify_observers (r_id r) st = Inr st'" "told (word_of_int ct) (clock st) t (subscribers r) st st'"
    "notified xs cs l st st'" "notify_turns [r_id r] st st'"
proof -
  have ri: "resources_inv (resources (ctx st)) (next_id (ctx st))" and abs: "db_abs (topics st) xs cs l"
    using inv by (simp_all add: broker_inv_def)
  have get: "get_resource (r_id r) st = Inr r" by (rule get_resource_found [OF ri r(1) refl])
  let ?r = "r\<lparr>r_partiallydirty := False\<rparr>"
  have h: "r_handler r ! 0 = Some Hnd_get_topic" "r_observable r"
    using r(2) by (simp_all add: topic_res_def topic_handlers_def)
  have t': "topic_res (?r\<lparr>subscribers := [] @ subscribers r\<rparr>) u a" using r(2) by (simp add: topic_res_def)
  have ct': "ct_attr_value ?r = Inr ct" "r_dirty ?r"
    using r(3,4) by (simp_all add: ct_attr_value_def coap_find_attr_def)
  obtain r' st1 ms where lp: "notify_loop Hnd_get_topic ?r [] (subscribers r) st = Inr (r', st1)"
    "sent (ctx st1) = sent (ctx st) @ ms"
    "list_all2 (tells (word_of_int ct) (clock st) t (observe (ctx st))) (subscribers r) ms"
    using notify_loop_tells [OF t' ct' fam abs t small ok] by blast
  have fr: "notify_frame xs cs l st st1"
    using notify_loop_ends [OF t' abs, of True] small lp(1) by auto
  define st' where "st' = st1\<lparr>ctx := update_resource (r_id r) (\<lambda>_. r'\<lparr>r_dirty := False\<rparr>)
    ((ctx st1)\<lparr>observe := observe (ctx st1) + 1\<rparr>)\<rparr>"
  have run: "coap_notify_observers (r_id r) st = Inr st'"
    using get r(4) h lp(1) by (simp add: coap_notify_observers_def st'_def)
  have "sent (ctx st') = sent (ctx st1)" "observe (ctx st') = observe (ctx st) + 1"
    using fr by (simp_all add: st'_def update_resource_def notify_frame_def)
  then have "told (word_of_int ct) (clock st) t (subscribers r) st st'"
    using lp(2,3) unfolding told_def
    by (intro exI [of _ "[]"] exI [of _ ms] exI [of _ "observe (ctx st)"]) simp
  moreover have "notified xs cs l st st' \<and> notify_turns [r_id r] st st'"
    using coap_notify_observers_ends [OF inv r(1), of True] small run by simp
  ultimately show ?thesis using that run by blast
qed

lemma notify_each_append: "notify_each (is @ js) st = bindR (notify_each is st) (notify_each js)"
proof (induction "is" arbitrary: st)
  case (Cons i "is")
  have "notify_each (is @ js) = (\<lambda>st. bindR (notify_each is st) (notify_each js))"
    using Cons.IH by (simp add: fun_eq_iff)
  then show ?case by (simp add: bindR_assoc)
qed simp

lemma told_extend:
  assumes "told ct now t ss st1 st2" "sends_more st st1" "sends_more st2 st'"
    and "observe (ctx st) \<le> observe (ctx st1)" "observe (ctx st2) \<le> observe (ctx st')"
  shows "told ct now t ss st st'"
proof -
  obtain before ms after n where m: "sent (ctx st2) = sent (ctx st1) @ before @ ms @ after"
    "list_all2 (tells ct now t n) ss ms" "observe (ctx st1) \<le> n" "n < observe (ctx st2)"
    using assms(1) by (auto simp: told_def)
  obtain p q where "sent (ctx st1) = sent (ctx st) @ p" "sent (ctx st') = sent (ctx st2) @ q"
    using assms(2,3) by (auto simp: sends_more_def)
  then have "sent (ctx st') = sent (ctx st) @ (p @ before) @ ms @ (after @ q)" using m(1) by simp
  then show ?thesis using m(2-4) assms(4,5) unfolding told_def by (meson le_trans less_le_trans)
qed

text \<open>
  When a resource is dirty, \<open>coap_check_notify\<close> tells every observer of it; afterwards no
  resource is dirty.
\<close>

lemma coap_check_notify_tells:
  assumes inv: "broker_inv st xs cs l" and r: "r \<in> set (resources (ctx st))" "topic_res r u a"
      "ct_attr_value r = Inr ct" "r_dirty r"
    and fam: "\<forall>s\<in>set (subscribers r). sa_family (sub_addr s) \<in> {AF_INET, AF_INET6}"
    and t: "lookup u xs = Some t" and num: "observe (ctx st) + length (resources (ctx st)) \<le> 2 ^ 24"
    and data: "data_small (clock st) xs" and ok: "tellable st t"
  obtains st' where "coap_check_notify st = Inr st'" "notified xs cs l st st'"
    "told (word_of_int ct) (clock st) t (subscribers r) st st'" "\<forall>r\<in>set (resources (ctx st')). \<not> r_dirty r"
proof -
  let ?ids = "map r_id (resources (ctx st))"
  have dis: "distinct ?ids" using inv by (simp add: broker_inv_def resources_inv_def)
  have "r_id r \<in> set ?ids" using r(1) by simp
  then obtain before after where ids: "?ids = before @ r_id r # after" by (meson split_list)
  have len: "length (resources (ctx st)) = length before + 1 + length after"
    using arg_cong [OF ids, of length] unfolding length_map by simp
  have sub: "set before \<subseteq> r_id ` set (resources (ctx st))" "set after \<subseteq> r_id ` set (resources (ctx st))"
    using arg_cong [OF ids, of set] by auto
  have nin: "r_id r \<notin> set before" using dis unfolding ids by simp
  have "ends True (notify_each before st) (\<lambda>st'. notified xs cs l st st' \<and> notify_turns before st st')"
    by (rule notify_each_ends [OF inv sub(1)]) (use num len data in simp_all)
  then obtain st1 where b: "notify_each before st = Inr st1" "notified xs cs l st st1" "notify_turns before st st1"
    by (auto elim: endsE)
  have inv1: "broker_inv st1 xs cs l" by (rule notified_inv [OF inv b(2)])
  have r1: "r \<in> set (resources (ctx st1))" using b(3) r(1) nin by (simp add: notify_turns_def)
  have clk1: "clock st1 = clock st" and av1: "avail (topics st1) = avail (topics st)"
    using b(2) by (simp_all add: notified_def rest_eq_def)
  have o1: "observe (ctx st1) \<le> observe (ctx st) + length before" using b(3) by (simp add: notify_turns_def)
  have small1: "small_numbers st1 xs" using o1 num len data clk1 by (simp add: small_numbers_def data_small_def)
  have ok1: "tellable st1 t" using ok b(3) clk1 av1 by (simp add: tellable_def notify_turns_def sends_more_def)
  obtain st2 where c: "coap_notify_observers (r_id r) st1 = Inr st2"
    "told (word_of_int ct) (clock st1) t (subscribers r) st1 st2" "notified xs cs l st1 st2" "notify_turns [r_id r] st1 st2"
    by (rule coap_notify_observers_tells [OF inv1 r1 r(2-4) fam t small1 ok1])
  have inv2: "broker_inv st2 xs cs l" by (rule notified_inv [OF inv1 c(3)])
  have n2: "notified xs cs l st st2" by (rule notified_trans [OF b(2) c(3)])
  have "map r_id (resources (ctx st2)) = map r_id (resources (ctx st))"
    using n2 by (intro list_all2_same_core_ids) (simp add: notified_def)
  then have "r_id ` set (resources (ctx st2)) = r_id ` set (resources (ctx st))" by (metis list.set_map)
  then have sub2: "set after \<subseteq> r_id ` set (resources (ctx st2))" using sub(2) by simp
  have clk2: "clock st2 = clock st" using n2 by (simp add: notified_def rest_eq_def)
  have o2: "observe (ctx st2) \<le> observe (ctx st1) + 1" using c(4) by (simp add: notify_turns_def)
  have "ends True (notify_each after st2) (\<lambda>st'. notified xs cs l st2 st' \<and> notify_turns after st2 st')"
    by (rule notify_each_ends [OF inv2 sub2]) (use num len data clk2 o1 o2 in simp_all)
  then obtain st' where d: "notify_each after st2 = Inr st'" "notified xs cs l st2 st'" "notify_turns after st2 st'"
    by (auto elim: endsE)
  have run: "coap_check_notify st = Inr st'"
    unfolding coap_check_notify_def ids notify_each_append using b(1) c(1) d(1) by simp
  have told: "told (word_of_int ct) (clock st) t (subscribers r) st st'"
    by (rule told_extend [OF c(2) [unfolded clk1]]) (use b(3) d(3) in \<open>simp_all add: notify_turns_def\<close>)
  have "ends True (notify_each ?ids st) (\<lambda>st'. notified xs cs l st st' \<and> notify_turns ?ids st st')"
    by (rule notify_each_ends [OF inv]) (use num data in simp_all)
  then have all: "notified xs cs l st st'" "notify_turns ?ids st st'" using run by (simp_all add: coap_check_notify_def)
  have "map r_id (resources (ctx st')) = ?ids"
    using all(1) by (intro list_all2_same_core_ids) (simp add: notified_def)
  then have "\<forall>r\<in>set (resources (ctx st')). r_id r \<in> set ?ids" by (metis image_eqI list.set_map)
  then have "\<forall>r\<in>set (resources (ctx st')). \<not> r_dirty r" using all(2) by (simp add: notify_turns_def)
  then show ?thesis by (rule that [OF run all(1) told])
qed

end
