(* ===== verification/TopicPut.thy ===== *)
theory TopicPut
  imports Notify
begin

text \<open>
  PUT on a topic: the answer to every kind of request, the new datum, and the invariant of
  the broker after it. Also the facts on updates of one topic that POST shares.
\<close>

section \<open>Updates of one topic\<close>

lemma broker_inv_update:
  assumes inv: "broker_inv st xs cs l"
    and db: "db_abs (topics st') (update_first u f xs) cs' l'"
    and res: "resources (ctx st') = resources (ctx st)" "next_id (ctx st') = next_id (ctx st)"
    and path: "\<And>t. td_path (f t) = td_path t"
    and nul: "\<And>t s. lookup u xs = Some t \<Longrightarrow> td_data (f t) = Some s \<Longrightarrow> NUL \<notin> set s"
    and tma: "earliest_topic_max_age st' \<le> earliest_topic_max_age st"
      "\<And>t. lookup u xs = Some t \<Longrightarrow> td_topic_ma (f t) \<noteq> 0 \<Longrightarrow> earliest_topic_max_age st' \<le> td_topic_ma (f t)"
    and dma: "earliest_data_max_age st' \<le> earliest_data_max_age st"
      "\<And>t. lookup u xs = Some t \<Longrightarrow> td_data_ma (f t) \<noteq> 0 \<Longrightarrow> earliest_data_max_age st' \<le> td_data_ma (f t)"
  shows "broker_inv st' (update_first u f xs) cs' l'"
proof -
  have paths: "paths (update_first u f xs) = paths xs" by (rule paths_update_first [OF path])
  have "expiry_ok (earliest_topic_max_age st') td_topic_ma (update_first u f xs)"
    unfolding expiry_ok_def
  proof (intro ballI impI)
    fix t' assume t': "t' \<in> set (update_first u f xs)" "td_topic_ma t' \<noteq> 0"
    from set_update_first [OF t'(1)] show "earliest_topic_max_age st' \<le> td_topic_ma t'"
      using inv t'(2) tma by (fastforce simp: broker_inv_def expiry_ok_def)
  qed
  moreover have "expiry_ok (earliest_data_max_age st') td_data_ma (update_first u f xs)"
    unfolding expiry_ok_def
  proof (intro ballI impI)
    fix t' assume t': "t' \<in> set (update_first u f xs)" "td_data_ma t' \<noteq> 0"
    from set_update_first [OF t'(1)] show "earliest_data_max_age st' \<le> td_data_ma t'"
      using inv t'(2) dma by (fastforce simp: broker_inv_def expiry_ok_def)
  qed
  moreover have "topics_ok (update_first u f xs)"
    using inv nul paths set_update_first [of _ u f xs]
    unfolding broker_inv_def topics_ok_def by metis
  ultimately show ?thesis using inv db res paths by (simp add: broker_inv_def)
qed

lemma expiry_of_lookup:
  assumes "broker_inv st xs cs l" "lookup u xs = Some t"
  shows "td_topic_ma t \<noteq> 0 \<Longrightarrow> earliest_topic_max_age st \<le> td_topic_ma t"
    "td_data_ma t \<noteq> 0 \<Longrightarrow> earliest_data_max_age st \<le> td_data_ma t"
    "td_data t = Some s \<Longrightarrow> NUL \<notin> set s"
  using assms lookup_path [OF assms(2)] by (auto simp: broker_inv_def expiry_ok_def topics_ok_def)

lemma broker_inv_free:
  assumes "broker_inv st xs ((a, t) # cs) l"
  obtains d where "with_db (freeTopic (Some a)) st = Inr (1, st\<lparr>topics := d\<rparr>)"
    "broker_inv (st\<lparr>topics := d\<rparr>) xs cs l" "avail d = Suc (avail (topics st))"
proof -
  obtain d where "freeTopic (Some a) (topics st) = Inr (1, d)" "db_abs d xs cs l"
    "avail d = Suc (avail (topics st))"
    using freeTopic_refines [of "topics st" xs a t cs l] assms by (auto simp: broker_inv_def)
  then show ?thesis using that assms by (simp add: with_db_def broker_inv_def)
qed

section \<open>PUT\<close>

text \<open>What a PUT request asks for.\<close>

definition put_expiry :: "coap_pdu \<Rightarrow> int \<Rightarrow> int" where
  "put_expiry request now =
     (case first_option COAP_OPTION_MAXAGE request of None \<Rightarrow> 0 | Some v \<Rightarrow> int (unat v) + now)"

definition put_data :: "coap_pdu \<Rightarrow> cstring option" where
  "put_data request =
     (let (has_data, size, data) = coap_get_data request in
      stored_data (if has_data then Some data else None) size)"

definition put_terminated :: "coap_pdu \<Rightarrow> bool" where
  "put_terminated request =
     (let (has_data, n, data) = coap_get_data request in has_data \<and> n > 0 \<longrightarrow> NUL \<in> set data)"

lemma data_arg_run:
  assumes "coap_get_data request = (hs, n, data)"
  shows "put_terminated request \<Longrightarrow> \<exists>d. data_arg hs n data = Inr d \<and> stored_data d n = put_data request"
    and "\<not> put_terminated request \<Longrightarrow> data_arg hs n data = Inl Out_of_bounds"
  using assms
  by (auto simp: put_terminated_def data_arg_def put_data_def read_string_def stored_data_def
      split: option.splits)

definition put_topic :: "coap_pdu \<Rightarrow> int \<Rightarrow> topic \<Rightarrow> topic" where
  "put_topic request now t = t\<lparr>td_data := put_data request, td_data_ma := put_expiry request now\<rparr>"

definition put_code :: "int \<Rightarrow> coap_pdu \<Rightarrow> bool \<Rightarrow> nat" where
  "put_code ct_attr request found =
     (case first_option COAP_OPTION_CONTENT_TYPE request of
        None \<Rightarrow> 400
      | Some ct \<Rightarrow> if word_of_int ct_attr \<noteq> ct then 415 else if found then 204 else 404)"

lemma put_refused:
  assumes r: "r \<in> set (resources (ctx st))" "topic_res r u a" "ct_attr_value r = Inr ct"
    and inv: "broker_inv st xs [] l" and resp: "pdu_abs response [] None"
    and code: "put_code ct request (lookup u xs \<noteq> None \<and> avail (topics st) > 0) \<noteq> 204"
  obtains resp where "hnd_put_topic (r_id r) request response st = Inr (resp, st)"
    "hdr_code resp = COAP_RESPONSE_CODE (put_code ct request (lookup u xs \<noteq> None \<and> avail (topics st) > 0))"
proof -
  have get: "get_resource (r_id r) st = Inr r"
    using inv r(1) by (intro get_resource_found) (auto simp: broker_inv_def)
  have abs: "db_abs (topics st) xs [] l" using inv by (simp add: broker_inv_def)
  obtain q1 q2 q3 where q: "reply_phrase 400 response = Inr q1" "hdr_code q1 = COAP_RESPONSE_CODE 400"
    "reply_phrase 415 response = Inr q2" "hdr_code q2 = COAP_RESPONSE_CODE 415"
    "reply_phrase 404 response = Inr q3" "hdr_code q3 = COAP_RESPONSE_CODE 404"
    using reply_phrase_total [OF resp] response_phrases by metis
  obtain hs n data where d: "coap_get_data request = (hs, n, data)"
    by (cases "coap_get_data request")
  show ?thesis
  proof (cases "first_option COAP_OPTION_CONTENT_TYPE request")
    case None
    then show ?thesis using that q d by (simp add: hnd_put_topic_def put_code_def)
  next
    case (Some v)
    show ?thesis
    proof (cases "word_of_int ct = v")
      case False
      then show ?thesis using that q d Some get r(3) by (simp add: hnd_put_topic_def put_code_def)
    next
      case True
      then have "lookup u xs = None \<or> avail (topics st) = 0"
        using code Some by (auto simp: put_code_def split: if_splits)
      then have "cloneTopic (Some u) (topics st) = Inr (None, topics st)"
        using cloneTopic_refines [OF abs, of u] by (auto split: option.splits)
      then show ?thesis
        using that q d Some True code get r(3) topic_res_uri [OF r(2)]
        by (simp add: hnd_put_topic_def put_code_def with_db_def split: if_splits)
    qed
  qed
qed

text \<open>
  An accepted PUT, up to the point where the observers are notified: the new state holds the
  clone that is freed at the end, and the resource is dirty.
\<close>

lemma put_run:
  assumes r: "r \<in> set (resources (ctx st))" "topic_res r u a" "ct_attr_value r = Inr ct"
    and inv: "broker_inv st xs [] l" and resp: "pdu_abs response [] None"
    and t: "lookup u xs = Some t" "avail (topics st) > 0"
    and code: "put_code ct request True = 204" and tm: "put_terminated request"
  obtains c st2 q where
    "hnd_put_topic (r_id r) request response st =
      bindR (coap_check_notify st2) (\<lambda>st. bindR (with_db (freeTopic (Some c)) st) (\<lambda>(_, st). Inr (q, st)))"
    "hdr_code q = COAP_RESPONSE_CODE 204"
    "broker_inv st2 (update_first u (put_topic request (clock st)) xs) [(c, t)] (l + leaked_by (Some t) (put_data request))"
    "Suc (avail (topics st2)) = avail (topics st)" "clock st2 = clock st"
    "ctx st2 = update_resource (r_id r) (\<lambda>r. r\<lparr>r_dirty := True\<rparr>) (ctx st)"
proof -
  have abs: "db_abs (topics st) xs [] l" using inv by (simp add: broker_inv_def)
  have get: "get_resource (r_id r) st = Inr r"
    using inv r(1) by (intro get_resource_found) (auto simp: broker_inv_def)
  obtain hs n data where gd: "coap_get_data request = (hs, n, data)"
    by (cases "coap_get_data request")
  obtain datum where datum: "data_arg hs n data = Inr datum" "stored_data datum n = put_data request"
    using data_arg_run(1) [OF gd tm] by blast
  let ?ma = "put_expiry request (clock st)" and ?f = "put_topic request (clock st)"
  let ?xs = "update_first u ?f xs" and ?l = "l + leaked_by (Some t) (put_data request)"
  obtain c d1 where cl: "cloneTopic (Some u) (topics st) = Inr (Some c, d1)"
    "Suc (avail d1) = avail (topics st)" "db_abs d1 xs [(c, t)] l"
    using cloneTopic_refines [OF abs, of u] t by (auto split: option.splits)
  have f: "?f = (\<lambda>t. t\<lparr>td_data := stored_data datum n, td_data_ma := ?ma\<rparr>)"
    by (simp add: fun_eq_iff put_topic_def datum(2))
  obtain d2 where up: "updateTopicData (Some u) ?ma datum n d1 = Inr (1, d2)"
    "avail d2 = avail d1" "db_abs d2 ?xs [(c, t)] ?l"
    using updateTopicData_refines [OF cl(3), of u ?ma datum n] t
    by (auto simp: f datum(2))
  define st1 where "st1 = mqtt (Mqtt_publish u data) (note_data_max_age ?ma (st\<lparr>topics := d2\<rparr>))"
  define st2 where "st2 = st1\<lparr>ctx := update_resource (r_id r) (\<lambda>r. r\<lparr>r_dirty := True\<rparr>) (ctx st1)\<rparr>"
  have st1: "topics st1 = d2" "ctx st1 = ctx st" "clock st1 = clock st"
    "earliest_topic_max_age st1 = earliest_topic_max_age st"
    "earliest_data_max_age st1 = (if ?ma < earliest_data_max_age st \<and> ?ma \<noteq> 0 then ?ma
       else earliest_data_max_age st)"
    by (simp_all add: st1_def mqtt_def note_data_max_age_def)
  have nul: "put_data request = Some s \<Longrightarrow> NUL \<notin> set s" for s
    using stored_data_no_NUL datum(2) by metis
  have inv1: "broker_inv st1 ?xs [(c, t)] ?l"
    by (rule broker_inv_update [OF inv])
      (use st1 up(3) expiry_of_lookup [OF inv] nul in \<open>auto simp: put_topic_def\<close>)
  have inv2: "broker_inv st2 ?xs [(c, t)] ?l"
    unfolding st2_def by (rule update_resource_inv [OF inv1]) (simp add: same_core_def)
  obtain q where q: "reply_phrase 204 response = Inr q" "hdr_code q = COAP_RESPONSE_CODE 204"
    using reply_phrase_total [OF resp] response_phrases by metis
  have v: "first_option COAP_OPTION_CONTENT_TYPE request = Some (word_of_int ct)"
    using code by (auto simp: put_code_def split: option.splits if_splits)
  have run: "hnd_put_topic (r_id r) request response st =
      bindR (coap_check_notify st2) (\<lambda>st. bindR (with_db (freeTopic (Some c)) st) (\<lambda>(_, st). Inr (q, st)))"
    using gd v get r(3) topic_res_uri [OF r(2)] cl(1) up(1) q(1) datum(1)
    by (simp add: hnd_put_topic_def with_db_def st1_def st2_def put_expiry_def mqtt_def note_data_max_age_def
        Let_def cong: option.case_cong)
  show ?thesis
    by (rule that [OF run q(2) inv2]) (use cl(2) up(2) in \<open>simp_all add: st2_def st1\<close>)
qed

lemma put_accepted:
  assumes r: "r \<in> set (resources (ctx st))" "topic_res r u a" "ct_attr_value r = Inr ct"
    and inv: "broker_inv st xs [] l" and resp: "pdu_abs response [] None"
    and t: "lookup u xs = Some t" "avail (topics st) > 0"
    and code: "put_code ct request True = 204" and tm: "put_terminated request"
    and small: "B \<Longrightarrow> observe (ctx st) + length (resources (ctx st)) \<le> 2 ^ 24"
      "B \<Longrightarrow> data_small (clock st) (update_first u (put_topic request (clock st)) xs)"
  shows "ends B (hnd_put_topic (r_id r) request response st) (\<lambda>(resp, st').
    hdr_code resp = COAP_RESPONSE_CODE 204 \<and>
    broker_inv st' (update_first u (put_topic request (clock st)) xs) []
      (l + leaked_by (Some t) (put_data request)) \<and>
    avail (topics st') = avail (topics st) \<and>
    map r_id (resources (ctx st')) = map r_id (resources (ctx st)))"
proof -
  let ?xs = "update_first u (put_topic request (clock st)) xs"
  let ?l = "l + leaked_by (Some t) (put_data request)"
  obtain c st2 q where run: "hnd_put_topic (r_id r) request response st =
      bindR (coap_check_notify st2) (\<lambda>st. bindR (with_db (freeTopic (Some c)) st) (\<lambda>(_, st). Inr (q, st)))"
    and q: "hdr_code q = COAP_RESPONSE_CODE 204" and inv2: "broker_inv st2 ?xs [(c, t)] ?l"
    and av: "Suc (avail (topics st2)) = avail (topics st)" and clk: "clock st2 = clock st"
    and cx: "ctx st2 = update_resource (r_id r) (\<lambda>r. r\<lparr>r_dirty := True\<rparr>) (ctx st)"
    by (rule put_run [OF r inv resp t code tm])
  have obs: "observe (ctx st2) = observe (ctx st)" "length (resources (ctx st2)) = length (resources (ctx st))"
    "map r_id (resources (ctx st2)) = map r_id (resources (ctx st))"
    by (simp_all add: cx update_resource_def)
  have "ends B (coap_check_notify st2) (notified ?xs [(c, t)] ?l st2)"
    by (rule coap_check_notify_ends [OF inv2]) (use small obs clk in simp_all)
  then show ?thesis
    unfolding run
  proof (intro ends_bindI, elim ends_mono)
    fix st3 assume n: "notified ?xs [(c, t)] ?l st2 st3"
    have "avail (topics st3) = avail (topics st2)" "map r_id (resources (ctx st3)) = map r_id (resources (ctx st))"
      using n obs list_all2_same_core_ids [of "resources (ctx st2)" "resources (ctx st3)"]
      by (simp_all add: notified_def)
    then show "ends B (bindR (with_db (freeTopic (Some c)) st3) (\<lambda>(_, st). Inr (q, st))) (\<lambda>(resp, st').
        hdr_code resp = COAP_RESPONSE_CODE 204 \<and> broker_inv st' ?xs [] ?l \<and>
        avail (topics st') = avail (topics st) \<and>
        map r_id (resources (ctx st')) = map r_id (resources (ctx st)))"
      using broker_inv_free [OF notified_inv [OF inv2 n]] q av by fastforce
  qed
qed

text \<open>Without a terminator the payload is read past its end once the topic is cloned.\<close>

lemma put_unterminated:
  assumes r: "r \<in> set (resources (ctx st))" "topic_res r u a" "ct_attr_value r = Inr ct"
    and inv: "broker_inv st xs [] l" and t: "lookup u xs = Some t" "avail (topics st) > 0"
    and code: "put_code ct request True = 204" and tm: "\<not> put_terminated request"
  shows "hnd_put_topic (r_id r) request response st = Inl Out_of_bounds"
proof -
  have abs: "db_abs (topics st) xs [] l" using inv by (simp add: broker_inv_def)
  have get: "get_resource (r_id r) st = Inr r"
    using inv r(1) by (intro get_resource_found) (auto simp: broker_inv_def)
  obtain hs n data where gd: "coap_get_data request = (hs, n, data)"
    by (cases "coap_get_data request")
  obtain c d1 where cl: "cloneTopic (Some u) (topics st) = Inr (Some c, d1)"
    using cloneTopic_refines [OF abs, of u] t by (auto split: option.splits)
  have v: "first_option COAP_OPTION_CONTENT_TYPE request = Some (word_of_int ct)"
    using code by (auto simp: put_code_def split: option.splits if_splits)
  show ?thesis
    using gd v get r(3) topic_res_uri [OF r(2)] cl data_arg_run(2) [OF gd tm]
    by (simp add: hnd_put_topic_def with_db_def Let_def cong: option.case_cong)
qed

text \<open>
  Every observer gets the new datum, when there is memory for a second clone and the network
  takes every message.
\<close>

definition notifiable :: "broker \<Rightarrow> coap_resource \<Rightarrow> topic \<Rightarrow> bool" where
  "notifiable st r t \<longleftrightarrow>
     1 < avail (topics st) \<and> (\<forall>i. send_ok (ctx st) i) \<and> length (reply_payload (clock st) t) \<le> 1300 \<and>
     (\<forall>s\<in>set (subscribers r). sa_family (sub_addr s) \<in> {AF_INET, AF_INET6})"

text \<open>The common end of PUT and of a message of the bridge.\<close>

lemma dirty_tells:
  assumes inv: "broker_inv st2 xs ((c, t0) # cs) l"
    and r: "r \<in> set (resources (ctx st))" "topic_res r u a" "ct_attr_value r = Inr ct"
    and cx: "ctx st2 = update_resource (r_id r) (\<lambda>r. r\<lparr>r_dirty := True\<rparr>) (ctx st)"
    and av: "Suc (avail (topics st2)) = avail (topics st)" and clk: "clock st2 = clock st"
    and t: "lookup u xs = Some t" and num: "observe (ctx st) + length (resources (ctx st)) \<le> 2 ^ 24"
    and data: "data_small (clock st) xs" and ok: "notifiable st r t"
  obtains st3 st' where "coap_check_notify st2 = Inr st3" "with_db (freeTopic (Some c)) st3 = Inr (1, st')"
    "told (word_of_int ct) (clock st) t (subscribers r) st st'" "\<forall>r\<in>set (resources (ctx st')). \<not> r_dirty r"
proof -
  let ?r = "r\<lparr>r_dirty := True\<rparr>"
  have r2: "?r \<in> set (resources (ctx st2))" using r(1) by (force simp: cx update_resource_def)
  have t2: "topic_res ?r u a" using r(2) by (simp add: topic_res_def)
  have ct2: "ct_attr_value ?r = Inr ct" using r(3) by (simp add: ct_attr_value_def coap_find_attr_def)
  have fam: "\<forall>s\<in>set (subscribers ?r). sa_family (sub_addr s) \<in> {AF_INET, AF_INET6}"
    using ok by (simp add: notifiable_def)
  have num2: "observe (ctx st2) + length (resources (ctx st2)) \<le> 2 ^ 24"
    using num by (simp add: cx update_resource_def)
  have ok2: "tellable st2 t" using ok av clk by (simp add: tellable_def notifiable_def cx update_resource_def)
  have data2: "data_small (clock st2) xs" using data clk by simp
  obtain st3 where n: "coap_check_notify st2 = Inr st3" "notified xs ((c, t0) # cs) l st2 st3"
    "told (word_of_int ct) (clock st2) t (subscribers ?r) st2 st3" "\<forall>r\<in>set (resources (ctx st3)). \<not> r_dirty r"
    by (rule coap_check_notify_tells [OF inv r2 t2 ct2 _ fam t num2 data2 ok2]) simp
  obtain d where d: "with_db (freeTopic (Some c)) st3 = Inr (1, st3\<lparr>topics := d\<rparr>)"
    by (rule broker_inv_free [OF notified_inv [OF inv n(2)]])
  have "told (word_of_int ct) (clock st) t (subscribers r) st (st3\<lparr>topics := d\<rparr>)"
    using n(3) clk by (simp add: told_def cx update_resource_def)
  then show ?thesis by (rule that [OF n(1) d]) (use n(4) in simp)
qed

lemma put_tells:
  assumes r: "r \<in> set (resources (ctx st))" "topic_res r u a" "ct_attr_value r = Inr ct"
    and inv: "broker_inv st xs [] l" and resp: "pdu_abs response [] None"
    and t: "lookup u xs = Some t" "avail (topics st) > 0"
    and code: "put_code ct request True = 204" and tm: "put_terminated request"
    and small: "observe (ctx st) + length (resources (ctx st)) \<le> 2 ^ 24"
      "data_small (clock st) (update_first u (put_topic request (clock st)) xs)"
    and ok: "notifiable st r (put_topic request (clock st) t)"
  shows "\<exists>resp st'. hnd_put_topic (r_id r) request response st = Inr (resp, st') \<and>
    told (word_of_int ct) (clock st) (put_topic request (clock st) t) (subscribers r) st st' \<and>
    (\<forall>r\<in>set (resources (ctx st')). \<not> r_dirty r)"
proof -
  let ?f = "put_topic request (clock st)"
  let ?xs = "update_first u ?f xs" and ?l = "l + leaked_by (Some t) (put_data request)"
  obtain c st2 q where run: "hnd_put_topic (r_id r) request response st =
      bindR (coap_check_notify st2) (\<lambda>st. bindR (with_db (freeTopic (Some c)) st) (\<lambda>(_, st). Inr (q, st)))"
    and inv2: "broker_inv st2 ?xs [(c, t)] ?l"
    and av: "Suc (avail (topics st2)) = avail (topics st)" and clk: "clock st2 = clock st"
    and cx: "ctx st2 = update_resource (r_id r) (\<lambda>r. r\<lparr>r_dirty := True\<rparr>) (ctx st)"
    by (rule put_run [OF r inv resp t code tm])
  have lk: "lookup u ?xs = Some (?f t)"
    using t(1) by (simp add: lookup_update_first put_topic_def)
  obtain st3 st' where "coap_check_notify st2 = Inr st3" "with_db (freeTopic (Some c)) st3 = Inr (1, st')"
    "told (word_of_int ct) (clock st) (?f t) (subscribers r) st st'" "\<forall>r\<in>set (resources (ctx st')). \<not> r_dirty r"
    by (rule dirty_tells [OF inv2 r cx av clk lk small ok])
  then show ?thesis unfolding run by simp
qed

end
