(* ===== verification/TopicDelete.thy ===== *)
theory TopicDelete
  imports TopicPut
begin

text \<open>
  DELETE on a topic: which topics and resources go, what the answer counts, and the
  invariant of the broker after it.
\<close>

section \<open>Removing several topics\<close>

lemma remove_first_filter:
  "distinct (paths xs) \<Longrightarrow> remove_first p xs = filter (\<lambda>t. td_path t \<noteq> p) xs"
proof (induction xs)
  case Nil
  then show ?case by simp
next
  case (Cons t xs)
  have "filter (\<lambda>s. td_path s \<noteq> p) xs = xs" if "td_path t = p"
    using Cons.prems that by (auto simp: paths_def filter_id_conv) (metis image_eqI)
  with Cons show ?case by (auto simp: paths_def)
qed

lemma mqtt_eq:
  "mqtt c st = st\<lparr>mqtt_calls := mqtt_calls st @ (if mqtt_bridge st then [c] else [])\<rparr>"
  by (simp add: mqtt_def)

text \<open>The broker after removing the resources and topics of some paths.\<close>

definition removed :: "cstring set \<Rightarrow> cstring list \<Rightarrow> db \<Rightarrow> broker \<Rightarrow> broker" where
  "removed ps us d st = st\<lparr>
     ctx := (ctx st)\<lparr>resources := filter (\<lambda>r. uri_of r \<notin> ps) (resources (ctx st))\<rparr>,
     topics := d,
     mqtt_calls := mqtt_calls st @ (if mqtt_bridge st then map Mqtt_unsubscribe us else [])\<rparr>"

lemma removed_empty: "removed {} [] d st = st\<lparr>topics := d\<rparr>"
  by (simp add: removed_def)

lemma removed_removed: "removed ps us d (removed qs vs e st) = removed (qs \<union> ps) (vs @ us) d st"
  by (simp add: removed_def conj_commute)

text \<open>One topic and its resource.\<close>

lemma remove_one:
  assumes inv: "broker_inv st xs [] l" and r: "r \<in> set (resources (ctx st))"
    and t: "uri_of r \<in> set (paths xs)"
  obtains d where "with_db (deleteTopic (Some (uri_of r))) st = Inr (1, st\<lparr>topics := d\<rparr>)"
    "remove_resource (uri_of r) r (st\<lparr>topics := d\<rparr>) = Inr (removed {uri_of r} [uri_of r] d st)"
    "broker_inv (removed {uri_of r} [uri_of r] d st) (remove_first (uri_of r) xs) [] l"
proof -
  have ri: "resources_inv (resources (ctx st)) (next_id (ctx st))" and ok: "topics_ok xs"
    and db: "db_abs (topics st) xs [] l"
    using inv by (auto simp: broker_inv_def)
  obtain a where a: "topic_res r (uri_of r) a"
    using ok t by (rule_tac resources_inv_prefix [OF ri r]) (auto simp: topics_ok_def)
  obtain d where d: "deleteTopic (Some (uri_of r)) (topics st) = Inr (1, d)"
    "db_abs d (remove_first (uri_of r) xs) [] l"
    using deleteTopic_refines [OF db, of "uri_of r"] t by (auto simp: lookup_None_iff)
  have f: "filter (\<lambda>x. r_id x \<noteq> r_id r) (resources (ctx st)) =
      filter (\<lambda>x. uri_of x \<notin> {uri_of r}) (resources (ctx st))"
  proof (rule filter_cong [OF refl])
    fix x assume x: "x \<in> set (resources (ctx st))"
    have "r_id x = r_id r \<longleftrightarrow> x = r" "uri_of x = uri_of r \<longleftrightarrow> x = r"
      using ri r x by (auto simp: resources_inv_def distinct_map dest: inj_onD)
    then show "(r_id x \<noteq> r_id r) = (uri_of x \<notin> {uri_of r})" by simp
  qed
  have e: "(mqtt (Mqtt_unsubscribe (uri_of r)) (st\<lparr>topics := d\<rparr>))\<lparr>ctx := RESOURCES_DELETE (ctx st) (r_id r)\<rparr>
      = removed {uri_of r} [uri_of r] d st"
    using f by (simp add: mqtt_eq removed_def RESOURCES_DELETE_def)
  show ?thesis
  proof (rule that [of d])
    show "with_db (deleteTopic (Some (uri_of r))) st = Inr (1, st\<lparr>topics := d\<rparr>)"
      using d(1) by (rule with_db_Inr)
    show "remove_resource (uri_of r) r (st\<lparr>topics := d\<rparr>) = Inr (removed {uri_of r} [uri_of r] d st)"
      using remove_resource_run [OF a] e by simp
    show "broker_inv (removed {uri_of r} [uri_of r] d st) (remove_first (uri_of r) xs) [] l"
      using delete_topic_inv [OF inv r a d(2)] e by metis
  qed
qed

text \<open>The loop over the resources below a deleted topic.\<close>

definition below :: "cstring \<Rightarrow> coap_resource list \<Rightarrow> topic list \<Rightarrow> cstring list" where
  "below sub rs xs = filter (\<lambda>u. strstr u sub \<and> u \<in> set (paths xs)) (map uri_of rs)"

lemma delete_subtopics_run:
  assumes "broker_inv st xs [] l" and "set rs \<subseteq> set (resources (ctx st))" and "distinct (map uri_of rs)"
  shows "\<exists>d. delete_subtopics sub rs n st =
      Inr (n + length (below sub rs xs), removed (set (below sub rs xs)) (below sub rs xs) d st) \<and>
    broker_inv (removed (set (below sub rs xs)) (below sub rs xs) d st)
      (filter (\<lambda>t. td_path t \<notin> set (below sub rs xs)) xs) [] l"
  using assms
proof (induction rs arbitrary: st xs n)
  case Nil
  then show ?case
    by (auto simp: below_def removed_empty intro!: exI [of _ "topics st"])
next
  case (Cons r rs)
  have r: "r \<in> set (resources (ctx st))" using Cons.prems by simp
  have ri: "resources_inv (resources (ctx st)) (next_id (ctx st))" and dis: "distinct (paths xs)"
    and db: "db_abs (topics st) xs [] l"
    using Cons.prems(1) by (auto simp: broker_inv_def topics_ok_def)
  have cstr: "str_cstr (r_uri r) = Inr (uri_of r)" by (rule resources_inv_cstr [OF ri r])
  show ?case
  proof (cases "strstr (uri_of r) sub \<and> uri_of r \<in> set (paths xs)")
    case True
    then obtain d where d: "with_db (deleteTopic (Some (uri_of r))) st = Inr (1, st\<lparr>topics := d\<rparr>)"
      "remove_resource (uri_of r) r (st\<lparr>topics := d\<rparr>) = Inr (removed {uri_of r} [uri_of r] d st)"
      "broker_inv (removed {uri_of r} [uri_of r] d st) (remove_first (uri_of r) xs) [] l"
      using remove_one [OF Cons.prems(1) r] by blast
    have sub: "set rs \<subseteq> set (resources (ctx (removed {uri_of r} [uri_of r] d st)))"
      using Cons.prems(2,3) by (auto simp: removed_def) (metis image_eqI)
    have b: "below sub rs (remove_first (uri_of r) xs) = below sub rs xs"
      using Cons.prems(3) paths_remove_first_set [OF dis, of "uri_of r"]
      unfolding below_def by (intro filter_cong) (auto, metis image_eqI)
    have bl: "below sub (r # rs) xs = uri_of r # below sub rs xs"
      using True by (simp add: below_def)
    obtain e where e: "delete_subtopics sub rs (n + 1) (removed {uri_of r} [uri_of r] d st) =
        Inr (n + 1 + length (below sub rs xs), removed (set (below sub rs xs)) (below sub rs xs) e
          (removed {uri_of r} [uri_of r] d st))"
      "broker_inv (removed (set (below sub rs xs)) (below sub rs xs) e (removed {uri_of r} [uri_of r] d st))
        (filter (\<lambda>t. td_path t \<notin> set (below sub rs xs)) (remove_first (uri_of r) xs)) [] l"
      using Cons.IH [OF d(3) sub, of "n + 1"] Cons.prems(3) unfolding b by auto
    have f: "filter (\<lambda>t. td_path t \<notin> set (below sub rs xs)) (remove_first (uri_of r) xs) =
        filter (\<lambda>t. td_path t \<notin> set (below sub (r # rs) xs)) xs"
      using remove_first_filter [OF dis] by (simp add: bl conj_commute)
    show ?thesis
      using e True d cstr unfolding f removed_removed bl by auto
  next
    case False
    have bl: "below sub (r # rs) xs = below sub rs xs" using False by (simp add: below_def)
    have IH: "\<exists>d. delete_subtopics sub rs n st' =
        Inr (n + length (below sub rs xs), removed (set (below sub rs xs)) (below sub rs xs) d st') \<and>
      broker_inv (removed (set (below sub rs xs)) (below sub rs xs) d st')
        (filter (\<lambda>t. td_path t \<notin> set (below sub rs xs)) xs) [] l"
      if "broker_inv st' xs [] l" "ctx st' = ctx st" for st'
      using that Cons.prems by (intro Cons.IH) auto
    show ?thesis
    proof (cases "strstr (uri_of r) sub")
      case False
      then show ?thesis using IH [of st] Cons.prems cstr bl by simp
    next
      case True
      then have m: "lookup (uri_of r) xs = None"
        using False by (simp add: lookup_None_iff)
      obtain d where d: "deleteTopic (Some (uri_of r)) (topics st) = Inr (0, d)" "db_abs d xs [] l"
        using deleteTopic_refines [OF db, of "uri_of r"] m by (auto simp: remove_first_missing)
      have "broker_inv (st\<lparr>topics := d\<rparr>) xs [] l"
        using Cons.prems(1) d(2) by (simp add: broker_inv_def)
      moreover have "removed ps us e (st\<lparr>topics := d\<rparr>) = removed ps us e st" for ps us e
        by (simp add: removed_def)
      ultimately show ?thesis
        using IH [of "st\<lparr>topics := d\<rparr>"] True d(1) cstr bl by (auto simp: with_db_def)
    qed
  qed
qed

section \<open>The answer\<close>

lemma count_digits_show_nat: "0 < n \<Longrightarrow> count_digits n = length (show_nat n)"
proof (induction n rule: show_nat.induct)
  case (1 n)
  show ?case
  proof (cases "n < 10")
    case True
    then show ?thesis using "1.prems"
      by (subst show_nat.simps, subst count_digits.simps) (simp add: count_digits.simps [of 0])
  next
    case False
    then have "count_digits (n div 10) = length (show_nat (n div 10))" using 1 by simp
    then show ?thesis using False
      by (subst show_nat.simps, subst count_digits.simps) simp
  qed
qed

lemma length_show_nat: "n < 10 ^ k \<Longrightarrow> 0 < k \<Longrightarrow> length (show_nat n) \<le> k"
proof (induction n arbitrary: k rule: show_nat.induct)
  case (1 n)
  show ?case
  proof (cases "n < 10")
    case True
    then show ?thesis using "1.prems" by (subst show_nat.simps) simp
  next
    case False
    with "1.prems" obtain j where k: "k = Suc j" by (cases k) auto
    with False "1.prems"(1) have j: "0 < j" by (cases j) auto
    have "n div 10 < 10 ^ j" using "1.prems"(1) k by (simp add: div_less_iff_less_mult mult.commute)
    then have "length (show_nat (n div 10)) \<le> j" using "1.IH" False j by simp
    then show ?thesis using False k by (subst show_nat.simps) simp
  qed
qed

lemma snprintf_count:
  "snprintf_s (count_digits (if n \<noteq> 0 then n else 1) + 1) (show_nat n) = show_nat n"
proof (cases "n = 0")
  case True
  then show ?thesis
    by (simp add: snprintf_s_def count_digits.simps [of 0] count_digits.simps [of "Suc 0"] show_nat.simps [of 0])
next
  case False
  then show ?thesis by (simp add: count_digits_show_nat snprintf_s_whole)
qed

text \<open>What the answer to a DELETE says.\<close>

definition delete_reply :: "nat \<Rightarrow> coap_pdu \<Rightarrow> coap_pdu \<Rightarrow> bool" where
  "delete_reply n response resp \<longleftrightarrow>
     hdr_code resp = COAP_RESPONSE_CODE (if n \<noteq> 0 then 202 else 404) \<and>
     hdr_token resp = hdr_token response \<and>
     pdu_abs resp [(COAP_OPTION_CONTENT_TYPE, [])] (Some (show_nat n))"

lemma encode_zero: "coap_encode_var_bytes 0 = []"
  by (simp add: coap_encode_var_bytes_def eval_nat_numeral)

lemma delete_answer:
  assumes p: "pdu_abs response [] None" "pdu_length response \<le> 12" "max_size response = COAP_MAX_PDU_SIZE"
    and md: "n < 10 ^ 10"
  obtains resp where "bindR (add_uint_option COAP_OPTION_CONTENT_TYPE COAP_MEDIATYPE_TEXT_PLAIN
      (response\<lparr>hdr_code := COAP_RESPONSE_CODE (if n \<noteq> 0 then 202 else 404)\<rparr>))
      (add_data (show_nat n)) = Inr resp" "delete_reply n response resp"
proof -
  let ?r = "response\<lparr>hdr_code := COAP_RESPONSE_CODE (if n \<noteq> 0 then 202 else 404)\<rparr>"
  have md0: "max_delta ?r = 0"
    using p(1) by (auto simp: pdu_abs_def elim: encodesE)
  obtain q where q: "add_uint_option COAP_OPTION_CONTENT_TYPE 0 ?r = Inr q"
    "pdu_abs q [(COAP_OPTION_CONTENT_TYPE, [])] None" "pdu_length q \<le> pdu_length ?r + 8"
    "max_size q = max_size ?r" "hdr_code q = hdr_code ?r" "hdr_token q = hdr_token ?r"
    by (rule add_uint_option_ok [of ?r "[]" 0 COAP_OPTION_CONTENT_TYPE])
      (use p md0 in \<open>auto simp: encode_zero pdu_length_def\<close>)
  have len: "length (show_nat n) \<le> 10" using length_show_nat [OF md] by simp
  have room: "pdu_length q + length (show_nat n) + 1 \<le> max_size q"
    using q(3,4) p(2,3) len by (simp add: pdu_length_def)
  obtain resp where "add_data (show_nat n) q = Inr resp"
    "pdu_abs resp [(COAP_OPTION_CONTENT_TYPE, [])] (Some (show_nat n))"
    "hdr_code resp = hdr_code q" "hdr_token resp = hdr_token q"
    by (rule add_data_ok [OF q(2) show_nat_nonempty room])
  then show ?thesis using that q(1,5,6) by (simp add: delete_reply_def)
qed

text \<open>Nothing to delete: a topic without an entry in the database.\<close>

lemma hnd_delete_topic_missing:
  assumes inv: "broker_inv st xs [] l" and r: "r \<in> set (resources (ctx st))" "topic_res r u a"
    and p: "pdu_abs response [] None" "pdu_length response \<le> 12" "max_size response = COAP_MAX_PDU_SIZE"
    and m: "lookup u xs = None"
  shows "\<exists>d resp. hnd_delete_topic (r_id r) response st = Inr (resp, st\<lparr>topics := d\<rparr>) \<and>
    delete_reply 0 response resp \<and> broker_inv (st\<lparr>topics := d\<rparr>) xs [] l"
proof -
  have get: "get_resource (r_id r) st = Inr r"
    using inv r(1) by (intro get_resource_found) (auto simp: broker_inv_def)
  have db: "db_abs (topics st) xs [] l" using inv by (simp add: broker_inv_def)
  obtain d where d: "deleteTopic (Some u) (topics st) = Inr (0, d)" "db_abs d xs [] l"
    using deleteTopic_refines [OF db, of u] m by (auto simp: remove_first_missing)
  obtain resp where resp: "bindR (add_uint_option COAP_OPTION_CONTENT_TYPE COAP_MEDIATYPE_TEXT_PLAIN
      (response\<lparr>hdr_code := COAP_RESPONSE_CODE (if (0 :: nat) \<noteq> 0 then 202 else 404)\<rparr>))
      (add_data (show_nat 0)) = Inr resp" "delete_reply 0 response resp"
    by (rule delete_answer [OF p, of 0]) simp_all
  have "broker_inv (st\<lparr>topics := d\<rparr>) xs [] l" using inv d(2) by (simp add: broker_inv_def)
  moreover have "hnd_delete_topic (r_id r) response st = Inr (resp, st\<lparr>topics := d\<rparr>)"
    using get topic_res_uri [OF r(2)] d(1) resp(1) snprintf_count [of 0]
    by (simp add: hnd_delete_topic_def with_db_def Let_def bindR_eq_Inr)
  ultimately show ?thesis using resp(2) by blast
qed

text \<open>The topics a DELETE takes along: the one addressed, and those whose path contains it with a slash.\<close>

definition doomed :: "cstring \<Rightarrow> cstring \<Rightarrow> bool" where
  "doomed u p \<longleftrightarrow> p = u \<or> strstr p (u @ ''/'')"

lemma doomed_below:
  assumes inv: "broker_inv st xs [] l" and u: "u \<in> set (paths xs)"
    and rs: "rs = filter (\<lambda>x. uri_of x \<notin> {u}) (resources (ctx st))"
    and bs: "bs = below (u @ ''/'') rs (remove_first u xs)"
  shows "set (u # bs) = {p \<in> set (paths xs). doomed u p}"
    and "length (u # bs) = length (filter (doomed u) (paths xs))"
    and "filter (\<lambda>t. td_path t \<notin> set bs) (remove_first u xs) = filter (\<lambda>t. \<not> doomed u (td_path t)) xs"
proof -
  have dis: "distinct (paths xs)" and sub: "set (paths xs) \<subseteq> uri_of ` set (resources (ctx st))"
    and ri: "resources_inv (resources (ctx st)) (next_id (ctx st))"
    using inv by (auto simp: broker_inv_def topics_ok_def)
  have mem: "p \<in> set bs \<longleftrightarrow> strstr p (u @ ''/'') \<and> p \<in> set (paths xs) \<and> p \<noteq> u" for p
    using sub unfolding bs below_def rs by (auto simp: paths_remove_first_set [OF dis])
  show set: "set (u # bs) = {p \<in> set (paths xs). doomed u p}"
    using u mem by (auto simp: doomed_def)
  have "distinct bs"
    using ri unfolding bs below_def rs
    by (auto simp: resources_inv_def distinct_map_filter intro: distinct_filter)
  then have d: "distinct (u # bs)" using mem by auto
  have "length (u # bs) = card (set (u # bs))" using d by (rule distinct_card [symmetric])
  also have "\<dots> = card (set (filter (doomed u) (paths xs)))" unfolding set by (rule arg_cong [of _ _ card]) auto
  also have "\<dots> = length (filter (doomed u) (paths xs))" using dis by (intro distinct_card) simp
  finally show "length (u # bs) = length (filter (doomed u) (paths xs))" .
  show "filter (\<lambda>t. td_path t \<notin> set bs) (remove_first u xs) = filter (\<lambda>t. \<not> doomed u (td_path t)) xs"
    unfolding remove_first_filter [OF dis] filter_filter
    by (intro filter_cong) (auto simp: mem doomed_def paths_def)
qed

text \<open>
  The run of the handler: \<open>vs\<close> lists the paths that go, the addressed one first.
\<close>

lemma hnd_delete_topic_found:
  assumes inv: "broker_inv st xs [] l" and r: "r \<in> set (resources (ctx st))" "topic_res r u a"
    and t: "lookup u xs \<noteq> None"
  obtains d vs where "\<forall>response. hnd_delete_topic (r_id r) response st =
      bindR (bindR (add_uint_option COAP_OPTION_CONTENT_TYPE COAP_MEDIATYPE_TEXT_PLAIN
          (response\<lparr>hdr_code := COAP_RESPONSE_CODE 202\<rparr>))
        (add_data (show_nat (length (filter (doomed u) (paths xs))))))
      (\<lambda>resp. Inr (resp, removed (set vs) vs d st))"
    "hd vs = u" "set vs = {p \<in> set (paths xs). doomed u p}" "length (filter (doomed u) (paths xs)) \<noteq> 0"
    "broker_inv (removed (set vs) vs d st) (filter (\<lambda>t. \<not> doomed u (td_path t)) xs) [] l"
proof -
  have uri: "uri_of r = u" by (rule topic_res_uri_of [OF r(2)])
  have u: "u \<in> set (paths xs)" using t by (simp add: lookup_None_iff)
  have ri: "resources_inv (resources (ctx st)) (next_id (ctx st))" using inv by (simp add: broker_inv_def)
  have get: "get_resource (r_id r) st = Inr r" using ri r(1) by (rule get_resource_found) simp
  obtain d1 where d1: "with_db (deleteTopic (Some u)) st = Inr (1, st\<lparr>topics := d1\<rparr>)"
    "remove_resource u r (st\<lparr>topics := d1\<rparr>) = Inr (removed {u} [u] d1 st)"
    "broker_inv (removed {u} [u] d1 st) (remove_first u xs) [] l"
    using remove_one [OF inv r(1)] u uri by blast
  define rs where "rs = filter (\<lambda>x. uri_of x \<notin> {u}) (resources (ctx st))"
  define bs where "bs = below (u @ ''/'') rs (remove_first u xs)"
  note ds = doomed_below [OF inv u rs_def bs_def]
  have rs: "resources (ctx (removed {u} [u] d1 st)) = rs" by (simp add: removed_def rs_def)
  have drs: "distinct (map uri_of rs)" using ri by (simp add: rs_def resources_inv_def distinct_map_filter)
  have sn: "snprintf_s (str_length (r_uri r) + 2) (u @ ''/'') = u @ ''/''"
    using r(2) by (simp add: topic_res_def snprintf_s_whole)
  obtain d where d: "delete_subtopics (u @ ''/'') rs 1 (removed {u} [u] d1 st) =
      Inr (1 + length bs, removed (set bs) bs d (removed {u} [u] d1 st))"
    "broker_inv (removed (set bs) bs d (removed {u} [u] d1 st))
      (filter (\<lambda>t. td_path t \<notin> set bs) (remove_first u xs)) [] l"
    using delete_subtopics_run [OF d1(3), of rs "u @ ''/''" 1] drs unfolding rs bs_def by auto
  define n where "n = length (filter (doomed u) (paths xs))"
  have n: "1 + length bs = n" "n \<noteq> 0" using ds(2) by (auto simp: n_def)
  have run: "hnd_delete_topic (r_id r) response st =
      bindR (bindR (add_uint_option COAP_OPTION_CONTENT_TYPE COAP_MEDIATYPE_TEXT_PLAIN
          (response\<lparr>hdr_code := COAP_RESPONSE_CODE 202\<rparr>)) (add_data (show_nat n)))
        (\<lambda>resp. Inr (resp, removed (set bs) bs d (removed {u} [u] d1 st)))" for response
    using get topic_res_uri [OF r(2)] d1(1,2) sn d(1) rs n snprintf_count [of n]
    by (simp add: hnd_delete_topic_def Let_def bindR_assoc)
  show ?thesis
    using that [of "u # bs" d] run d(2) ds(1,3) n(2) unfolding removed_removed n_def by simp
qed

lemma hnd_delete_topic_run:
  assumes inv: "broker_inv st xs [] l" and r: "r \<in> set (resources (ctx st))" "topic_res r u a"
    and p: "pdu_abs response [] None" "pdu_length response \<le> 12" "max_size response = COAP_MAX_PDU_SIZE"
    and t: "lookup u xs \<noteq> None" and few: "length xs < 10 ^ 10"
  obtains d resp vs where "hnd_delete_topic (r_id r) response st = Inr (resp, removed (set vs) vs d st)"
    "hd vs = u" "set vs = {p \<in> set (paths xs). doomed u p}"
    "delete_reply (length (filter (doomed u) (paths xs))) response resp"
    "broker_inv (removed (set vs) vs d st) (filter (\<lambda>t. \<not> doomed u (td_path t)) xs) [] l"
proof -
  let ?n = "length (filter (doomed u) (paths xs))"
  obtain d vs where f: "\<forall>response. hnd_delete_topic (r_id r) response st =
      bindR (bindR (add_uint_option COAP_OPTION_CONTENT_TYPE COAP_MEDIATYPE_TEXT_PLAIN
          (response\<lparr>hdr_code := COAP_RESPONSE_CODE 202\<rparr>)) (add_data (show_nat ?n)))
      (\<lambda>resp. Inr (resp, removed (set vs) vs d st))"
    "hd vs = u" "set vs = {p \<in> set (paths xs). doomed u p}" "?n \<noteq> 0"
    "broker_inv (removed (set vs) vs d st) (filter (\<lambda>t. \<not> doomed u (td_path t)) xs) [] l"
    by (rule hnd_delete_topic_found [OF inv r t])
  have "?n < 10 ^ 10"
    using few length_filter_le [of "doomed u" "paths xs"] unfolding paths_def length_map by linarith
  then obtain resp where resp: "bindR (add_uint_option COAP_OPTION_CONTENT_TYPE COAP_MEDIATYPE_TEXT_PLAIN
      (response\<lparr>hdr_code := COAP_RESPONSE_CODE (if ?n \<noteq> 0 then 202 else 404)\<rparr>))
      (add_data (show_nat ?n)) = Inr resp" "delete_reply ?n response resp"
    by (rule delete_answer [OF p])
  show ?thesis
    by (rule that [of resp vs d]) (use f resp in simp_all)
qed

text \<open>DELETE keeps the invariant; the resource stays unless it answers with success.\<close>

lemma class_codes: "COAP_RESPONSE_CODE 202 div 32 mod 256 = 2"
  by (simp add: COAP_RESPONSE_CODE_def)

lemma add_uint_code: "add_uint_option ty v p = Inr q \<Longrightarrow> hdr_code q = hdr_code p"
  by (auto simp: add_uint_option_def bindR_eq_Inr coap_add_option_def Let_def split: option.splits)

lemma add_data_code: "add_data bs p = Inr q \<Longrightarrow> hdr_code q = hdr_code p"
  by (auto simp: add_data_def bindR_eq_Inr coap_add_data_def split: if_splits)

lemma hnd_delete_topic_ends:
  assumes inv: "broker_inv st xs [] l" and r: "r \<in> set (resources (ctx st))" "topic_res r u a"
    and p: "pdu_abs response [] None" "pdu_length response \<le> 12" "max_size response = COAP_MAX_PDU_SIZE"
    and few: "B \<Longrightarrow> length xs < 10 ^ 10"
  shows "ends B (hnd_delete_topic (r_id r) response st) (\<lambda>(resp, st').
    (\<exists>xs'. broker_inv st' xs' [] l) \<and>
    (hdr_code resp = COAP_RESPONSE_CODE 202 \<or> resources (ctx st') = resources (ctx st)))"
proof (cases "lookup u xs = None")
  case True
  then show ?thesis using hnd_delete_topic_missing [OF inv r p] by auto
next
  case False
  obtain d vs where f: "\<forall>response. hnd_delete_topic (r_id r) response st =
      bindR (bindR (add_uint_option COAP_OPTION_CONTENT_TYPE COAP_MEDIATYPE_TEXT_PLAIN
          (response\<lparr>hdr_code := COAP_RESPONSE_CODE 202\<rparr>))
        (add_data (show_nat (length (filter (doomed u) (paths xs))))))
      (\<lambda>resp. Inr (resp, removed (set vs) vs d st))"
    "hd vs = u" "set vs = {p \<in> set (paths xs). doomed u p}" "length (filter (doomed u) (paths xs)) \<noteq> 0"
    "broker_inv (removed (set vs) vs d st) (filter (\<lambda>t. \<not> doomed u (td_path t)) xs) [] l"
    by (rule hnd_delete_topic_found [OF inv r False])
  show ?thesis
  proof (rule ends_cases)
    fix e assume "hnd_delete_topic (r_id r) response st = Inl e"
    then show "\<not> B" using hnd_delete_topic_run [OF inv r p False few] by fastforce
  next
    fix x assume "hnd_delete_topic (r_id r) response st = Inr x"
    then show "(\<lambda>(resp, st'). (\<exists>xs'. broker_inv st' xs' [] l) \<and>
        (hdr_code resp = COAP_RESPONSE_CODE 202 \<or> resources (ctx st') = resources (ctx st))) x"
      using f(5) by (auto simp: f(1) [rule_format] bindR_eq_Inr dest!: add_uint_code add_data_code)
  qed
qed

end
