(* ===== verification/TopicPost.thy ===== *)
theory TopicPost
  imports TopicDelete
begin

text \<open>
  POST on the broker and on a topic: what the payload has to look like, what is created,
  and the invariant of the broker after it.
\<close>

section \<open>The payload\<close>

fun options_of :: "cstring list \<Rightarrow> (cstring \<times> cstring) list option result" where
  "options_of [] = Inr (Some [])"
| "options_of (s # ss) =
     bindR (option_of s) (\<lambda>p. case p of
       None \<Rightarrow> Inr None
     | Some nv \<Rightarrow> bindR (options_of ss) (\<lambda>os. Inr (map_option (\<lambda>l. l @ [nv]) os)))"

text \<open>A link \<open><path>;name=value;...\<close>: its path and its attributes, the last one first.\<close>

definition link_of :: "cstring \<Rightarrow> (cstring \<times> (cstring \<times> cstring) list) option result" where
  "link_of s =
     (if CHR '','' \<in> set s \<or> CHR '';'' \<notin> set s then Inr None
      else bindR (path_of (hd (split_on CHR '';'' s))) (\<lambda>p. case p of
        None \<Rightarrow> Inr None
      | Some rel \<Rightarrow>
          bindR (options_of (tl (split_on CHR '';'' s))) (\<lambda>os. Inr (map_option (Pair rel) os))))"

lemma add_options_of:
  "add_options (topic_resource uri attrs) ss =
     bindR (options_of ss) (\<lambda>os. case os of
       None \<Rightarrow> Inr (0, RDangling)
     | Some l \<Rightarrow> Inr (1, RValid (topic_resource uri (l @ attrs))))"
proof (induction ss arbitrary: attrs)
  case Nil
  then show ?case by simp
next
  case (Cons s ss)
  show ?case
    by (cases "option_of s")
      (auto simp: add_attr_topic Cons.IH bindR_assoc bindR_def split: option.splits sum.splits)
qed

lemma path_of_Nil: "path_of [] = Inr None"
  by (simp add: path_of_def)

text \<open>The parser on a parent resource whose path is a string.\<close>

lemma parse_post:
  assumes "str_cstr (r_uri old) = Inr base" "str_length (r_uri old) = length base"
  shows "case link_of s of
      Inl e \<Rightarrow> parseLinkFormat s old RNull = Inl e
    | Inr None \<Rightarrow> parseLinkFormat s old RNull \<in> {Inr (0, RNull), Inr (0, RDangling)}
    | Inr (Some (rel, l)) \<Rightarrow>
        parseLinkFormat s old RNull = Inr (1, RValid (topic_resource (base @ CHR ''/'' # rel) l))"
proof -
  have sn: "snprintf_s (str_length (r_uri old) + 1) base = base"
    using assms(2) by (simp add: snprintf_s_whole)
  let ?h = "hd (split_on CHR '';'' s)" and ?t = "tl (split_on CHR '';'' s)"
  show ?thesis
  proof (cases "CHR '','' \<in> set s \<or> CHR '';'' \<notin> set s \<or> ?h = []")
    case True
    then show ?thesis by (auto simp: parseLinkFormat_eq parse_line_def link_of_def path_of_Nil)
  next
    case False
    then show ?thesis
      using assms(1) sn
      by (auto simp: parseLinkFormat_eq parse_line_def link_of_def resource_init_topic [unfolded One_nat_def] add_options_of
          bindR_def split: option.splits sum.splits)
  qed
qed

section \<open>What the characters of a link are\<close>

lemma allowed_char_no_NUL: "allowed_char extra NUL \<Longrightarrow> NUL \<in> set extra"
  by (auto simp: allowed_char_def isalnum_def isdigit_def code_def)

lemma path_of_chars:
  "path_of s = Inr (Some rel) \<Longrightarrow> rel \<noteq> [] \<and> hd rel \<noteq> CHR ''/'' \<and> last rel \<noteq> CHR ''/'' \<and>
     NUL \<notin> set rel \<and> (\<forall>c\<in>set rel. allowed_char ''/-'' c)"
  using allowed_char_no_NUL [of "''/-''"] by (auto simp: path_of_def path_ok_def split: if_splits)

lemma option_of_chars: "option_of s = Inr (Some (n, v)) \<Longrightarrow> n \<noteq> [] \<and> name_ok n \<and> name_ok v"
  by (auto simp: option_of_def bindR_eq_Inr split: list.splits if_splits)

lemma name_ok_no_NUL: "name_ok s \<Longrightarrow> NUL \<notin> set s"
  using allowed_char_no_NUL [of "''-''"] by (auto simp: name_ok_def)

lemma options_of_chars:
  "options_of ss = Inr (Some l) \<Longrightarrow> \<forall>(n, v)\<in>set l. n \<noteq> [] \<and> name_ok n \<and> name_ok v"
proof (induction ss arbitrary: l)
  case Nil
  then show ?case by simp
next
  case (Cons s ss)
  then show ?case
    using option_of_chars [of s] by (fastforce simp: bindR_eq_Inr split: option.splits)
qed

lemma link_of_chars:
  assumes "link_of s = Inr (Some (rel, l))"
  shows "rel \<noteq> []" "NUL \<notin> set rel" "\<forall>(n, v)\<in>set l. NUL \<notin> set n \<and> NUL \<notin> set v"
proof -
  obtain ss p where "path_of p = Inr (Some rel)" "options_of ss = Inr (Some l)"
    using assms by (auto simp: link_of_def bindR_eq_Inr split: if_splits option.splits)
  then show "rel \<noteq> []" "NUL \<notin> set rel" "\<forall>(n, v)\<in>set l. NUL \<notin> set n \<and> NUL \<notin> set v"
    using path_of_chars [of p rel] options_of_chars [of ss l] name_ok_no_NUL by fastforce+
qed

section \<open>Decisions\<close>

lemma find_uri_run:
  "\<forall>r\<in>set rs. str_cstr (r_uri r) = Inr (uri_of r) \<Longrightarrow> find_uri u rs = Inr (u \<in> uri_of ` set rs)"
  by (induction rs) auto

lemma reply_phrase_free:
  assumes "pdu_data p = None" "coap_response_phrase (COAP_RESPONSE_CODE n) = Some ph"
  obtains q where "reply_phrase n p = Inr q" "hdr_code q = COAP_RESPONSE_CODE n"
proof -
  have "\<exists>q. reply_phrase n p = Inr q \<and> hdr_code q = COAP_RESPONSE_CODE n"
    using assms by (simp add: reply_phrase_def coap_add_data_def Let_def)
  then show ?thesis using that by blast
qed

lemma add_option_data_None: "pdu_data (snd (coap_add_option p ty v)) = None"
  by (simp add: coap_add_option_def Let_def split: option.splits)

text \<open>The check of the content format a topic is created with.\<close>

lemma ct_value_heap:
  "NUL \<notin> set v \<Longrightarrow> ct_value_valid (attr_value (heap_attr (n, v))) = Inr (ct_ok v)"
  by (simp add: ct_value_valid_def heap_attr_def str_bytes_ok str_cstr_heap_string ct_ok_def Let_def not_less)

lemma find_ct:
  "coap_find_attr (RValid (topic_resource uri l)) ''ct'' =
     Inr (map_option (\<lambda>v. heap_attr (''ct'', v)) (map_of l ''ct''))"
proof -
  have "resource_ok (topic_resource uri l)"
    using heap_attr_ok [of l] by (simp add: resource_ok_def topic_resource_def)
  then show ?thesis
    by (simp add: coap_find_attr_ok find_heap_attr topic_resource_def)
qed

text \<open>The resource that becomes a topic.\<close>

definition fresh_topic :: "cstring \<Rightarrow> (cstring \<times> cstring) list \<Rightarrow> coap_resource" where
  "fresh_topic uri l = (topic_resource uri l)\<lparr>r_handler := topic_handlers, r_observable := True\<rparr>"

lemma register_topic: "register_topic_handlers (topic_resource uri l) =
    Inr ((topic_resource uri l)\<lparr>r_handler := topic_handlers\<rparr>)"
  by (simp add: register_topic_handlers_def coap_register_handler_def topic_resource_def topic_handlers_def
      eval_nat_numeral)

lemma fresh_topic_res:
  assumes "NUL \<notin> set uri" "is_prefix ''ps/'' uri" "\<forall>(n, v)\<in>set l. NUL \<notin> set n \<and> NUL \<notin> set v"
    "map_of l ''ct'' = Some v" "ct_ok v"
  shows "topic_res ((fresh_topic uri l)\<lparr>r_id := i\<rparr>) uri l"
  using assms by (simp add: topic_res_def fresh_topic_def topic_resource_def)

section \<open>Creation\<close>

definition created :: "cstring \<Rightarrow> (cstring \<times> cstring) list \<Rightarrow> int \<Rightarrow> db \<Rightarrow> broker \<Rightarrow> broker" where
  "created uri l ma d st = (mqtt (Mqtt_subscribe uri) (note_topic_max_age ma st))
     \<lparr>ctx := coap_add_resource (ctx st) (fresh_topic uri l), topics := d\<rparr>"

lemma note_topic_simps [simp]:
  "ctx (note_topic_max_age ma st) = ctx st" "topics (note_topic_max_age ma st) = topics st"
  "clock (note_topic_max_age ma st) = clock st"
  "earliest_data_max_age (note_topic_max_age ma st) = earliest_data_max_age st"
  "earliest_topic_max_age (note_topic_max_age ma st) =
     (if ma < earliest_topic_max_age st \<and> ma \<noteq> 0 then ma else earliest_topic_max_age st)"
  by (simp_all add: note_topic_max_age_def)

lemma created_inv:
  assumes inv: "broker_inv st xs cs l" and db: "db_abs d ys cs l"
    and ys: "ys = xs \<or> (\<exists>n. ys = xs @ [new_topic uri n ma] \<and> td_path (new_topic uri n ma) = uri)"
    and u: "uri \<notin> set (map uri_of (resources (ctx st)))"
    and t: "\<And>i. topic_res ((fresh_topic uri as)\<lparr>r_id := i\<rparr>) uri as"
  shows "broker_inv (created uri as ma d st) ys cs l"
proof -
  let ?st = "created uri as ma d st"
  let ?r = "(fresh_topic uri as)\<lparr>r_id := next_id (ctx st)\<rparr>"
  have res: "resources (ctx ?st) = resources (ctx st) @ [?r]" "next_id (ctx ?st) = Suc (next_id (ctx st))"
    by (simp_all add: created_def coap_add_resource_def RESOURCES_ADD_def)
  have uo: "uri_of ?r = uri" by (rule topic_res_uri_of [OF t])
  have ri: "resources_inv (resources (ctx st)) (next_id (ctx st))" using inv by (simp add: broker_inv_def)
  have "resources_inv (resources (ctx st) @ [?r]) (Suc (next_id (ctx st)))"
  proof -
    obtain b rs where rs: "resources (ctx st) = b # rs"
      using ri by (cases "resources (ctx st)") (auto simp: resources_inv_def)
    show ?thesis
      using ri t [of "next_id (ctx st)"] u uo unfolding resources_inv_def rs by (auto simp: less_Suc_eq)
  qed
  moreover have p: "is_prefix ''ps/'' uri" using t by (simp add: topic_res_def)
  have un: "uri \<notin> set (paths xs)" using inv u by (auto simp: broker_inv_def)
  moreover have "topics_ok ys"
    using inv ys un p by (auto simp: broker_inv_def topics_ok_def paths_def new_topic_def)
  moreover have "set (paths ys) \<subseteq> set (map uri_of (resources (ctx ?st)))"
    using inv ys res uo by (auto simp: broker_inv_def paths_def subset_iff)
  moreover have "expiry_ok (earliest_topic_max_age ?st) td_topic_ma ys"
    "expiry_ok (earliest_data_max_age ?st) td_data_ma ys"
    using inv ys by (auto simp: broker_inv_def expiry_ok_def created_def mqtt_def new_topic_def)
  ultimately show ?thesis
    using db res by (simp add: broker_inv_def created_def)
qed

text \<open>The answer when a topic is created, and the state it leaves.\<close>

lemma topic_created_run:
  assumes inv: "broker_inv st xs [] l" and u: "uri \<notin> set (map uri_of (resources (ctx st)))"
    and t: "\<And>i. topic_res ((fresh_topic uri as)\<lparr>r_id := i\<rparr>) uri as" and ne: "uri \<noteq> []"
    and resp: "pdu_data response = None"
  shows "\<exists>d resp. topic_created uri (topic_resource uri as) ma response st = Inr (resp, created uri as ma d st) \<and>
    reply_phrase 201 (snd (coap_add_option response COAP_OPTION_LOCATION_PATH uri)) = Inr resp \<and>
    hdr_code resp = COAP_RESPONSE_CODE 201 \<and>
    broker_inv (created uri as ma d st)
      (if avail (topics st) = 0 then xs else xs @ [new_topic uri (length uri) ma]) [] l"
proof -
  have db: "db_abs (topics st) xs [] l" using inv by (simp add: broker_inv_def)
  have un: "lookup uri xs = None" using inv u by (auto simp: broker_inv_def lookup_None_iff)
  have nul: "NUL \<notin> set uri" using t by (simp add: topic_res_def)
  have path: "td_path (new_topic uri (length uri) ma) = uri"
    using nul by (simp add: new_topic_def cstr_id snprintf_s_whole)
  let ?ys = "if avail (topics st) = 0 then xs else xs @ [new_topic uri (length uri) ma]"
  obtain k d where d: "addTopicWEC (Some uri) (length uri) ma (topics st) = Inr (k, d)" "db_abs d ?ys [] l"
  proof (cases "avail (topics st) = 0")
    case True
    then show ?thesis using addTopicWEC_no_memory [OF db un True, of "length uri" ma] that by auto
  next
    case False
    then show ?thesis using addTopicWEC_new [OF db un, of "length uri" ma] ne that by auto
  qed
  obtain resp where resp: "reply_phrase 201 (snd (coap_add_option response COAP_OPTION_LOCATION_PATH uri)) = Inr resp"
    "hdr_code resp = COAP_RESPONSE_CODE 201"
    using reply_phrase_free [OF add_option_data_None] response_phrases(1) by metis
  have uri: "r_uri (topic_resource uri as) = heap_string uri" by (simp add: topic_resource_def)
  have "topic_created uri (topic_resource uri as) ma response st = Inr (resp, created uri as ma d st)"
    using d(1) resp(1) uri
    by (simp add: topic_created_def Let_def register_topic created_def with_db_def mqtt_def
        str_bytes_ok fresh_topic_def)
  moreover have "broker_inv (created uri as ma d st) ?ys [] l"
    by (rule created_inv [OF inv d(2) _ u t]) (use path in auto)
  ultimately show ?thesis using resp by blast
qed

section \<open>A topic that exists\<close>

definition renewed :: "int \<Rightarrow> topic \<Rightarrow> topic" where
  "renewed ma t = t\<lparr>td_data := rewritten_data (td_data t), td_topic_ma := ma\<rparr>"

lemma topic_exists_run:
  assumes inv: "broker_inv st xs [] l" and resp: "pdu_data response = None"
  shows "\<exists>d resp l'. topic_exists uri (topic_resource uri as) ma response st =
      Inr (resp, (note_topic_max_age ma st)\<lparr>topics := d\<rparr>) \<and>
    reply_phrase 403 response = Inr resp \<and> hdr_code resp = COAP_RESPONSE_CODE 403 \<and>
    broker_inv ((note_topic_max_age ma st)\<lparr>topics := d\<rparr>) (update_first uri (renewed ma) xs) [] l'"
proof -
  have db: "db_abs (topics st) xs [] l" using inv by (simp add: broker_inv_def)
  have f: "(\<lambda>t. t\<lparr>td_data := rewritten_data (td_data t), td_topic_ma := ma\<rparr>) = renewed ma"
    by (simp add: fun_eq_iff renewed_def)
  obtain k d l' where d: "updateTopicInfo (Some uri) ma (topics st) = Inr (k, d)"
    "db_abs d (update_first uri (renewed ma) xs) [] l'"
    using updateTopicInfo_refines [OF db, of uri ma] expiry_of_lookup(3) [OF inv, of uri]
    unfolding f by blast
  obtain resp where resp: "reply_phrase 403 response = Inr resp" "hdr_code resp = COAP_RESPONSE_CODE 403"
    using reply_phrase_free [OF resp] response_phrases(4) by metis
  have "broker_inv ((note_topic_max_age ma st)\<lparr>topics := d\<rparr>) (update_first uri (renewed ma) xs) [] l'"
    by (rule broker_inv_update [OF inv])
      (use d(2) expiry_of_lookup [OF inv] in
        \<open>auto simp: renewed_def rewritten_data_def split: option.splits if_splits\<close>)
  moreover have "topic_exists uri (topic_resource uri as) ma response st =
      Inr (resp, (note_topic_max_age ma st)\<lparr>topics := d\<rparr>)"
    using d(1) resp(1) by (simp add: topic_exists_def with_db_def)
  ultimately show ?thesis using resp by blast
qed

section \<open>POST\<close>

definition post_payload :: "coap_pdu \<Rightarrow> cstring" where
  "post_payload request = (let (_, size, data) = coap_get_data request in snprintf_s (size + 1) (cstr data))"

definition post_ct :: "coap_pdu \<Rightarrow> int" where
  "post_ct request =
     (case first_option COAP_OPTION_CONTENT_TYPE request of
        None \<Rightarrow> -1 | Some v \<Rightarrow> to_int32 (int (unat v)))"

definition post_expiry :: "coap_pdu \<Rightarrow> int \<Rightarrow> int" where
  "post_expiry request now = abs_topic_max_age (first_option COAP_OPTION_MAXAGE request) now"

text \<open>
  The answer to a POST below the path \<open>base\<close>, from the content format of the request and
  its link; \<open>None\<close> is a request that brings the broker down.
\<close>

definition post_code ::
  "int \<Rightarrow> (cstring \<times> (cstring \<times> cstring) list) option result \<Rightarrow> cstring \<Rightarrow> cstring set \<Rightarrow> nat option" where
  "post_code ct link base uris =
     (case link of
        Inl _ \<Rightarrow> None
      | Inr None \<Rightarrow> if ct = 40 then Some 400 else None
      | Inr (Some (rel, l)) \<Rightarrow>
          if ct \<noteq> 40 then Some 400
          else (case map_of l ''ct'' of
                  None \<Rightarrow> Some 400
                | Some v \<Rightarrow>
                    if \<not> ct_ok v then Some 406
                    else if base @ CHR ''/'' # rel \<in> uris then Some 403 else Some 201))"

lemma hnd_post_same: "hnd_post_topic = hnd_post_broker"
  by (simp add: fun_eq_iff hnd_post_topic_def hnd_post_broker_def)

lemma parent_path:
  assumes ri: "resources_inv rs n" and r: "r \<in> set rs"
  shows "str_cstr (r_uri r) = Inr (uri_of r)" "str_length (r_uri r) = length (uri_of r)"
    "NUL \<notin> set (uri_of r)" "is_prefix ''ps/'' (uri_of r @ CHR ''/'' # rel)"
proof -
  show "str_cstr (r_uri r) = Inr (uri_of r)" by (rule resources_inv_cstr [OF ri r])
  have "str_length (r_uri r) = length (uri_of r) \<and> NUL \<notin> set (uri_of r) \<and>
      is_prefix ''ps/'' (uri_of r @ CHR ''/'' # rel)"
    using ri r
  proof (cases rule: resources_inv_cases)
    case 1
    then have "r_uri r = literal broker_path 2" "uri_of r = ''ps''"
      using broker_res_uri [of r] by (simp_all add: broker_res_def broker_path_def)
    then show ?thesis by (simp add: literal_def)
  next
    case (2 u a)
    then have "r_uri r = heap_string u" "uri_of r = u" "NUL \<notin> set u" "is_prefix ''ps/'' u"
      using topic_res_uri_of [of r u a] by (auto simp: topic_res_def)
    then show ?thesis by (auto simp: is_prefix_iff)
  qed
  then show "str_length (r_uri r) = length (uri_of r)" "NUL \<notin> set (uri_of r)"
    "is_prefix ''ps/'' (uri_of r @ CHR ''/'' # rel)" by simp_all
qed

lemma hnd_post_unterminated:
  "\<not> terminated request \<Longrightarrow> hnd_post_broker rid request response st =
     Inl (if fst (coap_get_data request) then Out_of_bounds else Null_deref)"
  by (simp add: hnd_post_broker_def payload_string_unterminated split: prod.splits)

lemma hnd_post_start:
  assumes inv: "broker_inv st xs [] l" and r: "r \<in> set (resources (ctx st))" and tm: "terminated request"
  shows "hnd_post_broker (r_id r) request response st =
    bindR (parseLinkFormat (post_payload request) r RNull) (\<lambda>(status, new_resource).
      post_parsed status new_resource (post_ct request) (post_expiry request (clock st)) response st)"
proof -
  have get: "get_resource (r_id r) st = Inr r"
    using inv r by (intro get_resource_found) (auto simp: broker_inv_def)
  then show ?thesis
    using payload_string_terminated [OF tm]
    by (simp add: hnd_post_broker_def post_payload_def post_ct_def post_expiry_def Let_def split: prod.splits)
qed

text \<open>The parser's verdict, and the decisions after it.\<close>

lemma hnd_post_link:
  assumes inv: "broker_inv st xs [] l" and r: "r \<in> set (resources (ctx st))" and tm: "terminated request"
  shows "link_of (post_payload request) = Inl e \<Longrightarrow> hnd_post_broker (r_id r) request response st = Inl e"
    and "link_of (post_payload request) = Inr None \<Longrightarrow> \<exists>p\<in>{RNull, RDangling}.
      hnd_post_broker (r_id r) request response st =
        post_parsed 0 p (post_ct request) (post_expiry request (clock st)) response st"
    and "link_of (post_payload request) = Inr (Some (rel, as)) \<Longrightarrow>
      hnd_post_broker (r_id r) request response st =
        post_parsed 1 (RValid (topic_resource (uri_of r @ CHR ''/'' # rel) as)) (post_ct request)
          (post_expiry request (clock st)) response st"
proof -
  have "resources_inv (resources (ctx st)) (next_id (ctx st))" using inv by (simp add: broker_inv_def)
  note par = parent_path [OF this r]
  note parse = parse_post [OF par(1,2), of "post_payload request"]
  note start = hnd_post_start [OF inv r tm, of response]
  show "link_of (post_payload request) = Inl e \<Longrightarrow> hnd_post_broker (r_id r) request response st = Inl e"
    using parse unfolding start by simp
  show "link_of (post_payload request) = Inr None \<Longrightarrow> \<exists>p\<in>{RNull, RDangling}.
      hnd_post_broker (r_id r) request response st =
        post_parsed 0 p (post_ct request) (post_expiry request (clock st)) response st"
    using parse unfolding start by auto
  show "link_of (post_payload request) = Inr (Some (rel, as)) \<Longrightarrow>
      hnd_post_broker (r_id r) request response st =
        post_parsed 1 (RValid (topic_resource (uri_of r @ CHR ''/'' # rel) as)) (post_ct request)
          (post_expiry request (clock st)) response st"
    using parse unfolding start by simp
qed

definition answer :: "nat \<Rightarrow> coap_pdu \<Rightarrow> broker \<Rightarrow> (coap_pdu \<times> broker) result" where
  "answer n response st = bindR (reply_phrase n response) (\<lambda>response. Inr (response, st))"

lemma post_parsed_resource:
  assumes ri: "resources_inv (resources (ctx st)) n"
    and nul: "NUL \<notin> set uri" "\<forall>(n, v)\<in>set as. NUL \<notin> set n \<and> NUL \<notin> set v"
  shows "post_parsed 1 (RValid (topic_resource uri as)) ct ma response st =
    (if ct \<noteq> 40 then answer 400 response st
     else case map_of as ''ct'' of
       None \<Rightarrow> answer 400 response st
     | Some v \<Rightarrow>
         if \<not> ct_ok v then answer 406 response st
         else if uri \<in> uri_of ` set (resources (ctx st))
         then topic_exists uri (topic_resource uri as) ma response st
         else topic_created uri (topic_resource uri as) ma response st)"
proof -
  have "find_uri uri (resources (ctx st)) = Inr (uri \<in> uri_of ` set (resources (ctx st)))"
    using resources_inv_cstr [OF ri] by (intro find_uri_run) simp
  moreover have "str_cstr (r_uri (topic_resource uri as)) = Inr uri"
    using nul(1) by (simp add: topic_resource_def str_cstr_heap_string)
  moreover have "NUL \<notin> set v" if "map_of as ''ct'' = Some v" for v
    using nul(2) map_of_SomeD [OF that] by auto
  ultimately show ?thesis
    by (auto simp: post_parsed_def answer_def find_ct ct_value_heap split: option.splits)
qed

lemma post_parsed_none:
  assumes "p \<in> {RNull, RDangling}"
  shows "post_parsed 0 p ct ma response st =
    (if ct \<noteq> 40 then Inl (if p = RNull then Assert_failed else Double_free) else answer 400 response st)"
  using assms by (auto simp: post_parsed_def answer_def coapFreeResource_def)

text \<open>The three ways a POST ends.\<close>

lemma hnd_post_fault:
  assumes inv: "broker_inv st xs [] l" and r: "r \<in> set (resources (ctx st))"
    and none: "post_code (post_ct request) (link_of (post_payload request)) (uri_of r)
      (uri_of ` set (resources (ctx st))) = None"
  shows "\<exists>e. hnd_post_broker (r_id r) request response st = Inl e \<and>
    (if terminated request
     then (case link_of (post_payload request) of
             Inl f \<Rightarrow> e = f | Inr _ \<Rightarrow> e \<in> {Assert_failed, Double_free})
     else e \<in> {Out_of_bounds, Null_deref})"
proof (cases "terminated request")
  case False
  then show ?thesis using hnd_post_unterminated by simp
next
  case True
  then show ?thesis
    using none hnd_post_link(1) [OF inv r True, of _ response] hnd_post_link(2) [OF inv r True, of response] post_parsed_none
    by (fastforce simp: post_code_def split: sum.splits option.splits if_splits)
qed

lemma hnd_post_refused:
  assumes inv: "broker_inv st xs [] l" and r: "r \<in> set (resources (ctx st))" and tm: "terminated request"
    and resp: "pdu_data response = None"
    and code: "post_code (post_ct request) (link_of (post_payload request)) (uri_of r)
      (uri_of ` set (resources (ctx st))) = Some n" "n \<in> {400, 406}"
  shows "hnd_post_broker (r_id r) request response st = answer n response st"
proof (cases "link_of (post_payload request)")
  case (Inl e)
  then show ?thesis using code by (simp add: post_code_def)
next
  case (Inr lo)
  have ri: "resources_inv (resources (ctx st)) (next_id (ctx st))" using inv by (simp add: broker_inv_def)
  show ?thesis
  proof (cases lo)
    case None
    then have "post_ct request = 40" "n = 400" using code Inr by (auto simp: post_code_def split: if_splits)
    then show ?thesis
      using hnd_post_link(2) [OF inv r tm, of response] Inr None post_parsed_none by fastforce
  next
    case (Some p)
    obtain rel as where p: "p = (rel, as)" by (cases p)
    have nul: "NUL \<notin> set (uri_of r @ CHR ''/'' # rel)"
      using parent_path(3) [OF ri r] link_of_chars(2) [of "post_payload request" rel as] Inr Some p by simp
    show ?thesis
      using code Inr Some p hnd_post_link(3) [OF inv r tm, of rel as response]
        post_parsed_resource [OF ri nul link_of_chars(3) [of "post_payload request"]]
      by (auto simp: post_code_def split: option.splits if_splits)
  qed
qed

lemma hnd_post_accepted:
  assumes inv: "broker_inv st xs [] l" and r: "r \<in> set (resources (ctx st))" and tm: "terminated request"
    and code: "post_code (post_ct request) (link_of (post_payload request)) (uri_of r)
      (uri_of ` set (resources (ctx st))) = Some n" "n \<notin> {400, 406}"
  obtains rel as where "link_of (post_payload request) = Inr (Some (rel, as))"
    "\<And>i. topic_res ((fresh_topic (uri_of r @ CHR ''/'' # rel) as)\<lparr>r_id := i\<rparr>) (uri_of r @ CHR ''/'' # rel) as"
    "uri_of r @ CHR ''/'' # rel \<in> uri_of ` set (resources (ctx st)) \<Longrightarrow> n = 403 \<and>
     hnd_post_broker (r_id r) request response st =
       topic_exists (uri_of r @ CHR ''/'' # rel) (topic_resource (uri_of r @ CHR ''/'' # rel) as)
         (post_expiry request (clock st)) response st"
    "uri_of r @ CHR ''/'' # rel \<notin> uri_of ` set (resources (ctx st)) \<Longrightarrow> n = 201 \<and>
     hnd_post_broker (r_id r) request response st =
       topic_created (uri_of r @ CHR ''/'' # rel) (topic_resource (uri_of r @ CHR ''/'' # rel) as)
         (post_expiry request (clock st)) response st"
proof -
  have ri: "resources_inv (resources (ctx st)) (next_id (ctx st))" using inv by (simp add: broker_inv_def)
  obtain rel as where l: "link_of (post_payload request) = Inr (Some (rel, as))"
    using code by (auto simp: post_code_def split: sum.splits option.splits if_splits)
  note ch = link_of_chars [OF l]
  have nul: "NUL \<notin> set (uri_of r @ CHR ''/'' # rel)"
    using parent_path(3) [OF ri r] ch(2) by simp
  obtain v where v: "map_of as ''ct'' = Some v" "ct_ok v" "post_ct request = 40"
    using code l by (auto simp: post_code_def split: option.splits if_splits)
  have t: "topic_res ((fresh_topic (uri_of r @ CHR ''/'' # rel) as)\<lparr>r_id := i\<rparr>) (uri_of r @ CHR ''/'' # rel) as" for i
    by (rule fresh_topic_res [OF nul parent_path(4) [OF ri r] ch(3) v(1,2)])
  show ?thesis
    by (rule that [OF l t])
      (use code l v hnd_post_link(3) [OF inv r tm l, of response] post_parsed_resource [OF ri nul ch(3)] in
        \<open>auto simp: post_code_def\<close>)
qed

text \<open>POST keeps the invariant, and answers every request that does not bring the broker down.\<close>

lemma hnd_post_ends:
  assumes inv: "broker_inv st xs [] l" and r: "r \<in> set (resources (ctx st))"
    and resp: "pdu_data response = None"
    and B: "B \<Longrightarrow> post_code (post_ct request) (link_of (post_payload request)) (uri_of r)
      (uri_of ` set (resources (ctx st))) \<noteq> None"
    and T: "B \<Longrightarrow> terminated request"
  shows "ends B (hnd_post_broker (r_id r) request response st)
    (\<lambda>(resp, st'). (\<exists>xs' l'. broker_inv st' xs' [] l') \<and>
      r_id ` set (resources (ctx st)) \<subseteq> r_id ` set (resources (ctx st')))"
proof (cases "terminated request")
  case False
  then show ?thesis using hnd_post_unterminated T by auto
next
  case tm: True
  show ?thesis
  proof (cases "post_code (post_ct request) (link_of (post_payload request)) (uri_of r)
      (uri_of ` set (resources (ctx st)))")
  case None
  then show ?thesis using hnd_post_fault [OF inv r, of request response] B by auto
next
  case (Some n)
  show ?thesis
  proof (cases "n \<in> {400, 406}")
    case True
    have "\<exists>q. reply_phrase n response = Inr q"
      using True reply_phrase_free [OF resp] response_phrases(3,7) by (metis empty_iff insert_iff)
    then show ?thesis
      using hnd_post_refused [OF inv r tm resp Some True] inv by (fastforce simp: answer_def)
  next
    case False
    show ?thesis
    proof (rule hnd_post_accepted [OF inv r tm Some False, of response])
      fix rel as
      let ?u = "uri_of r @ CHR ''/'' # rel"
      assume t: "\<And>i. topic_res ((fresh_topic ?u as)\<lparr>r_id := i\<rparr>) ?u as"
        and e: "?u \<in> uri_of ` set (resources (ctx st)) \<Longrightarrow> n = 403 \<and>
          hnd_post_broker (r_id r) request response st =
            topic_exists ?u (topic_resource ?u as) (post_expiry request (clock st)) response st"
        and c: "?u \<notin> uri_of ` set (resources (ctx st)) \<Longrightarrow> n = 201 \<and>
          hnd_post_broker (r_id r) request response st =
            topic_created ?u (topic_resource ?u as) (post_expiry request (clock st)) response st"
      show ?thesis
      proof (cases "?u \<in> uri_of ` set (resources (ctx st))")
        case True
        obtain d q l' where "topic_exists ?u (topic_resource ?u as) (post_expiry request (clock st)) response st =
            Inr (q, (note_topic_max_age (post_expiry request (clock st)) st)\<lparr>topics := d\<rparr>)"
          "broker_inv ((note_topic_max_age (post_expiry request (clock st)) st)\<lparr>topics := d\<rparr>)
            (update_first ?u (renewed (post_expiry request (clock st))) xs) [] l'"
          using topic_exists_run [OF inv resp] by blast
        then show ?thesis using e True by auto
      next
        case False
        then have u: "?u \<notin> set (map uri_of (resources (ctx st)))" by simp
        obtain d q where d: "topic_created ?u (topic_resource ?u as) (post_expiry request (clock st)) response st =
            Inr (q, created ?u as (post_expiry request (clock st)) d st)"
          "\<exists>xs' l'. broker_inv (created ?u as (post_expiry request (clock st)) d st) xs' [] l'"
          using topic_created_run [OF inv u t _ resp, of "post_expiry request (clock st)"] by blast
        have "r_id ` set (resources (ctx st)) \<subseteq>
            r_id ` set (resources (ctx (created ?u as (post_expiry request (clock st)) d st)))"
          by (auto simp: created_def coap_add_resource_def RESOURCES_ADD_def)
        then show ?thesis using c False d by simp
      qed
    qed
  qed
qed
qed

section \<open>What a POST does\<close>

lemma answer_run:
  assumes "pdu_data response = None" "n \<in> {400, 406}"
  shows "\<exists>resp. answer n response st = Inr (resp, st) \<and> hdr_code resp = COAP_RESPONSE_CODE n"
proof -
  have "\<exists>ph. coap_response_phrase (COAP_RESPONSE_CODE n) = Some ph" using assms(2) response_phrases by auto
  then obtain q where "reply_phrase n response = Inr q" "hdr_code q = COAP_RESPONSE_CODE n"
    using reply_phrase_free [OF assms(1)] by metis
  then show ?thesis by (simp add: answer_def)
qed

lemma post_code_values:
  "post_code ct link base uris = Some n \<Longrightarrow> n \<in> {201, 400, 403, 406}"
  by (auto simp: post_code_def split: sum.splits option.splits if_splits)

lemma post_not_created:
  assumes inv: "broker_inv st xs [] l" and r: "r \<in> set (resources (ctx st))" and tm: "terminated request"
    and resp: "pdu_data response = None"
    and code: "post_code (post_ct request) (link_of (post_payload request)) (uri_of r)
      (uri_of ` set (resources (ctx st))) = Some n" and n: "n \<noteq> 201"
  shows "\<exists>resp st'. hnd_post_broker (r_id r) request response st = Inr (resp, st') \<and>
    hdr_code resp = COAP_RESPONSE_CODE n \<and>
    (if n = 403
     then \<exists>rel as l'. link_of (post_payload request) = Inr (Some (rel, as)) \<and>
       broker_inv st' (update_first (uri_of r @ CHR ''/'' # rel) (renewed (post_expiry request (clock st))) xs) [] l'
     else st' = st)"
proof (cases "n \<in> {400, 406}")
  case True
  then show ?thesis using hnd_post_refused [OF inv r tm resp code True] answer_run [OF resp True, of st] by auto
next
  case False
  let ?uri = "\<lambda>rel. uri_of r @ CHR ''/'' # rel"
  obtain rel as where k: "link_of (post_payload request) = Inr (Some (rel, as))"
    "?uri rel \<in> uri_of ` set (resources (ctx st)) \<Longrightarrow> n = 403 \<and>
     hnd_post_broker (r_id r) request response st = topic_exists (?uri rel) (topic_resource (?uri rel) as)
       (post_expiry request (clock st)) response st"
    "?uri rel \<notin> uri_of ` set (resources (ctx st)) \<Longrightarrow> n = 201"
    using hnd_post_accepted [OF inv r tm code False, of response] by blast
  obtain d resp' l' where "topic_exists (?uri rel) (topic_resource (?uri rel) as) (post_expiry request (clock st)) response st =
      Inr (resp', (note_topic_max_age (post_expiry request (clock st)) st)\<lparr>topics := d\<rparr>)"
    "hdr_code resp' = COAP_RESPONSE_CODE 403"
    "broker_inv ((note_topic_max_age (post_expiry request (clock st)) st)\<lparr>topics := d\<rparr>)
      (update_first (?uri rel) (renewed (post_expiry request (clock st))) xs) [] l'"
    using topic_exists_run [OF inv resp] by blast
  then show ?thesis using k n by auto
qed

lemma post_created:
  assumes inv: "broker_inv st xs [] l" and r: "r \<in> set (resources (ctx st))" and tm: "terminated request"
    and resp: "pdu_data response = None"
    and code: "post_code (post_ct request) (link_of (post_payload request)) (uri_of r)
      (uri_of ` set (resources (ctx st))) = Some 201"
  shows "\<exists>rel as d resp. link_of (post_payload request) = Inr (Some (rel, as)) \<and>
    hnd_post_broker (r_id r) request response st =
      Inr (resp, created (uri_of r @ CHR ''/'' # rel) as (post_expiry request (clock st)) d st) \<and>
    hdr_code resp = COAP_RESPONSE_CODE 201 \<and>
    broker_inv (created (uri_of r @ CHR ''/'' # rel) as (post_expiry request (clock st)) d st)
      (if avail (topics st) = 0 then xs
       else xs @ [new_topic (uri_of r @ CHR ''/'' # rel) (length (uri_of r @ CHR ''/'' # rel))
              (post_expiry request (clock st))]) [] l"
proof -
  let ?uri = "\<lambda>rel. uri_of r @ CHR ''/'' # rel"
  obtain rel as where k: "link_of (post_payload request) = Inr (Some (rel, as))"
    "\<And>i. topic_res ((fresh_topic (?uri rel) as)\<lparr>r_id := i\<rparr>) (?uri rel) as"
    "?uri rel \<in> uri_of ` set (resources (ctx st)) \<Longrightarrow> (201 :: nat) = 403"
    "?uri rel \<notin> uri_of ` set (resources (ctx st)) \<Longrightarrow>
     hnd_post_broker (r_id r) request response st = topic_created (?uri rel) (topic_resource (?uri rel) as)
       (post_expiry request (clock st)) response st"
    by (rule hnd_post_accepted [OF inv r tm code, of response]) (simp, blast)
  have new: "?uri rel \<notin> set (map uri_of (resources (ctx st)))" using k(3) by auto
  show ?thesis
    using topic_created_run [OF inv new k(2), of response "post_expiry request (clock st)"] k(1,4) new resp by auto
qed

end
