(* ===== verification/Discovery.thy ===== *)
theory Discovery
  imports TopicPost
begin

text \<open>
  GET on the broker: which topics a discovery request lists, the text of the list, and how
  the list is sent.
\<close>

section \<open>The link of a topic\<close>

lemma attrs_size_heap:
  "attrs_size (map heap_attr as) = length (concat (map attr_text (map heap_attr as)))"
  by (induction as) (auto simp: heap_attr_def attr_text_def)

lemma link_size:
  assumes "topic_res r u a"
  shows "calculateResourceLF r = length (link_text r)"
  using assms attrs_size_heap [of a]
  by (simp add: calculateResourceLF_def link_text_def topic_res_def)

lemma link_no_NUL:
  assumes "topic_res r u a"
  shows "NUL \<notin> set (link_text r)"
  using assms
  by (auto simp: link_text_def topic_res_def attr_text_def heap_attr_def code_def split: if_splits)

lemma topic_link:
  assumes t: "topic_res r u a"
  shows "resource_link r = Inr (link_text r)"
  using print_link_text [OF topic_res_ok [OF t], of "length (link_text r)" 0] link_size [OF t]
    link_no_NUL [OF t] cstr_append_NUL [of "link_text r" "[]"]
  by (simp add: resource_link_def Let_def)

section \<open>Matching queries\<close>

text \<open>The queries of a request; a request is understood if the parser accepts each of them.\<close>

definition uri_queries :: "(nat \<times> char list) list \<Rightarrow> char list list" where
  "uri_queries opts = map snd (filter (\<lambda>(ty, v). ty = COAP_OPTION_URI_QUERY) opts)"

lemma uri_queries_simps [simp]:
  "uri_queries [] = []"
  "uri_queries ((ty, q) # opts) =
     (if ty = COAP_OPTION_URI_QUERY then q # uri_queries opts else uri_queries opts)"
  by (simp_all add: uri_queries_def)

definition query_of :: "char list \<Rightarrow> (cstring \<times> cstring) option" where
  "query_of val = (case parse_query (cstr val) of Inr (Query_ok n v) \<Rightarrow> Some (n, v) | _ \<Rightarrow> None)"

definition understood :: "(nat \<times> char list) list \<Rightarrow> bool" where
  "understood opts \<longleftrightarrow> (\<forall>q\<in>set (uri_queries opts). query_of q \<noteq> None)"

definition has_attr :: "coap_resource \<Rightarrow> char list \<Rightarrow> bool" where
  "has_attr r q =
     (case query_of q of
        None \<Rightarrow> False
      | Some (n, v) \<Rightarrow>
          (case find (attr_named n) (link_attr r) of
             None \<Rightarrow> False | Some a \<Rightarrow> str_text (attr_value a) = v))"

lemma query_of_Some: "query_of q = Some (n, v) \<longleftrightarrow> parse_query (cstr q) = Inr (Query_ok n v)"
  by (auto simp: query_of_def split: sum.splits query_result.splits)

lemma heap_attr_text: "str_text (attr_value (heap_attr (n, v))) = v"
  by (simp add: heap_attr_def)

text \<open>
  The queries are read as C strings from the message: each needs a terminator in its value or
  behind it.
\<close>

abbreviation (input) values_of :: "(nat \<times> char list \<times> char list) list \<Rightarrow> (nat \<times> char list) list" where
  "values_of \<equiv> map (\<lambda>(ty, v, r). (ty, v))"

definition queries_end :: "(nat \<times> char list \<times> char list) list \<Rightarrow> bool" where
  "queries_end opts \<longleftrightarrow> (\<forall>(ty, v, r)\<in>set opts. ty = COAP_OPTION_URI_QUERY \<longrightarrow> NUL \<in> set (v @ r))"

definition queries_terminated :: "coap_pdu \<Rightarrow> bool" where
  "queries_terminated request \<longleftrightarrow> queries_end (pdu_option_tails request)"

lemma match_queries_run:
  assumes t: "topic_res r u a" and "understood (values_of opts)"
  shows "match_queries r opts k =
    (if queries_end opts
     then Inr (Some (k + length (filter (has_attr r) (uri_queries (values_of opts)))))
     else Inl Out_of_bounds)"
  using assms(2)
proof (induction opts arbitrary: k)
  case Nil
  then show ?case by (simp add: queries_end_def)
next
  case (Cons p opts)
  obtain ty q rest where p: "p = (ty, q, rest)" by (cases p)
  have IH: "match_queries r opts j =
    (if queries_end opts
     then Inr (Some (j + length (filter (has_attr r) (uri_queries (values_of opts)))))
     else Inl Out_of_bounds)" for j
    using Cons p by (auto simp: understood_def split: if_splits)
  show ?case
  proof (cases "ty = COAP_OPTION_URI_QUERY")
    case False
    then show ?thesis using IH p by (simp add: queries_end_def)
  next
    case True
    then obtain n v where q: "query_of q = Some (n, v)" "parse_query (cstr q) = Inr (Query_ok n v)"
      using Cons.prems p by (auto simp: understood_def query_of_Some)
    have la: "link_attr r = map heap_attr a" and nul: "\<forall>(n, v)\<in>set a. NUL \<notin> set v"
      using t by (auto simp: topic_res_def)
    have e: "queries_end (p # opts) \<longleftrightarrow> NUL \<in> set (q @ rest) \<and> queries_end opts"
      using True by (simp add: queries_end_def p)
    note pq = parseOptionURIQuery_value [of q rest, unfolded q(2)]
    have f: "coap_find_attr (RValid r) n = Inr (map_option (\<lambda>v. heap_attr (n, v)) (map_of a n))"
      using coap_find_attr_ok [OF topic_res_ok [OF t], of n] la by (simp add: find_heap_attr)
    show ?thesis
    proof (cases "map_of a n")
      case None
      then have "\<not> has_attr r q" using q(1) la by (simp add: has_attr_def find_heap_attr)
      then show ?thesis using IH pq f None True by (simp add: e) (simp add: p)
    next
      case (Some w)
      have w: "NUL \<notin> set w" using nul map_of_SomeD [OF Some] by auto
      have h: "has_attr r q \<longleftrightarrow> w = v"
        using q(1) la Some heap_attr_text [of n w] by (simp add: has_attr_def find_heap_attr)
      have av: "str_s (attr_value (heap_attr (n, w))) = Some (w @ [NUL])"
        "str_cstr (attr_value (heap_attr (n, w))) = Inr w"
        using w by (simp_all add: heap_attr_def str_cstr_heap_string)
      have "length (filter (has_attr r) (uri_queries (values_of (p # opts)))) =
          (if w = v then 1 else 0) + length (filter (has_attr r) (uri_queries (values_of opts)))"
        using p True h by simp
      moreover have "match_queries r (p # opts) k =
          (if NUL \<in> set (q @ rest) then match_queries r opts (if w = v then k + 1 else k) else Inl Out_of_bounds)"
        using pq f Some av True by (simp add: p compareString_def)
      ultimately show ?thesis using IH by (simp add: e)
    qed
  qed
qed

section \<open>The list of links\<close>

definition listed :: "(nat \<times> char list) list \<Rightarrow> coap_resource \<Rightarrow> bool" where
  "listed opts r \<longleftrightarrow>
     length (uri_of r) > 3 \<and> is_prefix ''ps/'' (uri_of r) \<and> (\<forall>q\<in>set (uri_queries opts). has_attr r q)"

fun comma_list :: "cstring list \<Rightarrow> cstring option" where
  "comma_list [] = None"
| "comma_list [s] = Some s"
| "comma_list (s # t # ss) = Some (s @ '','' @ the (comma_list (t # ss)))"

lemma comma_list_None [simp]: "comma_list ss = None \<longleftrightarrow> ss = []"
  by (induction ss rule: comma_list.induct) auto

lemma comma_list_snoc:
  "comma_list (ss @ [s]) = Some (case comma_list ss of None \<Rightarrow> s | Some t \<Rightarrow> t @ '','' @ s)"
  by (induction ss rule: comma_list.induct) (auto split: option.splits)

lemma prefix_ps:
  "length u > 3 \<Longrightarrow> (u ! 0 = CHR ''p'' \<and> u ! 1 = CHR ''s'' \<and> u ! 2 = CHR ''/'') = is_prefix ''ps/'' u"
  by (cases u; cases "tl u"; cases "tl (tl u)") (auto simp: numeral_2_eq_2)

lemma all_filter_length: "length xs = length (filter P xs) \<longleftrightarrow> (\<forall>x\<in>set xs. P x)"
  using length_filter_less [of _ xs P] by (metis filter_True nless_le)

lemma discover_run:
  assumes ri: "resources_inv all n" and sub: "set rs \<subseteq> set all" and und: "understood (values_of tails)"
    and qe: "queries_end tails" and opts: "opts = values_of tails"
  shows "discover tails (length (uri_queries opts)) rs (length done) (comma_list done) =
    Inr (Links (length (done @ map link_text (filter (listed opts) rs)))
      (comma_list (done @ map link_text (filter (listed opts) rs))))"
  using sub
proof (induction rs arbitrary: "done")
  case Nil
  then show ?case by simp
next
  case (Cons r rs)
  have r: "r \<in> set all" using Cons.prems by simp
  have cstr: "str_cstr (r_uri r) = Inr (uri_of r)" by (rule resources_inv_cstr [OF ri r])
  show ?case
  proof (cases "length (uri_of r) > 3 \<and> is_prefix ''ps/'' (uri_of r)")
    case False
    then show ?thesis
      using cstr Cons.IH [of "done"] Cons.prems prefix_ps [of "uri_of r"] by (auto simp: listed_def)
  next
    case True
    then obtain a where t: "topic_res r (uri_of r) a"
      by (auto elim: resources_inv_prefix [OF ri r])
    have m: "match_queries r tails 0 = Inr (Some (length (filter (has_attr r) (uri_queries opts))))"
      using match_queries_run [OF t und, of 0] qe opts by simp
    have l: "listed opts r \<longleftrightarrow> length (uri_queries opts) = length (filter (has_attr r) (uri_queries opts))"
      using True all_filter_length [of "uri_queries opts" "has_attr r"] by (simp add: listed_def)
    have c: "dynamicConcatenate
        (if length done + 1 = 1 then None else dynamicConcatenate (comma_list done) (Some '',''))
        (Some (link_text r)) = comma_list (done @ [link_text r])"
      using comma_list_snoc [of "done" "link_text r"]
      by (cases "comma_list done") (auto simp: dynamicConcatenate_def)
    have c1: "dynamicConcatenate (comma_list done) (Some (link_text r)) = comma_list (done @ [link_text r])"
      if "done = []" using that by (simp add: dynamicConcatenate_def)
    show ?thesis
    proof (cases "listed opts r")
      case False
      then show ?thesis using cstr True m l prefix_ps [of "uri_of r"] Cons.IH [of "done"] Cons.prems by simp
    next
      case lr: True
      have "discover tails (length (uri_queries opts)) (r # rs) (length done) (comma_list done) =
          discover tails (length (uri_queries opts)) rs (length (done @ [link_text r]))
            (comma_list (done @ [link_text r]))"
        using cstr True m l lr prefix_ps [of "uri_of r"] topic_link [OF t] c c1 by (auto simp: Let_def)
      then show ?thesis using Cons.IH [of "done @ [link_text r]"] Cons.prems lr by simp
    qed
  qed
qed

text \<open>
  As soon as there is a topic to match them against, a query without a terminator is read past
  the end of the message.
\<close>

lemma discover_unterminated:
  assumes ri: "resources_inv all n" and sub: "set rs \<subseteq> set all" and und: "understood (values_of tails)"
    and qe: "\<not> queries_end tails"
    and some: "\<exists>r\<in>set rs. length (uri_of r) > 3 \<and> is_prefix ''ps/'' (uri_of r)"
  shows "discover tails k rs c ls = Inl Out_of_bounds"
  using sub some
proof (induction rs)
  case Nil
  then show ?case by simp
next
  case (Cons r rs)
  have r: "r \<in> set all" using Cons.prems by simp
  have cstr: "str_cstr (r_uri r) = Inr (uri_of r)" by (rule resources_inv_cstr [OF ri r])
  show ?case
  proof (cases "length (uri_of r) > 3 \<and> is_prefix ''ps/'' (uri_of r)")
    case False
    then have "discover tails k rs c ls = Inl Out_of_bounds" using Cons by auto
    then show ?thesis using False cstr prefix_ps [of "uri_of r"] by auto
  next
    case True
    then obtain a where t: "topic_res r (uri_of r) a"
      by (auto elim: resources_inv_prefix [OF ri r])
    show ?thesis
      using True cstr prefix_ps [of "uri_of r"] match_queries_run [OF t und, of 0] qe by simp
  qed
qed

section \<open>Sending a block\<close>

text \<open>A response with the content format in place, and room for a block of 1024 bytes.\<close>

definition links_pdu :: "coap_pdu \<Rightarrow> bool" where
  "links_pdu p \<longleftrightarrow>
     pdu_abs p [(COAP_OPTION_CONTENT_TYPE, coap_encode_var_bytes COAP_MEDIATYPE_APPLICATION_LINK_FORMAT)] None \<and>
     max_delta p = COAP_OPTION_CONTENT_TYPE \<and> pdu_length p \<le> 20 \<and> max_size p = COAP_MAX_PDU_SIZE"

lemma links_pdu_start:
  assumes p: "pdu_abs response [] None" "pdu_length response \<le> 12" "max_size response = COAP_MAX_PDU_SIZE"
  obtains q where "add_uint_option COAP_OPTION_CONTENT_TYPE COAP_MEDIATYPE_APPLICATION_LINK_FORMAT response = Inr q"
    "links_pdu q" "hdr_token q = hdr_token response"
proof -
  have "max_delta response = 0" using p(1) by (auto simp: pdu_abs_def elim: encodesE)
  then obtain q where "add_uint_option COAP_OPTION_CONTENT_TYPE COAP_MEDIATYPE_APPLICATION_LINK_FORMAT response = Inr q"
    "pdu_abs q ([] @ [(COAP_OPTION_CONTENT_TYPE, coap_encode_var_bytes COAP_MEDIATYPE_APPLICATION_LINK_FORMAT)]) None"
    "max_delta q = COAP_OPTION_CONTENT_TYPE" "pdu_length q \<le> pdu_length response + 8"
    "max_size q = max_size response" "hdr_token q = hdr_token response"
    by (rule_tac add_uint_option_ok [OF p(1), of COAP_MEDIATYPE_APPLICATION_LINK_FORMAT COAP_OPTION_CONTENT_TYPE])
      (use p in auto)
  then show ?thesis using that p by (simp add: links_pdu_def)
qed

definition block_slice :: "char list \<Rightarrow> nat \<Rightarrow> nat \<Rightarrow> char list" where
  "block_slice data n szx = take (2 ^ (szx + 4)) (drop (n * 2 ^ (szx + 4)) data)"

definition block_more :: "char list \<Rightarrow> nat \<Rightarrow> nat \<Rightarrow> bool" where
  "block_more data n szx \<longleftrightarrow> (n + 1) * 2 ^ (szx + 4) < length data"

lemma block_start_small:
  assumes "n \<le> 0xFFFFF" "szx \<le> 6"
  shows "block_start n szx = unat n * 2 ^ (szx + 4)"
proof -
  have n: "unat n \<le> 0xFFFFF" using assms(1) by (simp add: word_le_nat_alt)
  have "unat n * 2 ^ (szx + 4) \<le> 0xFFFFF * 2 ^ (6 + 4)"
    using n assms(2) by (intro mult_le_mono power_increasing) auto
  then have "unat n * 2 ^ (szx + 4) < 2 ^ 32" by simp
  then have "take_bit 32 (push_bit (szx + 4) (unat n)) = unat n * 2 ^ (szx + 4)"
    by (simp add: push_bit_eq_mult take_bit_eq_mod)
  then show ?thesis unfolding block_start_def unsigned_push_bit_eq by simp
qed

lemma uint_small: "uint (x :: u32) < 2 ^ 24 \<longleftrightarrow> unat x < 2 ^ 24"
  unfolding unat_eq_nat_uint by (simp add: nat_less_iff del: nat_uint_eq)

lemma block_value_small:
  assumes "blk_num b \<le> 0xFFFFF" "blk_szx b \<le> 7"
  shows "unat (block_value b) < 2 ^ 24"
proof -
  have n: "unat (blk_num b) \<le> 0xFFFFF" using assms(1) by (simp add: word_le_nat_alt)
  then have "take_bit 32 (push_bit 4 (unat (blk_num b))) < 2 ^ 24"
    by (simp add: push_bit_eq_mult take_bit_eq_mod)
  then have 1: "unat (push_bit 4 (blk_num b)) < 2 ^ 24" unfolding unsigned_push_bit_eq by simp
  have 2: "unat (if blk_m b then 8 else 0 :: u32) < 2 ^ 24" by simp
  have "(of_nat (blk_szx b) :: u32) \<le> 7" using assms(2) by (simp add: word_le_nat_alt unsigned_of_nat take_bit_eq_mod)
  then have 3: "unat (of_nat (blk_szx b) :: u32) < 2 ^ 24" by (simp add: word_le_nat_alt)
  have or_small: "unat (v OR w) < 2 ^ 24" if "unat v < 2 ^ 24" "unat w < 2 ^ 24" for v w :: u32
  proof -
    have "uint v OR uint w < 2 ^ 24"
      using that by (intro OR_upper) (simp_all only: uint_small unsigned_greater_eq)
    then have "uint (v OR w) < 2 ^ 24" by (simp only: unsigned_or_eq)
    then show ?thesis by (simp only: uint_small)
  qed
  show ?thesis unfolding block_value_def by (intro or_small 1 2 3)
qed

lemma write_block_run:
  assumes p: "links_pdu p" and b: "blk_num b \<le> 0xFFFFF" "blk_szx b \<le> 6"
    and in_data: "unat (blk_num b) * 2 ^ (blk_szx b + 4) < length data"
  obtains q b' where "coap_write_block_opt b COAP_OPTION_BLOCK2 p (length data) = (1, b', q)"
    "b' = b\<lparr>blk_m := block_more data (unat (blk_num b)) (blk_szx b)\<rparr>"
    "pdu_abs q [(COAP_OPTION_CONTENT_TYPE, coap_encode_var_bytes COAP_MEDIATYPE_APPLICATION_LINK_FORMAT),
       (COAP_OPTION_BLOCK2, coap_encode_var_bytes (block_value b'))] None"
    "pdu_length q \<le> 28" "max_size q = COAP_MAX_PDU_SIZE"
    "hdr_code q = hdr_code p" "hdr_token q = hdr_token p"
proof -
  let ?w = "2 ^ (blk_szx b + 4) :: nat"
  let ?m = "?w < length data - unat (blk_num b) * ?w"
  let ?b = "b\<lparr>blk_m := ?m\<rparr>"
  have m: "?m = block_more data (unat (blk_num b)) (blk_szx b)"
    using in_data by (auto simp: block_more_def)
  have st: "block_start (blk_num b) (blk_szx b) = unat (blk_num b) * ?w" by (rule block_start_small [OF b])
  have "?w \<le> 2 ^ 10" using b(2) by (intro power_increasing) auto
  moreover have "2 ^ 10 \<le> block_avail p"
    using p by (auto simp: links_pdu_def block_avail_def le_nat_iff)
  ultimately have av: "?w \<le> block_avail p" by (rule le_trans)
  have small: "unat (block_value ?b) < 2 ^ 24" by (rule block_value_small) (use b in auto)
  have len: "length (coap_encode_var_bytes (block_value ?b)) \<le> 3" using small by (rule length_encode_small)
  have sp: "opt_space 11 (length (coap_encode_var_bytes (block_value ?b))) \<le> 8"
    using opt_space_le [of 11 "length (coap_encode_var_bytes (block_value ?b))"] len by simp
  have abs: "pdu_abs p [(COAP_OPTION_CONTENT_TYPE, coap_encode_var_bytes COAP_MEDIATYPE_APPLICATION_LINK_FORMAT)] None"
    "max_delta p = 12" "pdu_length p \<le> 20" "max_size p = 1400"
    using p by (simp_all add: links_pdu_def)
  have len4: "opt_size_ok (length (coap_encode_var_bytes (block_value ?b)))"
    using len by (simp add: opt_size_ok_def)
  have o11: "opt_size_ok (23 - max_delta p)" using abs(2) by (simp add: opt_size_ok_def)
  have d: "max_delta p \<le> 23" "23 < (65536 :: nat)"
    "pdu_length p + opt_space (23 - max_delta p) (length (coap_encode_var_bytes (block_value ?b))) \<le> max_size p"
    using sp abs by simp_all
  obtain q where q: "coap_add_option p 23 (coap_encode_var_bytes (block_value ?b)) =
      (opt_space (23 - max_delta p) (length (coap_encode_var_bytes (block_value ?b))), q)"
    "pdu_abs q ([(12, coap_encode_var_bytes 40)] @ [(23, coap_encode_var_bytes (block_value ?b))]) None"
    "pdu_length q = pdu_length p + opt_space (23 - max_delta p) (length (coap_encode_var_bytes (block_value ?b)))"
    "max_size q = max_size p" "hdr_code q = hdr_code p" "hdr_token q = hdr_token p"
    by (rule pdu_add_option_abs [OF abs(1) d(1,2) o11 len4 d(3)])
  have "coap_write_block_opt b COAP_OPTION_BLOCK2 p (length data) = (1, ?b, q)"
    using in_data av q(1) unfolding coap_write_block_opt_def st by (simp add: Let_def)
  then show ?thesis
    using that [of ?b q] q sp abs m by simp
qed

text \<open>The whole answer of a block, and of a list that needs no blocks.\<close>

lemma send_block:
  assumes p: "links_pdu p" and b: "blk_num b \<le> 0xFFFFF" "blk_szx b \<le> 6"
    and in_data: "unat (blk_num b) * 2 ^ (blk_szx b + 4) < length data"
  obtains q q' b' where "coap_write_block_opt b COAP_OPTION_BLOCK2 p (length data) = (1, b', q)"
    "blk_num b' = blk_num b" "blk_szx b' = blk_szx b"
    "blk_m b' = block_more data (unat (blk_num b)) (blk_szx b)"
    "coap_add_block q data (blk_num b) (blk_szx b) = Inr (1, q')" "hdr_token q' = hdr_token p"
    "pdu_abs q' [(COAP_OPTION_CONTENT_TYPE, coap_encode_var_bytes COAP_MEDIATYPE_APPLICATION_LINK_FORMAT),
       (COAP_OPTION_BLOCK2, coap_encode_var_bytes (block_value b'))]
      (Some (block_slice data (unat (blk_num b)) (blk_szx b)))"
proof -
  let ?opts = "\<lambda>b'. [(COAP_OPTION_CONTENT_TYPE, coap_encode_var_bytes COAP_MEDIATYPE_APPLICATION_LINK_FORMAT),
       (COAP_OPTION_BLOCK2, coap_encode_var_bytes (block_value b'))]"
  let ?s = "block_slice data (unat (blk_num b)) (blk_szx b)"
  obtain q b' where q: "coap_write_block_opt b COAP_OPTION_BLOCK2 p (length data) = (1, b', q)"
    "b' = b\<lparr>blk_m := block_more data (unat (blk_num b)) (blk_szx b)\<rparr>" "pdu_abs q (?opts b') None"
    "pdu_length q \<le> 28" "max_size q = COAP_MAX_PDU_SIZE" "hdr_token q = hdr_token p"
    by (rule write_block_run [OF p b in_data])
  have "length ?s \<le> 2 ^ (blk_szx b + 4)" by (simp add: block_slice_def)
  also have "\<dots> \<le> 2 ^ 10" using b(2) by (intro power_increasing) auto
  finally have len: "pdu_length q + length ?s + 1 \<le> max_size q" using q(4,5) by simp
  have ne: "?s \<noteq> []" using in_data by (simp add: block_slice_def)
  obtain q' where q': "coap_add_data q ?s = Inr (1, q')" "pdu_abs q' (?opts b') (Some ?s)"
    "hdr_token q' = hdr_token q"
    by (rule pdu_add_data_abs [OF q(3) ne len])
  have "take (min (length data - k) w) (drop k data) = take w (drop k data)" for k w
    by (cases "length data - k \<le> w") (simp_all add: min_def)
  then have "coap_add_block q data (blk_num b) (blk_szx b) = coap_add_data q ?s"
    using in_data unfolding coap_add_block_def block_start_small [OF b] block_slice_def by simp
  then show ?thesis using that [of b' q q'] q q' by simp
qed

text \<open>The blocks of a list, put together, are the list.\<close>

lemma blocks_concat:
  "k * 2 ^ (szx + 4) \<ge> length data \<Longrightarrow> concat (map (\<lambda>n. block_slice data n szx) [0..<k]) = data"
proof -
  have "concat (map (\<lambda>n. block_slice data n szx) [0..<k]) = take (k * 2 ^ (szx + 4)) data" for k
  proof (induction k)
    case 0
    then show ?case by simp
  next
    case (Suc k)
    then show ?case by (simp add: block_slice_def take_add [symmetric] add.commute)
  qed
  then show "k * 2 ^ (szx + 4) \<ge> length data \<Longrightarrow> concat (map (\<lambda>n. block_slice data n szx) [0..<k]) = data"
    by simp
qed

section \<open>The handler\<close>

definition discovered :: "coap_pdu \<Rightarrow> broker \<Rightarrow> cstring option" where
  "discovered request st =
     comma_list (map link_text (filter (listed (pdu_options request)) (resources (ctx st))))"

lemma query_count:
  "length (filter (\<lambda>(ty, _). ty = COAP_OPTION_URI_QUERY) (pdu_option_tails request)) =
   length (uri_queries (pdu_options request))"
proof -
  have "length (filter (\<lambda>(ty, _). ty = COAP_OPTION_URI_QUERY) tails) = length (uri_queries (values_of tails))"
    for tails :: "(nat \<times> char list \<times> char list) list"
    by (induction tails) auto
  then show ?thesis by (simp only: pdu_option_tails_options)
qed

lemma hnd_get_broker_run:
  assumes inv: "broker_inv st xs cs l" and und: "understood (pdu_options request)"
    and qt: "queries_terminated request"
  shows "hnd_get_broker request response st =
    (case discovered request st of
       None \<Rightarrow> answer 404 response st
     | Some data \<Rightarrow>
         bindR (add_uint_option COAP_OPTION_CONTENT_TYPE COAP_MEDIATYPE_APPLICATION_LINK_FORMAT response) (\<lambda>response.
         bindR (send_links (Some request) data response) (\<lambda>response. Inr (response, st))))"
proof -
  let ?opts = "pdu_options request"
  let ?ls = "map link_text (filter (listed ?opts) (resources (ctx st)))"
  have ri: "resources_inv (resources (ctx st)) (next_id (ctx st))" using inv by (simp add: broker_inv_def)
  let ?tails = "pdu_option_tails request"
  note po = pdu_option_tails_options [of request]
  have d: "discover ?tails (length (uri_queries ?opts)) (resources (ctx st)) 0 None =
      Inr (Links (length ?ls) (comma_list ?ls))"
    using discover_run [OF ri subset_refl und [folded po] qt [unfolded queries_terminated_def] refl, of "[]"]
    by (simp add: po)
  note len = query_count [of request]
  show ?thesis
  proof (cases "?ls = []")
    case True
    then show ?thesis using d len
      by (simp add: hnd_get_broker_def discovered_def answer_def Let_def del: map_is_Nil_conv)
  next
    case False
    then obtain data where data: "comma_list ?ls = Some data" by (metis comma_list_None not_None_eq)
    then show ?thesis using d len False
      by (simp add: hnd_get_broker_def discovered_def Let_def bindR_assoc del: map_is_Nil_conv)
  qed
qed

text \<open>The answers of \<open>send_links\<close>: the whole list, its first block, the block asked for, no such block.\<close>

lemma get_block_none: "coap_get_block request ty = (False, b) \<Longrightarrow> blk_num b = 0"
  by (auto simp: coap_get_block_def Let_def split: option.splits if_splits)

lemma get_block_some: "coap_get_block request ty = (True, b) \<Longrightarrow> blk_num b \<le> 0xFFFFF \<and> blk_szx b \<le> 7"
  by (auto simp: coap_get_block_def Let_def not_less split: option.splits if_splits)

lemma send_links_whole:
  assumes p: "links_pdu p" and no: "coap_get_block (Some request) COAP_OPTION_BLOCK2 = (False, b)"
    and data: "data \<noteq> []" "pdu_length p + length data + 1 \<le> COAP_MAX_PDU_SIZE"
  obtains q where "send_links (Some request) data p = Inr q" "hdr_code q = COAP_RESPONSE_CODE 205"
    "hdr_token q = hdr_token p"
    "pdu_abs q [(COAP_OPTION_CONTENT_TYPE, coap_encode_var_bytes COAP_MEDIATYPE_APPLICATION_LINK_FORMAT)] (Some data)"
proof -
  have room: "pdu_length p + length data + 1 \<le> max_size p" using p data(2) by (simp add: links_pdu_def)
  have abs: "pdu_abs p [(12, coap_encode_var_bytes 40)] None" using p by (simp add: links_pdu_def)
  obtain q where "coap_add_data p data = Inr (1, q)" "pdu_abs q [(12, coap_encode_var_bytes 40)] (Some data)"
    "hdr_token q = hdr_token p"
    by (rule pdu_add_data_abs [OF abs data(1) room])
  then show ?thesis using that [of "q\<lparr>hdr_code := COAP_RESPONSE_CODE 205\<rparr>"] no by (simp add: send_links_def)
qed

lemma send_links_first:
  assumes p: "links_pdu p" and no: "coap_get_block (Some request) COAP_OPTION_BLOCK2 = (False, b)"
    and data: "COAP_MAX_PDU_SIZE < pdu_length p + length data + 1"
  obtains q b' where "send_links (Some request) data p = Inr q" "hdr_code q = COAP_RESPONSE_CODE 205"
    "hdr_token q = hdr_token p" "blk_num b' = 0" "blk_szx b' = 6" "blk_m b'"
    "pdu_abs q [(COAP_OPTION_CONTENT_TYPE, coap_encode_var_bytes COAP_MEDIATYPE_APPLICATION_LINK_FORMAT),
       (COAP_OPTION_BLOCK2, coap_encode_var_bytes (block_value b'))] (Some (block_slice data 0 6))"
proof -
  have n0: "blk_num b = 0" by (rule get_block_none [OF no])
  have abs: "pdu_abs p [(12, coap_encode_var_bytes 40)] None" "max_size p = 1400" "pdu_length p \<le> 20"
    using p by (simp_all add: links_pdu_def)
  have long: "1379 < length data" using data abs(3) by simp
  have rej: "coap_add_data p data = Inr (0, p)"
    using data abs(2) long by (intro pdu_add_data_rejected [OF abs(1)]) auto
  let ?b = "b\<lparr>blk_szx := 6\<rparr>"
  have b: "blk_num ?b \<le> 0xFFFFF" "blk_szx ?b \<le> 6" "unat (blk_num ?b) * 2 ^ (blk_szx ?b + 4) < length data"
    using n0 long by auto
  obtain q q' b' where q: "coap_write_block_opt ?b 23 p (length data) = (1, b', q)"
    "blk_num b' = blk_num ?b" "blk_szx b' = blk_szx ?b"
    "blk_m b' = block_more data (unat (blk_num ?b)) (blk_szx ?b)"
    "coap_add_block q data (blk_num ?b) (blk_szx ?b) = Inr (1, q')" "hdr_token q' = hdr_token p"
    "pdu_abs q' [(12, coap_encode_var_bytes 40), (23, coap_encode_var_bytes (block_value b'))]
      (Some (block_slice data (unat (blk_num ?b)) (blk_szx ?b)))"
    by (rule send_block [OF p b])
  show ?thesis
    using that [of "q'\<lparr>hdr_code := COAP_RESPONSE_CODE 205\<rparr>" b'] no rej q n0 long
    by (simp add: send_links_def block_more_def)
qed

lemma send_links_block:
  assumes p: "links_pdu p" and b: "coap_get_block (Some request) COAP_OPTION_BLOCK2 = (True, b)" "blk_szx b \<le> 6"
    and in_data: "unat (blk_num b) * 2 ^ (blk_szx b + 4) < length data"
  obtains q b' where "send_links (Some request) data p = Inr q" "hdr_code q = COAP_RESPONSE_CODE 205"
    "hdr_token q = hdr_token p" "blk_num b' = blk_num b" "blk_szx b' = blk_szx b"
    "blk_m b' = block_more data (unat (blk_num b)) (blk_szx b)"
    "pdu_abs q [(COAP_OPTION_CONTENT_TYPE, coap_encode_var_bytes COAP_MEDIATYPE_APPLICATION_LINK_FORMAT),
       (COAP_OPTION_BLOCK2, coap_encode_var_bytes (block_value b'))]
      (Some (block_slice data (unat (blk_num b)) (blk_szx b)))"
proof -
  have n: "blk_num b \<le> 0xFFFFF" using get_block_some [OF b(1)] by simp
  obtain q q' b' where q: "coap_write_block_opt b 23 p (length data) = (1, b', q)"
    "blk_num b' = blk_num b" "blk_szx b' = blk_szx b"
    "blk_m b' = block_more data (unat (blk_num b)) (blk_szx b)"
    "coap_add_block q data (blk_num b) (blk_szx b) = Inr (1, q')" "hdr_token q' = hdr_token p"
    "pdu_abs q' [(12, coap_encode_var_bytes 40), (23, coap_encode_var_bytes (block_value b'))]
      (Some (block_slice data (unat (blk_num b)) (blk_szx b)))"
    by (rule send_block [OF p n b(2) in_data])
  show ?thesis
    using that [of "q'\<lparr>hdr_code := COAP_RESPONSE_CODE 205\<rparr>" b'] b q by (simp add: send_links_def)
qed

lemma send_links_beyond:
  assumes b: "coap_get_block (Some request) COAP_OPTION_BLOCK2 = (True, b)" "blk_szx b \<le> 6"
    and beyond: "length data \<le> unat (blk_num b) * 2 ^ (blk_szx b + 4)"
  shows "send_links (Some request) data p = reply_phrase 400 p"
proof -
  have "coap_write_block_opt b COAP_OPTION_BLOCK2 p (length data) = (-2, b, p)"
    using beyond get_block_some [OF b(1)] b(2)
    by (simp add: coap_write_block_opt_def block_start_small Let_def)
  then show ?thesis using b(1) by (simp add: send_links_def)
qed

text \<open>A discovery request changes nothing, and one that is understood is always answered.\<close>

lemma add_data_free: "pdu_data p = None \<Longrightarrow> \<exists>n q. coap_add_data p data = Inr (n, q) \<and> (n = 0 \<longrightarrow> pdu_data q = None)"
  by (simp add: coap_add_data_def)

lemma add_block_free: "pdu_data p = None \<Longrightarrow> \<exists>n q. coap_add_block p data k s = Inr (n, q)"
  using add_data_free [of p "take (min (length data - block_start k s) (2 ^ (s + 4))) (drop (block_start k s) data)"]
  by (auto simp: coap_add_block_def Let_def)

lemma write_block_free:
  "pdu_data p = None \<Longrightarrow> coap_write_block_opt b ty p n = (res, b', q) \<Longrightarrow>
   pdu_data q = None \<and> res \<in> {1, -2, -3}"
  by (auto simp: coap_write_block_opt_def Let_def add_option_data_None split: if_splits)

lemma send_links_total:
  assumes "pdu_data p = None"
  shows "\<exists>q. send_links request data p = Inr q"
proof (cases request)
  case None
  then show ?thesis by (simp add: send_links_def)
next
  case (Some req)
  obtain found b where g: "coap_get_block (Some req) 23 = (found, b)" by fastforce
  show ?thesis
  proof (cases found)
    case True
    obtain res b' q where w: "coap_write_block_opt b 23 p (length data) = (res, b', q)" by (metis surj_pair)
    note f = write_block_free [OF assms w]
    obtain n q' where a: "coap_add_block q data (blk_num b') (blk_szx b') = Inr (n, q')"
      using add_block_free f by blast
    obtain r1 r2 where "reply_phrase 400 q = Inr r1" "reply_phrase 500 q = Inr r2"
      using reply_phrase_free f response_phrases(3,9) by metis
    then show ?thesis using Some g True w f a by (auto simp: send_links_def)
  next
    case False
    obtain n q where d: "coap_add_data p data = Inr (n, q)" "n = 0 \<longrightarrow> pdu_data q = None"
      using add_data_free [OF assms] by blast
    obtain res b' q' where w: "coap_write_block_opt (b\<lparr>blk_szx := 6\<rparr>) 23 q (length data) = (res, b', q')"
      by (metis surj_pair)
    then show ?thesis
      using Some g False d add_block_free [of q' data "blk_num b'" "blk_szx b'"] write_block_free [OF _ w]
      by (auto simp: send_links_def)
  qed
qed

lemma hnd_get_broker_ends:
  assumes inv: "broker_inv st xs cs l" and resp: "pdu_data response = None"
    and und: "B \<Longrightarrow> understood (pdu_options request)" and qt: "B \<Longrightarrow> queries_terminated request"
  shows "ends B (hnd_get_broker request response st) (\<lambda>(resp, st'). st' = st)"
proof (rule ends_cases)
  fix x assume "hnd_get_broker request response st = Inr x"
  then show "(\<lambda>(resp, st'). st' = st) x"
    by (auto simp: hnd_get_broker_def Let_def bindR_eq_Inr)
next
  fix e assume e: "hnd_get_broker request response st = Inl e"
  show "\<not> B"
  proof
    assume B
    have "length (coap_encode_var_bytes 40) \<le> 3" by (rule length_encode_small) simp
    then obtain p where p: "add_uint_option COAP_OPTION_CONTENT_TYPE COAP_MEDIATYPE_APPLICATION_LINK_FORMAT response = Inr p"
      "pdu_data p = None"
      by (simp add: add_uint_option_def encode_buf3_def add_option_data_None Let_def)
    obtain r where "reply_phrase 404 response = Inr r"
      using reply_phrase_free [OF resp] response_phrases(5) by metis
    then show False
      using e hnd_get_broker_run [OF inv und [OF \<open>B\<close>] qt [OF \<open>B\<close>], of response] p
        send_links_total [OF p(2), of "Some request" "the (discovered request st)"]
      by (auto simp: answer_def bindR_def split: option.splits sum.splits)
  qed
qed

lemma hnd_get_broker_links:
  assumes inv: "broker_inv st xs cs l" and und: "understood (pdu_options request)" and qt: "queries_terminated request"
    and some: "discovered request st = Some data"
    and p: "pdu_abs response [] None" "pdu_length response \<le> 12" "max_size response = COAP_MAX_PDU_SIZE"
  obtains q where "links_pdu q" "hdr_token q = hdr_token response"
    "hnd_get_broker request response st = bindR (send_links (Some request) data q) (\<lambda>response. Inr (response, st))"
proof -
  obtain q where q: "add_uint_option COAP_OPTION_CONTENT_TYPE COAP_MEDIATYPE_APPLICATION_LINK_FORMAT response = Inr q"
    "links_pdu q" "hdr_token q = hdr_token response"
    by (rule links_pdu_start [OF p])
  show ?thesis by (rule that [OF q(2,3)]) (simp add: hnd_get_broker_run [OF inv und qt] some q(1))
qed

lemma discovered_nonempty: "discovered request st = Some data \<Longrightarrow> data \<noteq> []"
proof -
  have ne: "link_text r \<noteq> []" for r by (simp add: link_text_def)
  have "comma_list ss = Some d \<Longrightarrow> \<forall>s\<in>set ss. s \<noteq> [] \<Longrightarrow> d \<noteq> []" for ss d
    by (induction ss rule: comma_list.induct) auto
  then show "discovered request st = Some data \<Longrightarrow> data \<noteq> []"
    unfolding discovered_def using ne by (auto simp del: comma_list.simps)
qed

lemma hnd_get_broker_whole:
  assumes inv: "broker_inv st xs cs l" and und: "understood (pdu_options request)" and qt: "queries_terminated request"
    and some: "discovered request st = Some data"
    and p: "pdu_abs response [] None" "pdu_length response \<le> 12" "max_size response = COAP_MAX_PDU_SIZE"
    and no: "\<not> fst (coap_get_block (Some request) COAP_OPTION_BLOCK2)" and len: "length data \<le> 1300"
  shows "\<exists>resp. hnd_get_broker request response st = Inr (resp, st) \<and> hdr_code resp = COAP_RESPONSE_CODE 205 \<and>
    hdr_token resp = hdr_token response \<and>
    pdu_abs resp [(COAP_OPTION_CONTENT_TYPE, coap_encode_var_bytes COAP_MEDIATYPE_APPLICATION_LINK_FORMAT)] (Some data)"
proof -
  obtain q where q: "links_pdu q" "hdr_token q = hdr_token response"
    "hnd_get_broker request response st = bindR (send_links (Some request) data q) (\<lambda>response. Inr (response, st))"
    by (rule hnd_get_broker_links [OF inv und qt some p])
  obtain b where b: "coap_get_block (Some request) COAP_OPTION_BLOCK2 = (False, b)" using no by (metis prod.collapse)
  have room: "pdu_length q + length data + 1 \<le> COAP_MAX_PDU_SIZE" using q(1) len by (simp add: links_pdu_def)
  obtain resp where "send_links (Some request) data q = Inr resp" "hdr_code resp = COAP_RESPONSE_CODE 205"
    "hdr_token resp = hdr_token q"
    "pdu_abs resp [(COAP_OPTION_CONTENT_TYPE, coap_encode_var_bytes COAP_MEDIATYPE_APPLICATION_LINK_FORMAT)] (Some data)"
    by (rule send_links_whole [OF q(1) b discovered_nonempty [OF some] room])
  then show ?thesis using q(2,3) by simp
qed

lemma hnd_get_broker_unterminated:
  assumes inv: "broker_inv st xs cs l" and und: "understood (pdu_options request)" and qt: "\<not> queries_terminated request"
    and some: "discovered request st = Some data"
  shows "hnd_get_broker request response st = Inl Out_of_bounds"
proof -
  have ri: "resources_inv (resources (ctx st)) (next_id (ctx st))" using inv by (simp add: broker_inv_def)
  have "filter (listed (pdu_options request)) (resources (ctx st)) \<noteq> []"
    using some by (auto simp: discovered_def simp del: filter_empty_conv)
  then have "\<exists>r\<in>set (resources (ctx st)). length (uri_of r) > 3 \<and> is_prefix ''ps/'' (uri_of r)"
    by (auto simp: listed_def filter_empty_conv)
  then have "discover (pdu_option_tails request) k (resources (ctx st)) 0 None = Inl Out_of_bounds" for k
    using discover_unterminated [OF ri subset_refl] und qt
    by (simp add: pdu_option_tails_options queries_terminated_def)
  then show ?thesis by (simp add: hnd_get_broker_def Let_def)
qed

text \<open>A client that asks for one block after the other gets the whole list.\<close>

lemma send_links_reassembles:
  assumes p: "links_pdu p" and szx: "szx \<le> 6"
    and rq: "\<forall>n<k. \<exists>b. coap_get_block (Some (rq n)) COAP_OPTION_BLOCK2 = (True, b) \<and> unat (blk_num b) = n \<and> blk_szx b = szx"
    and len: "\<forall>n<k. n * 2 ^ (szx + 4) < length data" "length data \<le> k * 2 ^ (szx + 4)"
  shows "\<exists>resps. length resps = k \<and> (\<forall>n<k. send_links (Some (rq n)) data p = Inr (resps ! n)) \<and>
    concat (map (\<lambda>q. snd (snd (coap_get_data q))) resps) = data"
proof -
  have "\<exists>q. send_links (Some (rq n)) data p = Inr q \<and> snd (snd (coap_get_data q)) = block_slice data n szx" if n: "n < k" for n
  proof -
    obtain b where b: "coap_get_block (Some (rq n)) COAP_OPTION_BLOCK2 = (True, b)" "unat (blk_num b) = n" "blk_szx b = szx"
      using rq n by blast
    have le: "blk_szx b \<le> 6" using b(3) szx by simp
    have in_data: "unat (blk_num b) * 2 ^ (blk_szx b + 4) < length data" using len(1) n b(2,3) by simp
    obtain q b' where "send_links (Some (rq n)) data p = Inr q"
      "pdu_abs q [(COAP_OPTION_CONTENT_TYPE, coap_encode_var_bytes COAP_MEDIATYPE_APPLICATION_LINK_FORMAT),
         (COAP_OPTION_BLOCK2, coap_encode_var_bytes (block_value b'))]
        (Some (block_slice data (unat (blk_num b)) (blk_szx b)))"
      by (rule send_links_block [OF p b(1) le in_data])
    then show ?thesis using b(2,3) by (simp add: pdu_abs_get_data)
  qed
  then obtain f where f: "\<And>n. n < k \<Longrightarrow> send_links (Some (rq n)) data p = Inr (f n) \<and>
      snd (snd (coap_get_data (f n))) = block_slice data n szx"
    by metis
  have "map (\<lambda>q. snd (snd (coap_get_data q))) (map f [0..<k]) = map (\<lambda>n. block_slice data n szx) [0..<k]"
    using f by simp
  then have "concat (map (\<lambda>q. snd (snd (coap_get_data q))) (map f [0..<k])) = data"
    by (simp only: blocks_concat [OF len(2)])
  then show ?thesis using f by (intro exI [of _ "map f [0..<k]"]) (simp del: map_map)
qed

end
