(* ===== verification/Monitors.thy ===== *)
theory Monitors
  imports Discovery
begin

text \<open>
  The expiry monitors: a pass over the database resets exactly the expired data and removes
  exactly the expired topics, with their resources, and leaves no lock held.
\<close>

section \<open>Visiting a node\<close>

text \<open>The nodes of the database, as a list of addresses; it is unique.\<close>

definition db_nodes :: "db \<Rightarrow> addr list \<Rightarrow> bool" where
  "db_nodes d as \<longleftrightarrow> path_to (heap d) (topicDB d) as None"

definition first_ptr :: "addr list \<Rightarrow> addr option" where
  "first_ptr as = (case as of [] \<Rightarrow> None | a # _ \<Rightarrow> Some a)"

lemma path_to_first: "path_to h p as None \<Longrightarrow> p = first_ptr as"
  by (cases as) (auto simp: first_ptr_def)

lemma db_abs_nodes:
  assumes "db_abs d xs cs l" "db_nodes d as"
  shows "xs = map (node_topic d) as" "db_rep d as (map fst cs)"
proof -
  obtain bs where bs: "db_rep d bs (map fst cs)" "xs = map (node_topic d) bs"
    using assms(1) by (rule db_absE)
  have "as = bs"
    using db_rep_path [OF bs(1)] assms(2) path_to_unique unfolding db_nodes_def by metis
  then show "xs = map (node_topic d) as" "db_rep d as (map fst cs)" using bs by simp_all
qed

lemma db_abs_has_nodes:
  assumes "db_abs d xs cs l"
  obtains as where "db_nodes d as" "length as = length xs"
  using assms by (rule db_absE) (auto simp: db_nodes_def dest: db_rep_path intro: that)

lemma db_nodes_split:
  assumes abs: "db_abs d xs cs l" and as: "db_nodes d (us @ c # vs)"
  obtains n where "heap d c = Some n" "unlocked n" "nextPtr n = first_ptr vs"
    "node_topic d c = topic.truncate n" "node_topic d c \<in> set xs"
proof -
  note r = db_abs_nodes [OF abs as]
  obtain n where n: "heap d c = Some n" "unlocked n" using db_rep_node [OF r(2), of c] by auto
  moreover have "nextPtr n = first_ptr vs"
    using as n(1) by (auto simp: db_nodes_def path_to_append dest: path_to_first)
  moreover have "node_topic d c = topic.truncate n" using n by (simp add: node_topic_def)
  moreover have "node_topic d c \<in> set xs" using r(1) by simp
  ultimately show ?thesis by (rule that)
qed

text \<open>A node read-locked twice, and back.\<close>

definition rlocked2 :: "addr \<Rightarrow> db \<Rightarrow> db" where
  "rlocked2 a d = d\<lparr>heap := (heap d)(a \<mapsto>
     (the (heap d a))\<lparr>node_lock := Readers 1, data_lock := Readers 1\<rparr>)\<rparr>"

lemma topicDataRLock_rlocked:
  "heap d a = Some n \<Longrightarrow> unlocked n \<Longrightarrow> topicDataRLock a (rlocked a d) = Inr (rlocked2 a d)"
  by (simp add: node_op_defs rlocked_def rlocked2_def unlocked_def)

lemma topicDataUnlock_rlocked2:
  assumes "heap d a = Some n" "unlocked n"
  shows "topicDataUnlock a (rlocked2 a d) = Inr (rlocked a d)"
proof -
  have e: "n\<lparr>node_lock := Readers 1, data_lock := Unlocked\<rparr> = n\<lparr>node_lock := Readers 1\<rparr>"
    using assms(2) by (cases n) (simp add: unlocked_def)
  have "rlocked a d = d\<lparr>heap := (heap d)(a \<mapsto> n\<lparr>node_lock := Readers 1, data_lock := Unlocked\<rparr>)\<rparr>"
    unfolding e by (simp add: rlocked_def assms(1))
  then show ?thesis using assms by (simp add: node_op_defs rlocked2_def unlocked_def)
qed

lemmas visit_simps = topicNodeRLock_unlocked load_rlocked topicDataRLock_rlocked
  topicDataUnlock_rlocked2 topicNodeUnlock_rlocked

lemma on_topics_Inr: "f (topics st) = Inr d \<Longrightarrow> on_topics f st = Inr (st\<lparr>topics := d\<rparr>)"
  by (simp add: on_topics_def)

lemma data_monitor_step:
  assumes "heap (topics st) c = Some n" "unlocked n"
  shows "data_monitor_loop (Suc k) (Some c) acc st =
     bindR
       (if expired (clock st) (td_data_ma n)
        then with_db (deleteTopicData (Some (td_path n))) st else Inr (0, st)) (\<lambda>(_, st').
     data_monitor_loop k (nextPtr n) (next_earliest (td_data_ma n) (earliest_data_max_age st) acc) st')"
  using assms by (simp add: on_topics_def visit_simps Let_def expired_def)

section \<open>Expired data\<close>

definition without_data :: "topic \<Rightarrow> topic" where
  "without_data t = t\<lparr>td_data := None, td_data_ma := 0\<rparr>"

definition expire_data :: "int \<Rightarrow> topic \<Rightarrow> topic" where
  "expire_data now t = (if expired now (td_data_ma t) then without_data t else t)"

lemma update_first_map:
  "distinct (paths xs) \<Longrightarrow> update_first p f xs = map (\<lambda>t. if td_path t = p then f t else t) xs"
proof (induction xs)
  case Nil
  then show ?case by simp
next
  case (Cons t xs)
  have "map (\<lambda>s. if td_path s = p then f s else s) xs = xs" if "td_path t = p"
    using Cons.prems that by (intro map_idI) (auto simp: paths_def, metis image_eqI)
  with Cons show ?case by (auto simp: paths_def)
qed

text \<open>Resetting the data of the node under the cursor keeps the nodes.\<close>

lemma delete_data_at:
  assumes abs: "db_abs d xs cs l" and as: "db_nodes d (us @ c # vs)" and dis: "distinct (paths xs)"
    and n: "heap d c = Some n"
  obtains d' where "deleteTopicData (Some (td_path n)) d = Inr (1, d')" "db_nodes d' (us @ c # vs)"
    "db_abs d' (update_first (td_path n) without_data xs) cs l" "avail d' = avail d" "brk d' = brk d"
proof -
  note r = db_abs_nodes [OF abs as]
  have "distinct (map (\<lambda>a. td_path (the (heap d a))) (us @ c # vs))"
    using dis unfolding r(1) by (simp add: paths_def o_def node_topic_def)
  then have "\<forall>a\<in>set us. td_path (the (heap d a)) \<noteq> td_path n" using n by force
  then have "find_addr d (us @ c # vs) (td_path n) = Some c"
    using n by (simp add: find_addr_def find_skip)
  then have g: "getTopic (Some (td_path n)) d = Inr (Some c, d)" using getTopic_rep [OF r(2)] by simp
  have u: "unlocked n" by (rule db_rep_unlocked [OF r(2) n])
  note run = deleteTopicData_found [OF g n u]
  let ?d = "d\<lparr>heap := (heap d)(c \<mapsto> n\<lparr>td_data := None, td_data_ma := 0\<rparr>), strings := strings d - count_data n\<rparr>"
  have "db_nodes ?d (us @ c # vs)"
    using as n unfolding db_nodes_def by (auto intro!: path_to_frame [of "heap d"])
  moreover have "db_abs ?d (update_first (td_path n) without_data xs) cs l"
  proof -
    have "(\<lambda>t. t\<lparr>td_data := None, td_data_ma := 0\<rparr>) = without_data" by (simp add: fun_eq_iff without_data_def)
    then show ?thesis using deleteTopicData_refines [OF abs, of "td_path n"] run by auto
  qed
  ultimately show ?thesis using that run by simp
qed

definition next_expiry :: "(topic \<Rightarrow> int) \<Rightarrow> int \<Rightarrow> topic list \<Rightarrow> int \<Rightarrow> int" where
  "next_expiry f e xs acc = fold (\<lambda>t. next_earliest (f t) e) xs acc"

lemma next_expiry_simps [simp]:
  "next_expiry f e [] acc = acc"
  "next_expiry f e (t # xs) acc = next_expiry f e xs (next_earliest (f t) e acc)"
  by (simp_all add: next_expiry_def)

lemma next_expiry_le_acc: "next_expiry f e xs acc \<le> acc"
proof (induction xs arbitrary: acc)
  case Nil
  then show ?case by simp
next
  case (Cons t xs)
  have "next_earliest (f t) e acc \<le> acc" by (simp add: next_earliest_def)
  then show ?case using Cons.IH [of "next_earliest (f t) e acc"] by simp
qed

lemma next_expiry_bound: "t \<in> set xs \<Longrightarrow> f t \<noteq> 0 \<Longrightarrow> f t \<noteq> e \<Longrightarrow> next_expiry f e xs acc \<le> f t"
proof (induction xs arbitrary: acc)
  case Nil
  then show ?case by simp
next
  case (Cons s xs)
  then show ?case
    using next_expiry_le_acc [of f e xs "next_earliest (f s) e acc"]
    by (auto simp: next_earliest_def split: if_splits)
qed

lemma data_monitor_run:
  assumes "db_abs (topics st) xs cs l" "db_nodes (topics st) (us @ vs)" "distinct (paths xs)"
    and "length vs < k"
  shows "\<exists>d'. data_monitor_loop k (first_ptr vs) acc st =
      Inr (next_expiry td_data_ma (earliest_data_max_age st) (drop (length us) xs) acc, st\<lparr>topics := d'\<rparr>) \<and>
    db_abs d' (take (length us) xs @ map (expire_data (clock st)) (drop (length us) xs)) cs l \<and>
    avail d' = avail (topics st)"
  using assms
proof (induction vs arbitrary: us k acc st xs)
  case Nil
  then have "length xs = length us" using db_abs_nodes(1) [OF Nil.prems(1,2)] by simp
  with Nil show ?case by (cases k) (auto simp: first_ptr_def intro!: exI [of _ "topics st"])
next
  case (Cons c vs)
  from Cons.prems obtain k' where k: "k = Suc k'" by (cases k) auto
  let ?d = "topics st"
  obtain n where n: "heap ?d c = Some n" "unlocked n" "nextPtr n = first_ptr vs"
    "node_topic ?d c = topic.truncate n"
    by (rule db_nodes_split [OF Cons.prems(1,2)])
  have xs: "xs = map (node_topic ?d) us @ topic.truncate n # map (node_topic ?d) vs"
    using db_abs_nodes(1) [OF Cons.prems(1,2)] n(4) by simp
  define us' where "us' = us @ [c]"
  have us': "us @ c # vs = us' @ vs" "length us' = Suc (length us)" by (simp_all add: us'_def)
  let ?t = "topic.truncate n" and ?acc = "next_earliest (td_data_ma n) (earliest_data_max_age st) acc"
  have drop: "drop (length us) xs = ?t # drop (length us') xs" "take (length us') xs = take (length us) xs @ [?t]"
    unfolding xs us'_def by simp_all
  show ?case
  proof (cases "expired (clock st) (td_data_ma n)")
    case False
    have "\<exists>d'. data_monitor_loop k' (first_ptr vs) ?acc st =
        Inr (next_expiry td_data_ma (earliest_data_max_age st) (drop (length us') xs) ?acc, st\<lparr>topics := d'\<rparr>) \<and>
      db_abs d' (take (length us') xs @ map (expire_data (clock st)) (drop (length us') xs)) cs l \<and>
      avail d' = avail (topics st)"
      using Cons.prems k us' by (intro Cons.IH) auto
    moreover have "expire_data (clock st) ?t = ?t" using False by (simp add: expire_data_def)
    ultimately show ?thesis
      using False n(3) drop unfolding first_ptr_def [of "c # vs"] k
      by (simp add: data_monitor_step [OF n(1,2)] del: data_monitor_loop.simps)
  next
    case True
    obtain d1 where d1: "deleteTopicData (Some (td_path n)) ?d = Inr (1, d1)" "db_nodes d1 (us @ c # vs)"
      "db_abs d1 (update_first (td_path n) without_data xs) cs l" "avail d1 = avail ?d"
      by (rule delete_data_at [OF Cons.prems(1-3) n(1)])
    let ?xs = "update_first (td_path n) without_data xs"
    have p: "paths ?xs = paths xs" by (rule paths_update_first) (simp add: without_data_def)
    have "distinct (map td_path (map (node_topic ?d) us @ ?t # map (node_topic ?d) vs))"
      using Cons.prems(3) unfolding paths_def xs .
    then have m: "?xs = map (node_topic ?d) us @ without_data ?t # map (node_topic ?d) vs"
      unfolding update_first_map [OF Cons.prems(3)] unfolding xs by (auto simp: image_iff)
    have "\<exists>d'. data_monitor_loop k' (first_ptr vs) ?acc (st\<lparr>topics := d1\<rparr>) =
        Inr (next_expiry td_data_ma (earliest_data_max_age (st\<lparr>topics := d1\<rparr>)) (drop (length us') ?xs) ?acc,
          st\<lparr>topics := d1\<rparr>\<lparr>topics := d'\<rparr>) \<and>
      db_abs d' (take (length us') ?xs @ map (expire_data (clock (st\<lparr>topics := d1\<rparr>))) (drop (length us') ?xs)) cs l \<and>
      avail d' = avail (topics (st\<lparr>topics := d1\<rparr>))"
      using Cons.prems(3,4) k us' d1(2,3) p by (intro Cons.IH) auto
    moreover have "take (length us) xs = map (node_topic ?d) us" "drop (length us') xs = map (node_topic ?d) vs"
      unfolding xs us'_def by simp_all
    moreover have "drop (length us') ?xs = map (node_topic ?d) vs"
      "take (length us') ?xs = map (node_topic ?d) us @ [expire_data (clock st) ?t]"
      unfolding m us'_def using True by (simp_all add: expire_data_def)
    ultimately show ?thesis
      using True n(3) drop d1(1,4) unfolding first_ptr_def [of "c # vs"] k
      by (simp add: data_monitor_step [OF n(1,2)] with_db_def del: data_monitor_loop.simps)
  qed
qed

lemma unexpired:
  assumes "expiry_ok e f xs" "now \<le> e" "t \<in> set xs"
  shows "\<not> expired now (f t)"
  using assms by (force simp: expiry_ok_def expired_def)

text \<open>After a pass the earliest expiry time is again a lower bound.\<close>

lemma next_expiry_ok:
  assumes "e < now" "\<forall>t\<in>set ys. g t \<noteq> 0 \<longrightarrow> (\<exists>s\<in>set xs. f s = g t \<and> \<not> expired now (f s))"
  shows "expiry_ok (next_expiry f e xs acc) g ys"
  unfolding expiry_ok_def
proof (intro ballI impI)
  fix t assume "t \<in> set ys" "g t \<noteq> 0"
  then obtain s where s: "s \<in> set xs" "f s = g t" "\<not> expired now (f s)" "f s \<noteq> 0" using assms(2) by metis
  then have "f s \<noteq> e" using assms(1) by (auto simp: expired_def)
  then show "next_expiry f e xs acc \<le> g t" using next_expiry_bound [of s xs f e acc] s by simp
qed

lemma paths_map_expire: "paths (map (expire_data now) xs) = paths xs"
  by (auto simp: paths_def expire_data_def without_data_def)

lemma topics_ok_expire: "topics_ok xs \<Longrightarrow> topics_ok (map (expire_data now) xs)"
  unfolding topics_ok_def paths_map_expire by (auto simp: expire_data_def without_data_def split: if_splits)

lemma topicDataMAMonitor_run:
  assumes inv: "broker_inv st xs cs l"
  shows "\<exists>d e. topicDataMAMonitor st = Inr (st\<lparr>topics := d, earliest_data_max_age := e\<rparr>) \<and>
    broker_inv (st\<lparr>topics := d, earliest_data_max_age := e\<rparr>) (map (expire_data (clock st)) xs) cs l \<and>
    avail d = avail (topics st)"
proof -
  let ?d = "topics st" and ?now = "clock st" and ?e = "earliest_data_max_age st"
  have abs: "db_abs ?d xs cs l" and ok: "expiry_ok ?e td_data_ma xs" and dis: "distinct (paths xs)"
    using inv by (auto simp: broker_inv_def topics_ok_def)
  obtain as where as: "db_nodes ?d as" "length as = length xs" by (rule db_abs_has_nodes [OF abs])
  have start: "topicDB ?d = first_ptr as" using as(1) by (auto simp: db_nodes_def dest: path_to_first)
  show ?thesis
  proof (cases "topicDB ?d = None \<or> ?now \<le> ?e")
    case True
    have same: "map (expire_data ?now) xs = xs"
    proof (cases "?now \<le> ?e")
      case True
      then show ?thesis using unexpired [OF ok] by (intro map_idI) (simp add: expire_data_def)
    next
      case False
      then have "as = []" using True start by (cases as) (auto simp: first_ptr_def)
      then show ?thesis using as(2) by simp
    qed
    have "topicDataMAMonitor st = Inr st" using True by (auto simp: topicDataMAMonitor_def)
    then show ?thesis
      using inv unfolding same by (intro exI [of _ ?d] exI [of _ ?e]) simp
  next
    case False
    have "length as < Suc (brk ?d)" using db_rep_length [OF db_abs_nodes(2) [OF abs as(1)]] by simp
    then obtain d where d: "data_monitor_loop (Suc (brk ?d)) (first_ptr as) LONG_MAX st =
        Inr (next_expiry td_data_ma ?e xs LONG_MAX, st\<lparr>topics := d\<rparr>)"
      "db_abs d (map (expire_data ?now) xs) cs l" "avail d = avail ?d"
      using data_monitor_run [OF abs, of "[]" as "Suc (brk ?d)" LONG_MAX] as(1) dis by auto
    let ?n = "next_expiry td_data_ma ?e xs LONG_MAX"
    have e: "expiry_ok ?n td_data_ma (map (expire_data ?now) xs)"
      using False by (intro next_expiry_ok [of _ ?now])
        (auto simp: expire_data_def without_data_def)
    have t: "expiry_ok (earliest_topic_max_age st) td_topic_ma (map (expire_data ?now) xs)"
      using inv by (auto simp: broker_inv_def expiry_ok_def expire_data_def without_data_def)
    have "topicDataMAMonitor st = Inr (st\<lparr>topics := d, earliest_data_max_age := ?n\<rparr>)"
      using False d(1) start by (auto simp: topicDataMAMonitor_def simp del: data_monitor_loop.simps)
    then show ?thesis
      using inv d(2,3) e t topics_ok_expire
      by (intro exI [of _ d] exI [of _ ?n]) (auto simp: broker_inv_def paths_map_expire)
  qed
qed

section \<open>Expired topics\<close>

lemma delete_topic_at:
  assumes abs: "db_abs d xs cs l" and as: "db_nodes d (us @ c # vs)" and dis: "distinct (paths xs)"
    and n: "heap d c = Some n" and del: "deleteTopic (Some (td_path n)) d = Inr (1, d')"
  shows "db_nodes d' (us @ vs)"
proof -
  note r = db_abs_nodes [OF abs as]
  have "distinct (map (\<lambda>a. td_path (the (heap d a))) (us @ c # vs))"
    using dis unfolding r(1) by (simp add: paths_def o_def node_topic_def)
  then have m: "\<forall>a\<in>set us. td_path (the (heap d a)) \<noteq> td_path n" using n by force
  show ?thesis
  proof (cases us rule: rev_cases)
    case Nil
    with deleteTopic_head [of d c vs "map fst cs" n "td_path n"] r(2) n del
    have "topicDB d' = nextPtr n" "heap d' = (heap d)(c := None)" "brk d' = brk d" by auto
    then have "db_rep d' vs (map fst cs)"
      using db_rep_deleted_head [of d c vs "map fst cs" n d'] r(2) n Nil by simp
    then show ?thesis using Nil by (auto simp: db_nodes_def dest: db_rep_path)
  next
    case (snoc ws b)
    obtain a bs where ab: "us = a # bs" using snoc by (metis Nil_is_append_conv neq_Nil_conv)
    moreover have "last us = b" using snoc by simp
    ultimately have lb: "last (a # bs) = b" by simp
    obtain k where k: "heap d b = Some k" using db_rep_node [OF r(2), of b] snoc by auto
    have d': "topicDB d' = topicDB d" "heap d' = (heap d)(b \<mapsto> k\<lparr>nextPtr := nextPtr n\<rparr>, c := None)"
      "brk d' = brk d"
      using deleteTopic_later [of d a bs c vs "map fst cs" "td_path n" n b k] r(2) n del m ab lb k by auto
    have "db_rep d (ws @ [b, c] @ vs) (map fst cs)" using r(2) snoc by simp
    then have "db_rep d' (ws @ [b] @ vs) (map fst cs)"
      by (rule db_rep_deleted_later [OF _ k n d'(1,3,2)])
    then show ?thesis using snoc by (auto simp: db_nodes_def dest: db_rep_path)
  qed
qed

text \<open>The loop over the resources, from the locked node to its removal.\<close>

lemma expire_resource_skip:
  assumes "\<forall>q\<in>set pre. str_cstr (r_uri q) = Inr (uri_of q) \<and> uri_of q \<noteq> path"
  shows "expire_resource c path (pre @ rs) st = expire_resource c path rs st"
  using assms by (induction pre) auto

lemma expire_resource_run:
  assumes inv: "broker_inv st xs [] l" and as: "db_nodes (topics st) (us @ c # vs)"
    and n: "heap (topics st) c = Some n"
  obtains d where "expire_resource c (td_path n) (resources (ctx st)) (st\<lparr>topics := rlocked2 c (topics st)\<rparr>) =
      Inr (removed {td_path n} [td_path n] d st)"
    "broker_inv (removed {td_path n} [td_path n] d st) (remove_first (td_path n) xs) [] l"
    "db_nodes d (us @ vs)"
proof -
  have ri: "resources_inv (resources (ctx st)) (next_id (ctx st))" and abs: "db_abs (topics st) xs [] l"
    and dis: "distinct (paths xs)" and sub: "set (paths xs) \<subseteq> uri_of ` set (resources (ctx st))"
    using inv by (auto simp: broker_inv_def topics_ok_def)
  have u: "unlocked n" using db_rep_unlocked [OF db_abs_nodes(2) [OF abs as] n] .
  have "node_topic (topics st) c \<in> set xs" using db_abs_nodes(1) [OF abs as] by simp
  then have p: "td_path n \<in> set (paths xs)" using n by (force simp: paths_def node_topic_def)
  then have ex: "\<exists>r\<in>set (resources (ctx st)). uri_of r = td_path n" using sub by force
  obtain pre r post where rs: "resources (ctx st) = pre @ r # post" "uri_of r = td_path n"
    "\<forall>q\<in>set pre. uri_of q \<noteq> td_path n"
    using split_list_first_prop [OF ex] by blast
  have r: "r \<in> set (resources (ctx st))" using rs(1) by simp
  obtain d where d: "with_db (deleteTopic (Some (uri_of r))) st = Inr (1, st\<lparr>topics := d\<rparr>)"
    "remove_resource (uri_of r) r (st\<lparr>topics := d\<rparr>) = Inr (removed {uri_of r} [uri_of r] d st)"
    "broker_inv (removed {uri_of r} [uri_of r] d st) (remove_first (uri_of r) xs) [] l"
    by (rule remove_one [OF inv r]) (use p rs(2) in simp)
  have del: "deleteTopic (Some (td_path n)) (topics st) = Inr (1, d)"
  proof -
    obtain x e where "deleteTopic (Some (uri_of r)) (topics st) = Inr (x, e)" "x = 1" "st\<lparr>topics := e\<rparr> = st\<lparr>topics := d\<rparr>"
      using d(1) by (auto simp: with_db_def bindR_eq_Inr)
    then show ?thesis using rs(2) by (metis broker.select_convs(2) broker.surjective broker.update_convs(2))
  qed
  have "expire_resource c (td_path n) (resources (ctx st)) (st\<lparr>topics := rlocked2 c (topics st)\<rparr>) =
      expire_resource c (td_path n) (r # post) (st\<lparr>topics := rlocked2 c (topics st)\<rparr>)"
    unfolding rs(1) using rs(1,3) resources_inv_cstr [OF ri] by (intro expire_resource_skip) auto
  also have "\<dots> = Inr (removed {uri_of r} [uri_of r] d st)"
    using resources_inv_cstr [OF ri r] rs(2) d(1,2) n u by (simp add: on_topics_def visit_simps)
  finally show ?thesis
    using that d(3) delete_topic_at [OF abs as dis n del] unfolding rs(2) by blast
qed

lemma topic_monitor_step:
  assumes "heap (topics st) c = Some n" "unlocked n"
  shows "topic_monitor_loop (Suc k) (Some c) acc st =
     bindR
       (if expired (clock st) (td_topic_ma n)
        then expire_resource c (td_path n) (resources (ctx st)) (st\<lparr>topics := rlocked2 c (topics st)\<rparr>)
        else Inr st)
       (topic_monitor_loop k (nextPtr n) (next_earliest (td_topic_ma n) (earliest_topic_max_age st) acc))"
  using assms by (simp add: on_topics_def visit_simps Let_def expired_def bindR_assoc)

abbreviation alive :: "int \<Rightarrow> topic \<Rightarrow> bool" where
  "alive now t \<equiv> \<not> expired now (td_topic_ma t)"

definition expired_paths :: "int \<Rightarrow> topic list \<Rightarrow> cstring list" where
  "expired_paths now xs = map td_path (filter (\<lambda>t. \<not> alive now t) xs)"

lemma removed_simps [simp]:
  "topics (removed ps us d st) = d" "clock (removed ps us d st) = clock st"
  "earliest_topic_max_age (removed ps us d st) = earliest_topic_max_age st"
  "earliest_data_max_age (removed ps us d st) = earliest_data_max_age st"
  by (simp_all add: removed_def)

lemma topic_monitor_run:
  assumes "broker_inv st xs [] l" "db_nodes (topics st) (us @ vs)" "length vs < k"
  shows "\<exists>d. topic_monitor_loop k (first_ptr vs) acc st =
      Inr (next_expiry td_topic_ma (earliest_topic_max_age st) (drop (length us) xs) acc,
        removed (set (expired_paths (clock st) (drop (length us) xs)))
          (expired_paths (clock st) (drop (length us) xs)) d st) \<and>
    broker_inv (removed (set (expired_paths (clock st) (drop (length us) xs)))
        (expired_paths (clock st) (drop (length us) xs)) d st)
      (take (length us) xs @ filter (alive (clock st)) (drop (length us) xs)) [] l"
  using assms
proof (induction vs arbitrary: us k acc st xs)
  case Nil
  have abs: "db_abs (topics st) xs [] l" using Nil.prems(1) by (simp add: broker_inv_def)
  then have "length xs = length us" using db_abs_nodes(1) [OF abs Nil.prems(2)] by simp
  with Nil.prems show ?case
    by (cases k) (auto simp: first_ptr_def expired_paths_def removed_empty intro!: exI [of _ "topics st"])
next
  case (Cons c vs)
  from Cons.prems obtain k' where k: "k = Suc k'" by (cases k) auto
  let ?d = "topics st"
  have abs: "db_abs ?d xs [] l" and dis: "distinct (paths xs)"
    using Cons.prems(1) by (auto simp: broker_inv_def topics_ok_def)
  obtain n where n: "heap ?d c = Some n" "unlocked n" "nextPtr n = first_ptr vs"
    "node_topic ?d c = topic.truncate n"
    by (rule db_nodes_split [OF abs Cons.prems(2)])
  let ?t = "topic.truncate n" and ?A = "map (node_topic ?d) us" and ?C = "map (node_topic ?d) vs"
  have xs: "xs = ?A @ ?t # ?C" using db_abs_nodes(1) [OF abs Cons.prems(2)] n(4) by simp
  have dx: "drop (length us) xs = ?t # ?C" "take (length us) xs = ?A" unfolding xs by simp_all
  let ?acc = "next_earliest (td_topic_ma n) (earliest_topic_max_age st) acc"
  show ?case
  proof (cases "expired (clock st) (td_topic_ma n)")
    case False
    have split: "us @ c # vs = (us @ [c]) @ vs" by simp
    have dx': "drop (length (us @ [c])) xs = ?C" "take (length (us @ [c])) xs = ?A @ [?t]"
      unfolding xs by simp_all
    have "db_nodes ?d ((us @ [c]) @ vs)" "length vs < k'" using Cons.prems(2,3) k by simp_all
    note IH = Cons.IH [OF Cons.prems(1) this, of ?acc]
    have "expired_paths (clock st) (?t # ?C) = expired_paths (clock st) ?C"
      "filter (alive (clock st)) (?t # ?C) = ?t # filter (alive (clock st)) ?C"
      using False by (simp_all add: expired_paths_def)
    then show ?thesis
      using IH False n(3) unfolding first_ptr_def [of "c # vs"] k dx dx'
      by (simp add: topic_monitor_step [OF n(1,2)] del: topic_monitor_loop.simps)
  next
    case True
    obtain d1 where d1: "expire_resource c (td_path n) (resources (ctx st)) (st\<lparr>topics := rlocked2 c ?d\<rparr>) =
        Inr (removed {td_path n} [td_path n] d1 st)"
      "broker_inv (removed {td_path n} [td_path n] d1 st) (remove_first (td_path n) xs) [] l"
      "db_nodes d1 (us @ vs)"
      by (rule expire_resource_run [OF Cons.prems(1,2) n(1)])
    have "td_path n \<notin> td_path ` set ?A" using dis unfolding xs paths_def by auto
    then have rf: "remove_first (td_path n) xs = ?A @ ?C"
      unfolding xs by (intro remove_first_split) (auto simp: image_iff)
    have nodes: "db_nodes (topics (removed {td_path n} [td_path n] d1 st)) (us @ vs)" "length vs < k'"
      using d1(3) Cons.prems(3) k by simp_all
    note IH = Cons.IH [OF d1(2) nodes, of ?acc]
    have dx': "drop (length us) (?A @ ?C) = ?C" "take (length us) (?A @ ?C) = ?A" by simp_all
    have e: "expired_paths (clock st) (?t # ?C) = td_path n # expired_paths (clock st) ?C"
      "filter (alive (clock st)) (?t # ?C) = filter (alive (clock st)) ?C"
      using True by (simp_all add: expired_paths_def)
    show ?thesis
      using IH True n(3) d1(1) unfolding first_ptr_def [of "c # vs"] k dx rf dx' e removed_removed removed_simps
      by (simp add: topic_monitor_step [OF n(1,2)] del: topic_monitor_loop.simps)
  qed
qed

text \<open>
  A turn of the topic monitor: the expired topics and their resources go, each is
  unsubscribed at the bridge, and the rest stays.
\<close>

lemma topicMAMonitor_run:
  assumes inv: "broker_inv st xs [] l"
  shows "\<exists>d e. topicMAMonitor st = Inr ((removed (set (expired_paths (clock st) xs))
        (expired_paths (clock st) xs) d st)\<lparr>earliest_topic_max_age := e\<rparr>) \<and>
    broker_inv ((removed (set (expired_paths (clock st) xs)) (expired_paths (clock st) xs) d st)
        \<lparr>earliest_topic_max_age := e\<rparr>) (filter (alive (clock st)) xs) [] l"
proof -
  let ?d = "topics st" and ?now = "clock st" and ?e = "earliest_topic_max_age st"
  have abs: "db_abs ?d xs [] l" and ok: "expiry_ok ?e td_topic_ma xs"
    using inv by (auto simp: broker_inv_def)
  obtain as where as: "db_nodes ?d as" "length as = length xs" by (rule db_abs_has_nodes [OF abs])
  have start: "topicDB ?d = first_ptr as" using as(1) by (auto simp: db_nodes_def dest: path_to_first)
  show ?thesis
  proof (cases "topicDB ?d = None \<or> ?now \<le> ?e")
    case True
    have "\<forall>t\<in>set xs. alive ?now t"
    proof (cases "?now \<le> ?e")
      case True
      then show ?thesis using unexpired [OF ok] by simp
    next
      case False
      then have "as = []" using True start by (cases as) (auto simp: first_ptr_def)
      then show ?thesis using as(2) by simp
    qed
    then have same: "filter (alive ?now) xs = xs" "expired_paths ?now xs = []"
      by (simp_all add: expired_paths_def)
    have "topicMAMonitor st = Inr st" using True by (auto simp: topicMAMonitor_def)
    then show ?thesis
      using inv unfolding same by (intro exI [of _ ?d] exI [of _ ?e]) (simp add: removed_empty)
  next
    case False
    have "length as < Suc (brk ?d)" using db_rep_length [OF db_abs_nodes(2) [OF abs as(1)]] by simp
    moreover have "db_nodes ?d ([] @ as)" using as(1) by simp
    ultimately obtain d where d: "topic_monitor_loop (Suc (brk ?d)) (first_ptr as) LONG_MAX st =
        Inr (next_expiry td_topic_ma ?e xs LONG_MAX,
          removed (set (expired_paths ?now xs)) (expired_paths ?now xs) d st)"
      "broker_inv (removed (set (expired_paths ?now xs)) (expired_paths ?now xs) d st)
        (filter (alive ?now) xs) [] l"
      using topic_monitor_run [OF inv, of "[]" as "Suc (brk ?d)" LONG_MAX] by auto
    let ?n = "next_expiry td_topic_ma ?e xs LONG_MAX"
    have e: "expiry_ok ?n td_topic_ma (filter (alive ?now) xs)"
      using False by (intro next_expiry_ok [of _ ?now]) auto
    have "topicMAMonitor st = Inr ((removed (set (expired_paths ?now xs)) (expired_paths ?now xs) d st)
        \<lparr>earliest_topic_max_age := ?n\<rparr>)"
      using False d(1) start by (auto simp: topicMAMonitor_def simp del: topic_monitor_loop.simps)
    then show ?thesis
      using d(2) e by (intro exI [of _ d] exI [of _ ?n]) (simp add: broker_inv_def)
  qed
qed

end
