(* ===== verification/ErrorResponse.thy ===== *)
theory ErrorResponse
  imports NetServer Monitors
begin

text \<open>
  Error responses and the options they copy: what the loop over filtered options sees, and that
  the space reserved for the copies is at most the space they take in the request.
\<close>

section \<open>The options a filter lets pass\<close>

definition passes :: "coap_opt_iterator \<Rightarrow> nat \<Rightarrow> bool" where
  "passes oi ty \<longleftrightarrow> (case oi_filter oi of None \<Rightarrow> True | Some f \<Rightarrow> coap_option_filter_get f ty > 0)"

abbreviation (input) advance :: "coap_opt_iterator \<Rightarrow> coap_option \<Rightarrow> nat \<Rightarrow> coap_opt_iterator" where
  "advance oi opt sz \<equiv>
     oi\<lparr>oi_next := drop sz (oi_next oi), oi_type := (oi_type oi + opt_delta opt) mod 65536\<rparr>"

lemma parse_at_end: "bs = [] \<or> hd bs = COAP_PAYLOAD_START \<Longrightarrow> opt_at bs = None"
  by (cases bs) (auto simp: opt_at_def coap_opt_parse_def code_payload_start)

lemma next_loop_step:
  "next_loop oi =
     (case opt_at (oi_next oi) of
        None \<Rightarrow> (None, oi\<lparr>oi_bad := True\<rparr>)
      | Some (opt, sz) \<Rightarrow>
          if passes oi ((oi_type oi + opt_delta opt) mod 65536) then (Some (oi_next oi), advance oi opt sz)
          else next_loop (advance oi opt sz))"
  by (subst next_loop.simps) (simp add: passes_def Let_def split: option.split)

lemma option_next_loop: "\<not> oi_bad oi \<Longrightarrow> fst (coap_option_next oi) = fst (next_loop oi) \<and>
  (fst (next_loop oi) \<noteq> None \<longrightarrow> coap_option_next oi = next_loop oi)"
  using parse_at_end [of "oi_next oi"]
  by (auto simp: coap_option_next_def opt_finished_def next_loop_step [of oi] split: option.split)

lemma options_seen_step:
  assumes "\<not> oi_bad oi"
  shows "options_seen oi =
    (case opt_at (oi_next oi) of
       None \<Rightarrow> []
     | Some (opt, sz) \<Rightarrow>
         (if passes oi ((oi_type oi + opt_delta opt) mod 65536)
          then [((oi_type oi + opt_delta opt) mod 65536, oi_next oi)] else []) @ options_seen (advance oi opt sz))"
proof -
  have seen: "options_seen oi = (case next_loop oi of (None, _) \<Rightarrow> [] | (Some p, oi') \<Rightarrow> (oi_type oi', p) # options_seen oi')"
    if "\<not> oi_bad oi" for oi
    using option_next_loop [OF that]
    by (subst options_seen.simps) (auto split: prod.splits option.splits)
  show ?thesis
  proof (cases "opt_at (oi_next oi)")
    case None
    then show ?thesis using seen [OF assms] by (simp add: next_loop_step [of oi])
  next
    case (Some x)
    obtain opt sz where x: "x = (opt, sz)" by (cases x)
    have nb: "\<not> oi_bad (advance oi opt sz)" using assms by simp
    show ?thesis
      using Some x seen [OF assms] seen [OF nb] by (simp add: next_loop_step [of oi])
  qed
qed

lemma options_seen_bad: "oi_bad oi \<Longrightarrow> options_seen oi = []"
  by (subst options_seen.simps) (simp add: coap_option_next_def opt_finished_def)

text \<open>With no filter the loop sees what \<open>options_from\<close> lists.\<close>

lemma options_seen_all:
  "length bs < 65536 \<Longrightarrow>
   map (\<lambda>(ty, p). (ty, opt_bytes p)) (options_seen (iterator_at ty bs)) = options_from ty bs"
proof (induction "length bs" arbitrary: ty bs rule: less_induct)
  case less
  have nb: "\<not> oi_bad (iterator_at ty bs)" by (simp add: iterator_at_def)
  show ?case
  proof (cases "opt_at bs")
    case None
    then show ?thesis
      by (subst options_seen_step [OF nb], subst options_from.simps) (simp add: iterator_at_def)
  next
    case (Some x)
    obtain opt sz where x: "x = (opt, sz)" by (cases x)
    have sz: "0 < sz" "sz \<le> length bs" using opt_at_size [OF Some [unfolded x]] by auto
    have ne: "\<not> (bs = [] \<or> hd bs = COAP_PAYLOAD_START)" using parse_at_end Some by auto
    have v: "opt_bytes bs = opt_value opt"
      using coap_opt_accessors_parse (2) [OF Some [unfolded x opt_at_Some] less.prems] by (auto simp: opt_bytes_def)
    have adv: "iterator_at ty bs\<lparr>oi_next := drop sz bs, oi_type := (ty + opt_delta opt) mod 65536\<rparr> =
        iterator_at ((ty + opt_delta opt) mod 65536) (drop sz bs)"
      by (simp add: iterator_at_def)
    have pa: "passes (iterator_at ty bs) t" for t by (simp add: passes_def iterator_at_def)
    have nx: "oi_next (iterator_at ty bs) = bs" "oi_type (iterator_at ty bs) = ty" by (simp_all add: iterator_at_def)
    have "length (drop sz bs) < length bs" "length (drop sz bs) < 65536" using sz less.prems by auto
    then have IH: "map (\<lambda>(ty, p). (ty, opt_bytes p)) (options_seen (iterator_at t (drop sz bs))) = options_from t (drop sz bs)" for t
      by (rule less.hyps)
    show ?thesis
      unfolding options_seen_step [OF nb] nx Some x
      using pa v ne IH adv by (subst options_from.simps) (simp add: Some x Let_def)
  qed
qed

lemma options_seen_filtered:
  assumes "\<forall>ty. coap_option_filter_get f ty = 0" "oi_filter oi = Some f"
  shows "options_seen oi = []"
  using assms(2)
proof (induction "length (oi_next oi)" arbitrary: oi rule: less_induct)
  case less
  show ?case
  proof (cases "oi_bad oi \<or> opt_at (oi_next oi) = None")
    case True
    then show ?thesis using options_seen_bad options_seen_step [of oi] by (cases "oi_bad oi") auto
  next
    case False
    then obtain opt sz where o: "opt_at (oi_next oi) = Some (opt, sz)" by auto
    have sz: "0 < sz" "sz \<le> length (oi_next oi)" using opt_at_size [OF o] by auto
    have "options_seen (advance oi opt sz) = []" by (rule less.hyps) (use sz less.prems in auto)
    then show ?thesis
      using False o options_seen_step [of oi] assms(1) less.prems by (simp add: passes_def)
  qed
qed

lemma filter_clear_get: "coap_option_filter_get coap_option_filter_clear ty = 0"
  using filter_get_types [of coap_option_filter_clear ty] by (simp add: filter_types_clear)

lemma filter_clear_unset: "snd (coap_option_filter_unset coap_option_filter_clear ty) = coap_option_filter_clear"
  by (simp add: coap_option_filter_unset_def coap_option_filter_op_def slots_op_def coap_option_filter_clear_def
      slot_index_None [THEN iffD2])

lemma options_seen_clear:
  "options_seen (coap_option_iterator_init request (Some coap_option_filter_clear)) = []"
proof (cases "pdu_body request = []")
  case True
  then show ?thesis by (simp add: coap_option_iterator_init_def options_seen_bad)
next
  case False
  then show ?thesis
    by (intro options_seen_filtered [of coap_option_filter_clear])
      (simp_all add: coap_option_iterator_init_def filter_clear_get)
qed

section \<open>The space for the copies\<close>

definition delta_size :: "nat \<Rightarrow> nat" where
  "delta_size d = (if d < 13 then 1 else if d < 269 then 2 else 3)"

lemma delta_size_add: "0 < a \<Longrightarrow> delta_size ((a + b) mod 65536) \<le> delta_size a + delta_size b"
  using mod_less_eq_dividend [of "a + b" 65536] by (auto simp: delta_size_def)

lemma delta_size_mod: "delta_size (d mod 65536) \<le> delta_size d"
  using mod_less_eq_dividend [of d 65536] by (auto simp: delta_size_def)

lemma parse_delta_size: "nib < 16 \<Longrightarrow> parse_delta nib rest = Inr (Some (d, r)) \<Longrightarrow> delta_size d \<le> 1 + ext_bytes nib"
  by (auto simp: delta_size_def ext_bytes_def Let_def split: list.splits if_splits)

text \<open>What is reserved for an option is at most what the option takes.\<close>

lemma option_size:
  assumes at: "opt_at bs = Some (opt, sz)" and b: "length bs < 65536"
  shows "delta_size (opt_delta opt) + coap_opt_length bs +
    (if code (bs ! 0) mod 16 = 14 then 2 else if code (bs ! 0) mod 16 = 13 then 1 else 0) \<le> sz"
proof -
  note o = at [unfolded opt_at_Some]
  obtain h rest d r1 l r2 where bs: "bs = h # rest"
    and pd: "parse_delta (code h div 16) rest = Inr (Some (d, r1))"
    and pl: "parse_length (code h mod 16) r1 = Inr (Some (l, r2))"
    and v: "l \<le> length r2" "opt = \<lparr>opt_delta = d, opt_value = take l r2\<rparr>"
      "sz = length bs - length r2 + l"
    using o by (elim coap_opt_parse_cases)
  let ?dn = "code h div 16" and ?ln = "code h mod 16"
  have len: "coap_opt_length bs = l" using coap_opt_accessors_parse(1) [OF o b] v by simp
  have "length r1 = length rest - ext_bytes ?dn" "ext_bytes ?dn \<le> length rest"
    "length r2 = length r1 - ext_bytes ?ln" "ext_bytes ?ln \<le> length r1"
    using parse_delta_rest [OF pd] parse_length_rest [OF pl] length_drop by metis+
  then have "sz = 1 + ext_bytes ?dn + ext_bytes ?ln + l"
    unfolding v(3) bs list.size by linarith
  moreover have "?dn < 16" using code_less [of h] by (simp add: div_less_iff_less_mult del: code_less)
  ultimately show ?thesis
    using parse_delta_size [OF _ pd] len v(2) by (auto simp: bs ext_bytes_def)
qed

text \<open>
  \<open>skipped\<close> is the distance from the last option seen to the present one; the bytes of the
  options in between pay for its encoding.
\<close>

lemma options_size_bound:
  assumes "length (oi_next oi) < 65536" "oi_type oi < 65536" "ty < 65536"
    and "skipped = (oi_type oi + 65536 - ty) mod 65536" "skipped = 0 \<or> delta_size skipped \<le> credit"
  shows "options_size ty (options_seen oi) \<le> length (oi_next oi) + credit"
  using assms
proof (induction "length (oi_next oi)" arbitrary: oi ty skipped credit rule: less_induct)
  case less
  show ?case
  proof (cases "oi_bad oi \<or> opt_at (oi_next oi) = None")
    case True
    then have "options_seen oi = []" using options_seen_bad options_seen_step [of oi] by (cases "oi_bad oi") auto
    then show ?thesis by simp
  next
    case False
    then obtain opt sz where o: "opt_at (oi_next oi) = Some (opt, sz)" by auto
    have sz: "0 < sz" "sz \<le> length (oi_next oi)" using opt_at_size [OF o] by auto
    let ?oi = "advance oi opt sz" and ?ty = "(oi_type oi + opt_delta opt) mod 65536"
    let ?d = "(?ty + 65536 - ty) mod 65536"
    have "?ty + 65536 - ty = ?ty + (65536 - ty)" "oi_type oi + 65536 - ty = oi_type oi + (65536 - ty)"
      using less.prems(3) by simp_all
    then have d: "?d = (skipped + opt_delta opt) mod 65536"
      unfolding less.prems(4) by (simp add: mod_simps ac_simps)
    have cost: "delta_size ?d \<le> credit + delta_size (opt_delta opt)"
    proof (cases "skipped = 0")
      case True
      then show ?thesis using delta_size_mod [of "opt_delta opt"] d by simp
    next
      case False
      then show ?thesis using delta_size_add [of skipped "opt_delta opt"] less.prems(5) d by simp
    qed
    note os = option_size [OF o less.prems(1)]
    have step: "length (oi_next ?oi) < length (oi_next oi)" "length (oi_next ?oi) < 65536" "oi_type ?oi < 65536"
      "length (oi_next ?oi) = length (oi_next oi) - sz"
      using sz less.prems(1) by auto
    show ?thesis
    proof (cases "passes oi ?ty")
      case True
      have "options_size ?ty (options_seen ?oi) \<le> length (oi_next ?oi) + 0"
        by (rule less.hyps [OF step(1-3), of ?ty 0]) simp_all
      moreover have "options_size ty (options_seen oi) = delta_size ?d + coap_opt_length (oi_next oi) +
          (if code (oi_next oi ! 0) mod 16 = 14 then 2 else if code (oi_next oi ! 0) mod 16 = 13 then 1 else 0) +
          options_size ?ty (options_seen ?oi)"
        using False o True options_seen_step [of oi] by (simp add: delta_size_def Let_def)
      ultimately show ?thesis using cost os step(4) sz(2) by linarith
    next
      case skip: False
      have "options_size ty (options_seen ?oi) \<le> length (oi_next ?oi) + (credit + sz)"
        by (rule less.hyps [OF step(1-3) less.prems(3), of ?d]) (use cost os in auto)
      then show ?thesis
        using False o skip options_seen_step [of oi] step(4) sz(2) by simp
    qed
  qed
qed

lemma error_options_size:
  assumes "length (pdu_body request) < 65536"
  shows "options_size 0 (options_seen (coap_option_iterator_init request (Some f))) \<le> length (pdu_body request)"
proof (cases "pdu_body request = []")
  case True
  then show ?thesis by (simp add: coap_option_iterator_init_def options_seen_bad)
next
  case False
  then show ?thesis
    using options_size_bound [of "coap_option_iterator_init request (Some f)" 0 0 0] assms
    by (simp add: coap_option_iterator_init_def)
qed

section \<open>Error responses\<close>

lemma copy_options_data: "pdu_data p = None \<Longrightarrow> pdu_data (copy_options p ps) = None"
  by (induction p ps rule: copy_options.induct) (auto simp: add_option_data_None)

lemma add_option_code [simp]: "hdr_code (snd (coap_add_option p ty v)) = hdr_code p"
  by (simp add: coap_add_option_def Let_def split: option.split)

lemma copy_options_code: "hdr_code (copy_options p ps) = hdr_code p"
  by (induction p ps rule: copy_options.induct) auto

lemma add_option_token [simp]: "hdr_token (snd (coap_add_option p ty v)) = hdr_token p"
  by (simp add: coap_add_option_def Let_def split: option.split)

lemma copy_options_token: "hdr_token (copy_options p ps) = hdr_token p"
  by (induction p ps rule: copy_options.induct) auto

definition error_size :: "coap_pdu \<Rightarrow> nat \<Rightarrow> coap_opt_filter \<Rightarrow> nat" where
  "error_size request c opts =
     4 + length (hdr_token request) + (case coap_response_phrase c of None \<Rightarrow> 0 | Some p \<Rightarrow> length p + 1) +
     options_size 0 (options_seen (coap_option_iterator_init request
       (Some (snd (coap_option_filter_unset opts COAP_OPTION_CONTENT_TYPE)))))"

lemma error_response_run:
  assumes tok: "length (hdr_token request) \<le> 8" and sz: "error_size request c opts \<le> COAP_MAX_PDU_SIZE"
  obtains resp where "coap_new_error_response request c opts = Inr (Some resp)" "hdr_code resp = c"
    "hdr_token resp = hdr_token request"
proof -
  let ?ty = "if hdr_type request = COAP_MESSAGE_CON then COAP_MESSAGE_ACK else COAP_MESSAGE_NON"
  let ?os = "options_seen (coap_option_iterator_init request (Some (snd (coap_option_filter_unset opts 12))))"
  obtain p0 where p0: "coap_pdu_init ?ty c (hdr_id request) (error_size request c opts) = Inr (Some p0)"
    "max_size p0 = error_size request c opts" "hdr_code p0 = c"
    using sz by (simp add: coap_pdu_init_def error_size_def)
  let ?p = "p0\<lparr>hdr_token := hdr_token request, max_delta := 0, pdu_body := [], pdu_data := None\<rparr>"
  have p: "coap_add_token (Some p0) (hdr_token request) = (1, Some ?p)"
    using tok p0(2) by (simp add: coap_add_token_def error_size_def)
  let ?q = "copy_options ?p ?os"
  have q: "pdu_data ?q = None" "hdr_code ?q = c" "hdr_token ?q = hdr_token request"
    using p0(3) by (simp_all add: copy_options_data copy_options_code copy_options_token)
  have run: "coap_new_error_response request c opts =
      (case coap_response_phrase c of None \<Rightarrow> Inr (Some ?q)
       | Some ph \<Rightarrow> bindR (coap_add_data ?q ph) (\<lambda>(_, response). Inr (Some response)))"
    using p0(1) p unfolding coap_new_error_response_def Let_def error_size_def [symmetric] by simp
  have "coap_add_data ?q ph = Inr (k, r) \<Longrightarrow> hdr_code r = c \<and> hdr_token r = hdr_token request" for ph k r
    using q by (auto simp: coap_add_data_def split: if_splits)
  moreover have "\<exists>k r. coap_add_data ?q ph = Inr (k, r)" for ph using add_data_free [OF q(1)] by blast
  ultimately have "\<exists>resp. coap_new_error_response request c opts = Inr (Some resp) \<and> hdr_code resp = c \<and>
      hdr_token resp = hdr_token request"
    using q unfolding run by (cases "coap_response_phrase c") (simp, simp, metis bindR_Inr prod.case)
  then show ?thesis using that by blast
qed

lemma error_size_clear:
  "error_size request c coap_option_filter_clear =
     4 + length (hdr_token request) + (case coap_response_phrase c of None \<Rightarrow> 0 | Some p \<Rightarrow> length p + 1)"
  by (simp add: error_size_def filter_clear_unset options_seen_clear)

end
