(* ===== verification/WellKnownSpec.thy ===== *)
theory WellKnownSpec
  imports Discovery WellKnown
begin

text \<open>
  What \<open>.well-known/core\<close> answers: the links of the resources that the query selects, with
  commas between them, whole or in blocks.
\<close>

section \<open>The text\<close>

definition commas :: "cstring list \<Rightarrow> cstring" where
  "commas ss = (case comma_list ss of None \<Rightarrow> [] | Some t \<Rightarrow> t)"

lemma commas_Nil [simp]: "commas [] = []"
  by (simp add: commas_def)

lemma commas_snoc: "commas (ss @ [s]) = (if ss = [] then s else commas ss @ '','' @ s)"
  by (cases "comma_list ss") (auto simp: commas_def comma_list_snoc)

text \<open>A query the code can answer for a list of resources, and the text of the answer.\<close>

definition query_ok :: "wkc_query \<Rightarrow> coap_resource list \<Rightarrow> bool" where
  "query_ok q rs \<longleftrightarrow> (\<forall>r\<in>set rs. resource_ok r \<and> (\<exists>b. selected q r = Inr b))"

definition wkc_text :: "wkc_query \<Rightarrow> coap_resource list \<Rightarrow> cstring" where
  "wkc_text q rs = commas (map link_text (filter (\<lambda>r. selected q r = Inr True) rs))"

lemma print_link_printed:
  assumes "resource_ok r" "(out, o', w) = printed cap off t"
  obtains bs fl len o'' where "coap_print_link r (cap - length out) o' = Inr (bs, fl, len, o'')"
    "(out @ bs, o'', w + len) = printed cap off (t @ link_text r)"
proof -
  have o: "out = take cap (drop off t)" "o' = (if cap = 0 then off else off - length t)" "w = length t"
    using assms(2) by (simp_all add: printed_def)
  have "(if cap - length out = 0 then o' else o' - length (link_text r)) =
      (if cap = 0 then off else off - length (t @ link_text r))"
    by (auto simp: o)
  moreover have "out @ take (cap - length out) (drop o' (link_text r)) = take cap (drop off (t @ link_text r))"
    by (auto simp: o min_def)
  ultimately show ?thesis
    using that print_link_text [OF assms(1), of "cap - length out" o'] by (simp add: printed_def o(3))
qed

lemma print_resources_text:
  assumes "query_ok q rs"
  shows "print_resources q cap rs (before \<noteq> []) (printed cap off (commas before)) =
    Inr (printed cap off (commas (before @ map link_text (filter (\<lambda>r. selected q r = Inr True) rs))))"
  using assms
proof (induction rs arbitrary: before)
  case Nil
  then show ?case by simp
next
  case (Cons r rs)
  have ok: "query_ok q rs" "resource_ok r" using Cons.prems by (auto simp: query_ok_def)
  obtain b where b: "selected q r = Inr b" using Cons.prems by (auto simp: query_ok_def)
  show ?case
  proof (cases b)
    case False
    then show ?thesis using b Cons.IH [OF ok(1)] by simp
  next
    case True
    let ?t = "if before = [] then [] else commas before @ '',''"
    obtain out o' w where p: "(out, o', w) = printed cap off ?t" by (metis surj_pair)
    have st: "(if before \<noteq> [] then print_cond cap CHR '','' (printed cap off (commas before))
        else printed cap off (commas before)) = (out, o', w)"
      by (simp add: p print_cond_printed)
    obtain bs fl len o'' where l: "coap_print_link r (cap - length out) o' = Inr (bs, fl, len, o'')"
      "(out @ bs, o'', w + len) = printed cap off (?t @ link_text r)"
      by (rule print_link_printed [OF ok(2) p])
    have "?t @ link_text r = commas (before @ [link_text r])" by (simp add: commas_snoc)
    then show ?thesis
      using b True st l Cons.IH [OF ok(1), of "before @ [link_text r]"] by (simp add: Let_def)
  qed
qed

lemma print_wellknown_text:
  assumes "split_query flt = Inr q" "query_ok q (resources c)"
  obtains fl where "coap_print_wellknown c cap off flt =
    Inr (take cap (drop off (wkc_text q (resources c))), fl, length (wkc_text q (resources c)))"
proof -
  have "([], off, 0) = printed cap off (commas [])" by (simp add: printed_def)
  then have "print_resources q cap (resources c) False ([], off, 0) =
      Inr (printed cap off (wkc_text q (resources c)))"
    using print_resources_text [OF assms(2), of cap "[]" off] by (simp add: wkc_text_def)
  then show ?thesis using that assms(1) by (simp add: coap_print_wellknown_def printed_def)
qed

lemma wkc_len_text:
  assumes "split_query flt = Inr q" "query_ok q (resources c)"
  shows "get_wkc_len c flt = Inr (length (wkc_text q (resources c)))"
  by (rule print_wellknown_text [OF assms, of 0 "2 ^ 32 - 1"]) (simp add: get_wkc_len_def)

lemma link_text_pos: "link_text r \<noteq> []"
  by (simp add: link_text_def)

lemma wkc_text_Nil: "wkc_text q rs = [] \<longleftrightarrow> (\<forall>r\<in>set rs. selected q r \<noteq> Inr True)"
proof -
  have "commas ss = [] \<longleftrightarrow> ss = []" if "\<forall>s\<in>set ss. s \<noteq> []" for ss
    using that by (cases ss rule: rev_cases) (auto simp: commas_snoc)
  then have "wkc_text q rs = [] \<longleftrightarrow> filter (\<lambda>r. selected q r = Inr True) rs = []"
    unfolding wkc_text_def using link_text_pos by (auto simp del: filter_empty_conv)
  then show ?thesis by (simp add: filter_empty_conv)
qed

section \<open>Queries\<close>

lemma no_query_ok: "split_query None = Inr no_query" "(\<forall>r\<in>set rs. resource_ok r) \<Longrightarrow> query_ok no_query rs"
  by (auto simp: split_query_def query_ok_def selected_def no_query_def)

lemma wkc_text_all: "wkc_text no_query rs = commas (map link_text rs)"
  by (simp add: wkc_text_def selected_def no_query_def)

lemma match_whole:
  assumes "str_ok text"
  shows "match text pat pre False = Inr (if pre then is_prefix pat (str_text text) else str_text text = pat)"
proof (cases "str_s text")
  case None
  then show ?thesis using assms by (cases pat) (auto simp: match_def str_ok_def str_text_def)
next
  case (Some bs)
  have len: "length (str_text text) = str_length text" "str_length text \<le> length bs" "str_text text = take (str_length text) bs"
    using assms length_str_text Some by (auto simp: str_ok_def str_text_def)
  have "is_prefix pat t \<longleftrightarrow> length pat \<le> length t \<and> take (length pat) t = pat" for t
    by (auto simp: is_prefix_iff) (metis append_take_drop_id)
  then have pre: "is_prefix pat (str_text text) \<longleftrightarrow> length pat \<le> str_length text \<and> take (length pat) bs = pat"
    unfolding len(1) [symmetric] using len by (auto simp: min_def)
  show ?thesis
    using Some len pre by (auto simp: match_def)
qed

section \<open>The response\<close>

abbreviation (input) link_format :: "nat \<times> char list" where
  "link_format \<equiv> (COAP_OPTION_CONTENT_TYPE, coap_encode_var_bytes COAP_MEDIATYPE_APPLICATION_LINK_FORMAT)"

text \<open>
  What a request gets for the text \<open>t\<close>: an error for an empty text or an invalid block size,
  the block it asks for in blocks of at most 256 bytes, the first block of a text that is too
  long, or the whole text; a text that would fill the buffer to its last byte loses that byte.
\<close>

definition wkc_blockwise :: "cstring \<Rightarrow> nat \<Rightarrow> nat \<Rightarrow> coap_pdu \<Rightarrow> bool" where
  "wkc_blockwise t off szx resp \<longleftrightarrow>
     (\<exists>b. hdr_code resp = COAP_RESPONSE_CODE 205 \<and> unat (blk_num b) * 2 ^ (szx + 4) = off \<and> blk_szx b = szx \<and>
        blk_m b = (off + 2 ^ (szx + 4) < length t) \<and>
        pdu_abs resp [link_format, (COAP_OPTION_BLOCK2, coap_encode_var_bytes (block_value b))]
          (Some (take (2 ^ (szx + 4)) (drop off t))))"

definition wkc_reply :: "coap_pdu \<Rightarrow> cstring \<Rightarrow> coap_pdu \<Rightarrow> bool" where
  "wkc_reply request t resp =
     (let (requested, b) = coap_get_block (Some request) COAP_OPTION_BLOCK2;
          szx = blk_szx b;
          off = unat (blk_num b) * 2 ^ (szx + 4);
          room = COAP_MAX_PDU_SIZE - (6 + length (hdr_token request)) in
      if t = [] \<or> requested \<and> szx > 6
      then hdr_code resp = COAP_RESPONSE_CODE 400 \<and> pdu_body resp = []
      else if requested then
        (if length t \<le> off then hdr_code resp = COAP_RESPONSE_CODE 503 \<and> pdu_body resp = []
         else wkc_blockwise t off (min szx COAP_MAX_BLOCK_SZX) resp)
      else if room < length t then wkc_blockwise t 0 COAP_MAX_BLOCK_SZX resp
      else hdr_code resp = COAP_RESPONSE_CODE 205 \<and> pdu_abs resp [link_format] (Some (take (room - 1) t)))"

lemma wkc_payload_run:
  assumes q: "split_query flt = Inr q" "query_ok q (resources c)"
    and p: "pdu_abs p opts None" "pdu_length p + 1 + n \<le> max_size p"
    and ne: "take n (drop off (wkc_text q (resources c))) \<noteq> []"
  obtains p' where "wkc_payload c n off flt p = Inr p'" "hdr_code p' = hdr_code p" "hdr_token p' = hdr_token p"
    "pdu_abs p' opts (Some (take n (drop off (wkc_text q (resources c)))))"
proof -
  let ?t = "take n (drop off (wkc_text q (resources c)))"
  obtain fl where out: "coap_print_wellknown c n off flt = Inr (?t, fl, length (wkc_text q (resources c)))"
    by (rule print_wellknown_text [OF q])
  have room: "pdu_length p + length ?t + 1 \<le> max_size p" using p(2) by simp
  obtain p' where p': "coap_add_data p ?t = Inr (1, p')" "pdu_abs p' opts (Some ?t)"
    "hdr_code p' = hdr_code p" "hdr_token p' = hdr_token p"
    by (rule pdu_add_data_abs [OF p(1) ne room])
  have "p' = p\<lparr>pdu_data := Some (length (pdu_body p) + 1), pdu_body := pdu_body p @ COAP_PAYLOAD_START # ?t\<rparr>"
    using p'(1) ne room pdu_abs_data_None [OF p(1)] by (auto simp: coap_add_data_def split: if_splits)
  moreover have "\<not> max_size p \<le> pdu_length p" "\<not> pdu_length p + 1 + length ?t > max_size p" using room by auto
  ultimately have "wkc_payload c n off flt p = Inr p'"
    unfolding wkc_payload_def out by (simp only: if_not_P bindR_Inr prod.case if_False)
  then show ?thesis using that p' by blast
qed

lemma length_link_format: "length (coap_encode_var_bytes 40) = 1"
proof -
  have "var_len (Suc (Suc (Suc (Suc 0)))) 40 0 = 1" by simp
  moreover have "(4 :: nat) = Suc (Suc (Suc (Suc 0)))" by simp
  ultimately have "var_len 4 40 0 = 1" by metis
  then show ?thesis by (simp add: coap_encode_var_bytes_def)
qed

text \<open>A response with the token in place, and the same with the content format.\<close>

definition wkc_pdu :: "coap_pdu \<Rightarrow> coap_pdu \<Rightarrow> bool" where
  "wkc_pdu request p \<longleftrightarrow> pdu_abs p [] None \<and> max_size p = COAP_MAX_PDU_SIZE \<and>
     hdr_token p = hdr_token request \<and> pdu_length p = 4 + length (hdr_token request) \<and>
     hdr_code p = COAP_RESPONSE_CODE 205 \<and> length (hdr_token request) \<le> 8"

lemma wkc_add_format:
  assumes p: "wkc_pdu request p"
  obtains q where "coap_add_option p COAP_OPTION_CONTENT_TYPE (coap_encode_var_bytes COAP_MEDIATYPE_APPLICATION_LINK_FORMAT) = (2, q)"
    "links_pdu q" "pdu_length q = 6 + length (hdr_token request)" "hdr_code q = COAP_RESPONSE_CODE 205"
    "hdr_token q = hdr_token request"
proof -
  have p': "pdu_abs p [] None" "max_size p = 1400" "pdu_length p \<le> 12"
    using p by (simp_all add: wkc_pdu_def)
  have d: "max_delta p = 0" using p'(1) by (auto simp: pdu_abs_def elim: encodesE)
  have sp: "opt_space 12 (length (coap_encode_var_bytes 40)) = 2"
    unfolding length_link_format by (simp add: opt_space_def ext_form_def)
  have a: "max_delta p \<le> 12" "12 < (65536 :: nat)" "opt_size_ok (12 - max_delta p)"
    "opt_size_ok (length (coap_encode_var_bytes 40))"
    "pdu_length p + opt_space (12 - max_delta p) (length (coap_encode_var_bytes 40)) \<le> max_size p"
    using p' d sp length_link_format by (simp_all add: opt_size_ok_def)
  obtain q where q: "coap_add_option p 12 (coap_encode_var_bytes 40) =
      (opt_space (12 - max_delta p) (length (coap_encode_var_bytes 40)), q)"
    "pdu_abs q ([] @ [(12, coap_encode_var_bytes 40)]) None" "max_delta q = 12"
    "pdu_length q = pdu_length p + opt_space (12 - max_delta p) (length (coap_encode_var_bytes 40))"
    "max_size q = max_size p" "hdr_code q = hdr_code p" "hdr_token q = hdr_token p"
    by (rule pdu_add_option_abs [OF p'(1) a])
  show ?thesis
    by (rule that [of q]) (use q p d sp in \<open>auto simp: links_pdu_def wkc_pdu_def\<close>)
qed

lemma wkc_block_run:
  assumes q: "split_query flt = Inr q" "query_ok q (resources c)"
    and p: "links_pdu p" "hdr_code p = COAP_RESPONSE_CODE 205"
    and b: "blk_num b \<le> 0xFFFFF" "blk_szx b \<le> 4"
      "unat (blk_num b) * 2 ^ (blk_szx b + 4) < length (wkc_text q (resources c))"
  obtains b' p' resp where
    "coap_write_block_opt b COAP_OPTION_BLOCK2 p (length (wkc_text q (resources c))) = (1, b', p')" "blk_szx b' = blk_szx b"
    "wkc_payload c (SZX_TO_BYTES (blk_szx b)) (unat (blk_num b) * 2 ^ (blk_szx b + 4)) flt p' = Inr resp"
    "wkc_blockwise (wkc_text q (resources c)) (unat (blk_num b) * 2 ^ (blk_szx b + 4)) (blk_szx b) resp"
    "hdr_token resp = hdr_token p"
proof -
  let ?t = "wkc_text q (resources c)" and ?off = "unat (blk_num b) * 2 ^ (blk_szx b + 4)"
  have szx: "blk_szx b \<le> 6" using b(2) by simp
  obtain p' b' where w: "coap_write_block_opt b 23 p (length ?t) = (1, b', p')"
    "b' = b\<lparr>blk_m := block_more ?t (unat (blk_num b)) (blk_szx b)\<rparr>"
    "pdu_abs p' [link_format, (23, coap_encode_var_bytes (block_value b'))] None"
    "pdu_length p' \<le> 28" "max_size p' = 1400" "hdr_code p' = hdr_code p" "hdr_token p' = hdr_token p"
    by (rule write_block_run [OF p(1) b(1) szx b(3)])
  have "(2 :: nat) ^ (blk_szx b + 4) \<le> 2 ^ 8" using b(2) by (intro power_increasing) auto
  then have room: "pdu_length p' + 1 + 2 ^ (blk_szx b + 4) \<le> max_size p'" using w(4,5) by simp
  have ne: "take (2 ^ (blk_szx b + 4)) (drop ?off ?t) \<noteq> []" using b(3) by simp
  obtain resp where "wkc_payload c (2 ^ (blk_szx b + 4)) ?off flt p' = Inr resp"
    "hdr_code resp = hdr_code p'" "hdr_token resp = hdr_token p'"
    "pdu_abs resp [link_format, (23, coap_encode_var_bytes (block_value b'))] (Some (take (2 ^ (blk_szx b + 4)) (drop ?off ?t)))"
    by (rule wkc_payload_run [OF q w(3) room ne])
  moreover have "wkc_blockwise ?t ?off (blk_szx b) resp"
    unfolding wkc_blockwise_def
    by (rule exI [of _ b']) (use calculation w(2,6) p(2) in \<open>simp add: block_more_def algebra_simps\<close>)
  ultimately show ?thesis
    using that [of b' p' resp] w by (simp add: SZX_TO_BYTES_def)
qed

lemma fitting_szx_largest: "256 \<le> n \<Longrightarrow> fitting_szx n 4 = Some 4"
  by (simp add: fitting_szx.simps SZX_TO_BYTES_def)

lemma block_start_value:
  assumes "unat n * 2 ^ (szx + 4) < 2 ^ 32"
  shows "block_start n szx = unat n * 2 ^ (szx + 4)"
  using assms unfolding block_start_def unsigned_push_bit_eq by (simp add: push_bit_eq_mult take_bit_eq_mod)

text \<open>The block of a request after its size was cut down starts at the same byte.\<close>

lemma wkc_block_cut:
  assumes g: "coap_get_block (Some request) COAP_OPTION_BLOCK2 = (True, b)" and szx: "blk_szx b \<le> 6"
  obtains b' where "wkc_block request = Some (True, unat (blk_num b) * 2 ^ (blk_szx b + 4), b')"
    "blk_szx b' = min (blk_szx b) 4"
    "unat (blk_num b') * 2 ^ (blk_szx b' + 4) = unat (blk_num b) * 2 ^ (blk_szx b + 4)"
    "unat (blk_num b) * 2 ^ (blk_szx b + 4) < 2 ^ 30"
    "unat (blk_num b) * 2 ^ (blk_szx b + 4) < 2 ^ 28 \<Longrightarrow> blk_num b' \<le> 0xFFFFF"
proof -
  let ?off = "unat (blk_num b) * 2 ^ (blk_szx b + 4)"
  have n: "blk_num b \<le> 0xFFFFF" using get_block_some [OF g] by simp
  then have "unat (blk_num b) \<le> 0xFFFFF" by (simp add: word_le_nat_alt)
  moreover have "(2 :: nat) ^ (blk_szx b + 4) \<le> 2 ^ 10" using szx by (intro power_increasing) auto
  ultimately have "?off \<le> 0xFFFFF * 2 ^ 10" by (rule mult_le_mono)
  then have off: "?off < 2 ^ 30" by simp
  have st: "block_start (blk_num b) (blk_szx b) = ?off" by (rule block_start_value) (use off in simp)
  show ?thesis
  proof (cases "blk_szx b > 4")
    case False
    then show ?thesis using that [of b] g szx st off n by (simp add: wkc_block_def Let_def)
  next
    case True
    let ?b = "b\<lparr>blk_szx := 4, blk_num := of_nat (?off div 256)\<rparr>"
    have d: "?off = ?off div 256 * 256"
    proof -
      have "(2 :: nat) ^ (blk_szx b + 4) = 2 ^ (blk_szx b - 4) * 2 ^ 8"
        using True by (simp only: power_add [symmetric]) simp
      then show ?thesis by simp
    qed
    have "?off div 256 < 2 ^ 32" using off by simp
    then have "unat (of_nat (?off div 256) :: u32) = ?off div 256" by (simp add: unsigned_of_nat take_bit_eq_mod)
    then have u: "unat (blk_num ?b) * 2 ^ (blk_szx ?b + 4) = ?off" using d by simp
    have w: "wkc_block request = Some (True, ?off, ?b)" using g szx st True by (simp add: wkc_block_def Let_def)
    have m: "blk_szx ?b = min (blk_szx b) 4" using True by simp
    have "?off < 2 ^ 28 \<Longrightarrow> ?off div 256 \<le> 0xFFFFF" by simp
    then have "?off < 2 ^ 28 \<Longrightarrow> blk_num ?b \<le> 0xFFFFF"
      using \<open>unat (of_nat (?off div 256) :: u32) = ?off div 256\<close> by (simp add: word_le_nat_alt)
    then show ?thesis by (rule that [OF w m u off])
  qed
qed

lemma wkc_content_block:
  assumes q: "split_query flt = Inr q" "query_ok q (resources c)" and p: "wkc_pdu request p"
    and b: "blk_szx b \<le> 4" "off < 2 ^ 28 \<Longrightarrow> blk_num b \<le> 0xFFFFF" and off: "unat (blk_num b) * 2 ^ (blk_szx b + 4) = off" "off < 2 ^ 30"
    and small: "length (wkc_text q (resources c)) < 2 ^ 28"
  shows "\<exists>resp. wkc_content c (length (wkc_text q (resources c))) flt True off b p = Inr resp \<and>
    hdr_token resp = hdr_token request \<and>
    (if length (wkc_text q (resources c)) \<le> off then hdr_code resp = COAP_RESPONSE_CODE 503 \<and> pdu_body resp = []
     else wkc_blockwise (wkc_text q (resources c)) off (blk_szx b) resp)"
proof -
  let ?t = "wkc_text q (resources c)"
  obtain p1 where p1: "coap_add_option p 12 (coap_encode_var_bytes 40) = (2, p1)" "links_pdu p1"
    "pdu_length p1 = 6 + length (hdr_token request)" "hdr_code p1 = COAP_RESPONSE_CODE 205" "hdr_token p1 = hdr_token request"
    by (rule wkc_add_format [OF p])
  show ?thesis
  proof (cases "length ?t \<le> off")
    case True
    have "block_start (blk_num b) (blk_szx b) = off" using block_start_value off by simp
    then have "coap_write_block_opt b 23 p1 (length ?t) = (-2, b, p1)"
      using True by (simp add: coap_write_block_opt_def Let_def)
    then show ?thesis using p1 True by (simp add: wkc_content_def wkc_error_def)
  next
    case False
    have num: "blk_num b \<le> 0xFFFFF" using b(2) False small by simp
    obtain b' p' resp where
      "coap_write_block_opt b 23 p1 (length ?t) = (1, b', p')" "blk_szx b' = blk_szx b"
      "wkc_payload c (SZX_TO_BYTES (blk_szx b)) (unat (blk_num b) * 2 ^ (blk_szx b + 4)) flt p' = Inr resp"
      "wkc_blockwise ?t (unat (blk_num b) * 2 ^ (blk_szx b + 4)) (blk_szx b) resp" "hdr_token resp = hdr_token p1"
      by (rule wkc_block_run [OF q p1(2,4) num b(1)]) (use False off in simp)
    then show ?thesis using p1 False off(1) by (simp add: wkc_content_def)
  qed
qed

lemma wkc_content_whole:
  assumes q: "split_query flt = Inr q" "query_ok q (resources c)" and p: "wkc_pdu request p"
    and b: "blk_num b = 0" and t: "wkc_text q (resources c) \<noteq> []"
  shows "\<exists>resp. wkc_content c (length (wkc_text q (resources c))) flt False 0 b p = Inr resp \<and>
    hdr_token resp = hdr_token request \<and>
    (if 1400 - (6 + length (hdr_token request)) < length (wkc_text q (resources c))
     then wkc_blockwise (wkc_text q (resources c)) 0 4 resp
     else hdr_code resp = COAP_RESPONSE_CODE 205 \<and>
       pdu_abs resp [link_format] (Some (take (1400 - (6 + length (hdr_token request)) - 1) (wkc_text q (resources c)))))"
proof -
  let ?t = "wkc_text q (resources c)" and ?room = "1400 - (6 + length (hdr_token request))"
  obtain p1 where p1: "coap_add_option p 12 (coap_encode_var_bytes 40) = (2, p1)" "links_pdu p1"
    "pdu_length p1 = 6 + length (hdr_token request)" "hdr_code p1 = COAP_RESPONSE_CODE 205" "hdr_token p1 = hdr_token request"
    by (rule wkc_add_format [OF p])
  have "length (hdr_token request) \<le> 8" using p by (simp add: wkc_pdu_def)
  then have r: "1386 \<le> ?room" by linarith
  have room: "max_size p1 - pdu_length p1 = ?room" "max_size p1 - (pdu_length p1 + 1) = ?room - 1" "1386 \<le> ?room"
    using p1(2,3) r by (simp_all add: links_pdu_def)
  show ?thesis
  proof (cases "?room < length ?t")
    case True
    let ?b = "b\<lparr>blk_num := 0, blk_m := False, blk_szx := 4\<rparr>"
    obtain b' p' resp where
      "coap_write_block_opt ?b 23 p1 (length ?t) = (1, b', p')" "blk_szx b' = blk_szx ?b"
      "wkc_payload c (SZX_TO_BYTES (blk_szx ?b)) (unat (blk_num ?b) * 2 ^ (blk_szx ?b + 4)) flt p' = Inr resp"
      "wkc_blockwise ?t (unat (blk_num ?b) * 2 ^ (blk_szx ?b + 4)) (blk_szx ?b) resp" "hdr_token resp = hdr_token p1"
      by (rule wkc_block_run [OF q p1(2,4), of ?b]) (use t in simp_all)
    then show ?thesis
      using True p1 room(1,3) fitting_szx_largest [of ?room] by (simp add: wkc_content_def)
  next
    case False
    have n: "pdu_length p1 + 1 + (?room - 1) \<le> max_size p1" using room by linarith
    have ne: "take (?room - 1) (drop 0 ?t) \<noteq> []" using t room(3) by simp
    have abs: "pdu_abs p1 [link_format] None" using p1(2) by (simp add: links_pdu_def)
    obtain resp where "wkc_payload c (?room - 1) 0 flt p1 = Inr resp" "hdr_code resp = hdr_code p1"
      "hdr_token resp = hdr_token p1" "pdu_abs resp [link_format] (Some (take (?room - 1) (drop 0 ?t)))"
      by (rule wkc_payload_run [OF q abs n ne])
    then show ?thesis using False p1 room(1,2) by (simp add: wkc_content_def)
  qed
qed

lemma wellknown_answer:
  assumes tok: "length (hdr_token request) \<le> 8"
    and q: "split_query (coap_check_option request COAP_OPTION_URI_QUERY) = Inr q" "query_ok q (resources c)"
    and small: "length (wkc_text q (resources c)) < 2 ^ 28"
  shows "\<exists>resp. coap_wellknown_response c request = Inr (Some resp) \<and> hdr_token resp = hdr_token request \<and>
    wkc_reply request (wkc_text q (resources c)) resp"
proof -
  let ?ty = "if hdr_type request = COAP_MESSAGE_CON then COAP_MESSAGE_ACK else COAP_MESSAGE_NON"
  let ?t = "wkc_text q (resources c)"
  obtain p0 where p0: "coap_pdu_init ?ty (COAP_RESPONSE_CODE 205) (hdr_id request) 1400 = Inr (Some p0)"
    "pdu_abs p0 [] None" "max_size p0 = 1400" "hdr_code p0 = COAP_RESPONSE_CODE 205"
    by (rule pdu_init_abs [of 1400 ?ty "COAP_RESPONSE_CODE 205" "hdr_id request"]) simp_all
  have room: "length (hdr_token request) + 4 \<le> max_size p0" using tok p0(3) by simp
  obtain p where p: "coap_add_token (Some p0) (hdr_token request) = (1, Some p)" "wkc_pdu request p"
    by (rule pdu_add_token_abs [OF p0(2) tok room]) (use p0 tok in \<open>auto simp: wkc_pdu_def\<close>)
  have p3: "\<not> max_size p \<le> pdu_length p + 3" "hdr_token p = hdr_token request" "pdu_body p = []"
    using p(2) by (auto simp: wkc_pdu_def pdu_length_def)
  have run: "coap_wellknown_response c request =
      (if length ?t = 0 then Inr (Some (wkc_error 400 p))
       else case wkc_block request of
         None \<Rightarrow> Inr (Some (p\<lparr>hdr_code := COAP_RESPONSE_CODE 400\<rparr>))
       | Some (need, off, block) \<Rightarrow>
           bindR (wkc_content c (length ?t) (coap_check_option request 15) need off block p) (\<lambda>resp. Inr (Some resp)))"
    using p0(1) p(1) p3(1) wkc_len_text [OF q] unfolding coap_wellknown_response_def
    by (simp split: option.split prod.split)
  obtain requested b where g: "coap_get_block (Some request) 23 = (requested, b)" by fastforce
  show ?thesis
  proof (cases "?t = [] \<or> requested \<and> blk_szx b > 6")
    case True
    then show ?thesis
      using run g p3 by (auto simp: wkc_reply_def wkc_error_def wkc_block_def)
  next
    case False
    show ?thesis
    proof (cases requested)
      case True
      then have g': "coap_get_block (Some request) 23 = (True, b)" and szx: "blk_szx b \<le> 6" using g False by auto
      let ?off = "unat (blk_num b) * 2 ^ (blk_szx b + 4)"
      obtain b' where b': "wkc_block request = Some (True, ?off, b')" "blk_szx b' = min (blk_szx b) 4"
        "unat (blk_num b') * 2 ^ (blk_szx b' + 4) = ?off" "?off < 2 ^ 30" "?off < 2 ^ 28 \<Longrightarrow> blk_num b' \<le> 0xFFFFF"
        by (rule wkc_block_cut [OF g' szx]) blast
      have s4: "blk_szx b' \<le> 4" using b'(2) by simp
      obtain resp where resp: "wkc_content c (length ?t) (coap_check_option request 15) True ?off b' p = Inr resp"
        "hdr_token resp = hdr_token request"
        "if length ?t \<le> ?off then hdr_code resp = COAP_RESPONSE_CODE 503 \<and> pdu_body resp = []
         else wkc_blockwise ?t ?off (blk_szx b') resp"
        using wkc_content_block [OF q p(2) s4 b'(5) b'(3,4) small] by blast
      have "coap_wellknown_response c request = Inr (Some resp)" using run False b'(1) resp(1) by simp
      moreover have "wkc_reply request ?t resp"
        using resp(3) False True b'(2) g' szx unfolding wkc_reply_def by (simp only: prod.case Let_def split: if_splits) simp_all
      ultimately show ?thesis using resp(2) by blast
    next
      case no: False
      have n0: "blk_num b = 0" using g no get_block_none by auto
      have w: "wkc_block request = Some (False, 0, b)" using g no by (simp add: wkc_block_def)
      show ?thesis
        using wkc_content_whole [OF q p(2) n0] run False w g no by (auto simp: wkc_reply_def Let_def)
    qed
  qed
qed

end
