(* ===== verification/Server.thy ===== *)
theory Server
  imports ErrorResponse WellKnownSpec
begin

text \<open>
  The broker as a server: start-up establishes the invariant, every request, message of the
  bridge and turn of the main loop keeps it, and shutdown releases every topic.
\<close>

section \<open>Start-up\<close>

lemma broker_resource_run:
  obtains r where "broker_resource = Inr r" "broker_res (r\<lparr>r_id := i\<rparr>)"
proof -
  let ?r = "\<lparr>r_id = 0, r_dirty = False, r_partiallydirty = False, r_observable = False,
     r_handler = [Some Hnd_get_broker, Some Hnd_post_broker, None, Some Hnd_delete_broker],
     r_key = coap_hash_path broker_path,
     link_attr = [\<lparr>attr_name = literal ''rt'' 2, attr_value = literal ''core.ps'' 7, attr_flags = 0\<rparr>,
                  \<lparr>attr_name = literal ''ct'' 2, attr_value = literal ''40'' 2, attr_flags = 0\<rparr>],
     subscribers = [], r_uri = literal broker_path 2, r_flags = 0\<rparr>"
  have "broker_resource = Inr ?r"
    by (simp add: broker_resource_def coap_resource_init_def str_bytes_def literal_def broker_path_def
        coap_register_handler_def coap_add_attr_def eval_nat_numeral)
  moreover have "broker_res (?r\<lparr>r_id := i\<rparr>)"
    by (simp add: broker_res_def resource_ok_def attr_ok_def coap_delete_attr_def broker_path_def)
  ultimately show ?thesis by (rule that)
qed

lemma main_init_run:
  assumes "parse_args args False False 4 = Some (mq, False, level)"
  obtains st where "main_init args MQTTCLIENT_SUCCESS True mem mid net rnd now = Inr (Some st)" "broker_inv st [] [] 0"
    "avail (topics st) = mem" "clock st = now" "observe (ctx st) = 0"
proof -
  obtain r where r: "broker_resource = Inr r" "broker_res (r\<lparr>r_id := 0\<rparr>)" by (rule broker_resource_run)
  let ?c = "coap_new_context mid net rnd"
  let ?st = "\<lparr>ctx = coap_add_resource ?c r, topics = db_init mem,
     earliest_topic_max_age = LONG_MAX, earliest_data_max_age = LONG_MAX,
     quit = False, mqtt_bridge = mq, mqtt_calls = (if mq then [Mqtt_connect] else []),
     rd_server = False, rd_resources = [], clock = now\<rparr>"
  have "main_init args MQTTCLIENT_SUCCESS True mem mid net rnd now = Inr (Some ?st)"
    unfolding main_init_def assms r(1) by simp
  moreover have "broker_inv ?st [] [] 0"
    using r(2) db_init_abs [of mem]
    by (simp add: broker_inv_def resources_inv_def topics_ok_def expiry_ok_def paths_def
        coap_add_resource_def RESOURCES_ADD_def coap_new_context_def)
  ultimately show ?thesis
    by (rule that) (simp_all add: db_init_def coap_add_resource_def RESOURCES_ADD_def coap_new_context_def)
qed

section \<open>Messages sent\<close>

definition sent_only :: "broker \<Rightarrow> broker \<Rightarrow> bool" where
  "sent_only st st' \<longleftrightarrow> (\<exists>s. st' = st\<lparr>ctx := (ctx st)\<lparr>sent := s\<rparr>\<rparr>)"

lemma sent_only_refl [simp]: "sent_only st st"
  unfolding sent_only_def by (intro exI [of _ "sent (ctx st)"]) simp

lemma sent_only_inv: "sent_only st st' \<Longrightarrow> broker_inv st' xs cs l = broker_inv st xs cs l"
  by (auto simp: sent_only_def broker_inv_def)

lemma reply_sent_only: "sent_only st (reply node response st)"
proof (cases "q_mcast node \<and> COAP_RESPONSE_CLASS (hdr_code response) > 2")
  case True
  then show ?thesis by (simp add: reply_def)
next
  case False
  show ?thesis
    unfolding reply_def sent_only_def if_not_P [OF False]
    by (intro exI [of _ "sent (snd (coap_send (q_remote node) response (ctx st)))"]) (simp add: coap_send_def)
qed

lemma error_response_total:
  assumes "length (hdr_token request) \<le> 8" "c \<in> {COAP_RESPONSE_CODE 404, COAP_RESPONSE_CODE 405}"
  obtains r where "coap_new_error_response request c coap_option_filter_clear = Inr (Some r)"
proof -
  obtain ph where "coap_response_phrase c = Some ph" "length ph \<le> 18"
    using assms(2) response_phrases(5,6) by auto
  then have "error_size request c coap_option_filter_clear \<le> COAP_MAX_PDU_SIZE"
    using assms(1) by (simp add: error_size_clear)
  then show ?thesis by (rule error_response_run [OF assms(1)]) (rule that)
qed

lemma send_error_run:
  assumes "length (hdr_token (q_pdu node)) \<le> 8" "c \<in> {COAP_RESPONSE_CODE 404, COAP_RESPONSE_CODE 405}"
  obtains st' where "send_error node c st = Inr st'" "sent_only st st'"
proof -
  obtain r where r: "coap_new_error_response (q_pdu node) c coap_option_filter_clear = Inr (Some r)"
    by (rule error_response_total [OF assms])
  have "\<exists>st'. send_error node c st = Inr st' \<and> sent_only st st'"
    using r reply_sent_only [of st node r] by (auto simp: send_error_def)
  then show ?thesis using that by blast
qed

section \<open>Observers of a request\<close>

lemma subs_tokens:
  "s \<in> set (update_observer P f ss) \<Longrightarrow> \<exists>s'\<in>set ss. s = s' \<or> s = f s'"
  "s \<in> set (remove_observer P ss) \<Longrightarrow> s \<in> set ss"
  by (induction ss) (auto split: if_splits)

lemma add_observer_core:
  "(case token of None \<Rightarrow> True | Some t \<Rightarrow> length t \<le> 8) \<Longrightarrow> same_core r (coap_add_observer r peer token)"
  by (auto simp: same_core_def coap_add_observer_def coap_subscription_init_def split: option.splits)

lemma delete_observer_core: "same_core r (snd (coap_delete_observer r peer token))"
  by (auto simp: same_core_def coap_delete_observer_def dest: subs_tokens(2))

lemma touch_core:
  "list_all2 same_core (resources c) (resources (coap_touch_observer c peer token))"
  unfolding coap_touch_observer_def
  by (auto simp: same_core_def intro!: list_all2_map_same_core dest!: subs_tokens(1))

lemma handle_observe_run:
  assumes db: "db_abs (topics st) xs cs l" and tok: "length (hdr_token (q_pdu node)) \<le> 8"
    and st': "handle_observe node r st = (b, st')"
  shows "notified xs cs l st st'" "topics st' = topics st" "observe (ctx st') = observe (ctx st)"
proof -
  let ?tok = "Some (hdr_token (q_pdu node))"
  have upd: "list_all2 same_core (resources c) (resources (update_resource i f c))"
    if "\<And>r. same_core r (f r)" for f i and c :: coap_context
    using that by (auto simp: update_resource_def intro: list_all2_map_same_core)
  have 1: "list_all2 same_core (resources (ctx st)) (resources
      (update_resource (r_id r) (\<lambda>r. coap_add_observer r (q_remote node) ?tok) (ctx st)))"
    by (rule upd) (rule add_observer_core, simp add: tok)
  have add: "list_all2 same_core (resources (ctx st)) (resources (coap_touch_observer
      (update_resource (r_id r) (\<lambda>r. coap_add_observer r (q_remote node) ?tok) (ctx st)) (q_remote node) ?tok))"
    by (rule list_all2_trans [OF _ 1 touch_core]) (rule same_core_trans)
  have del: "list_all2 same_core (resources (ctx st)) (resources (update_resource (r_id r)
      (\<lambda>r. snd (coap_delete_observer r (q_remote node) ?tok)) (ctx st)))"
    by (rule upd) (rule delete_observer_core)
  have st: "st' = st \<or> (\<exists>c. st' = st\<lparr>ctx := c\<rparr> \<and> list_all2 same_core (resources (ctx st)) (resources c) \<and>
      next_id c = next_id (ctx st) \<and> observe c = observe (ctx st))"
    using st' add del
    by (auto simp: handle_observe_def Let_def coap_touch_observer_def update_resource_def
        split: if_splits option.splits)
  then show "notified xs cs l st st'" "topics st' = topics st" "observe (ctx st') = observe (ctx st)"
    using notified_refl [OF db] db by (auto simp: notified_def rest_eq_def)
qed

section \<open>Calling a handler\<close>

text \<open>The response a handler starts from.\<close>

definition blank :: "coap_pdu \<Rightarrow> bool" where
  "blank p \<longleftrightarrow> pdu_abs p [] None \<and> pdu_length p \<le> 12 \<and> max_size p = COAP_MAX_PDU_SIZE"

lemma blankD:
  "blank p \<Longrightarrow> pdu_abs p [] None" "blank p \<Longrightarrow> pdu_length p \<le> 12"
  "blank p \<Longrightarrow> max_size p = COAP_MAX_PDU_SIZE" "blank p \<Longrightarrow> pdu_data p = None"
  by (auto simp: blank_def dest: pdu_abs_data_None)

text \<open>
  A request that cannot bring the broker down: a discovery whose queries are understood, a
  POST the code does not choke on, and numbers that fit the buffers of GET and PUT; what is
  read as a string (the queries, the payloads of POST and PUT) has a terminator in the message.
\<close>

definition harmless :: "broker \<Rightarrow> topic list \<Rightarrow> coap_resource \<Rightarrow> method_handler \<Rightarrow> coap_pdu \<Rightarrow> bool" where
  "harmless st xs r h request =
     (case h of
        Hnd_get_broker \<Rightarrow> understood (pdu_options request) \<and> queries_terminated request
      | Hnd_post_broker \<Rightarrow> terminated request \<and> post_code (post_ct request) (link_of (post_payload request)) (uri_of r)
          (uri_of ` set (resources (ctx st))) \<noteq> None
      | Hnd_post_topic \<Rightarrow> terminated request \<and> post_code (post_ct request) (link_of (post_payload request)) (uri_of r)
          (uri_of ` set (resources (ctx st))) \<noteq> None
      | Hnd_delete_broker \<Rightarrow> True
      | Hnd_get_topic \<Rightarrow> observe (ctx st) < 2 ^ 24 \<and> data_small (clock st) xs
      | Hnd_put_topic \<Rightarrow> put_terminated request \<and> observe (ctx st) + length (resources (ctx st)) \<le> 2 ^ 24 \<and>
          data_small (clock st) (update_first (uri_of r) (put_topic request (clock st)) xs)
      | Hnd_delete_topic \<Rightarrow> length xs < 10 ^ 10
      | _ \<Rightarrow> False)"

text \<open>What holds after a handler: the invariant, and the resource unless the answer is a success.\<close>

definition handled :: "nat \<Rightarrow> coap_pdu \<times> broker \<Rightarrow> bool" where
  "handled rid = (\<lambda>(resp, st'). (\<exists>xs' l'. broker_inv st' xs' [] l') \<and>
     (COAP_RESPONSE_CLASS (hdr_code resp) > 2 \<longrightarrow> rid \<in> r_id ` set (resources (ctx st'))))"

lemma handledI:
  "broker_inv st' xs' [] l' \<Longrightarrow> rid \<in> r_id ` set (resources (ctx st')) \<Longrightarrow> handled rid (resp, st')"
  by (auto simp: handled_def)

lemma put_ends:
  assumes inv: "broker_inv st xs [] l" and r: "r \<in> set (resources (ctx st))" "topic_res r u a"
    and resp: "blank response" and B: "B \<Longrightarrow> harmless st xs r Hnd_put_topic request"
  shows "ends B (hnd_put_topic (r_id r) request response st) (handled (r_id r))"
proof -
  obtain v where v: "ct_attr_value r = Inr (atoi v)" using topic_res_ct [OF r(2)] .
  let ?found = "lookup u xs \<noteq> None \<and> avail (topics st) > 0"
  show ?thesis
  proof (cases "put_code (atoi v) request ?found = 204")
    case False
    obtain q where "hnd_put_topic (r_id r) request response st = Inr (q, st)"
      by (rule put_refused [OF r v inv blankD(1) [OF resp]]) (use False in auto)
    then show ?thesis using r(1) inv by (auto intro!: handledI)
  next
    case True
    have c: "put_code (atoi v) request True = 204 \<and> ?found"
      using True by (auto simp: put_code_def split: option.splits if_splits)
    then obtain t where t: "lookup u xs = Some t" "avail (topics st) > 0" by auto
    have u: "uri_of r = u" by (rule topic_res_uri_of [OF r(2)])
    show ?thesis
    proof (cases "put_terminated request")
      case False
      have "hnd_put_topic (r_id r) request response st = Inl Out_of_bounds"
        by (rule put_unterminated [OF r v inv t _ False]) (use c in simp)
      then show ?thesis using B False by (auto simp: harmless_def)
    next
      case tm: True
    have "ends B (hnd_put_topic (r_id r) request response st) (\<lambda>(resp, st').
      hdr_code resp = COAP_RESPONSE_CODE 204 \<and>
      broker_inv st' (update_first u (put_topic request (clock st)) xs) []
        (l + leaked_by (Some t) (put_data request)) \<and>
      avail (topics st') = avail (topics st) \<and>
      map r_id (resources (ctx st')) = map r_id (resources (ctx st)))"
      by (rule put_accepted [OF r v inv blankD(1) [OF resp] t _ tm])
        (use c B u in \<open>auto simp: harmless_def\<close>)
    then show ?thesis
    proof (rule ends_mono, clarify)
      fix resp st'
      assume "broker_inv st' (update_first u (put_topic request (clock st)) xs) []
          (l + leaked_by (Some t) (put_data request))"
        and m: "map r_id (resources (ctx st')) = map r_id (resources (ctx st))"
      moreover have "r_id r \<in> r_id ` set (resources (ctx st'))"
        using r(1) arg_cong [OF m, of set] by simp
      ultimately show "handled (r_id r) (resp, st')" by (blast intro: handledI)
    qed
    qed
  qed
qed

text \<open>The handlers of a resource, by method.\<close>

lemma handler_of:
  assumes ri: "resources_inv rs n" and r: "r \<in> set rs" and h: "i < 4" "r_handler r ! i = Some h"
  shows "(h \<in> {Hnd_get_broker, Hnd_post_broker, Hnd_delete_broker} \<and> broker_res r) \<or>
    (h \<in> {Hnd_get_topic, Hnd_put_topic, Hnd_post_topic, Hnd_delete_topic} \<and> (\<exists>a. topic_res r (uri_of r) a))"
  using ri r
proof (cases rule: resources_inv_cases)
  case 1
  then show ?thesis using h by (auto simp: broker_res_def less_Suc_eq numeral_eq_Suc nth_Cons')
next
  case (2 u a)
  then have "h \<in> {Hnd_get_topic, Hnd_put_topic, Hnd_post_topic, Hnd_delete_topic}"
    using h by (auto simp: topic_res_def topic_handlers_def less_Suc_eq numeral_eq_Suc nth_Cons')
  then show ?thesis using 2 topic_res_uri_of [OF 2(1)] by auto
qed

lemma call_handler_ends:
  assumes inv: "broker_inv st xs [] l" and r: "r \<in> set (resources (ctx st))"
    and h: "i < 4" "r_handler r ! i = Some h" and resp: "blank response"
    and B: "B \<Longrightarrow> harmless st xs r h (q_pdu node)"
  shows "ends B (call_handler h (r_id r) node response st) (handled (r_id r))"
proof -
  have ri: "resources_inv (resources (ctx st)) (next_id (ctx st))" and db: "db_abs (topics st) xs [] l"
    using inv by (auto simp: broker_inv_def)
  have get: "get_resource (r_id r) st = Inr r" using ri r by (rule get_resource_found) simp
  have rin: "r_id r \<in> r_id ` set (resources (ctx st))" using r by simp
  have post: "ends B (hnd_post_broker (r_id r) (q_pdu node) response st) (handled (r_id r))"
    if "B \<Longrightarrow> post_code (post_ct (q_pdu node)) (link_of (post_payload (q_pdu node))) (uri_of r)
      (uri_of ` set (resources (ctx st))) \<noteq> None" "B \<Longrightarrow> terminated (q_pdu node)"
    by (rule ends_mono [OF hnd_post_ends [OF inv r blankD(4) [OF resp] that]])
      (use rin in \<open>auto simp: handled_def\<close>)
  from handler_of [OF ri r h] show ?thesis
  proof (elim disjE conjE exE)
    assume "h \<in> {Hnd_get_broker, Hnd_post_broker, Hnd_delete_broker}" "broker_res r"
    moreover have "ends B (hnd_get_broker (q_pdu node) response st) (handled (r_id r))"
      if "B \<Longrightarrow> understood (pdu_options (q_pdu node))" "B \<Longrightarrow> queries_terminated (q_pdu node)"
      by (rule ends_mono [OF hnd_get_broker_ends [OF inv blankD(4) [OF resp] that]])
        (use inv rin in \<open>auto intro!: handledI\<close>)
    moreover have "handled (r_id r) (hnd_delete_broker response st)"
      unfolding hnd_delete_broker_def by (rule handledI [of _ xs l]) (use inv rin in \<open>auto simp: broker_inv_def\<close>)
    ultimately show ?thesis using post B by (auto simp: call_handler_def harmless_def Let_def)
  next
    fix a assume hs: "h \<in> {Hnd_get_topic, Hnd_put_topic, Hnd_post_topic, Hnd_delete_topic}"
      and t: "topic_res r (uri_of r) a"
    have g: "ends B (hnd_get_topic r (q_remote node) (Some (hdr_token (q_pdu node))) (Some (q_pdu node)) response st)
        (handled (r_id r))" if "h = Hnd_get_topic"
      by (rule ends_mono [OF hnd_get_topic_ends [OF t db blankD(1-3) [OF resp]]])
        (use B that inv rin lookup_path in
          \<open>auto simp: harmless_def data_small_def broker_inv_def intro!: handledI [of _ xs l]\<close>)
    have d: "ends B (hnd_delete_topic (r_id r) response st) (handled (r_id r))" if "h = Hnd_delete_topic"
      by (rule ends_mono [OF hnd_delete_topic_ends [OF inv r t blankD(1-3) [OF resp], of B]])
        (use B that rin in \<open>auto simp: harmless_def handled_def COAP_RESPONSE_CLASS_def class_codes\<close>)
    show ?thesis
      using hs g d post put_ends [OF inv r t resp] B get
      by (auto simp: call_handler_def harmless_def hnd_post_same Let_def)
  qed
qed

section \<open>A request\<close>

lemma finish_request_run:
  assumes inv: "broker_inv st xs [] l"
    and rid: "COAP_RESPONSE_CLASS (hdr_code response) > 2 \<Longrightarrow> rid \<in> r_id ` set (resources (ctx st))"
  obtains st' where "finish_request node rid observed response st = Inr st'" "broker_inv st' xs [] l"
proof -
  let ?del = "\<lambda>r. snd (coap_delete_observer r (q_remote node) (Some (hdr_token (q_pdu node))))"
  let ?st = "if observed \<and> COAP_RESPONSE_CLASS (hdr_code response) > 2
    then st\<lparr>ctx := update_resource rid ?del (ctx st)\<rparr> else st"
  have ri: "resources_inv (resources (ctx st)) (next_id (ctx st))" using inv by (simp add: broker_inv_def)
  have get: "\<exists>r. get_resource rid st = Inr r" if "COAP_RESPONSE_CLASS (hdr_code response) > 2"
    using rid [OF that] get_resource_found [OF ri] by auto
  have i: "broker_inv ?st xs [] l"
    using inv update_resource_inv [OF inv, of rid ?del] delete_observer_core by simp
  show ?thesis
  proof (cases "no_response (q_pdu node) response = RESPONSE_DROP")
    case True
    then show ?thesis using that inv by (simp add: finish_request_def)
  next
    case False
    have e: "bindR (if observed \<and> COAP_RESPONSE_CLASS (hdr_code response) > 2
        then bindR (get_resource rid st) (\<lambda>_. Inr (st\<lparr>ctx := update_resource rid ?del (ctx st)\<rparr>))
        else Inr st) f = f ?st" for f :: "broker \<Rightarrow> broker result"
      using get by auto
    have "\<exists>c r. finish_request node rid observed response st = Inr (if c then reply node r ?st else ?st)"
      unfolding finish_request_def Let_def if_not_P [OF False] e by blast
    then obtain c r where run: "finish_request node rid observed response st =
        Inr (if c then reply node r ?st else ?st)" by blast
    have "broker_inv (if c then reply node r ?st else ?st) xs [] l"
      using i sent_only_inv [OF reply_sent_only, of node r ?st] by (cases c) simp_all
    then show ?thesis using that run by blast
  qed
qed

lemma fresh_response:
  assumes "length tok \<le> 8"
  obtains p where "coap_pdu_init ty 0 i COAP_MAX_PDU_SIZE = Inr (Some p)"
    "\<exists>q. coap_add_token (Some p) tok = (1, Some q) \<and> blank q"
proof -
  obtain p where p: "coap_pdu_init ty 0 i COAP_MAX_PDU_SIZE = Inr (Some p)" "pdu_abs p [] None"
    "max_size p = COAP_MAX_PDU_SIZE"
    by (rule pdu_init_abs [of COAP_MAX_PDU_SIZE ty 0 i]) simp_all
  have room: "length tok + 4 \<le> max_size p" using assms p(3) by simp
  obtain q where "coap_add_token (Some p) tok = (1, Some q)" "pdu_abs q [] None"
    "max_size q = max_size p" "pdu_length q = length tok + 4"
    by (rule pdu_add_token_abs [OF p(2) assms room])
  then show ?thesis using that p assms by (auto simp: blank_def)
qed

definition target :: "broker \<Rightarrow> coap_pdu \<Rightarrow> coap_resource option" where
  "target st request = coap_get_resource_from_key (ctx st) (coap_hash_request_uri request)"

definition target_handler :: "coap_resource \<Rightarrow> coap_pdu \<Rightarrow> method_handler option" where
  "target_handler r request =
     (if 1 \<le> hdr_code request \<and> hdr_code request \<le> 4 then r_handler r ! (hdr_code request - 1) else None)"

text \<open>
  A GET on \<open>.well-known/core\<close> whose query the code can answer, with an answer that is not too
  long for block-wise transfer.
\<close>

definition wkc_harmless :: "coap_context \<Rightarrow> coap_pdu \<Rightarrow> bool" where
  "wkc_harmless c request \<longleftrightarrow>
     (\<exists>q. split_query (coap_check_option request COAP_OPTION_URI_QUERY) = Inr q \<and> query_ok q (resources c) \<and>
        length (wkc_text q (resources c)) < 2 ^ 28)"

definition harmless_request :: "broker \<Rightarrow> topic list \<Rightarrow> coap_pdu \<Rightarrow> bool" where
  "harmless_request st xs request \<longleftrightarrow>
     (\<forall>r h. target st request = Some r \<longrightarrow> target_handler r request = Some h \<longrightarrow> harmless st xs r h request) \<and>
     (hdr_code request = COAP_REQUEST_GET \<longrightarrow> is_wkc (coap_hash_request_uri request) \<longrightarrow> wkc_harmless (ctx st) request)"

lemma target_mem: "target st request = Some r \<Longrightarrow> r \<in> set (resources (ctx st))"
proof -
  assume "target st request = Some r"
  then obtain us vs where "rev (resources (ctx st)) = us @ r # vs"
    by (auto simp: target_def coap_get_resource_from_key_def dest!: find_split)
  then have "r \<in> set (rev (resources (ctx st)))" by simp
  then show "r \<in> set (resources (ctx st))" by simp
qed

lemma harmless_core:
  assumes "harmless st xs r h request" "same_core r r'" "notified xs cs l st st'"
    "observe (ctx st') = observe (ctx st)"
  shows "harmless st' xs r' h request"
proof -
  have a: "list_all2 same_core (resources (ctx st)) (resources (ctx st'))" "clock st' = clock st"
    using assms(3) by (auto simp: notified_def rest_eq_def)
  have "map uri_of (resources (ctx st')) = map uri_of (resources (ctx st))"
    using a(1) by (induction rule: list_all2_induct) (auto simp: same_core_def uri_of_def)
  then have "uri_of ` set (resources (ctx st')) = uri_of ` set (resources (ctx st))"
    "length (resources (ctx st')) = length (resources (ctx st))"
    by (metis set_map) (rule list_all2_lengthD [OF a(1), symmetric])
  moreover have "uri_of r' = uri_of r" using assms(2) by (simp add: same_core_def uri_of_def)
  ultimately have "harmless st' xs r' h request = harmless st xs r h request"
    using assms(4) a(2) by (cases h) (simp_all add: harmless_def)
  then show ?thesis using assms(1) by simp
qed

lemma handle_request_ends:
  assumes inv: "broker_inv st xs [] l" and tok: "length (hdr_token (q_pdu node)) \<le> 8"
    and B: "B \<Longrightarrow> harmless_request st xs (q_pdu node)"
  shows "ends B (handle_request node st) (\<lambda>st'. \<exists>xs' l'. broker_inv st' xs' [] l')"
proof -
  let ?req = "q_pdu node"
  let ?wk = "bindR (coap_wellknown_response (ctx st) ?req) (\<lambda>response. case response of
               None \<Rightarrow> Inr st
             | Some response \<Rightarrow>
                 if no_response ?req response \<noteq> RESPONSE_DROP
                 then Inr (reply node response st) else Inr st)"
  have wk: "ends B ?wk (\<lambda>st'. \<exists>xs' l'. broker_inv st' xs' [] l')"
    if "hdr_code ?req = COAP_REQUEST_GET" "is_wkc (coap_hash_request_uri ?req)"
  proof (rule ends_bindI, rule ends_cases)
    fix e assume "coap_wellknown_response (ctx st) ?req = Inl e"
    then show "\<not> B"
      using B that wellknown_answer [OF tok, of _ "ctx st"] by (auto simp: harmless_request_def wkc_harmless_def)
  next
    fix x
    show "ends B (case x of None \<Rightarrow> Inr st | Some response \<Rightarrow>
        if no_response ?req response \<noteq> RESPONSE_DROP then Inr (reply node response st) else Inr st)
      (\<lambda>st'. \<exists>xs' l'. broker_inv st' xs' [] l')"
      using inv sent_only_inv [OF reply_sent_only] by (auto split: option.splits) blast+
  qed
  have err: "ends B (send_error node c st) (\<lambda>st'. \<exists>xs' l'. broker_inv st' xs' [] l')"
    if c: "c \<in> {COAP_RESPONSE_CODE 404, COAP_RESPONSE_CODE 405}" for c
  proof -
    obtain st' where "send_error node c st = Inr st'" "sent_only st st'"
      by (rule send_error_run [OF tok c])
    then show ?thesis using inv sent_only_inv [of st st'] by (auto, blast)
  qed
  show ?thesis
  proof (cases "target st ?req")
    case None
    then show ?thesis using wk err by (simp add: handle_request_def target_def Let_def)
  next
    case (Some r)
    have r: "r \<in> set (resources (ctx st))" by (rule target_mem [OF Some])
    have db: "db_abs (topics st) xs [] l" using inv by (simp add: broker_inv_def)
    show ?thesis
    proof (cases "target_handler r ?req")
      case None
      have "handle_request node st =
          (if hdr_code ?req = COAP_REQUEST_GET \<and> is_wkc (coap_hash_request_uri ?req) then ?wk
           else send_error node (COAP_RESPONSE_CODE 405) st)"
        using Some None unfolding handle_request_def Let_def target_def target_handler_def by simp
      then show ?thesis using wk err by simp
    next
      case h: (Some h)
      let ?ty = "if hdr_type ?req = COAP_MESSAGE_CON then COAP_MESSAGE_ACK else COAP_MESSAGE_NON"
      obtain p q where p: "coap_pdu_init ?ty 0 (hdr_id ?req) COAP_MAX_PDU_SIZE = Inr (Some p)"
        "coap_add_token (Some p) (hdr_token ?req) = (1, Some q)" "blank q"
        using fresh_response [OF tok, of ?ty "hdr_id ?req"] by metis
      obtain b st1 where o: "handle_observe node r st = (b, st1)" by fastforce
      note n = handle_observe_run [OF db tok o]
      have inv1: "broker_inv st1 xs [] l" by (rule notified_inv [OF inv n(1)])
      have run: "handle_request node st =
          bindR (call_handler h (r_id r) node q st1) (\<lambda>(response, st).
            finish_request node (r_id r) b response st)"
        using Some h p o unfolding handle_request_def Let_def target_def target_handler_def by simp
      have "list_all2 same_core (resources (ctx st)) (resources (ctx st1))" using n(1) by (simp add: notified_def)
      then obtain r1 where r1: "r1 \<in> set (resources (ctx st1))" "same_core r r1"
        using r by (metis in_set_conv_nth list_all2_conv_all_nth)
      have idx: "hdr_code ?req - 1 < 4" "r_handler r1 ! (hdr_code ?req - 1) = Some h" "r_id r1 = r_id r"
        using h r1(2) by (auto simp: target_handler_def same_core_def split: if_splits)
      have B1: "B \<Longrightarrow> harmless st1 xs r1 h ?req"
        using B Some h harmless_core [OF _ r1(2) n(1,3)] by (auto simp: harmless_request_def)
      have call: "ends B (call_handler h (r_id r) node q st1) (handled (r_id r))"
        using call_handler_ends [OF inv1 r1(1) idx(1,2) p(3) B1] idx(3) by simp
      show ?thesis
        unfolding run
      proof (intro ends_bindI, rule ends_mono [OF call], clarify)
        fix resp st2 assume "handled (r_id r) (resp, st2)"
        then obtain xs2 l2 where h2: "broker_inv st2 xs2 [] l2"
          "COAP_RESPONSE_CLASS (hdr_code resp) > 2 \<Longrightarrow> r_id r \<in> r_id ` set (resources (ctx st2))"
          by (auto simp: handled_def)
        obtain st3 where "finish_request node (r_id r) b resp st2 = Inr st3" "broker_inv st3 xs2 [] l2"
          by (rule finish_request_run [OF h2])
        then show "ends B (finish_request node (r_id r) b resp st2) (\<lambda>st'. \<exists>xs' l'. broker_inv st' xs' [] l')"
          by auto
      qed
    qed
  qed
qed

section \<open>Both monitors\<close>

lemma monitors_run:
  assumes inv: "broker_inv st xs [] l"
  obtains st' where "bindR (topicDataMAMonitor st) topicMAMonitor = Inr st'" "clock st' = clock st"
    "broker_inv st' (filter (alive (clock st)) (map (expire_data (clock st)) xs)) [] l"
proof -
  let ?now = "clock st"
  obtain d e where 1: "topicDataMAMonitor st = Inr (st\<lparr>topics := d, earliest_data_max_age := e\<rparr>)"
    "broker_inv (st\<lparr>topics := d, earliest_data_max_age := e\<rparr>) (map (expire_data ?now) xs) [] l"
    using topicDataMAMonitor_run [OF inv] by blast
  let ?st = "st\<lparr>topics := d, earliest_data_max_age := e\<rparr>"
  have c: "clock ?st = ?now" by simp
  let ?us = "expired_paths ?now (map (expire_data ?now) xs)"
  obtain d' e' where 2: "topicMAMonitor ?st = Inr ((removed (set ?us) ?us d' ?st)\<lparr>earliest_topic_max_age := e'\<rparr>)"
    "broker_inv ((removed (set ?us) ?us d' ?st)\<lparr>earliest_topic_max_age := e'\<rparr>)
      (filter (alive ?now) (map (expire_data ?now) xs)) [] l"
    using topicMAMonitor_run [OF 1(2)] unfolding c by blast
  show ?thesis
    by (rule that [OF _ _ 2(2)]) (use 1(1) 2(1) in simp_all)
qed

section \<open>A message of the bridge\<close>

definition mqtt_topic :: "char list \<Rightarrow> topic \<Rightarrow> topic" where
  "mqtt_topic payload t = t\<lparr>td_data := stored_data (Some payload) (length payload), td_data_ma := 0\<rparr>"

lemma msgarrvd_loop_skip:
  assumes "\<forall>r\<in>set pre. str_cstr (r_uri r) = Inr (uri_of r) \<and> uri_of r \<noteq> name"
  shows "msgarrvd_loop (pre @ rs) name payload st = msgarrvd_loop rs name payload st"
  using assms by (induction pre) auto

lemma mqtt_topic_inv:
  assumes inv: "broker_inv st xs cs l"
    and db: "db_abs (topics st') (update_first u (mqtt_topic payload) xs) cs l'"
    and same: "ctx st' = ctx st" "earliest_topic_max_age st' = earliest_topic_max_age st"
      "earliest_data_max_age st' = earliest_data_max_age st"
  shows "broker_inv st' (update_first u (mqtt_topic payload) xs) cs l'"
  by (rule broker_inv_update [OF inv db])
    (use same expiry_of_lookup [OF inv] stored_data_no_NUL in \<open>auto simp: mqtt_topic_def\<close>)

lemma msgarrvd_unknown:
  assumes inv: "broker_inv st xs [] l" and "name \<notin> uri_of ` set (resources (ctx st))"
  shows "msgarrvd name payload st = Inr (0, st)"
proof -
  have ri: "resources_inv (resources (ctx st)) (next_id (ctx st))" using inv by (simp add: broker_inv_def)
  have "\<forall>r\<in>set (resources (ctx st)). str_cstr (r_uri r) = Inr (uri_of r) \<and> uri_of r \<noteq> name"
    using assms(2) resources_inv_cstr [OF ri] by auto
  then show ?thesis
    using msgarrvd_loop_skip [of "resources (ctx st)" name "[]" payload st] by (simp add: msgarrvd_def)
qed

lemma msgarrvd_start:
  assumes inv: "broker_inv st xs [] l" and name: "name \<in> uri_of ` set (resources (ctx st))"
  obtains r post where "msgarrvd name payload st = msgarrvd_loop (r # post) name payload st"
    "r \<in> set (resources (ctx st))" "uri_of r = name" "str_is (r_uri r) name = Inr True"
proof -
  have ri: "resources_inv (resources (ctx st)) (next_id (ctx st))" using inv by (auto simp: broker_inv_def)
  have ex: "\<exists>r\<in>set (resources (ctx st)). uri_of r = name" using name by force
  obtain pre r post where rs: "resources (ctx st) = pre @ r # post" "uri_of r = name"
    "\<forall>q\<in>set pre. uri_of q \<noteq> name"
    using split_list_first_prop [OF ex] by blast
  have "str_cstr (r_uri r) = Inr name" using resources_inv_cstr [OF ri, of r] rs by simp
  moreover have "msgarrvd name payload st = msgarrvd_loop (r # post) name payload st"
    unfolding msgarrvd_def using rs resources_inv_cstr [OF ri] by (simp add: msgarrvd_loop_skip)
  ultimately show ?thesis using that [of r post] rs by simp
qed

text \<open>
  A message whose payload is not the present datum, up to the point where the observers are
  notified.
\<close>

lemma msgarrvd_changed:
  assumes inv: "broker_inv st xs [] l" and t: "lookup name xs = Some t" "avail (topics st) > 0"
    and nul: "NUL \<in> set payload" and new: "td_data t \<noteq> Some (cstr payload)"
  obtains r a st2 l2 where "r \<in> set (resources (ctx st))" "uri_of r = name"
    "msgarrvd name payload st = bindR (coap_check_notify st2) (\<lambda>st.
      bindR (with_db (freeTopic (Some a)) st) (\<lambda>(_, st). Inr (1, st)))"
    "broker_inv st2 (update_first name (mqtt_topic payload) xs) [(a, t)] l2"
    "ctx st2 = update_resource (r_id r) (\<lambda>r. r\<lparr>r_dirty := True\<rparr>) (ctx st)"
    "Suc (avail (topics st2)) = avail (topics st)" "clock st2 = clock st"
proof -
  have db: "db_abs (topics st) xs [] l" and sub: "set (paths xs) \<subseteq> uri_of ` set (resources (ctx st))"
    using inv by (auto simp: broker_inv_def)
  have "name \<in> set (paths xs)" using t(1) lookup_None_iff [of name xs] by auto
  then have name: "name \<in> uri_of ` set (resources (ctx st))" using sub by blast
  obtain r post where s: "msgarrvd name payload st = msgarrvd_loop (r # post) name payload st"
    "r \<in> set (resources (ctx st))" "uri_of r = name" "str_is (r_uri r) name = Inr True"
    by (rule msgarrvd_start [OF inv name])
  obtain a d1 where cl: "cloneTopic (Some name) (topics st) = Inr (Some a, d1)" "db_abs d1 xs [(a, t)] l"
    "Suc (avail d1) = avail (topics st)"
    using cloneTopic_refines [OF db, of name] t by (auto split: option.splits)
  obtain n where n: "load a d1 = Inr n" "topic.truncate n = t"
    using clone_load [OF cl(2), of a t] by auto
  have dt: "td_data n = td_data t" using n(2) by auto
  have sn: "snprintf_s (length payload + 1) (cstr payload) = cstr payload"
    using cstr_length_le [of payload] by (simp add: snprintf_s_def)
  have rd: "read_string payload = Inr (cstr payload)" by (rule read_string_terminated [OF nul])
  have inv1: "broker_inv (st\<lparr>topics := d1\<rparr>) xs [(a, t)] l" using inv cl(2) by (simp add: broker_inv_def)
  let ?xs = "update_first name (mqtt_topic payload) xs"
  have f: "(\<lambda>t. t\<lparr>td_data := stored_data (Some (cstr payload)) (length payload), td_data_ma := 0\<rparr>) = mqtt_topic payload"
    by (simp add: fun_eq_iff mqtt_topic_def)
  obtain d2 l2 where up: "updateTopicData (Some name) 0 (Some (cstr payload)) (length payload) d1 = Inr (1, d2)"
    "db_abs d2 ?xs [(a, t)] l2" "avail d2 = avail d1"
    using updateTopicData_refines [OF cl(2), of name 0 "Some (cstr payload)" "length payload"] t(1)
    unfolding f by auto
  define st1 where "st1 = st\<lparr>topics := d2\<rparr>"
  define st2 where "st2 = st1\<lparr>ctx := update_resource (r_id r) (\<lambda>r. r\<lparr>r_dirty := True\<rparr>) (ctx st1)\<rparr>"
  have "broker_inv st1 ?xs [(a, t)] l2"
    by (rule mqtt_topic_inv [OF inv1]) (use up(2) in \<open>simp_all add: st1_def\<close>)
  then have inv2: "broker_inv st2 ?xs [(a, t)] l2"
    unfolding st2_def by (rule update_resource_inv) (simp add: same_core_def)
  have nc: "compareString (td_data n) (Some (cstr payload)) \<noteq> 1"
    using new dt by (cases "td_data t") (auto simp: compareString_def)
  have run: "msgarrvd name payload st = bindR (coap_check_notify st2) (\<lambda>st.
      bindR (with_db (freeTopic (Some a)) st) (\<lambda>(_, st). Inr (1, st)))"
    using s(4) cl(1) n(1) nc sn up(1) rd unfolding s(1) by (simp add: with_db_def Let_def st1_def st2_def)
  show ?thesis
    by (rule that [OF s(2,3) run inv2]) (use cl(3) up(3) in \<open>simp_all add: st1_def st2_def\<close>)
qed

lemma msgarrvd_known:
  assumes inv: "broker_inv st xs [] l" and t: "lookup name xs = Some t" "avail (topics st) > 0"
    and small: "B \<Longrightarrow> observe (ctx st) + length (resources (ctx st)) \<le> 2 ^ 24"
      "B \<Longrightarrow> data_small (clock st) (update_first name (mqtt_topic payload) xs)"
    and nul: "NUL \<in> set payload"
  shows "ends B (msgarrvd name payload st) (\<lambda>(k, st'). k = 1 \<and>
    (\<exists>l'. broker_inv st'
      (if td_data t = Some (cstr payload) then xs else update_first name (mqtt_topic payload) xs) [] l'))"
proof -
  have free: "ends B (bindR (with_db (freeTopic (Some a)) st') (\<lambda>(_, st). Inr (1 :: nat, st)))
      (\<lambda>(k, st'). k = 1 \<and> (\<exists>l'. broker_inv st' ys [] l'))"
    if "broker_inv st' ys [(a, t)] l'" for st' ys l' a
    using broker_inv_free [OF that] by fastforce
  show ?thesis
  proof (cases "td_data t = Some (cstr payload)")
    case True
    have db: "db_abs (topics st) xs [] l" and sub: "set (paths xs) \<subseteq> uri_of ` set (resources (ctx st))"
      using inv by (auto simp: broker_inv_def)
    have "name \<in> set (paths xs)" using t(1) lookup_None_iff [of name xs] by auto
    then have name: "name \<in> uri_of ` set (resources (ctx st))" using sub by blast
    obtain r post where s: "msgarrvd name payload st = msgarrvd_loop (r # post) name payload st"
      "str_is (r_uri r) name = Inr True"
      by (rule msgarrvd_start [OF inv name])
    obtain a d1 where cl: "cloneTopic (Some name) (topics st) = Inr (Some a, d1)" "db_abs d1 xs [(a, t)] l"
      using cloneTopic_refines [OF db, of name] t by (auto split: option.splits)
    obtain n where n: "load a d1 = Inr n" "topic.truncate n = t"
      using clone_load [OF cl(2), of a t] by auto
    have dt: "td_data n = td_data t" using n(2) by auto
    have sn: "snprintf_s (length payload + 1) (cstr payload) = cstr payload"
      using cstr_length_le [of payload] by (simp add: snprintf_s_def)
    have inv1: "broker_inv (st\<lparr>topics := d1\<rparr>) xs [(a, t)] l" using inv cl(2) by (simp add: broker_inv_def)
    show ?thesis
      using free [OF inv1] True cl(1) n(1) dt sn s(2) read_string_terminated [OF nul]
      unfolding s(1) by (simp add: with_db_def Let_def)
  next
    case False
    let ?xs = "update_first name (mqtt_topic payload) xs"
    obtain r a st2 l2 where r: "r \<in> set (resources (ctx st))" and run: "msgarrvd name payload st = bindR (coap_check_notify st2) (\<lambda>st.
        bindR (with_db (freeTopic (Some a)) st) (\<lambda>(_, st). Inr (1, st)))"
      and inv2: "broker_inv st2 ?xs [(a, t)] l2"
      and cx: "ctx st2 = update_resource (r_id r) (\<lambda>r. r\<lparr>r_dirty := True\<rparr>) (ctx st)" and clk: "clock st2 = clock st"
      by (rule msgarrvd_changed [OF inv t nul False])
    have "ends B (coap_check_notify st2) (notified ?xs [(a, t)] l2 st2)"
      by (rule coap_check_notify_ends [OF inv2]) (use small cx clk in \<open>simp_all add: update_resource_def\<close>)
    then have "ends B (msgarrvd name payload st) (\<lambda>(k, st'). k = 1 \<and> (\<exists>l'. broker_inv st' ?xs [] l'))"
      unfolding run by (intro ends_bindI, elim ends_mono) (rule free, rule notified_inv [OF inv2])
    then show ?thesis using False by simp
  qed
qed

text \<open>The observers of the topic are told of a new datum.\<close>

lemma msgarrvd_tells:
  assumes inv: "broker_inv st xs [] l" and t: "lookup name xs = Some t" "avail (topics st) > 0"
    and nul: "NUL \<in> set payload" and new: "td_data t \<noteq> Some (cstr payload)"
    and small: "observe (ctx st) + length (resources (ctx st)) \<le> 2 ^ 24"
      "data_small (clock st) (update_first name (mqtt_topic payload) xs)"
    and r: "r \<in> set (resources (ctx st))" "topic_res r name a" "ct_attr_value r = Inr ct"
    and ok: "notifiable st r (mqtt_topic payload t)"
  shows "\<exists>st'. msgarrvd name payload st = Inr (1, st') \<and>
    told (word_of_int ct) (clock st) (mqtt_topic payload t) (subscribers r) st st' \<and>
    (\<forall>r\<in>set (resources (ctx st')). \<not> r_dirty r)"
proof -
  let ?xs = "update_first name (mqtt_topic payload) xs"
  obtain r' c st2 l2 where r': "r' \<in> set (resources (ctx st))" "uri_of r' = name"
    and run: "msgarrvd name payload st = bindR (coap_check_notify st2) (\<lambda>st.
      bindR (with_db (freeTopic (Some c)) st) (\<lambda>(_, st). Inr (1, st)))"
    and inv2: "broker_inv st2 ?xs [(c, t)] l2"
    and cx: "ctx st2 = update_resource (r_id r') (\<lambda>r. r\<lparr>r_dirty := True\<rparr>) (ctx st)"
    and av: "Suc (avail (topics st2)) = avail (topics st)" and clk: "clock st2 = clock st"
    by (rule msgarrvd_changed [OF inv t nul new])
  have "distinct (map uri_of (resources (ctx st)))" using inv by (simp add: broker_inv_def resources_inv_def)
  then have "r' = r" using r(1) r' topic_res_uri_of [OF r(2)] by (auto simp: distinct_map dest: inj_onD)
  then have cx': "ctx st2 = update_resource (r_id r) (\<lambda>r. r\<lparr>r_dirty := True\<rparr>) (ctx st)" using cx by simp
  have lk: "lookup name ?xs = Some (mqtt_topic payload t)"
    using t(1) by (simp add: lookup_update_first mqtt_topic_def)
  obtain st3 st' where "coap_check_notify st2 = Inr st3" "with_db (freeTopic (Some c)) st3 = Inr (1, st')"
    "told (word_of_int ct) (clock st) (mqtt_topic payload t) (subscribers r) st st'"
    "\<forall>r\<in>set (resources (ctx st')). \<not> r_dirty r"
    by (rule dirty_tells [OF inv2 r cx' av clk lk small ok])
  then show ?thesis unfolding run by simp
qed

text \<open>Without a terminator, or without a topic to clone, the callback faults.\<close>

lemma msgarrvd_faults:
  assumes inv: "broker_inv st xs [] l" and name: "name \<in> uri_of ` set (resources (ctx st))"
  shows "NUL \<notin> set payload \<Longrightarrow> msgarrvd name payload st = Inl Out_of_bounds"
    and "lookup name xs = None \<or> avail (topics st) = 0 \<Longrightarrow> NUL \<in> set payload \<Longrightarrow>
      msgarrvd name payload st = Inl Null_deref"
proof -
  have db: "db_abs (topics st) xs [] l" using inv by (simp add: broker_inv_def)
  obtain r post where s: "msgarrvd name payload st = msgarrvd_loop (r # post) name payload st"
    "str_is (r_uri r) name = Inr True"
    by (rule msgarrvd_start [OF inv name])
  obtain c d where c: "cloneTopic (Some name) (topics st) = Inr (c, d)"
    "lookup name xs = None \<or> avail (topics st) = 0 \<Longrightarrow> c = None"
    using cloneTopic_refines [OF db, of name] by (auto split: option.splits)
  show "NUL \<notin> set payload \<Longrightarrow> msgarrvd name payload st = Inl Out_of_bounds"
    unfolding s(1) by (simp add: s(2) c(1) with_db_def read_string_unterminated)
  show "lookup name xs = None \<or> avail (topics st) = 0 \<Longrightarrow> NUL \<in> set payload \<Longrightarrow>
      msgarrvd name payload st = Inl Null_deref"
    unfolding s(1) using c(2) by (simp add: s(2) c(1) with_db_def read_string_terminated)
qed

lemma msgarrvd_keeps:
  assumes inv: "broker_inv st xs [] l" and run: "msgarrvd name payload st = Inr (k, st')"
  shows "\<exists>xs' l'. broker_inv st' xs' [] l'"
proof (cases "name \<in> uri_of ` set (resources (ctx st))")
  case False
  then show ?thesis using msgarrvd_unknown [OF inv] run inv by auto
next
  case True
  have nul: "NUL \<in> set payload" using msgarrvd_faults(1) [OF inv True, of payload] run by auto
  then obtain t where t: "lookup name xs = Some t" "avail (topics st) > 0"
    using msgarrvd_faults(2) [OF inv True, of payload] run by (cases "lookup name xs") auto
  show ?thesis using endsD [OF msgarrvd_known [OF inv t, of False, OF _ _ nul] run] by auto
qed

section \<open>Shutdown\<close>

lemma remove_any:
  assumes inv: "broker_inv st xs [] l" and r: "r \<in> set (resources (ctx st))" "topic_res r u a"
  obtains k d where "with_db (deleteTopic (Some u)) st = Inr (k, st\<lparr>topics := d\<rparr>)"
    "remove_resource u r (st\<lparr>topics := d\<rparr>) = Inr (removed {u} [u] d st)"
    "broker_inv (removed {u} [u] d st) (remove_first u xs) [] l"
    "avail d = avail (topics st) + (length xs - length (remove_first u xs))"
proof -
  have ri: "resources_inv (resources (ctx st)) (next_id (ctx st))" and db: "db_abs (topics st) xs [] l"
    using inv by (auto simp: broker_inv_def)
  have uri: "uri_of r = u" by (rule topic_res_uri_of [OF r(2)])
  obtain d where d: "deleteTopic (Some u) (topics st) = Inr (if lookup u xs = None then 0 else 1, d)"
    "avail d = avail (topics st) + (if lookup u xs = None then 0 else 1)"
    "db_abs d (remove_first u xs) [] l"
    using deleteTopic_refines [OF db, of u] by blast
  have f: "filter (\<lambda>x. r_id x \<noteq> r_id r) (resources (ctx st)) =
      filter (\<lambda>x. uri_of x \<notin> {u}) (resources (ctx st))"
  proof (rule filter_cong [OF refl])
    fix x assume x: "x \<in> set (resources (ctx st))"
    have "r_id x = r_id r \<longleftrightarrow> x = r" "uri_of x = uri_of r \<longleftrightarrow> x = r"
      using ri r(1) x by (auto simp: resources_inv_def distinct_map dest: inj_onD)
    then show "(r_id x \<noteq> r_id r) = (uri_of x \<notin> {u})" using uri by simp
  qed
  have e: "(mqtt (Mqtt_unsubscribe u) (st\<lparr>topics := d\<rparr>))\<lparr>ctx := RESOURCES_DELETE (ctx st) (r_id r)\<rparr>
      = removed {u} [u] d st"
    using f by (simp add: mqtt_eq removed_def RESOURCES_DELETE_def)
  have len: "length xs - length (remove_first u xs) = (if lookup u xs = None then 0 else 1)"
  proof -
    have "length (remove_first u xs) = length (remove1 u (paths xs))"
      using arg_cong [OF paths_remove_first [of u xs], of length] by (simp add: paths_def)
    moreover have "length (paths xs) = length xs" by (simp add: paths_def)
    moreover have "xs \<noteq> []" if "lookup u xs \<noteq> None" using that by auto
    ultimately show ?thesis by (auto simp: length_remove1 lookup_None_iff Suc_le_eq)
  qed
  show ?thesis
  proof (rule that)
    show "with_db (deleteTopic (Some u)) st = Inr (if lookup u xs = None then 0 else 1, st\<lparr>topics := d\<rparr>)"
      using d(1) by (rule with_db_Inr)
    show "remove_resource u r (st\<lparr>topics := d\<rparr>) = Inr (removed {u} [u] d st)"
      using remove_resource_run [OF r(2)] e by simp
    show "broker_inv (removed {u} [u] d st) (remove_first u xs) [] l"
      using delete_topic_inv [OF inv r d(3)] e by metis
    show "avail d = avail (topics st) + (length xs - length (remove_first u xs))" using d(2) len by simp
  qed
qed

lemma cleanup_run:
  assumes "broker_inv st xs [] l" and "set rs \<subseteq> set (resources (ctx st))" and "distinct (map uri_of rs)"
    and "\<forall>r\<in>set rs. \<exists>u a. topic_res r u a"
  shows "\<exists>d. cleanup_resources rs st = Inr (removed (uri_of ` set rs) (map uri_of rs) d st) \<and>
    broker_inv (removed (uri_of ` set rs) (map uri_of rs) d st)
      (filter (\<lambda>t. td_path t \<notin> uri_of ` set rs) xs) [] l \<and>
    avail d + length (filter (\<lambda>t. td_path t \<notin> uri_of ` set rs) xs) = avail (topics st) + length xs"
  using assms
proof (induction rs arbitrary: st xs)
  case Nil
  then show ?case by (auto simp: removed_empty intro!: exI [of _ "topics st"])
next
  case (Cons r rs)
  have r: "r \<in> set (resources (ctx st))" using Cons.prems by simp
  obtain a where t: "topic_res r (uri_of r) a" using Cons.prems(4) topic_res_uri_of by fastforce
  have dis: "distinct (paths xs)" using Cons.prems(1) by (simp add: broker_inv_def topics_ok_def)
  obtain k d where d: "with_db (deleteTopic (Some (uri_of r))) st = Inr (k, st\<lparr>topics := d\<rparr>)"
    "remove_resource (uri_of r) r (st\<lparr>topics := d\<rparr>) = Inr (removed {uri_of r} [uri_of r] d st)"
    "broker_inv (removed {uri_of r} [uri_of r] d st) (remove_first (uri_of r) xs) [] l"
    "avail d = avail (topics st) + (length xs - length (remove_first (uri_of r) xs))"
    by (rule remove_any [OF Cons.prems(1) r t])
  have le: "length (remove_first (uri_of r) xs) \<le> length xs"
    unfolding remove_first_filter [OF dis] by simp
  have sub: "set rs \<subseteq> set (resources (ctx (removed {uri_of r} [uri_of r] d st)))"
    using Cons.prems(2,3) by (auto simp: removed_def) (metis image_eqI)
  have u: "cleanup_resources (r # rs) st = cleanup_resources rs (removed {uri_of r} [uri_of r] d st)"
  proof -
    obtain v where v: "uri_of r = ''ps/'' @ v" using t by (auto simp: topic_res_def is_prefix_iff)
    have "str_cstr (r_uri r) = Inr (uri_of r)" using topic_res_uri [OF t] .
    then show ?thesis using d(1,2) by (simp add: v broker_path_def)
  qed
  obtain e where e: "cleanup_resources rs (removed {uri_of r} [uri_of r] d st) =
      Inr (removed (uri_of ` set rs) (map uri_of rs) e (removed {uri_of r} [uri_of r] d st))"
    "broker_inv (removed (uri_of ` set rs) (map uri_of rs) e (removed {uri_of r} [uri_of r] d st))
      (filter (\<lambda>t. td_path t \<notin> uri_of ` set rs) (remove_first (uri_of r) xs)) [] l"
    "avail e + length (filter (\<lambda>t. td_path t \<notin> uri_of ` set rs) (remove_first (uri_of r) xs)) =
      avail (topics (removed {uri_of r} [uri_of r] d st)) + length (remove_first (uri_of r) xs)"
    using Cons.IH [OF d(3) sub] Cons.prems(3,4) by auto
  have f: "filter (\<lambda>t. td_path t \<notin> uri_of ` set rs) (remove_first (uri_of r) xs) =
      filter (\<lambda>t. td_path t \<notin> uri_of ` set (r # rs)) xs"
    unfolding remove_first_filter [OF dis] filter_filter by (intro filter_cong) auto
  have x: "insert (uri_of r) (uri_of ` set rs) = uri_of ` set (r # rs)" by simp
  show ?case
    using e d(4) le unfolding u f removed_removed by (intro exI [of _ e]) (simp add: x [simplified])
qed

end
