(* ===== verification/Dispatch.thy ===== *)
theory Dispatch
  imports Server
begin

text \<open>
  The dispatcher and the main loop: what acknowledgements, resets, unknown critical options and
  datagrams do, and that a datagram keeps the invariant of the broker and, when it is harmless,
  is handled without a fault.
\<close>

section \<open>Critical options\<close>

definition critical_known :: "coap_context \<Rightarrow> nat \<Rightarrow> bool" where
  "critical_known c ty \<longleftrightarrow> even ty \<or> ty \<in> set builtin_critical \<or> coap_option_filter_get (known_options c) ty > 0"

lemma check_critical_iff:
  "fst (check_critical known ps f) \<longleftrightarrow>
     (\<forall>(ty, p)\<in>set ps. even ty \<or> ty \<in> set builtin_critical \<or> coap_option_filter_get known ty > 0)"
  by (induction known ps f rule: check_critical.induct) auto

text \<open>A message passes the check when all its critical options are known.\<close>

lemma check_critical_options:
  assumes "length (pdu_body pdu) < 65536"
  shows "fst (coap_option_check_critical c pdu f) \<longleftrightarrow> (\<forall>(ty, v)\<in>set (pdu_options pdu). critical_known c ty)"
proof -
  have "map (\<lambda>(ty, p). (ty, opt_bytes p)) (options_seen (coap_option_iterator_init pdu None)) = pdu_options pdu"
    using options_seen_all [OF assms, of 0]
    by (cases "pdu_body pdu = []")
      (simp_all add: coap_option_iterator_init_def pdu_options_def iterator_at_def options_seen_bad)
  then show ?thesis
    by (force simp: coap_option_check_critical_def check_critical_iff critical_known_def simp flip: \<open>_ = pdu_options pdu\<close>)
qed

lemma critical_error_size:
  assumes "pdu_length pdu \<le> 1389"
  shows "error_size pdu (COAP_RESPONSE_CODE 402) f \<le> COAP_MAX_PDU_SIZE"
proof -
  have "coap_response_phrase (COAP_RESPONSE_CODE 402) = Some ''Bad Option''"
    by (simp add: coap_response_phrase_def coap_error_def COAP_RESPONSE_CODE_def)
  moreover have "length (pdu_body pdu) < 65536" using assms by (simp add: pdu_length_def)
  ultimately show ?thesis
    using error_options_size [of pdu "snd (coap_option_filter_unset f 12)"] assms
    by (simp add: error_size_def pdu_length_def)
qed

section \<open>Changes of observers\<close>

lemma find_same_core:
  assumes "list_all2 same_core rs rs'" "\<And>r r'. same_core r r' \<Longrightarrow> P r = P r'"
  shows "rel_option same_core (find P rs) (find P rs')"
  using assms(1) by (induction rule: list_all2_induct) (auto simp: assms(2))

lemma target_same_core:
  assumes "list_all2 same_core (resources (ctx st)) (resources (ctx st'))" "target st' request = Some r'"
  obtains r where "target st request = Some r" "same_core r r'"
proof -
  have "list_all2 same_core (rev (resources (ctx st))) (rev (resources (ctx st')))" using assms(1) by simp
  then have "rel_option same_core (target st request) (target st' request)"
    unfolding target_def coap_get_resource_from_key_def by (rule find_same_core) (auto simp: same_core_def)
  then show ?thesis using that assms(2) by (cases "target st request") auto
qed

lemma selected_core: "same_core r r' \<Longrightarrow> selected q r' = selected q r"
  by (simp add: selected_def same_core_def coap_find_attr_def)

lemma wkc_harmless_core:
  assumes l: "list_all2 same_core (resources c) (resources c')" and "wkc_harmless c request"
  shows "wkc_harmless c' request"
proof -
  have "query_ok q (resources c') = query_ok q (resources c)" for q
    using l unfolding query_ok_def
    by (induction rule: list_all2_induct) (auto simp: selected_core, auto simp: resource_ok_def same_core_def)
  moreover have "map link_text (filter (\<lambda>r. selected q r = Inr True) (resources c')) =
      map link_text (filter (\<lambda>r. selected q r = Inr True) (resources c))" for q
    using l by (induction rule: list_all2_induct) (auto simp: selected_core, auto simp: link_text_def same_core_def)
  ultimately show ?thesis using assms(2) by (simp add: wkc_harmless_def wkc_text_def)
qed

definition observers_change :: "broker \<Rightarrow> broker \<Rightarrow> bool" where
  "observers_change st st' \<longleftrightarrow>
     (\<exists>c. st' = st\<lparr>ctx := c\<rparr> \<and> list_all2 same_core (resources (ctx st)) (resources c) \<and>
       next_id c = next_id (ctx st) \<and> observe c = observe (ctx st))"

lemma observers_change_notified:
  "observers_change st st' \<Longrightarrow> db_abs (topics st) xs cs l \<Longrightarrow> notified xs cs l st st'"
  by (auto simp: observers_change_def notified_def rest_eq_def)

lemma observers_change_inv:
  "observers_change st st' \<Longrightarrow> broker_inv st xs cs l \<Longrightarrow> broker_inv st' xs cs l"
  by (rule notified_inv [OF _ observers_change_notified]) (auto simp: broker_inv_def)

lemma harmless_request_change:
  assumes h: "harmless_request st xs request" and c: "observers_change st st'" and db: "db_abs (topics st) xs cs l"
  shows "harmless_request st' xs request"
proof -
  have l: "list_all2 same_core (resources (ctx st)) (resources (ctx st'))" "observe (ctx st') = observe (ctx st)"
    using c by (auto simp: observers_change_def)
  have "harmless st' xs r' h' request" if "target st' request = Some r'" "target_handler r' request = Some h'" for r' h'
  proof -
    note t = that
    obtain r where r: "target st request = Some r" "same_core r r'" by (rule target_same_core [OF l(1) t(1)])
    have "target_handler r request = Some h'" using t(2) r(2) by (auto simp: target_handler_def same_core_def split: if_splits)
    then have "harmless st xs r h' request" using h r(1) by (auto simp: harmless_request_def)
    then show ?thesis by (rule harmless_core [OF _ r(2) observers_change_notified [OF c db] l(2)])
  qed
  then show ?thesis using h wkc_harmless_core [OF l(1)] by (simp add: harmless_request_def)
qed

lemma queue_change [simp]: "observers_change st (st\<lparr>ctx := (ctx st)\<lparr>sendqueue := qs\<rparr>\<rparr>)"
  by (auto simp: observers_change_def list_all2_same intro!: exI [of _ "(ctx st)\<lparr>sendqueue := qs\<rparr>"])

lemma observers_change_trans:
  assumes "observers_change st1 st2" "observers_change st2 st3"
  shows "observers_change st1 st3"
proof -
  have "list_all2 same_core (resources (ctx st1)) (resources (ctx st2))"
    "list_all2 same_core (resources (ctx st2)) (resources (ctx st3))"
    using assms by (auto simp: observers_change_def)
  then have "list_all2 same_core (resources (ctx st1)) (resources (ctx st3))"
    by (rule list_all2_trans [rotated]) (rule same_core_trans)
  then show ?thesis using assms by (auto simp: observers_change_def)
qed

lemma cancel_all_change: "observers_change st (st\<lparr>ctx := coap_cancel_all_messages dst tok (ctx st)\<rparr>)"
  unfolding coap_cancel_all_messages_def by (rule queue_change)

lemma touch_change: "observers_change st (st\<lparr>ctx := coap_touch_observer (ctx st) peer tok\<rparr>)"
  unfolding observers_change_def
  by (rule exI [of _ "coap_touch_observer (ctx st) peer tok"])
    (use touch_core in \<open>simp add: coap_touch_observer_def\<close>)

lemma cancel_change: "observers_change st (st\<lparr>ctx := coap_cancel q (ctx st)\<rparr>)"
proof -
  let ?c = "(ctx st)\<lparr>resources := map (\<lambda>r. snd (coap_delete_observer r (node_remote q) (Some (hdr_token (node_pdu q)))))
                                 (resources (ctx st))\<rparr>"
  have 1: "observers_change st (st\<lparr>ctx := ?c\<rparr>)"
    unfolding observers_change_def
    by (rule exI [of _ ?c]) (simp add: list_all2_map_same_core delete_observer_core)
  show ?thesis
    using 1 observers_change_trans [OF 1 cancel_all_change] by (cases "resources (ctx st)") (simp_all add: coap_cancel_once Let_def)
qed

section \<open>Dispatching\<close>

definition broker_ok :: "broker \<Rightarrow> bool" where
  "broker_ok st \<longleftrightarrow> (\<exists>xs l. broker_inv st xs [] l)"

lemma broker_okI [intro]: "broker_inv st xs [] l \<Longrightarrow> broker_ok st"
  by (auto simp: broker_ok_def)

text \<open>
  A message that cannot bring the broker down: a harmless request, if it is one, and short
  enough for the error response when it carries critical options that are not known.
\<close>

definition harmless_pdu :: "broker \<Rightarrow> topic list \<Rightarrow> coap_pdu \<Rightarrow> bool" where
  "harmless_pdu st xs pdu \<longleftrightarrow>
     (hdr_code pdu \<noteq> 0 \<longrightarrow> hdr_code pdu < 32 \<longrightarrow> harmless_request st xs pdu) \<and>
     (hdr_type pdu = COAP_MESSAGE_CON \<longrightarrow>
       (\<forall>(ty, v)\<in>set (pdu_options pdu). critical_known (ctx st) ty) \<or> pdu_length pdu \<le> 1389)"

lemma reply_inv: "broker_inv (reply node response st) xs cs l = broker_inv st xs cs l"
  by (rule sent_only_inv [OF reply_sent_only])

lemma empty_message_run:
  "coap_send_message_type node ty st = Inr st' \<Longrightarrow> broker_inv st' xs cs l = broker_inv st xs cs l"
  "\<exists>st'. coap_send_message_type node ty st = Inr st'"
  "coap_send_ack node st = Inr st' \<Longrightarrow> broker_inv st' xs cs l = broker_inv st xs cs l"
  "\<exists>st'. coap_send_ack node st = Inr st'"
  by (auto simp: coap_send_message_type_def coap_send_ack_def coap_pdu_init_def reply_inv split: if_splits)

lemma handle_response_run:
  assumes "broker_inv st xs cs l"
  shows "\<exists>st'. handle_response rcvd st = Inr st' \<and> broker_inv st' xs cs l"
proof -
  obtain st' where st': "coap_send_ack rcvd st = Inr st'" using empty_message_run(4) by blast
  then have "broker_inv st' xs cs l" using assms empty_message_run(3) by blast
  then show ?thesis
    using st' observers_change_inv [OF cancel_all_change] by (simp add: handle_response_def)
qed

lemma handle_locally_ends:
  assumes inv: "broker_inv st xs [] l" and tok: "length (hdr_token (q_pdu rcvd)) \<le> 8"
    and B: "B \<Longrightarrow> hdr_code (q_pdu rcvd) \<noteq> 0 \<Longrightarrow> hdr_code (q_pdu rcvd) < 32 \<Longrightarrow> harmless_request st xs (q_pdu rcvd)"
  shows "ends B (handle_locally rcvd st) broker_ok"
proof -
  consider "hdr_code (q_pdu rcvd) \<noteq> 0 \<and> hdr_code (q_pdu rcvd) < 32" | "hdr_code (q_pdu rcvd) \<ge> 64"
    | "\<not> (hdr_code (q_pdu rcvd) \<noteq> 0 \<and> hdr_code (q_pdu rcvd) < 32)" "\<not> hdr_code (q_pdu rcvd) \<ge> 64" by blast
  then show ?thesis
  proof cases
    case 1
    then have "ends B (handle_request rcvd st) broker_ok"
      unfolding broker_ok_def using B by (intro handle_request_ends [OF inv tok]) auto
    then show ?thesis using 1 by (simp add: handle_locally_def)
  next
    case 2
    then show ?thesis using handle_response_run [OF inv, of rcvd]
      by (auto simp: handle_locally_def)
  next
    case 3
    obtain st' where "coap_send_message_type rcvd 3 st = Inr st'" using empty_message_run(2) by blast
    then show ?thesis
      using 3 inv empty_message_run(1) [of rcvd 3 st st' xs "[]" l]
      by (auto simp: handle_locally_def intro!: broker_okI)
  qed
qed

lemma coap_dispatch_ends:
  assumes inv: "broker_inv st xs [] l" and tok: "length (hdr_token (q_pdu rcvd)) \<le> 8"
    and len: "pdu_length (q_pdu rcvd) < 65536" and B: "B \<Longrightarrow> harmless_pdu st xs (q_pdu rcvd)"
  shows "ends B (coap_dispatch rcvd st) broker_ok"
proof -
  let ?pdu = "q_pdu rcvd"
  let ?tid = "coap_transaction_id (q_remote rcvd) ?pdu 0"
  obtain node qs where rm: "coap_remove_from_queue ?tid (sendqueue (ctx st)) = (node, qs)" by fastforce
  obtain ok unk where ck: "coap_option_check_critical (ctx st) ?pdu coap_option_filter_clear = (ok, unk)" by fastforce
  let ?rm = "st\<lparr>ctx := (ctx st)\<lparr>sendqueue := qs\<rparr>\<rparr>"
  have db: "db_abs (topics st) xs [] l" using inv by (simp add: broker_inv_def)
  have local: "ends B (handle_locally rcvd st') broker_ok" if "observers_change st st'" for st'
  proof (rule handle_locally_ends [OF observers_change_inv [OF that inv] tok])
    assume "B" "hdr_code ?pdu \<noteq> 0" "hdr_code ?pdu < 32"
    then show "harmless_request st' xs ?pdu"
      using B harmless_request_change [OF _ that db] by (simp add: harmless_pdu_def)
  qed
  have inv_rm: "broker_inv st' xs [] l" if "observers_change ?rm st'" for st'
    by (rule observers_change_inv [OF observers_change_trans [OF queue_change that] inv])
  have body: "length (pdu_body ?pdu) < 65536" using len by (simp add: pdu_length_def)
  have err: "ends B (bindR (coap_new_error_response ?pdu (COAP_RESPONSE_CODE 402) unk)
      (\<lambda>response. case response of None \<Rightarrow> Inr st | Some response \<Rightarrow> Inr (reply rcvd response st))) broker_ok"
    if "hdr_type ?pdu = 0" "\<not> ok"
  proof (cases "coap_new_error_response ?pdu (COAP_RESPONSE_CODE 402) unk")
    case (Inr x)
    then show ?thesis using inv reply_inv by (auto split: option.split intro!: broker_okI)
  next
    case (Inl e)
    have "\<not> (\<forall>(ty, v)\<in>set (pdu_options ?pdu). critical_known (ctx st) ty)"
      using check_critical_options [OF body, of "ctx st" coap_option_filter_clear] ck that(2) by simp
    then have "B \<Longrightarrow> pdu_length ?pdu \<le> 1389" using B that(1) by (auto simp: harmless_pdu_def)
    then have "\<not> B"
      using error_response_run [OF tok critical_error_size] Inl by (metis Inl_Inr_False)
    then show ?thesis using Inl by simp
  qed
  have touch: "observers_change st (?rm\<lparr>ctx := coap_touch_observer (ctx ?rm) peer t\<rparr>)" for peer t
    by (rule observers_change_trans [OF queue_change touch_change])
  consider (ack) "hdr_type ?pdu = 2" | (rst) "hdr_type ?pdu = 3" | (other) "hdr_type ?pdu \<noteq> 2" "hdr_type ?pdu \<noteq> 3" by blast
  then show ?thesis
  proof cases
    case ack
    show ?thesis
    proof (cases "hdr_code ?pdu = 0")
      case True
      moreover have "broker_ok ?rm" by (rule broker_okI [OF observers_change_inv [OF queue_change inv]])
      ultimately show ?thesis using ack rm ck by (simp add: coap_dispatch_def)
    next
      case False
      then show ?thesis using ack rm ck local [OF touch] local [OF queue_change]
        by (simp add: coap_dispatch_def Let_def split: option.split)
    qed
  next
    case rst
    have "broker_inv ?rm xs [] l" by (rule observers_change_inv [OF queue_change inv])
    then have "broker_inv (case node of None \<Rightarrow> ?rm | Some q \<Rightarrow> ?rm\<lparr>ctx := coap_cancel q (ctx ?rm)\<rparr>) xs [] l"
      using inv_rm [OF cancel_change] by (cases node) simp_all
    then show ?thesis using rst rm ck by (cases node) (auto simp: coap_dispatch_def Let_def)
  next
    case other
    have same: "observers_change st st" by (auto simp: observers_change_def list_all2_same intro: exI [of _ "ctx st"])
    show ?thesis
      using other rm ck local [OF same] err inv by (cases ok) (auto simp: coap_dispatch_def Let_def)
  qed
qed

section \<open>Acknowledgements and resets\<close>

text \<open>An empty acknowledgement takes its message off the queue and changes nothing else.\<close>

lemma ack_dispatch:
  assumes "hdr_type (q_pdu rcvd) = COAP_MESSAGE_ACK" "hdr_code (q_pdu rcvd) = 0"
  shows "coap_dispatch rcvd st = Inr (st\<lparr>ctx := (ctx st)\<lparr>sendqueue :=
    snd (coap_remove_from_queue (coap_transaction_id (q_remote rcvd) (q_pdu rcvd) 0) (sendqueue (ctx st)))\<rparr>\<rparr>)"
  using assms by (simp add: coap_dispatch_def split_beta)

lemma ack_ends_confirmed_send:
  assumes dst: "sa_family dst \<in> {AF_INET, AF_INET6}" "send_ok (ctx st) (length (sent (ctx st)))"
    and send: "coap_send_confirmed dst pdu (ctx st) = (tid, c)"
    and fresh: "\<forall>q\<in>set (sendqueue (ctx st)). node_id q \<noteq> tid"
    and ack: "coap_address_equals dst (q_remote rcvd)" "hdr_type (q_pdu rcvd) = COAP_MESSAGE_ACK"
      "hdr_code (q_pdu rcvd) = 0" "hdr_id (q_pdu rcvd) = hdr_id pdu"
  shows "tid \<noteq> COAP_INVALID_TID \<and> coap_find_transaction tid (sendqueue c) \<noteq> None \<and>
    coap_dispatch rcvd (st\<lparr>ctx := c\<rparr>) = Inr (st\<lparr>ctx := c\<lparr>sendqueue := sendqueue (ctx st)\<rparr>\<rparr>)"
proof -
  obtain node b where r: "coap_send_confirmed dst pdu (ctx st) =
      (coap_transaction_id dst pdu COAP_INVALID_TID,
       (ctx st)\<lparr>sent := sent (ctx st) @ [(dst, pdu)], sendqueue := coap_insert_node node (sendqueue (ctx st)), sendqueue_basetime := b\<rparr>)"
    "node_id node = coap_transaction_id dst pdu COAP_INVALID_TID"
    by (rule send_confirmed_run [OF dst, of pdu])
  have tid: "tid = node_id node" "tid = coap_transaction_id dst pdu COAP_INVALID_TID"
    and q: "sendqueue c = coap_insert_node node (sendqueue (ctx st))"
    using r send by auto
  have same: "coap_transaction_id (q_remote rcvd) (q_pdu rcvd) 0 = tid"
    using transaction_id_same_peer [OF ack(1) ack(4) [symmetric], of COAP_INVALID_TID 0] tid(2) by simp
  have "node_id node \<notin> node_id ` set (sendqueue (ctx st))" using fresh tid(1) by auto
  then obtain t where "coap_remove_from_queue (node_id node) (sendqueue c) = (Some (node\<lparr>q_t := t\<rparr>), sendqueue (ctx st))"
    using remove_inserted q by metis
  then have rm: "coap_remove_from_queue tid (sendqueue c) = (Some (node\<lparr>q_t := t\<rparr>), sendqueue (ctx st))"
    unfolding tid(1) .
  have "0 \<le> tid" unfolding tid(2) by (rule transaction_id_valid [OF dst(1)])
  moreover have "coap_find_transaction tid (sendqueue c) \<noteq> None"
    unfolding removed_is_found [symmetric] rm by simp
  ultimately show ?thesis using ack_dispatch [OF ack(2,3), of "st\<lparr>ctx := c\<rparr>"] same rm by simp
qed

text \<open>A reset for a message takes its receiver off the observers and all its messages off the queue.\<close>

lemma reset_dispatch:
  assumes "hdr_type (q_pdu rcvd) = COAP_MESSAGE_RST"
    and "coap_remove_from_queue (coap_transaction_id (q_remote rcvd) (q_pdu rcvd) 0) (sendqueue (ctx st)) = (Some q, qs)"
    and "resources (ctx st) \<noteq> []"
  shows "coap_dispatch rcvd st = Inr (st\<lparr>ctx := (ctx st)\<lparr>
    resources := map (\<lambda>r. snd (coap_delete_observer r (node_remote q) (Some (hdr_token (node_pdu q))))) (resources (ctx st)),
    sendqueue := filter (\<lambda>p. \<not> cancelled (node_remote q) (hdr_token (node_pdu q)) p) qs\<rparr>\<rparr>)"
proof -
  have cc: "coap_cancel_all_messages dst tok c = c\<lparr>sendqueue := filter (\<lambda>p. \<not> cancelled dst tok p) (sendqueue c)\<rparr>" for dst tok c
    using cancel_all_filter [of dst tok c] by (simp add: coap_cancel_all_messages_def)
  show ?thesis
    using assms by (simp add: coap_dispatch_def coap_cancel_once cc Let_def split_beta)
qed

lemma delete_observer_gone:
  assumes "observers_ok (subscribers r)"
  shows "coap_find_observer (snd (coap_delete_observer r peer (Some tok))) peer (Some tok) = None"
  using remove_observer_gone [OF assms, of peer tok]
  by (auto simp: coap_find_observer_def coap_delete_observer_def find_None_iff split: option.splits)

lemma reset_cancels_observer:
  assumes rst: "hdr_type (q_pdu rcvd) = COAP_MESSAGE_RST"
    and q: "coap_find_transaction (coap_transaction_id (q_remote rcvd) (q_pdu rcvd) 0) (sendqueue (ctx st)) = Some q"
    and ok: "\<forall>r\<in>set (resources (ctx st)). observers_ok (subscribers r)" "resources (ctx st) \<noteq> []"
  shows "\<exists>c. coap_dispatch rcvd st = Inr (st\<lparr>ctx := c\<rparr>) \<and>
    map r_id (resources c) = map r_id (resources (ctx st)) \<and>
    (\<forall>r\<in>set (resources c). coap_find_observer r (node_remote q) (Some (hdr_token (node_pdu q))) = None) \<and>
    (\<forall>p\<in>set (sendqueue c). \<not> cancelled (node_remote q) (hdr_token (node_pdu q)) p) \<and> sent c = sent (ctx st)"
proof -
  let ?tid = "coap_transaction_id (q_remote rcvd) (q_pdu rcvd) 0"
  obtain qs where rm: "coap_remove_from_queue ?tid (sendqueue (ctx st)) = (Some q, qs)"
    using q removed_is_found [of ?tid "sendqueue (ctx st)"] by (metis prod.collapse)
  let ?c = "(ctx st)\<lparr>
    resources := map (\<lambda>r. snd (coap_delete_observer r (node_remote q) (Some (hdr_token (node_pdu q))))) (resources (ctx st)),
    sendqueue := filter (\<lambda>p. \<not> cancelled (node_remote q) (hdr_token (node_pdu q)) p) qs\<rparr>"
  have ids: "r_id (snd (coap_delete_observer r peer tok)) = r_id r" for r peer tok
    using delete_observer_core [of r peer tok] by (simp add: same_core_def)
  show ?thesis
    by (rule exI [of _ ?c]) (use reset_dispatch [OF rst rm ok(2)] ok(1) in \<open>auto simp: delete_observer_gone ids\<close>)
qed

text \<open>
  A confirmable message with an unknown critical option: it is refused with 4.02 when the copies
  of those options fit into a response, and ends the broker when they do not.
\<close>

lemma error_response_aborts:
  "COAP_MAX_PDU_SIZE < error_size request c opts \<Longrightarrow> coap_new_error_response request c opts = Inl Assert_failed"
  unfolding coap_new_error_response_def Let_def error_size_def [symmetric] by (simp add: coap_pdu_init_def)

lemma critical_dispatch:
  assumes con: "hdr_type (q_pdu rcvd) = COAP_MESSAGE_CON" and tok: "length (hdr_token (q_pdu rcvd)) \<le> 8"
    and body: "pdu_length (q_pdu rcvd) < 65536"
    and opt: "(ty, v) \<in> set (pdu_options (q_pdu rcvd))" "\<not> critical_known (ctx st) ty"
  shows "\<exists>unknown resp. unknown = snd (coap_option_check_critical (ctx st) (q_pdu rcvd) coap_option_filter_clear) \<and>
    coap_dispatch rcvd st =
      (if error_size (q_pdu rcvd) (COAP_RESPONSE_CODE 402) unknown \<le> COAP_MAX_PDU_SIZE
       then Inr (reply rcvd resp st) else Inl Assert_failed) \<and>
    (error_size (q_pdu rcvd) (COAP_RESPONSE_CODE 402) unknown \<le> COAP_MAX_PDU_SIZE \<longrightarrow>
      hdr_code resp = COAP_RESPONSE_CODE 402 \<and> hdr_token resp = hdr_token (q_pdu rcvd)) \<and>
    (pdu_length (q_pdu rcvd) \<le> 1389 \<longrightarrow> error_size (q_pdu rcvd) (COAP_RESPONSE_CODE 402) unknown \<le> COAP_MAX_PDU_SIZE)"
proof -
  let ?pdu = "q_pdu rcvd"
  obtain ok unk where ck: "coap_option_check_critical (ctx st) ?pdu coap_option_filter_clear = (ok, unk)" by fastforce
  have "length (pdu_body ?pdu) < 65536" using body by (simp add: pdu_length_def)
  then have "\<not> ok" using check_critical_options [of ?pdu "ctx st" coap_option_filter_clear] ck opt by auto
  then have run: "coap_dispatch rcvd st =
      bindR (coap_new_error_response ?pdu (COAP_RESPONSE_CODE 402) unk)
        (\<lambda>response. case response of None \<Rightarrow> Inr st | Some response \<Rightarrow> Inr (reply rcvd response st))"
    using con ck by (simp add: coap_dispatch_def split_beta Let_def)
  show ?thesis
  proof (cases "error_size ?pdu (COAP_RESPONSE_CODE 402) unk \<le> 1400")
    case True
    obtain resp where "coap_new_error_response ?pdu (COAP_RESPONSE_CODE 402) unk = Inr (Some resp)"
      "hdr_code resp = COAP_RESPONSE_CODE 402" "hdr_token resp = hdr_token ?pdu"
      by (rule error_response_run [OF tok True])
    then show ?thesis using run True ck by auto
  next
    case False
    then have "coap_new_error_response ?pdu (COAP_RESPONSE_CODE 402) unk = Inl Assert_failed"
      by (intro error_response_aborts) simp
    then show ?thesis using run False ck critical_error_size [of ?pdu unk] by auto
  qed
qed

section \<open>Datagrams\<close>

text \<open>The message of a datagram, when it is one of version 1 and well-formed.\<close>

definition received :: "coap_packet \<Rightarrow> coap_pdu option" where
  "received packet =
     (let msg = take COAP_MAX_PDU_SIZE (pk_payload packet) in
      if length msg < 4 \<or> code (hd msg) div 64 mod 4 \<noteq> 1 then None
      else case coap_pdu_parse msg \<lparr>max_size = length msg, hdr_type = 0, hdr_code = 0, hdr_id = 0,
             hdr_token = [], max_delta = 0, pdu_body = [], pdu_data = None\<rparr> of
        Inl e \<Rightarrow> None | Inr pdu \<Rightarrow> pdu)"

text \<open>A datagram that ends inside the header of one of its options.\<close>

definition packet_cut :: "coap_packet \<Rightarrow> bool" where
  "packet_cut packet \<longleftrightarrow>
     (let msg = take COAP_MAX_PDU_SIZE (pk_payload packet) in
      4 \<le> length msg \<and> code (hd msg) div 64 mod 4 = 1 \<and> datagram_cut msg)"

lemma coap_read_run:
  "packet_cut packet \<Longrightarrow> coap_read (Some packet) st = Inl Out_of_bounds"
  "\<not> packet_cut packet \<Longrightarrow> case received packet of
     None \<Rightarrow> \<exists>k<0. coap_read (Some packet) st = Inr (k, st)
   | Some pdu \<Rightarrow> coap_read (Some packet) st =
       bindR (coap_dispatch \<lparr>q_remote = pk_src packet, q_pdu = pdu, q_mcast = pk_mcast packet\<rparr> st) (\<lambda>st. Inr (0, st))"
proof -
  let ?msg = "take 1400 (pk_payload packet)"
  let ?p = "\<lparr>max_size = length ?msg, hdr_type = 0, hdr_code = 0, hdr_id = 0,
    hdr_token = [], max_delta = 0, pdu_body = [], pdu_data = None\<rparr>"
  note fault = coap_pdu_parse_fault [of ?msg ?p]
  show "packet_cut packet \<Longrightarrow> coap_read (Some packet) st = Inl Out_of_bounds"
  proof -
    assume c: "packet_cut packet"
    then have g: "\<not> length ?msg < 4" "\<not> code (hd ?msg) div 64 mod 4 \<noteq> 1" by (auto simp: packet_cut_def Let_def)
    then have i: "coap_pdu_init 0 0 0 (length ?msg) = Inr (Some ?p)" by (simp add: coap_pdu_init_def)
    have "coap_pdu_parse ?msg ?p = Inl Out_of_bounds" using c fault by (simp add: packet_cut_def Let_def)
    then show "coap_read (Some packet) st = Inl Out_of_bounds"
      using g i by (simp add: coap_read_def coap_handle_message_def Let_def)
  qed
  assume nc: "\<not> packet_cut packet"
  show "case received packet of
     None \<Rightarrow> \<exists>k<0. coap_read (Some packet) st = Inr (k, st)
   | Some pdu \<Rightarrow> coap_read (Some packet) st =
       bindR (coap_dispatch \<lparr>q_remote = pk_src packet, q_pdu = pdu, q_mcast = pk_mcast packet\<rparr> st) (\<lambda>st. Inr (0, st))"
  proof (cases "length ?msg < 4 \<or> code (hd ?msg) div 64 mod 4 \<noteq> 1")
    case True
    then show ?thesis by (auto simp: received_def coap_read_def coap_handle_message_def Let_def)
  next
    case False
    then have "4 \<le> length ?msg" "code (hd ?msg) div 64 mod 4 = 1" by linarith+
    then have "\<not> datagram_cut ?msg" using nc by (simp add: packet_cut_def Let_def)
    then obtain x where x: "coap_pdu_parse ?msg ?p = Inr x" using fault by (cases "coap_pdu_parse ?msg ?p") auto
    have i: "coap_pdu_init 0 0 0 (length ?msg) = Inr (Some ?p)" using False by (simp add: coap_pdu_init_def)
    have r: "received packet = x"
      unfolding received_def Let_def if_not_P [OF False] x by simp
    have "coap_read (Some packet) st =
        (case x of None \<Rightarrow> Inr (-2, st)
         | Some pdu \<Rightarrow> bindR (coap_dispatch \<lparr>q_remote = pk_src packet, q_pdu = pdu, q_mcast = pk_mcast packet\<rparr> st)
             (\<lambda>st. Inr (0, st)))"
      using False i x by (auto simp: coap_read_def coap_handle_message_def Let_def)
    then show ?thesis unfolding r by (cases x) auto
  qed
qed

lemma received_wf:
  assumes "received packet = Some pdu"
  shows "length (hdr_token pdu) \<le> 8" "pdu_length pdu \<le> COAP_MAX_PDU_SIZE" "hdr_type pdu < 4"
    "pdu_length pdu = length (take COAP_MAX_PDU_SIZE (pk_payload packet))"
proof -
  obtain q where "coap_pdu_parse (take 1400 (pk_payload packet)) q = Inr (Some pdu)"
    using assms by (auto simp: received_def Let_def split: if_splits sum.splits)
  then have "length (hdr_token pdu) \<le> 8 \<and> hdr_type pdu < 4 \<and> pdu_length pdu = length (take 1400 (pk_payload packet))"
    using coap_pdu_parse_wf by blast
  then show "length (hdr_token pdu) \<le> 8" "pdu_length pdu \<le> 1400" "hdr_type pdu < 4"
    "pdu_length pdu = length (take 1400 (pk_payload packet))" by auto
qed

definition harmless_packet :: "broker \<Rightarrow> topic list \<Rightarrow> coap_packet \<Rightarrow> bool" where
  "harmless_packet st xs packet \<longleftrightarrow>
     \<not> packet_cut packet \<and> (\<forall>pdu. received packet = Some pdu \<longrightarrow> harmless_pdu st xs pdu)"

lemma coap_read_ends:
  assumes inv: "broker_inv st xs [] l" and B: "\<And>p. packet = Some p \<Longrightarrow> B \<Longrightarrow> harmless_packet st xs p"
  shows "ends B (coap_read packet st) (\<lambda>(_, st'). broker_ok st')"
proof (cases packet)
  case None
  then show ?thesis using inv by (auto simp: coap_read_def)
next
  case (Some p)
  show ?thesis
  proof (cases "packet_cut p")
    case True
    then show ?thesis using coap_read_run(1) [of p st] B Some by (auto simp: harmless_packet_def)
  next
    case nc: False
    show ?thesis
    proof (cases "received p")
      case None
      then show ?thesis using coap_read_run(2) [OF nc, of st] inv Some by auto
    next
      case r: (Some pdu)
      let ?q = "\<lparr>q_remote = pk_src p, q_pdu = pdu, q_mcast = pk_mcast p\<rparr>"
      have "length (hdr_token (q_pdu ?q)) \<le> 8" "pdu_length (q_pdu ?q) < 65536" using received_wf [OF r] by simp_all
      then have "ends B (coap_dispatch ?q st) broker_ok"
        by (rule coap_dispatch_ends [OF inv]) (use B Some r in \<open>simp add: harmless_packet_def\<close>)
      then show ?thesis
        using coap_read_run(2) [OF nc, of st] r Some by (auto intro!: ends_bindI elim: ends_mono)
    qed
  qed
qed

lemma main_turn_ends:
  assumes inv: "broker_inv st xs [] l" and B: "\<And>p. packet = Some p \<Longrightarrow> B \<Longrightarrow> harmless_packet st xs p"
  shows "ends B (main_turn packet st) broker_ok"
proof -
  have "ends B (coap_read packet st) (\<lambda>(_, st'). broker_ok st')" by (rule coap_read_ends [OF inv B])
  then show ?thesis
    unfolding main_turn_def
  proof (intro ends_bindI, elim ends_mono, clarify)
    fix k st1 assume "broker_ok st1"
    then obtain xs1 l1 where "broker_inv st1 xs1 [] l1" by (auto simp: broker_ok_def)
    then show "ends B (bindR (topicDataMAMonitor st1) topicMAMonitor) broker_ok"
      by (rule monitors_run) auto
  qed
qed

end
