(* ===== verification/Machines.thy ===== *)
theory Machines
  imports Prelude
begin

text \<open>
  Contracts of components that take operations one after the other: a machine with an
  invariant, and an implementation that answers every operation as a specification does. What
  a client concludes about whole runs is proved once, under the contract.
\<close>

section \<open>Machines with an invariant\<close>

text \<open>
  A machine that takes events one after the other and may fault. The contract: from a state
  of the invariant a safe event ends in a value, and whatever value an event gives is again
  a state of the invariant.
\<close>

fun run_events :: "('e \<Rightarrow> 's \<Rightarrow> 's result) \<Rightarrow> 'e list \<Rightarrow> 's \<Rightarrow> 's result" where
  "run_events step [] s = Inr s"
| "run_events step (e # es) s = bindR (step e s) (run_events step es)"

fun safe_run :: "('e \<Rightarrow> 's \<Rightarrow> 's result) \<Rightarrow> ('e \<Rightarrow> 's \<Rightarrow> bool) \<Rightarrow> 'e list \<Rightarrow> 's \<Rightarrow> bool" where
  "safe_run step safe [] s \<longleftrightarrow> True"
| "safe_run step safe (e # es) s \<longleftrightarrow>
     safe e s \<and> (case step e s of Inl _ \<Rightarrow> True | Inr s' \<Rightarrow> safe_run step safe es s')"

lemma run_events_append:
  "run_events step (es @ fs) s = bindR (run_events step es s) (run_events step fs)"
  by (induction es arbitrary: s) (simp_all add: bindR_def split: sum.splits)

lemma safe_run_always: "(\<And>e s. e \<in> set es \<Longrightarrow> safe e s) \<Longrightarrow> safe_run step safe es s"
  by (induction es arbitrary: s) (auto split: sum.splits)

locale event_machine =
  fixes step :: "'e \<Rightarrow> 's \<Rightarrow> 's result"
    and safe :: "'e \<Rightarrow> 's \<Rightarrow> bool"
    and invar :: "'s \<Rightarrow> bool"
  assumes step_ends: "invar s \<Longrightarrow> ends (safe e s) (step e s) invar"
begin

lemma run_ends: "invar s \<Longrightarrow> ends (safe_run step safe es s) (run_events step es s) invar"
proof (induction es arbitrary: s)
  case Nil
  then show ?case by simp
next
  case (Cons e es)
  note h = step_ends [OF Cons.prems, of e]
  show ?case
  proof (cases "step e s")
    case (Inl x)
    then show ?thesis using h by simp
  next
    case (Inr s')
    then have "ends (safe_run step safe es s') (run_events step es s') invar"
      using h by (intro Cons.IH) simp
    then show ?thesis using Inr by (auto intro: ends_weaken)
  qed
qed

lemma run_keeps: "invar s \<Longrightarrow> run_events step es s = Inr s' \<Longrightarrow> invar s'"
  using run_ends by (rule endsD)

lemma run_total: "invar s \<Longrightarrow> safe_run step safe es s \<Longrightarrow> \<exists>s'. run_events step es s = Inr s' \<and> invar s'"
  using run_ends [of s es] by (auto simp: ends_def split: sum.splits)

lemma run_unsafe: "invar s \<Longrightarrow> run_events step es s = Inl e \<Longrightarrow> \<not> safe_run step safe es s"
  using run_ends [of s es] by simp

end

section \<open>Implementations of a specification\<close>

fun run_ops :: "('op \<Rightarrow> 's \<Rightarrow> ('r \<times> 's) result) \<Rightarrow> 'op list \<Rightarrow> 's \<Rightarrow> ('r list \<times> 's) result" where
  "run_ops run [] s = Inr ([], s)"
| "run_ops run (p # ps) s =
     bindR (run p s) (\<lambda>(r, s). bindR (run_ops run ps s) (\<lambda>(rs, s). Inr (r # rs, s)))"

fun spec_ops :: "('op \<Rightarrow> 'a \<Rightarrow> 'r \<times> 'a) \<Rightarrow> 'op list \<Rightarrow> 'a \<Rightarrow> 'r list \<times> 'a" where
  "spec_ops spec [] a = ([], a)"
| "spec_ops spec (p # ps) a =
     (let (r, b) = spec p a; (rs, c) = spec_ops spec ps b in (r # rs, c))"

locale implementation =
  fixes run :: "'op \<Rightarrow> 's \<Rightarrow> ('r \<times> 's) result"
    and spec :: "'op \<Rightarrow> 'a \<Rightarrow> 'r \<times> 'a"
    and repr :: "'s \<Rightarrow> 'a \<Rightarrow> bool"
  assumes refines: "repr s a \<Longrightarrow> \<exists>s'. run p s = Inr (fst (spec p a), s') \<and> repr s' (snd (spec p a))"
begin

lemma run_refines:
  "repr s a \<Longrightarrow> \<exists>s'. run_ops run ps s = Inr (fst (spec_ops spec ps a), s') \<and> repr s' (snd (spec_ops spec ps a))"
proof (induction ps arbitrary: s a)
  case Nil
  then show ?case by simp
next
  case (Cons p ps)
  obtain s1 where 1: "run p s = Inr (fst (spec p a), s1)" "repr s1 (snd (spec p a))"
    using refines [OF Cons.prems] by blast
  obtain s2 where "run_ops run ps s1 = Inr (fst (spec_ops spec ps (snd (spec p a))), s2)"
    "repr s2 (snd (spec_ops spec ps (snd (spec p a))))"
    using Cons.IH [OF 1(2)] by blast
  then show ?case using 1(1) by (simp add: split_beta Let_def)
qed

sublocale machine: event_machine "\<lambda>p s. bindR (run p s) (\<lambda>(_, s). Inr s)" "\<lambda>_ _. True" "\<lambda>s. \<exists>a. repr s a"
proof unfold_locales
  fix s p assume "\<exists>a. repr s a"
  then obtain a where "repr s a" ..
  from refines [OF this, of p] show "ends True (bindR (run p s) (\<lambda>(_, s). Inr s)) (\<lambda>s. \<exists>a. repr s a)"
    by auto
qed

text \<open>Two states of the same abstract value cannot be told apart.\<close>

lemma run_same:
  assumes "repr s a" "repr t a"
  shows "map_sum id fst (run_ops run ps s) = map_sum id fst (run_ops run ps t)"
  using run_refines [OF assms(1), of ps] run_refines [OF assms(2), of ps] by auto

end

locale conservation = implementation +
  fixes weight :: "'a \<Rightarrow> nat"
  assumes conserved: "repr s a \<Longrightarrow> weight (snd (spec p a)) = weight a"
begin

lemma run_conserved:
  "repr s a \<Longrightarrow> \<exists>s' b. run_ops run ps s = Inr (fst (spec_ops spec ps a), s') \<and> repr s' b \<and> weight b = weight a"
proof -
  have "repr s a \<Longrightarrow> weight (snd (spec_ops spec ps a)) = weight a" for s
  proof (induction ps arbitrary: s a)
    case Nil
    then show ?case by simp
  next
    case (Cons p ps)
    obtain s1 where "repr s1 (snd (spec p a))" using refines [OF Cons.prems] by blast
    then show ?case using Cons.IH conserved [OF Cons.prems, of p] by (auto simp: split_beta Let_def)
  qed
  moreover assume "repr s a"
  ultimately show ?thesis using run_refines [of s a ps] by blast
qed

end

end
