(* ===== verification/OptionCode.thy ===== *)
theory OptionCode
  imports PduSpec
begin

text \<open>
  The option format as a code: what a decoder that reads back every encoded value from the
  front of a byte sequence says about sequences of them, and that options have one.
\<close>

section \<open>Codes that are read from the front\<close>

fun decode_list :: "('b list \<Rightarrow> ('a \<times> 'b list) option) \<Rightarrow> nat \<Rightarrow> 'b list \<Rightarrow> ('a list \<times> 'b list) option" where
  "decode_list dec 0 bs = Some ([], bs)"
| "decode_list dec (Suc n) bs =
     (case dec bs of
        None \<Rightarrow> None
      | Some (x, r) \<Rightarrow> map_option (\<lambda>(xs, r). (x # xs, r)) (decode_list dec n r))"

locale front_code =
  fixes enc :: "'a \<Rightarrow> 'b list"
    and dec :: "'b list \<Rightarrow> ('a \<times> 'b list) option"
    and ok :: "'a \<Rightarrow> bool"
  assumes dec_enc: "ok x \<Longrightarrow> dec (enc x @ r) = Some (x, r)"
begin

lemma unique: "ok x \<Longrightarrow> ok y \<Longrightarrow> enc x @ r = enc y @ s \<Longrightarrow> x = y \<and> r = s"
  by (metis dec_enc option.inject prod.inject)

lemma decode_list_encoded:
  "\<forall>x\<in>set xs. ok x \<Longrightarrow> decode_list dec (length xs) (concat (map enc xs) @ r) = Some (xs, r)"
  by (induction xs) (simp_all add: dec_enc)

lemma unique_list:
  assumes "\<forall>x\<in>set xs. ok x" "\<forall>y\<in>set ys. ok y" "length xs = length ys"
    and "concat (map enc xs) @ r = concat (map enc ys) @ s"
  shows "xs = ys \<and> r = s"
proof -
  have "Some (xs, r) = Some (ys, s)"
    using decode_list_encoded [OF assms(1), of r] decode_list_encoded [OF assms(2), of s]
    unfolding assms(3,4) by (rule subst)
  then show ?thesis by simp
qed

end

section \<open>Options\<close>

text \<open>An option, as its distance from the option before it and its value.\<close>

definition option_bytes :: "nat \<times> char list \<Rightarrow> char list" where
  "option_bytes = (\<lambda>(delta, val). case coap_opt_encode (opt_space delta (length val)) delta val of
     None \<Rightarrow> [] | Some bs \<Rightarrow> bs)"

definition read_option :: "char list \<Rightarrow> ((nat \<times> char list) \<times> char list) option" where
  "read_option bs = (case opt_at bs of
     None \<Rightarrow> None | Some (opt, sz) \<Rightarrow> Some ((opt_delta opt, opt_value opt), drop sz bs))"

definition option_ok :: "nat \<times> char list \<Rightarrow> bool" where
  "option_ok = (\<lambda>(delta, val). opt_size_ok delta \<and> opt_size_ok (length val))"

lemma read_option_bytes:
  assumes "option_ok x"
  shows "read_option (option_bytes x @ r) = Some (x, r)"
proof -
  obtain delta val where x: "x = (delta, val)" by (cases x)
  obtain bs where bs: "coap_opt_encode (opt_space delta (length val)) delta val = Some bs"
    using opt_encode_fits [of delta val] by blast
  have "coap_opt_parse (bs @ r) = Inr (Some (\<lparr>opt_delta = delta, opt_value = val\<rparr>, length bs))"
    using assms by (intro coap_opt_parse_encode [OF bs]) (auto simp: x option_ok_def opt_size_ok_def)
  then show ?thesis by (simp add: x option_bytes_def bs read_option_def opt_at_parse)
qed

interpretation options: front_code option_bytes read_option option_ok
  by unfold_locales (rule read_option_bytes)

end
