(* ===== verification/Uri.thy ===== *)
theory Uri
  imports CoapPath OptionCode
begin

text \<open>
  URIs of \<open>uri.c\<close>: splitting a URI into its components, cloning, and splitting a query into
  options. What is shown: the components of a written URI are found again, and a path or
  query that is written with percent-encoding from any segments is split into options that
  carry these segments.
\<close>

section \<open>coap_split_uri\<close>

abbreviation (input) COAP_DEFAULT_PORT :: nat where "COAP_DEFAULT_PORT \<equiv> 5683"

record coap_uri =
  uri_host :: "char list option"
  uri_port :: nat
  uri_path :: "char list option"
  uri_query :: "char list option"

definition empty_uri :: coap_uri where
  "empty_uri = \<lparr>uri_host = None, uri_port = COAP_DEFAULT_PORT, uri_path = None, uri_query = None\<rparr>"

definition ISEQUAL_CI :: "char \<Rightarrow> char \<Rightarrow> bool" where
  "ISEQUAL_CI a b \<longleftrightarrow> a = b \<or> (97 \<le> code b \<and> code b \<le> 122) \<and> code a + 0x20 = code b"

text \<open>The loops that compare the front of the string with a literal: what is left of both.\<close>

fun skip_literal :: "(char \<Rightarrow> char \<Rightarrow> bool) \<Rightarrow> char list \<Rightarrow> cstring \<Rightarrow> char list \<times> cstring" where
  "skip_literal eq (a # p) (b # q) = (if eq a b then skip_literal eq p q else (a # p, b # q))"
| "skip_literal eq p q = (p, q)"

text \<open>
  The pointers \<open>p\<close> and \<open>q\<close> of the code are the rests of the string from where they point;
  \<open>len\<close> is always the length of the rest from \<open>q\<close> on. The result of this step is the host,
  \<open>p\<close> and \<open>q\<close>.
\<close>

definition split_host :: "char list \<Rightarrow> (char list \<times> char list \<times> char list) option" where
  "split_host p =
     (if p \<noteq> [] \<and> hd p = CHR ''[''
      then
        (let q = dropWhile (\<lambda>c. c \<noteq> CHR '']'') p; p = tl p in
         if q = [] \<or> length p = length q then None
         else Some (take (length p - length q) p, p, tl q))
      else
        (let q = dropWhile (\<lambda>c. c \<notin> {CHR '':'', CHR ''/'', CHR ''?''}) p in
         if length p = length q then None else Some (take (length p - length q) p, p, q)))"

text \<open>The port is summed up in an \<open>int\<close>; \<open>None\<close> stands for the result -4.\<close>

definition split_port ::
  "char list \<Rightarrow> char list \<Rightarrow> coap_uri \<Rightarrow> (char list \<times> char list \<times> coap_uri) option result" where
  "split_port p q uri =
     (if q \<noteq> [] \<and> hd q = CHR '':''
      then
        (let p = tl q; q = dropWhile isdigit p; n = digits_value 0 p in
         if length q = length p then Inr (Some (p, q, uri))
         else if n \<ge> 2 ^ 31 then Inl Int_overflow
         else if n > 65535 then Inr None
         else Inr (Some (q, q, uri\<lparr>uri_port := n\<rparr>)))
      else Inr (Some (p, q, uri)))"

definition split_rest :: "char list \<Rightarrow> char list \<Rightarrow> coap_uri \<Rightarrow> int \<times> coap_uri" where
  "split_rest p q uri =
     (if q = [] then (0, uri)
      else
        (let (p, q, uri) =
           (if hd q = CHR ''/'' then
              (let p = tl q; q = dropWhile (\<lambda>c. c \<noteq> CHR ''?'') p in
               if length q < length p
               then (q, q, uri\<lparr>uri_path := Some (take (length p - length q) p)\<rparr>) else (p, q, uri))
            else (p, q, uri)) in
         if q = [] then (0, uri)
         else if hd p = CHR ''?'' then (0, uri\<lparr>uri_query := Some (take (length q - 1) (tl p))\<rparr>)
         else (-1, uri)))"

text \<open>The first byte is read without a look at the length.\<close>

definition coap_split_uri :: "char list \<Rightarrow> (int \<times> coap_uri) result" where
  "coap_split_uri str_var =
     (if str_var = [] then Inl Out_of_bounds
      else if hd str_var = CHR ''/'' then Inr (split_rest str_var str_var empty_uri)
      else
        (let (p, q) = skip_literal ISEQUAL_CI str_var ''coap'' in
         if q \<noteq> [] then Inr (-1, empty_uri)
         else
           (let p = (if p \<noteq> [] \<and> hd p = CHR ''s'' then tl p else p);
                (p, q) = skip_literal (=) p ''://'' in
            if q \<noteq> [] then Inr (-2, empty_uri)
            else
              (case split_host p of
                 None \<Rightarrow> Inr (-3, empty_uri)
               | Some (h, p, q) \<Rightarrow>
                   let uri = empty_uri\<lparr>uri_host := Some h\<rparr> in
                   bindR (split_port p q uri) (\<lambda>res.
                   case res of
                     None \<Rightarrow> Inr (-4, uri)
                   | Some (p, q, uri) \<Rightarrow> Inr (split_rest p q uri))))))"

text \<open>The copy has a terminator, so that the first byte of an empty string may be read.\<close>

definition coap_new_uri :: "char list \<Rightarrow> coap_uri option result" where
  "coap_new_uri uri =
     bindR (if uri = [] then Inr (-1, empty_uri) else coap_split_uri uri) (\<lambda>(res, result).
     Inr (if res < 0 then None else Some result))"

text \<open>Empty components are not copied.\<close>

definition clone_part :: "char list option \<Rightarrow> char list option" where
  "clone_part part = (if part = Some [] then None else part)"

definition coap_clone_uri :: "coap_uri \<Rightarrow> coap_uri" where
  "coap_clone_uri uri =
     \<lparr>uri_host = clone_part (uri_host uri), uri_port = uri_port uri,
      uri_path = clone_part (uri_path uri), uri_query = clone_part (uri_query uri)\<rparr>"

section \<open>coap_split_query\<close>

fun split_query_from :: "char list \<Rightarrow> char list \<Rightarrow> segment list" where
  "split_query_from p [] = [(p, None)]"
| "split_query_from p (q # s) =
     (if q = CHR ''#'' then [(p, Some q)]
      else if q = CHR ''&'' then (p, Some q) # split_query_from [] s
      else split_query_from (p @ [q]) s)"

definition coap_split_query :: "char list \<Rightarrow> nat \<Rightarrow> (nat \<times> char list) result" where
  "coap_split_query s buflen =
     bindR (fold write_option (split_query_from [] s) (Inr (0, buflen, [])))
       (\<lambda>(n, _, out). Inr (n, out))"

section \<open>Written URIs\<close>

text \<open>The text of a URI; a host with a colon is written in brackets.\<close>

definition uri_text ::
  "bool \<Rightarrow> char list \<Rightarrow> nat option \<Rightarrow> char list option \<Rightarrow> char list option \<Rightarrow> char list" where
  "uri_text secure host port path query =
     ''coap'' @ (if secure then ''s'' else []) @ ''://'' @
     (if CHR '':'' \<in> set host then ''['' @ host @ '']'' else host) @
     (case port of None \<Rightarrow> [] | Some n \<Rightarrow> CHR '':'' # show_nat n) @
     (case path of None \<Rightarrow> [] | Some s \<Rightarrow> CHR ''/'' # s) @
     (case query of None \<Rightarrow> [] | Some s \<Rightarrow> CHR ''?'' # s)"

definition host_ok :: "char list \<Rightarrow> bool" where
  "host_ok h \<longleftrightarrow> h \<noteq> [] \<and> hd h \<noteq> CHR ''['' \<and> set h \<inter> set '']/?'' = {}"

lemma split_host_text:
  assumes "host_ok h" and rest: "rest = [] \<or> hd rest \<in> {CHR '':'', CHR ''/'', CHR ''?''}"
  shows "\<exists>p. split_host ((if CHR '':'' \<in> set h then ''['' @ h @ '']'' else h) @ rest) = Some (h, p, rest) \<and>
    p \<noteq> [] \<and> hd p \<noteq> CHR ''?''"
proof -
  have h: "h \<noteq> []" "hd h \<noteq> CHR ''?''" "hd h \<noteq> CHR ''[''" using assms(1) by (cases h; auto simp: host_ok_def)+
  show ?thesis
  proof (cases "CHR '':'' \<in> set h")
    case True
    have "dropWhile (\<lambda>c. c \<noteq> CHR '']'') (h @ CHR '']'' # rest) = CHR '']'' # rest"
      using assms(1) by (subst dropWhile_append2) (auto simp: host_ok_def)
    then show ?thesis using True h by (simp add: split_host_def)
  next
    case False
    have "dropWhile (\<lambda>c. c \<notin> {CHR '':'', CHR ''/'', CHR ''?''}) (h @ rest) =
        dropWhile (\<lambda>c. c \<notin> {CHR '':'', CHR ''/'', CHR ''?''}) rest"
      using assms(1) False by (intro dropWhile_append2) (auto simp: host_ok_def)
    also have "\<dots> = rest" using rest by (cases rest) auto
    finally show ?thesis using False h unfolding split_host_def by auto
  qed
qed

lemma split_port_text:
  assumes "p \<noteq> []" and "n < 65536" and rest: "rest = [] \<or> hd rest \<in> {CHR ''/'', CHR ''?''}"
  shows "split_port p (CHR '':'' # show_nat n @ rest) uri = Inr (Some (rest, rest, uri\<lparr>uri_port := n\<rparr>))"
proof -
  have nd: "\<not> isdigit CHR ''/''" "\<not> isdigit CHR ''?''" by (simp_all add: isdigit_def code_def)
  have drop: "dropWhile isdigit (show_nat n @ rest) = rest"
    using show_nat_digits [of n] rest nd by (cases rest) (auto simp: dropWhile_append2)
  have "digits_value n rest = n" using rest nd by (cases rest) auto
  then have val: "digits_value 0 (show_nat n @ rest) = n"
    using digits_value_append [OF show_nat_digits [of n]] by (simp add: digits_value_show_nat)
  show ?thesis using show_nat_nonempty [of n] assms(2) unfolding split_port_def Let_def list.sel drop val by simp
qed

lemma split_rest_text:
  assumes q: "q = (case path of None \<Rightarrow> [] | Some s \<Rightarrow> CHR ''/'' # s) @
      (case query of None \<Rightarrow> [] | Some s \<Rightarrow> CHR ''?'' # s)"
    and path: "\<forall>s. path = Some s \<longrightarrow> CHR ''?'' \<notin> set s"
  shows "path \<noteq> None \<or> query = None \<or> p = q \<Longrightarrow> split_rest p q uri =
      (0, uri\<lparr>uri_path := (case clone_part path of None \<Rightarrow> uri_path uri | s \<Rightarrow> s),
             uri_query := (case query of None \<Rightarrow> uri_query uri | s \<Rightarrow> s)\<rparr>)"
    and "path = None \<Longrightarrow> query \<noteq> None \<Longrightarrow> hd p \<noteq> CHR ''?'' \<Longrightarrow> split_rest p q uri = (-1, uri)"
proof -
  have drop: "dropWhile (\<lambda>c. c \<noteq> CHR ''?'') (s @ (case query of None \<Rightarrow> [] | Some s \<Rightarrow> CHR ''?'' # s)) =
      (case query of None \<Rightarrow> [] | Some s \<Rightarrow> CHR ''?'' # s)" if "path = Some s" for s
    using path that by (subst dropWhile_append2) (auto split: option.splits)
  show "path \<noteq> None \<or> query = None \<or> p = q \<Longrightarrow> split_rest p q uri =
      (0, uri\<lparr>uri_path := (case clone_part path of None \<Rightarrow> uri_path uri | s \<Rightarrow> s),
             uri_query := (case query of None \<Rightarrow> uri_query uri | s \<Rightarrow> s)\<rparr>)"
  proof (cases path)
    case None
    assume "path \<noteq> None \<or> query = None \<or> p = q"
    then show ?thesis using None q by (auto simp: split_rest_def clone_part_def split: option.splits)
  next
    case (Some s)
    then show ?thesis using q drop [OF Some] by (cases s; cases query) (auto simp: split_rest_def clone_part_def Let_def)
  qed
  show "path = None \<Longrightarrow> query \<noteq> None \<Longrightarrow> hd p \<noteq> CHR ''?'' \<Longrightarrow> split_rest p q uri = (-1, uri)"
    using q by (auto simp: split_rest_def)
qed

lemma split_uri_text:
  assumes "host_ok host" and port: "\<forall>n. port = Some n \<longrightarrow> n < 65536" and path: "\<forall>s. path = Some s \<longrightarrow> CHR ''?'' \<notin> set s"
  shows "coap_split_uri (uri_text secure host port path query) =
    Inr (if port = None \<and> path = None \<and> query \<noteq> None then (-1, empty_uri\<lparr>uri_host := Some host\<rparr>)
         else (0, \<lparr>uri_host = Some host, uri_port = (case port of None \<Rightarrow> COAP_DEFAULT_PORT | Some n \<Rightarrow> n),
                   uri_path = clone_part path, uri_query = query\<rparr>))"
proof -
  let ?tail = "(case path of None \<Rightarrow> [] | Some s \<Rightarrow> CHR ''/'' # s) @ (case query of None \<Rightarrow> [] | Some s \<Rightarrow> CHR ''?'' # s)"
  let ?rest = "(case port of None \<Rightarrow> [] | Some n \<Rightarrow> CHR '':'' # show_nat n) @ ?tail"
  let ?host = "if CHR '':'' \<in> set host then ''['' @ host @ '']'' else host"
  let ?uri = "empty_uri\<lparr>uri_host := Some host\<rparr>"
  have tail: "?tail = [] \<or> hd ?tail \<in> {CHR ''/'', CHR ''?''}" by (auto split: option.splits)
  then have "?rest = [] \<or> hd ?rest \<in> {CHR '':'', CHR ''/'', CHR ''?''}" by (cases port) auto
  from split_host_text [OF assms(1) this] obtain p where p: "split_host (?host @ ?rest) = Some (host, p, ?rest)"
    "p \<noteq> []" "hd p \<noteq> CHR ''?''" by blast
  have scheme: "skip_literal ISEQUAL_CI (''coap'' @ r) ''coap'' = (r, [])" "skip_literal (=) (''://'' @ r) ''://'' = (r, [])" for r
    by (simp_all add: ISEQUAL_CI_def)
  have written: "uri_text secure host port path query = ''coap'' @ (if secure then ''s'' else []) @ ''://'' @ ?host @ ?rest"
    by (simp only: uri_text_def append.assoc)
  have secure: "(let p = (if secure then ''s'' else []) @ ''://'' @ r in if p \<noteq> [] \<and> hd p = CHR ''s'' then tl p else p) = ''://'' @ r" for r
    by simp
  have start: "hd (''coap'' @ r) \<noteq> CHR ''/''" "''coap'' @ r \<noteq> []" for r by simp_all
  have run: "coap_split_uri (uri_text secure host port path query) =
      bindR (split_port p ?rest ?uri) (\<lambda>res. case res of None \<Rightarrow> Inr (-4, ?uri)
        | Some (p, q, uri) \<Rightarrow> Inr (split_rest p q uri))"
      unfolding coap_split_uri_def written scheme(1) prod.case if_not_P [OF start(1)] if_not_P [OF start(2)] not_not simp_thms if_False
      secure [unfolded Let_def] Let_def scheme(2) p(1) option.case ..
  show ?thesis
  proof (cases port)
    case None
    then have "split_port p ?rest ?uri = Inr (Some (p, ?tail, ?uri))"
      using tail by (auto simp: split_port_def split: option.splits)
    then have run': "coap_split_uri (uri_text secure host port path query) = Inr (split_rest p ?tail ?uri)"
      using run by simp
    show ?thesis
    proof (cases "path = None \<and> query \<noteq> None")
      case True
      then show ?thesis using split_rest_text(2) [OF refl path, of query p] p(3) run' None by simp
    next
      case False
      then show ?thesis
        using split_rest_text(1) [OF refl path, of query p ?uri] run' None
        by (auto simp: empty_uri_def split: option.splits)
    qed
  next
    case (Some n)
    then have "split_port p ?rest ?uri = Inr (Some (?tail, ?tail, ?uri\<lparr>uri_port := n\<rparr>))"
      using split_port_text [OF p(2) _ tail] port by simp
    then have "coap_split_uri (uri_text secure host port path query) = Inr (split_rest ?tail ?tail (?uri\<lparr>uri_port := n\<rparr>))"
      using run by simp
    then show ?thesis
      using split_rest_text(1) [OF refl path, of query ?tail "?uri\<lparr>uri_port := n\<rparr>"] Some
      by (auto simp: empty_uri_def split: option.splits)
  qed
qed

section \<open>Percent-encoding\<close>

definition hex_char :: "nat \<Rightarrow> char" where
  "hex_char d = (if d < 10 then char_of (d + 48) else char_of (d + 55))"

definition percent_char :: "char \<Rightarrow> char list" where
  "percent_char c =
     (if c \<in> set ''/?#&%'' then [CHR ''%'', hex_char (code c div 16), hex_char (code c mod 16)] else [c])"

definition percent_encode :: "char list \<Rightarrow> char list" where
  "percent_encode s = concat (map percent_char s)"

lemma percent_encode_simps [simp]:
  "percent_encode [] = []" "percent_encode (c # s) = percent_char c @ percent_encode s"
  by (simp_all add: percent_encode_def)

lemma percent_reserved:
  "percent_char CHR ''/'' = ''%2F''" "percent_char CHR ''?'' = ''%3F''" "percent_char CHR ''#'' = ''%23''"
  "percent_char CHR ''&'' = ''%26''" "percent_char CHR ''%'' = ''%25''"
  "char_of (47 :: nat) = CHR ''/''" "char_of (63 :: nat) = CHR ''?''" "char_of (35 :: nat) = CHR ''#''"
  "char_of (38 :: nat) = CHR ''&''" "char_of (37 :: nat) = CHR ''%''"
  by code_simp+

lemma percent_char_cases:
  "percent_char c = [c] \<and> c \<notin> set ''/?#&%'' \<or>
   (\<exists>a b. percent_char c = [CHR ''%'', a, b] \<and> isxdigit a \<and> isxdigit b \<and> a \<notin> set ''/?#&%'' \<and> b \<notin> set ''/?#&%'' \<and>
      char_of (16 * hexchar_to_dec a + hexchar_to_dec b) = c)"
proof (cases "c \<in> set ''/?#&%''")
  case True
  then have "c = CHR ''/'' \<or> c = CHR ''?'' \<or> c = CHR ''#'' \<or> c = CHR ''&'' \<or> c = CHR ''%''" by simp
  then show ?thesis
    using percent_reserved by (elim disjE) (simp_all add: isxdigit_def isdigit_def hexchar_to_dec_def code_def)
qed (simp add: percent_char_def)

lemma check_percent: "check_segment nxt (percent_encode s) = Inr (Some (length s))"
proof (induction s)
  case (Cons c s)
  then show ?case using percent_char_cases [of c] by auto
qed simp

lemma decode_percent: "decode_segment (percent_encode s) = s"
proof (induction s)
  case (Cons c s)
  then show ?case using percent_char_cases [of c] by auto
qed simp

lemma percent_encode_plain: "set (percent_encode s) \<inter> set ''/?#&'' = {}"
proof (induction s)
  case (Cons c s)
  then show ?case using percent_char_cases [of c] by auto
qed simp

lemma dots_percent: "dots (percent_encode s) \<longleftrightarrow> dots s"
proof
  assume "dots (percent_encode s)"
  then have "dots (decode_segment (percent_encode s))" by (auto simp: dots_def)
  then show "dots s" by (simp add: decode_percent)
next
  assume "dots s"
  then show "dots (percent_encode s)" by (auto simp: dots_def percent_char_def)
qed

section \<open>Segments as options\<close>

text \<open>An option for a segment, as it stands in the buffer: of delta zero.\<close>

abbreviation segment_option :: "char list \<Rightarrow> char list" where
  "segment_option s \<equiv> option_bytes (0, s)"

lemma length_segment_option: "length (segment_option s) = opt_space 0 (length s)"
  using opt_encode_fits [of 0 s "opt_space 0 (length s)"] by (auto simp: option_bytes_def)

text \<open>A segment that is written as the option with the value \<open>s\<close>, wherever there is room.\<close>

definition writes :: "segment \<Rightarrow> char list \<Rightarrow> bool" where
  "writes seg s \<longleftrightarrow>
     (\<forall>n. opt_space 0 (length s) \<le> n \<longrightarrow> make_decoded_option seg n = Inr (Some (segment_option s)))"

lemma writesI:
  assumes "check_segment nxt e = Inr (Some (length s))" "decode_segment e = s"
  shows "writes (e, nxt) s"
  unfolding writes_def
proof (intro allI impI)
  fix n assume fits: "opt_space 0 (length s) \<le> n"
  obtain b where b: "coap_opt_encode n 0 s = Some b" using opt_encode_fits [OF fits] by blast
  have eq: "coap_opt_encode (opt_space 0 (length s)) 0 s = Some b"
    using b by (simp add: coap_opt_encode_space split: if_splits)
  have "0 < n" using fits by (simp add: opt_space_def)
  moreover have "coap_opt_setheader n 0 (length s) = Some (take (length b - length s) b)"
    "length s \<le> length b" "drop (length b - length s) b = s" "length b \<le> n"
    using b encode_fits [OF b] by (auto simp: coap_opt_encode_def split: option.splits if_splits)
  ultimately show "make_decoded_option (e, nxt) n = Inr (Some (segment_option s))"
    using append_take_drop_id [of "length b - length s" b] assms
    by (auto simp: make_decoded_option_def option_bytes_def eq)
qed

lemma writes_percent: "writes (percent_encode s, nxt) s"
  by (rule writesI) (simp_all add: check_percent decode_percent)

lemma writes_plain:
  assumes "CHR ''%'' \<notin> set s"
  shows "writes (s, nxt) s"
proof (rule writesI)
  show "check_segment nxt s = Inr (Some (length s))" using assms by (induction s) auto
  show "decode_segment s = s" using assms by (induction s) auto
qed

abbreviation segments_space :: "char list list \<Rightarrow> nat" where
  "segments_space ss \<equiv> sum_list (map (\<lambda>s. opt_space 0 (length s)) ss)"

lemma write_segments:
  "list_all2 writes segs ss \<Longrightarrow> segments_space ss \<le> n \<Longrightarrow>
   fold write_option segs (Inr (k, n, out)) =
     Inr (k + length ss, n - segments_space ss, out @ concat (map segment_option ss))"
proof (induction arbitrary: k n out rule: list_all2_induct)
  case (Cons seg segs s ss)
  have fits: "opt_space 0 (length s) \<le> n" and rest: "segments_space ss \<le> n - opt_space 0 (length s)"
    using Cons.prems by auto
  have "write_option seg (Inr (k, n, out)) = Inr (k + 1, n - opt_space 0 (length s), out @ segment_option s)"
    using Cons.hyps(1) fits by (simp add: write_option_def writes_def length_segment_option)
  then show ?case using Cons.IH [OF rest] by simp
qed simp

lemma encoded_segments: "map fst segs = map percent_encode ss \<Longrightarrow> list_all2 writes segs ss"
proof (induction ss arbitrary: segs)
  case (Cons s ss)
  then obtain nxt segs' where "segs = (percent_encode s, nxt) # segs'" "map fst segs' = map percent_encode ss"
    by (cases segs) auto
  then show ?case using Cons.IH by (simp add: writes_percent)
qed simp

lemma plain_percent: "\<not> dots s \<Longrightarrow> plain_segment (percent_encode s)"
  using percent_encode_plain [of s] by (auto simp: plain_segment_def dots_percent)

lemma path_key:
  "ss \<noteq> [] \<Longrightarrow> \<forall>s\<in>set ss. \<not> dots s \<Longrightarrow>
   coap_hash_path (join_path (map percent_encode ss)) = fold coap_hash (map percent_encode ss) zero_key"
  using plain_path [of "map percent_encode ss"] by (auto simp: plain_percent)

lemma split_path_written:
  assumes "ss \<noteq> []" "\<forall>s\<in>set ss. \<not> dots s" "segments_space ss \<le> n"
  shows "coap_split_path (join_path (map percent_encode ss)) n = Inr (length ss, concat (map segment_option ss))"
proof -
  have "map fst (split_path_from [] (join_path (map percent_encode ss))) = map percent_encode ss"
    using assms by (intro split_join_path) (auto simp: plain_percent)
  from write_segments [OF encoded_segments [OF this] assms(3), of 0 "[]"] show ?thesis
    by (simp add: coap_split_path_def coap_split_path_impl_def)
qed

fun join_query :: "char list list \<Rightarrow> char list" where
  "join_query [] = []"
| "join_query [s] = s"
| "join_query (s # ss) = s @ CHR ''&'' # join_query ss"

lemma split_query_from_plain:
  "set s \<inter> set ''&#'' = {} \<Longrightarrow> split_query_from p (s @ t) = split_query_from (p @ s) t"
  by (induction s arbitrary: p) auto

lemma split_join_query:
  "ss \<noteq> [] \<Longrightarrow> \<forall>s\<in>set ss. set s \<inter> set ''&#'' = {} \<Longrightarrow> map fst (split_query_from [] (join_query ss)) = ss"
proof (induction ss rule: join_query.induct)
  case (2 s)
  then show ?case using split_query_from_plain [of s "[]" "[]"] by simp
next
  case (3 s t ss)
  then show ?case using split_query_from_plain [of s "[]" "CHR ''&'' # join_query (t # ss)"] by simp
qed simp

lemma split_query_written:
  assumes "ss \<noteq> []" "segments_space ss \<le> n"
  shows "coap_split_query (join_query (map percent_encode ss)) n = Inr (length ss, concat (map segment_option ss))"
proof -
  have "set (percent_encode s) \<inter> set ''&#'' = {}" for s using percent_encode_plain [of s] by auto
  then have "map fst (split_query_from [] (join_query (map percent_encode ss))) = map percent_encode ss"
    using assms by (intro split_join_query) auto
  from write_segments [OF encoded_segments [OF this] assms(2), of 0 "[]"] show ?thesis
    by (simp add: coap_split_query_def)
qed

text \<open>The options are read back in order.\<close>

lemma read_segments:
  assumes "\<forall>s\<in>set ss. opt_size_ok (length s)"
  shows "decode_list read_option (length ss) (concat (map segment_option ss)) = Some (map (Pair 0) ss, [])"
proof -
  have "\<forall>x\<in>set (map (Pair 0) ss). option_ok x" using assms by (auto simp: option_ok_def opt_size_ok_def)
  from options.decode_list_encoded [OF this, of "[]"] show ?thesis by (simp add: comp_def)
qed

end
