(* ===== verification/Registry.thy ===== *)
theory Registry
  imports CoAPRD ResourceSpec Uri
begin

text \<open>
  What the resource directory does: the parameters of a registration request as a list of
  terms, the location of a registration, and the life of a registration from its POST to
  its DELETE.
\<close>

section \<open>Parameters\<close>

definition names_param :: "char list \<Rightarrow> char list \<Rightarrow> bool" where
  "names_param name s \<longleftrightarrow> s = name \<or> is_prefix (name @ ''='') s"

lemma skip_param_amp: "CHR ''&'' \<notin> set u \<Longrightarrow> skip_param (u @ CHR ''&'' # r) = r"
  by (induction u) auto

lemma skip_param_end: "CHR ''&'' \<notin> set u \<Longrightarrow> skip_param u = []"
  by (induction u rule: skip_param.induct) auto

lemma parse_param_Nil [simp]: "parse_param name [] = (False, None)"
  by (subst parse_param.simps) simp

text \<open>What follows the parameter's name when the name is that of another one.\<close>

lemma parse_param_other:
  assumes "name \<noteq> []" "CHR ''&'' \<notin> set name" "CHR ''&'' \<notin> set s" "\<not> names_param name s"
    and t: "t = [] \<or> hd t = CHR ''&''"
  shows "parse_param name (s @ t) = parse_param name (tl t)"
proof (cases "length (s @ t) < length name")
  case True
  then have "length (tl t) < length name" by (cases t) auto
  then show ?thesis using True by (simp add: parse_param.simps [of name])
next
  case long: False
  have skip: "skip_param (u @ t) = tl t" if "CHR ''&'' \<notin> set u" for u
    using t skip_param_amp [OF that, of "tl t"] skip_param_end [OF that] by (cases t) auto
  show ?thesis
  proof (cases "take (length name) (s @ t) = name")
    case False
    then show ?thesis using long assms(1) skip [OF assms(3)] by (subst parse_param.simps) simp
  next
    case True
    obtain w where w: "s @ t = name @ w" "drop (length name) (s @ t) = w"
      using True append_take_drop_id [of "length name" "s @ t"] by metis
    then obtain us where us: "s = name @ us \<and> us @ t = w \<or> s @ us = name \<and> t = us @ w"
      by (auto simp: append_eq_append_conv2)
    have "us = []" if "s @ us = name" "t = us @ w"
    proof (rule ccontr)
      assume "us \<noteq> []"
      then have "hd us = CHR ''&''" using t that by auto
      moreover have "hd us \<in> set us" using \<open>us \<noteq> []\<close> by simp
      ultimately show False using assms(2) that(1) by auto
    qed
    then have "s = name @ us \<and> us @ t = w" using us by fastforce
    then have s: "s = name @ us" "drop (length name) (s @ t) = us @ t" using w(2) by simp_all
    have u: "us \<noteq> []" "hd us \<noteq> CHR ''=''" "CHR ''&'' \<notin> set us" "hd us \<noteq> CHR ''&''"
      using assms(3,4) s(1) by (cases us; auto simp: names_param_def is_prefix_iff)+
    then show ?thesis using True long assms(1) s(2) skip [OF u(3)]
      by (subst parse_param.simps) simp
  qed
qed

text \<open>The first term that names the parameter decides; an empty value at the very end is none.\<close>

lemma parse_param_here:
  assumes "name \<noteq> []" "CHR ''&'' \<notin> set v" "t = [] \<or> hd t = CHR ''&''"
  shows "parse_param name (name @ CHR ''='' # v @ t) = (True, if v = [] \<and> t = [] then None else Some v)"
proof -
  have "takeWhile (\<lambda>c. c \<noteq> CHR ''&'') (v @ t) = v"
    using assms(2,3) by (cases t) (auto simp: takeWhile_append takeWhile_eq_all_conv)
  then show ?thesis using assms by (subst parse_param.simps) (simp add: param_value_def)
qed

fun first_param :: "char list \<Rightarrow> char list list \<Rightarrow> char list option" where
  "first_param name [] = None"
| "first_param name (s # ss) =
     (if names_param name s
      then (if s = name @ ''='' \<and> ss = [] then None else Some (drop (length name + 1) s))
      else first_param name ss)"

text \<open>Terms, the one for this parameter with an equals sign.\<close>

definition terms_ok :: "char list \<Rightarrow> char list list \<Rightarrow> bool" where
  "terms_ok name ss \<longleftrightarrow> ss \<noteq> [] \<and> name \<notin> set ss \<and> (\<forall>s\<in>set ss. CHR ''&'' \<notin> set s)"

lemma parse_param_terms:
  assumes "name \<noteq> []" "CHR ''&'' \<notin> set name" "terms_ok name ss"
  shows "parse_param name (join_query ss) = (\<exists>s\<in>set ss. names_param name s, first_param name ss)"
  using assms(3)
proof (induction ss rule: join_query.induct)
  case (2 s)
  show ?case
  proof (cases "names_param name s")
    case True
    then obtain v where "s = name @ CHR ''='' # v" using 2 by (auto simp: names_param_def is_prefix_iff terms_ok_def)
    then show ?thesis using parse_param_here [of name v "[]"] 2 assms(1) True by (simp add: terms_ok_def)
  next
    case False
    then show ?thesis using parse_param_other [OF assms(1,2) _ False, of "[]"] 2 by (simp add: terms_ok_def)
  qed
next
  case (3 s u ss)
  let ?t = "CHR ''&'' # join_query (u # ss)"
  show ?case
  proof (cases "names_param name s")
    case True
    then obtain v where "s = name @ CHR ''='' # v" using 3 by (auto simp: names_param_def is_prefix_iff terms_ok_def)
    then show ?thesis using parse_param_here [of name v ?t] 3 assms(1) True by (simp add: terms_ok_def)
  next
    case False
    then show ?thesis using parse_param_other [OF assms(1,2) _ False, of ?t] 3 by (simp add: terms_ok_def)
  qed
qed (simp add: terms_ok_def)

text \<open>A name without an equals sign takes the value of whatever parameter comes next.\<close>

lemma parse_param_bare:
  assumes "name \<noteq> []" "CHR ''='' \<notin> set k" "v \<noteq> []" "CHR ''&'' \<notin> set v"
  shows "parse_param name (name @ CHR ''&'' # k @ CHR ''='' # v) = (True, Some v)"
proof -
  have "dropWhile (\<lambda>c. c \<noteq> CHR ''='') (CHR ''&'' # k @ CHR ''='' # v) = CHR ''='' # v"
    using assms(2) by (simp add: dropWhile_append)
  then show ?thesis using assms
    by (subst parse_param.simps) (auto simp: param_value_def takeWhile_eq_all_conv)
qed

section \<open>The location of a registration\<close>

definition rd_param :: "coap_pdu \<Rightarrow> cstring \<Rightarrow> char list option" where
  "rd_param request name =
     (case coap_check_option request COAP_OPTION_URI_QUERY of
        None \<Rightarrow> None | Some q \<Rightarrow> snd (parse_param name (opt_bytes q)))"

text \<open>The name of a node: its own and that of its instance.\<close>

definition node_name :: "char list \<Rightarrow> char list option \<Rightarrow> char list" where
  "node_name h ins = h @ (case ins of None \<Rightarrow> [] | Some [] \<Rightarrow> [] | Some i \<Rightarrow> CHR ''-'' # i)"

lemma rd_location_named:
  assumes "h \<noteq> []" "length (node_name h ins) \<le> 64"
  shows "rd_location (Some h) ins mid ticks = Inr (''rd/'' @ node_name h ins, False)"
  using assms by (auto simp: rd_location_def node_name_def copy_ins_def Let_def split: option.splits list.splits)

lemma rd_location_overrun:
  assumes "64 \<le> length h" "i \<noteq> []"
  shows "rd_location (Some h) (Some i) mid ticks = Inl Out_of_bounds"
proof -
  have "h \<noteq> []" using assms(1) by auto
  then show ?thesis using assms by (simp add: rd_location_def copy_ins_def Let_def)
qed

text \<open>A name that stands for itself as one segment.\<close>

definition plain_name :: "char list \<Rightarrow> bool" where
  "plain_name s \<longleftrightarrow> plain_segment s \<and> CHR ''%'' \<notin> set s"

lemma split_location:
  assumes "plain_name s" "length s \<le> 63"
  shows "coap_split_path (''rd/'' @ s) LOCSIZE = Inr (2, segment_option ''rd'' @ segment_option s)"
proof -
  have "map fst (split_path_from [] (join_path [s])) = [s]"
    using assms(1) by (intro split_join_path) (auto simp: plain_name_def)
  then obtain n2 where "split_path_from [] s = [(s, n2)]" by (auto simp: map_eq_Cons_conv)
  then obtain n1 where split: "split_path_from [] (''rd/'' @ s) = [(''rd'', n1), (s, n2)]"
    by (simp add: segment_def dots_def)
  have "list_all2 writes [(''rd'', n1), (s, n2)] [''rd'', s]"
    using assms(1) by (simp add: writes_plain plain_name_def)
  moreover have "segments_space [''rd'', s] \<le> LOCSIZE"
    using assms(2) by (simp add: opt_space_def ext_form_def)
  ultimately have "fold write_option [(''rd'', n1), (s, n2)] (Inr (0, LOCSIZE, [])) =
      Inr (2, LOCSIZE - segments_space [''rd'', s], segment_option ''rd'' @ segment_option s)"
    using write_segments [of "[(''rd'', n1), (s, n2)]" "[''rd'', s]" LOCSIZE 0 "[]"] by (simp add: numeral_2_eq_2)
  then show ?thesis unfolding coap_split_path_def coap_split_path_impl_def split by simp
qed

text \<open>Adding the segments of the buffer as Location-Path options.\<close>

lemma segment_option_parse:
  assumes "opt_size_ok (length s)"
  shows "coap_opt_parse (segment_option s @ r) = Inr (Some (\<lparr>opt_delta = 0, opt_value = s\<rparr>, length (segment_option s)))"
proof -
  obtain b where b: "coap_opt_encode (opt_space 0 (length s)) 0 s = Some b"
    using opt_encode_fits [of 0 s] by blast
  then show ?thesis
    using assms coap_opt_parse_encode [OF b, of r] by (simp add: option_bytes_def opt_size_ok_def)
qed

lemma segment_option_bytes:
  assumes "opt_size_ok (length s)" "length (segment_option s @ r) < 65536"
  shows "opt_bytes (segment_option s @ r) = s"
  using coap_opt_accessors_parse [OF segment_option_parse [OF assms(1)] assms(2)]
  by (auto simp: opt_bytes_def)

lemma add_segments_abs:
  assumes "\<forall>s\<in>set ss. opt_size_ok (length s)" "pdu_abs p opts None" "max_delta p = 0 \<or> max_delta p = 8"
    and "pdu_length p + segments_space ss \<le> max_size p"
  shows "\<exists>p'. add_segments (length ss) (concat (map segment_option ss)) p = p' \<and>
    pdu_abs p' (opts @ map (Pair 8) ss) None \<and> hdr_code p' = hdr_code p \<and> hdr_token p' = hdr_token p"
  using assms
proof (induction ss arbitrary: p opts)
  case (Cons s ss)
  have sp: "opt_space (8 - max_delta p) (length s) = opt_space 0 (length s)"
    using Cons.prems(3) by (auto simp: opt_space_def ext_form_def)
  have d: "max_delta p \<le> 8" "8 < (65536 :: nat)" "opt_size_ok (8 - max_delta p)" "opt_size_ok (length s)"
    using Cons.prems(1,3) by (auto simp: opt_size_ok_def)
  have room: "pdu_length p + opt_space (8 - max_delta p) (length s) \<le> max_size p"
    using Cons.prems(4) unfolding sp by simp
  obtain q where q: "coap_add_option p 8 s = (opt_space (8 - max_delta p) (length s), q)"
    "pdu_abs q (opts @ [(8, s)]) None" "max_delta q = 8"
    "pdu_length q = pdu_length p + opt_space (8 - max_delta p) (length s)"
    "max_size q = max_size p" "hdr_code q = hdr_code p" "hdr_token q = hdr_token p"
    by (rule pdu_add_option_abs [OF Cons.prems(2) d room])
  have "pdu_length p \<le> max_size p" "max_size p \<le> COAP_MAX_PDU_SIZE" using Cons.prems(2) by (simp_all add: pdu_abs_def)
  moreover have "length (concat (map segment_option (s # ss))) = segments_space (s # ss)"
    by (simp add: length_concat length_segment_option comp_def)
  ultimately have small: "length (segment_option s @ concat (map segment_option ss)) < 65536"
    using Cons.prems(4) by simp
  have prems: "\<forall>s\<in>set ss. opt_size_ok (length s)" "max_delta q = 0 \<or> max_delta q = 8"
    "pdu_length q + segments_space ss \<le> max_size q"
    using Cons.prems(1,4) q(3,4,5) sp by auto
  have "add_segments (length (s # ss)) (concat (map segment_option (s # ss))) p =
      add_segments (length ss) (concat (map segment_option ss)) q"
    using q(1) segment_option_bytes [OF d(4) small] opt_at_parse [OF segment_option_parse [OF d(4)]] by simp
  then show ?case using Cons.IH [OF prems(1) q(2) prems(2,3)] q(6,7) by simp
qed simp

section \<open>The life of a registration\<close>

text \<open>The resource of a registration at a location.\<close>

definition registration :: "char list \<Rightarrow> coap_resource \<Rightarrow> bool" where
  "registration loc r \<longleftrightarrow> r_key r = coap_hash_path loc \<and> str_text (r_uri r) = loc \<and> resource_ok r \<and>
     r_handler r = [Some Hnd_get_resource, None, Some Hnd_put_resource, Some Hnd_delete_resource] \<and>
     \<not> r_observable r \<and> coap_free_resource r = Inr ()"

lemma registration_id [simp]: "registration loc (r\<lparr>r_id := i\<rparr>) = registration loc r"
  by (simp add: registration_def resource_ok_def coap_free_resource_def free_uri_def)

definition attr_released :: "coap_attr \<Rightarrow> bool" where
  "attr_released a \<longleftrightarrow> attr_ok a \<and> coap_delete_attr a = Inr ()"

lemma delete_attrs_released: "\<forall>a\<in>set as. attr_released a \<Longrightarrow> delete_attrs coap_delete_attr as = Inr ()"
  by (induction as) (auto simp: attr_released_def)

text \<open>Resources that differ in attributes, all of which can be released.\<close>

definition dressed :: "coap_resource \<Rightarrow> coap_resource \<Rightarrow> bool" where
  "dressed r r' \<longleftrightarrow> (\<exists>as. (\<forall>a\<in>set as. attr_released a) \<and> r' = r\<lparr>link_attr := as\<rparr>)"

lemma dressed_add:
  assumes "dressed r r'" "n = length name"
  shows "dressed r (coap_add_attr r' (literal name n) (heap_bytes bs) 2)"
proof -
  obtain as where as: "\<forall>a\<in>set as. attr_released a" "r' = r\<lparr>link_attr := as\<rparr>" using assms(1) by (auto simp: dressed_def)
  let ?a = "\<lparr>attr_name = literal name n, attr_value = heap_bytes bs, attr_flags = 2\<rparr>"
  have "attr_released ?a"
    by (simp add: assms(2) attr_released_def attr_ok_def coap_delete_attr_def heap_bytes_def str_ok_def free_str_def literal_def)
  moreover have "coap_add_attr r' (literal name n) (heap_bytes bs) 2 = r\<lparr>link_attr := ?a # as\<rparr>"
    by (simp add: as(2) coap_add_attr_def heap_bytes_def literal_def)
  ultimately show ?thesis using as(1) unfolding dressed_def by (metis set_ConsD)
qed

lemma dressed_refl: "link_attr r = [] \<Longrightarrow> dressed r r"
  by (cases r) (auto simp: dressed_def intro: exI [of _ "[]"])

lemma dressed_quoted: "dressed r r' \<Longrightarrow> dressed r (quoted_attr name val r')"
  by (auto simp: quoted_attr_def dressed_add split: option.splits)

lemma dressed_address: "dressed r r' \<Longrightarrow> dressed r (add_source_address r' peer)"
  by (simp add: add_source_address_def dressed_add)

lemma post_registers:
  assumes loc: "rd_location (rd_param request ''h'') (rd_param request ''ins'') (hdr_id request) ticks = Inr (loc, t)"
    and split: "coap_split_path loc LOCSIZE = Inr (length ss, concat (map segment_option ss))"
    and ss: "\<forall>s\<in>set ss. opt_size_ok (length s)" "pdu_length response + segments_space ss \<le> max_size response"
    and abs: "pdu_abs response [] None"
  shows "\<exists>r resp. hnd_post_rd c rds ticks peer request response =
      Inr (coap_add_resource c r, rds @ [(make_rd request)\<lparr>rd_key := coap_hash_path loc\<rparr>], resp) \<and>
    registration loc r \<and> str_s (r_uri r) = Some (loc @ (if t then [NUL] else [])) \<and>
    hdr_code resp = COAP_RESPONSE_CODE 201 \<and> pdu_abs resp (map (Pair 8) ss) None"
proof -
  let ?uri = "\<lparr>str_s = Some (loc @ (if t then [NUL] else [])), str_length = length loc, str_heap = True\<rparr>"
  let ?base = "\<lparr>r_id = 0, r_dirty = False, r_partiallydirty = False, r_observable = False,
    r_handler = [Some Hnd_get_resource, None, Some Hnd_put_resource, Some Hnd_delete_resource],
    r_key = coap_hash_path loc, link_attr = [], subscribers = [], r_uri = ?uri, r_flags = 1\<rparr>"
  let ?r = "add_source_address (quoted_attr ''rt'' (rd_param request ''rt'')
    (quoted_attr ''ins'' (rd_param request ''ins'') ?base)) peer"
  let ?blank = "?base\<lparr>r_handler := replicate 4 None\<rparr>"
  have init: "coap_resource_init ?uri 1 = Inr ?blank" by (simp add: coap_resource_init_def str_bytes_def)
  have registered: "bindR (coap_register_handler ?blank COAP_REQUEST_GET Hnd_get_resource) (\<lambda>r.
      bindR (coap_register_handler r COAP_REQUEST_PUT Hnd_put_resource) (\<lambda>r.
      bindR (coap_register_handler r COAP_REQUEST_DELETE Hnd_delete_resource) f)) = f ?base" for f :: "coap_resource \<Rightarrow> 'a result"
    by (simp add: coap_register_handler_def eval_nat_numeral)
  have "dressed ?base ?base" by (rule dressed_refl) simp
  then have "dressed ?base ?r" by (intro dressed_address dressed_quoted)
  then obtain as where as: "\<forall>a\<in>set as. attr_released a" "?r = ?base\<lparr>link_attr := as\<rparr>" by (auto simp: dressed_def)
  have "registration loc ?r"
    using as(1) delete_attrs_released [OF as(1)] unfolding as(2)
    by (auto simp: registration_def str_text_def str_ok_def resource_ok_def attr_released_def
        coap_free_resource_def free_uri_def free_str_def)
  moreover have "str_s (r_uri ?r) = Some (loc @ (if t then [NUL] else []))" unfolding as(2) by simp
  moreover have "max_delta (response\<lparr>hdr_code := COAP_RESPONSE_CODE 201\<rparr>) = 0"
    using abs by (auto simp: pdu_abs_def elim: encodesE)
  then obtain resp where "add_segments (length ss) (concat (map segment_option ss))
      (response\<lparr>hdr_code := COAP_RESPONSE_CODE 201\<rparr>) = resp" "pdu_abs resp (map (Pair 8) ss) None"
      "hdr_code resp = COAP_RESPONSE_CODE 201"
    using add_segments_abs [OF ss(1), of "response\<lparr>hdr_code := COAP_RESPONSE_CODE 201\<rparr>" "[]"] abs ss(2)
    by (auto simp: pdu_length_def)
  moreover have "hnd_post_rd c rds ticks peer request response =
      Inr (coap_add_resource c ?r, rds @ [(make_rd request)\<lparr>rd_key := coap_hash_path loc\<rparr>],
        add_segments (length ss) (concat (map segment_option ss)) (response\<lparr>hdr_code := COAP_RESPONSE_CODE 201\<rparr>))"
    unfolding hnd_post_rd_def Let_def rd_param_def [symmetric] loc bindR_Inr prod.case init registered split by (rule refl)
  ultimately show ?thesis by blast
qed

text \<open>
  A GET on a registration: its description in link format. The ETag comes after the content
  format and is refused for its lower number.
\<close>

lemma length_ct_link_format: "length (coap_encode_var_bytes 40) = 1"
proof -
  have "var_len (Suc (Suc (Suc (Suc 0)))) 40 0 = 1" by simp
  moreover have "(4 :: nat) = Suc (Suc (Suc (Suc 0)))" by simp
  ultimately have "var_len 4 40 0 = 1" by metis
  then show ?thesis by (simp add: coap_encode_var_bytes_def)
qed

lemma get_registration:
  assumes rd: "rd_find (r_key r) rds = Some rd" "rd_data rd = Some d" "d \<noteq> []"
    and abs: "pdu_abs response [] None" and room: "pdu_length response + length d + 3 \<le> max_size response"
  shows "\<exists>resp. hnd_get_resource rds r response = Inr resp \<and> hdr_code resp = COAP_RESPONSE_CODE 205 \<and>
    pdu_abs resp [(12, coap_encode_var_bytes 40)] (Some d)"
proof -
  let ?p = "response\<lparr>hdr_code := COAP_RESPONSE_CODE 205\<rparr>"
  have max: "max_delta ?p = 0" using abs by (auto simp: pdu_abs_def elim: encodesE)
  have abs': "pdu_abs ?p [] None" using abs by simp
  have o: "max_delta ?p \<le> 12" "12 < (65536 :: nat)" "opt_size_ok (12 - max_delta ?p)"
    "opt_size_ok (length (coap_encode_var_bytes 40))"
    "pdu_length ?p + opt_space (12 - max_delta ?p) (length (coap_encode_var_bytes 40)) \<le> max_size ?p"
    unfolding max length_ct_link_format using room by (simp_all add: opt_size_ok_def opt_space_def ext_form_def pdu_length_def)
  obtain q where q: "coap_add_option ?p 12 (coap_encode_var_bytes 40) =
      (opt_space (12 - max_delta ?p) (length (coap_encode_var_bytes 40)), q)"
    "pdu_abs q ([] @ [(12, coap_encode_var_bytes 40)]) None" "max_delta q = 12"
    "pdu_length q = pdu_length ?p + opt_space (12 - max_delta ?p) (length (coap_encode_var_bytes 40))"
    "max_size q = max_size ?p" "hdr_code q = hdr_code ?p" "hdr_token q = hdr_token ?p"
    by (rule pdu_add_option_abs [OF abs' o])
  have len: "pdu_length q = pdu_length response + 2"
    using q(4) unfolding max length_ct_link_format by (simp add: opt_space_def ext_form_def pdu_length_def)
  have "coap_add_option q 4 v = (0, q)" for v
    by (rule pdu_add_option_rejected [OF q(2)]) (simp add: q(3))
  moreover have "pdu_length q + length d + 1 \<le> max_size q" using len q(5) room by simp
  then obtain resp where "coap_add_data q d = Inr (1, resp)" "pdu_abs resp ([] @ [(12, coap_encode_var_bytes 40)]) (Some d)"
    "hdr_code resp = hdr_code q" by (rule pdu_add_data_abs [OF q(2) rd(3)])
  ultimately show ?thesis
    using rd(1,2) q(1,6) by (simp add: hnd_get_resource_def Let_def)
qed

text \<open>A DELETE takes the registration away again.\<close>

lemma rd_find_new: "rd_key rd = k \<Longrightarrow> rd_find k (rds @ [rd]) = Some rd"
  by (simp add: rd_find_def)

lemma rd_remove_new: "rd_key rd = k \<Longrightarrow> rd_remove_last k (rds @ [rd]) = rds"
  by (induction rds) (simp_all add: rd_find_def)

lemma delete_registration:
  assumes "registration loc r" "rd_key rd = coap_hash_path loc" "\<forall>r\<in>set (resources c). r_id r \<noteq> next_id c"
  shows "hnd_delete_resource (coap_add_resource c r) (rds @ [rd]) (r\<lparr>r_id := next_id c\<rparr>) response =
    Inr (c\<lparr>next_id := Suc (next_id c)\<rparr>, rds, response\<lparr>hdr_code := COAP_RESPONSE_CODE 202\<rparr>)"
proof -
  have r: "r_key r = coap_hash_path loc" "coap_free_resource (r\<lparr>r_id := next_id c\<rparr>) = Inr ()"
    using assms(1) registration_id [of loc "next_id c" r] by (simp_all add: registration_def del: registration_id)
  have "coap_delete_resource (coap_add_resource c r) (coap_hash_path loc) = Inr (1, c\<lparr>next_id := Suc (next_id c)\<rparr>)"
    using r assms(3) by (simp add: coap_delete_resource_def coap_get_resource_from_key_def coap_add_resource_def
        RESOURCES_ADD_def RESOURCES_DELETE_def filter_id_conv)
  then show ?thesis
    using r(1) by (simp add: hnd_delete_resource_def rd_find_new [OF assms(2)] rd_remove_new [OF assms(2)])
qed

lemma found_registration:
  "registration loc r \<Longrightarrow>
   coap_get_resource_from_key (coap_add_resource c r) (coap_hash_path loc) = Some (r\<lparr>r_id := next_id c\<rparr>)"
  by (simp add: registration_def coap_get_resource_from_key_def coap_add_resource_def RESOURCES_ADD_def)

lemma make_rd_data: "coap_get_data request = (True, n, d) \<Longrightarrow> rd_data (make_rd request) = Some d"
  by (auto simp: make_rd_def rd_new_def Let_def split: option.splits)

lemma post_named:
  assumes name: "rd_param request ''h'' = Some h" "h \<noteq> []" "plain_name (node_name h (rd_param request ''ins''))"
      "length (node_name h (rd_param request ''ins'')) \<le> 63"
    and p: "pdu_abs response [] None" "pdu_length response + 72 \<le> max_size response"
  obtains r created where "hnd_post_rd c rds ticks peer request response = Inr (coap_add_resource c r,
      rds @ [(make_rd request)\<lparr>rd_key := coap_hash_path (''rd/'' @ node_name h (rd_param request ''ins''))\<rparr>], created)"
    "registration (''rd/'' @ node_name h (rd_param request ''ins'')) r"
    "str_s (r_uri r) = Some (''rd/'' @ node_name h (rd_param request ''ins''))"
    "hdr_code created = COAP_RESPONSE_CODE 201"
    "pdu_abs created [(8, ''rd''), (8, node_name h (rd_param request ''ins''))] None"
proof -
  let ?name = "node_name h (rd_param request ''ins'')"
  let ?loc = "''rd/'' @ ?name"
  have loc: "rd_location (rd_param request ''h'') (rd_param request ''ins'') (hdr_id request) ticks = Inr (?loc, False)"
    using rd_location_named [OF name(2)] name(1,4) by simp
  have split: "coap_split_path ?loc LOCSIZE = Inr (length [''rd'', ?name], concat (map segment_option [''rd'', ?name]))"
    using split_location [OF name(3,4)] by simp
  have ss: "\<forall>s\<in>set [''rd'', ?name]. opt_size_ok (length s)" "pdu_length response + segments_space [''rd'', ?name] \<le> max_size response"
    using name(4) p(2) by (auto simp: opt_size_ok_def opt_space_def ext_form_def)
  show ?thesis using post_registers [OF loc split ss p(1), of c rds peer] that by auto
qed

lemma registration_life:
  assumes name: "rd_param request ''h'' = Some h" "h \<noteq> []" "plain_name (node_name h (rd_param request ''ins''))"
      "length (node_name h (rd_param request ''ins'')) \<le> 63"
    and d: "coap_get_data request = (True, n, d)" "d \<noteq> []"
    and p: "pdu_abs response [] None" "pdu_length response + 72 \<le> max_size response"
      "pdu_length response + length d + 3 \<le> max_size response"
    and ids: "\<forall>r\<in>set (resources c). r_id r \<noteq> next_id c"
  shows "\<exists>c' rds' r created got.
    hnd_post_rd c rds ticks peer request response = Inr (c', rds', created) \<and>
    hdr_code created = COAP_RESPONSE_CODE 201 \<and>
    pdu_abs created [(8, ''rd''), (8, node_name h (rd_param request ''ins''))] None \<and>
    coap_get_resource_from_key c' (coap_hash_path (''rd/'' @ node_name h (rd_param request ''ins''))) = Some r \<and>
    str_text (r_uri r) = ''rd/'' @ node_name h (rd_param request ''ins'') \<and>
    hnd_get_resource rds' r response = Inr got \<and> hdr_code got = COAP_RESPONSE_CODE 205 \<and>
    pdu_abs got [(12, coap_encode_var_bytes 40)] (Some d) \<and>
    hnd_delete_resource c' rds' r response =
      Inr (c\<lparr>next_id := Suc (next_id c)\<rparr>, rds, response\<lparr>hdr_code := COAP_RESPONSE_CODE 202\<rparr>)"
proof -
  let ?name = "node_name h (rd_param request ''ins'')"
  let ?loc = "''rd/'' @ ?name" and ?rd = "(make_rd request)\<lparr>rd_key := coap_hash_path (''rd/'' @ ?name)\<rparr>"
  obtain r created where r: "hnd_post_rd c rds ticks peer request response = Inr (coap_add_resource c r, rds @ [?rd], created)"
    "registration ?loc r" "hdr_code created = COAP_RESPONSE_CODE 201" "pdu_abs created [(8, ''rd''), (8, ?name)] None"
    using post_named [OF name p(1,2)] by blast
  have key: "rd_key ?rd = coap_hash_path ?loc" "r_key (r\<lparr>r_id := next_id c\<rparr>) = coap_hash_path ?loc"
    using r(2) by (simp_all add: registration_def)
  have "rd_data ?rd = Some d" using make_rd_data [OF d(1)] by simp
  moreover have "rd_find (r_key (r\<lparr>r_id := next_id c\<rparr>)) (rds @ [?rd]) = Some ?rd"
    unfolding key(2) by (rule rd_find_new [OF key(1)])
  ultimately have "\<exists>got. hnd_get_resource (rds @ [?rd]) (r\<lparr>r_id := next_id c\<rparr>) response = Inr got \<and>
      hdr_code got = COAP_RESPONSE_CODE 205 \<and> pdu_abs got [(12, coap_encode_var_bytes 40)] (Some d)"
    using get_registration [OF _ _ d(2) p(1,3)] by blast
  then
  obtain got where "hnd_get_resource (rds @ [?rd]) (r\<lparr>r_id := next_id c\<rparr>) response = Inr got"
    "hdr_code got = COAP_RESPONSE_CODE 205" "pdu_abs got [(12, coap_encode_var_bytes 40)] (Some d)" by blast
  moreover have "str_text (r_uri (r\<lparr>r_id := next_id c\<rparr>)) = ?loc" using r(2) by (simp add: registration_def)
  ultimately show ?thesis
    using r found_registration [OF r(2), of c] delete_registration [OF r(2) key(1) ids, of rds response] by auto
qed

text \<open>Names that break the directory.\<close>

lemma registration_overruns:
  assumes "rd_param request ''h'' = Some h" "rd_param request ''ins'' = Some i" "64 \<le> length h" "i \<noteq> []"
  shows "hnd_post_rd c rds ticks peer request response = Inl Out_of_bounds"
  unfolding hnd_post_rd_def Let_def rd_param_def [symmetric] assms(1,2) rd_location_overrun [OF assms(3,4)] bindR_Inl ..

text \<open>The URI of a registration with a name is not a C string.\<close>

lemma registration_unterminated:
  assumes name: "rd_param request ''h'' = Some h" "h \<noteq> []" "plain_name (node_name h (rd_param request ''ins''))"
      "length (node_name h (rd_param request ''ins'')) \<le> 63"
    and p: "pdu_abs response [] None" "pdu_length response + 72 \<le> max_size response"
    and NUL: "NUL \<notin> set (node_name h (rd_param request ''ins''))"
  shows "\<exists>r rds' created. hnd_post_rd c rds ticks peer request response = Inr (coap_add_resource c r, rds', created) \<and>
    str_cstr (r_uri r) = Inl Out_of_bounds"
proof -
  obtain r created where r: "hnd_post_rd c rds ticks peer request response = Inr (coap_add_resource c r,
      rds @ [(make_rd request)\<lparr>rd_key := coap_hash_path (''rd/'' @ node_name h (rd_param request ''ins''))\<rparr>], created)"
    "str_s (r_uri r) = Some (''rd/'' @ node_name h (rd_param request ''ins''))"
    by (rule post_named [OF name p])
  have "str_cstr (r_uri r) = Inl Out_of_bounds" using NUL r(2) by (simp add: str_cstr_def)
  then show ?thesis using r(1) by blast
qed

lemma registration_shadows:
  assumes "rd_param request ''h'' = Some ''..''" "rd_param request ''ins'' = None"
    and "pdu_abs response [] None" "pdu_length response + 72 \<le> max_size response"
  shows "\<exists>c' rds' r created. hnd_post_rd c rds ticks peer request response = Inr (c', rds', created) \<and>
    hdr_code created = COAP_RESPONSE_CODE 201 \<and> pdu_abs created [(8, ''rd'')] None \<and>
    coap_get_resource_from_key c' (coap_hash_path ''rd'') = Some r \<and> r_handler r ! 1 = None"
proof -
  have loc: "rd_location (rd_param request ''h'') (rd_param request ''ins'') (hdr_id request) ticks = Inr (''rd/..'', False)"
    using rd_location_named [of "''..''" None "hdr_id request" ticks] assms(1,2) by (simp add: node_name_def)
  have split: "coap_split_path ''rd/..'' LOCSIZE = Inr (length [''rd''], concat (map segment_option [''rd'']))"
  proof -
    have "split_path_from [] ''rd/..'' = [(''rd'', Some CHR ''/'')]" by (simp add: segment_def dots_def)
    moreover have "list_all2 writes [(''rd'', Some CHR ''/'')] [''rd'']" by (simp add: writes_plain)
    ultimately show ?thesis
      using write_segments [of "[(''rd'', Some CHR ''/'')]" "[''rd'']" LOCSIZE 0 "[]"]
      by (simp add: coap_split_path_def coap_split_path_impl_def opt_space_def ext_form_def)
  qed
  have key: "coap_hash_path ''rd/..'' = coap_hash_path ''rd''"
    by (simp add: coap_hash_path_concat segment_def dots_def)
  have ss: "\<forall>s\<in>set [''rd'']. opt_size_ok (length s)" "pdu_length response + segments_space [''rd''] \<le> max_size response"
    using assms(4) by (auto simp: opt_size_ok_def opt_space_def ext_form_def)
  obtain r created where r: "hnd_post_rd c rds ticks peer request response = Inr (coap_add_resource c r,
      rds @ [(make_rd request)\<lparr>rd_key := coap_hash_path ''rd/..''\<rparr>], created)" "registration ''rd/..'' r"
    "hdr_code created = COAP_RESPONSE_CODE 201" "pdu_abs created (map (Pair 8) [''rd'']) None"
    using post_registers [OF loc split ss assms(3)] by blast
  moreover have "r_handler r ! 1 = None" using r(2) by (simp add: registration_def)
  ultimately show ?thesis using found_registration [OF r(2), of c, unfolded key] by auto
qed

end
