(* ===== verification/Lifecycle.thy ===== *)
theory Lifecycle
  imports Dispatch Machines Registry
begin

text \<open>
  Whole runs of the broker: what shutdown leaves behind, the step relation of the server with
  the states it reaches, and runs of events under which nothing faults.
\<close>

section \<open>Shutdown\<close>

definition shut_down :: "broker \<Rightarrow> topic list \<Rightarrow> nat \<Rightarrow> broker \<Rightarrow> bool" where
  "shut_down st xs l st' \<longleftrightarrow>
     resources (ctx st') = [] \<and> db_abs (topics st') [] [] l \<and>
     avail (topics st') = avail (topics st) + length xs \<and> strings (topics st') = l \<and>
     mqtt_calls st' = mqtt_calls st @
       (if mqtt_bridge st
        then map Mqtt_unsubscribe (map uri_of (tl (resources (ctx st)))) @ [Mqtt_disconnect] else [])"

lemma free_broker_res:
  assumes "broker_res r"
  shows "free_all [r] = Inr ()"
  using assms by (simp add: broker_res_def coap_free_resource_def free_uri_def)

lemma shut_down_run:
  assumes inv: "broker_inv st xs [] l"
  shows "\<exists>st'. bindR (cleanup_resources (resources (ctx st)) st) (\<lambda>st.
      bindR (coap_free_context (ctx st)) (\<lambda>c. Inr (mqtt Mqtt_disconnect (st\<lparr>ctx := c\<rparr>)))) = Inr st' \<and>
    shut_down st xs l st'"
proof -
  have ri: "resources_inv (resources (ctx st)) (next_id (ctx st))" using inv by (simp add: broker_inv_def)
  then obtain b ts where rs: "resources (ctx st) = b # ts" and b: "broker_res b"
    and ts: "\<forall>r\<in>set ts. \<exists>u a. topic_res r u a" and dis: "distinct (map uri_of (b # ts))"
    by (cases "resources (ctx st)") (auto simp: resources_inv_def)
  let ?us = "uri_of ` set ts"
  obtain d where d: "cleanup_resources ts st = Inr (removed ?us (map uri_of ts) d st)"
    "broker_inv (removed ?us (map uri_of ts) d st) (filter (\<lambda>t. td_path t \<notin> ?us) xs) [] l"
    "avail d + length (filter (\<lambda>t. td_path t \<notin> ?us) xs) = avail (topics st) + length xs"
    using cleanup_run [OF inv, of ts] ts dis rs by auto
  have "td_path t \<in> ?us" if t: "t \<in> set xs" for t
  proof -
    have "td_path t \<in> uri_of ` set (b # ts)" "is_prefix ''ps/'' (td_path t)"
      using inv t rs by (auto simp: broker_inv_def topics_ok_def paths_def)
    then show ?thesis using broker_res_uri [OF b] by (auto simp: broker_path_def)
  qed
  then have none: "filter (\<lambda>t. td_path t \<notin> ?us) xs = []" by (simp add: filter_empty_conv)
  have keep: "filter (\<lambda>r. uri_of r \<notin> ?us) (b # ts) = [b]" using dis by (auto simp: filter_empty_conv)
  have skip: "cleanup_resources (b # ts) st = cleanup_resources ts st"
    using broker_res_uri [OF b] by simp
  have db: "db_abs d [] [] l" using d(2) none by (simp add: broker_inv_def)
  then have str: "strings d = l" by (simp add: db_abs_def)
  show ?thesis
    unfolding rs skip d(1) bindR_Inr
    using d(3) none keep free_broker_res [OF b] db str
    by (simp add: rs coap_free_context_def coap_delete_all_resources_def shut_down_def removed_def mqtt_eq del: free_all.simps)
qed

lemma main_cleanup_run:
  "broker_inv st xs [] l \<Longrightarrow> \<exists>st'. main_cleanup st = Inr st' \<and> shut_down st xs l st'"
  unfolding main_cleanup_def by (rule shut_down_run)

lemma handleSIGINT_run:
  assumes "broker_inv st xs [] l"
  shows "\<exists>st'. handleSIGINT st = Inr st' \<and> shut_down st xs l st'"
proof -
  have "broker_inv (st\<lparr>quit := True\<rparr>) xs [] l" using assms by (simp add: broker_inv_def)
  moreover have "shut_down (st\<lparr>quit := True\<rparr>) = shut_down st"
    by (simp add: shut_down_def fun_eq_iff)
  ultimately show ?thesis
    using shut_down_run [of "st\<lparr>quit := True\<rparr>" xs l] unfolding handleSIGINT_def Let_def by metis
qed

text \<open>A resource whose URI is not a C string, as those of the directory, makes shutdown fault.\<close>

lemma cleanup_unterminated:
  "r \<in> set rs \<Longrightarrow> str_cstr (r_uri r) = Inl e \<Longrightarrow> \<exists>e. cleanup_resources rs st = Inl e"
proof (induction rs arbitrary: st)
  case (Cons a rs)
  show ?case
  proof (cases "r = a")
    case False
    then have IH: "\<exists>e. cleanup_resources rs st = Inl e" for st using Cons by simp
    have "\<exists>e. bindR m (cleanup_resources rs) = Inl e" for m
      using IH by (cases m) auto
    then show ?thesis using IH
      by (cases "str_is (r_uri a) broker_path"; cases "str_cstr (r_uri a)") (auto simp: bindR_assoc [symmetric] split_def)
  next
    case True
    then show ?thesis using Cons.prems str_is_unterminated [of "r_uri a" e broker_path]
      by (cases "str_is (r_uri a) broker_path") auto
  qed
qed simp

lemma main_cleanup_unterminated:
  "r \<in> set (resources (ctx st)) \<Longrightarrow> str_cstr (r_uri r) = Inl e \<Longrightarrow> \<exists>e. main_cleanup st = Inl e"
  using cleanup_unterminated [of r "resources (ctx st)" e st] by (auto simp: main_cleanup_def)

lemma registration_faults_shutdown:
  assumes "rd_param request ''h'' = Some h" "pdu_abs response [] None" "pdu_length response + 72 \<le> max_size response"
    and "rd_param request ''ins'' = None" "h \<noteq> []" "plain_name h" "length h \<le> 63" "NUL \<notin> set h"
  shows "\<exists>c' rds' created. hnd_post_rd c rds ticks peer request response = Inr (c', rds', created) \<and>
    (\<forall>st. \<exists>e. main_cleanup (st\<lparr>ctx := c'\<rparr>) = Inl e)"
proof -
  have n: "node_name h (rd_param request ''ins'') = h" by (simp add: node_name_def assms(4))
  obtain r rds' created where r: "hnd_post_rd c rds ticks peer request response = Inr (coap_add_resource c r, rds', created)"
    "str_cstr (r_uri r) = Inl Out_of_bounds"
    using registration_unterminated [OF assms(1,5), unfolded n, OF assms(6,7,2,3,8)] by blast
  have "r\<lparr>r_id := next_id c\<rparr> \<in> set (resources (coap_add_resource c r))"
    by (simp add: coap_add_resource_def RESOURCES_ADD_def)
  then have "\<exists>e. main_cleanup (st\<lparr>ctx := coap_add_resource c r\<rparr>) = Inl e" for st
    using main_cleanup_unterminated [of "r\<lparr>r_id := next_id c\<rparr>"] r(2) by simp
  then show ?thesis using r(1) by blast
qed

section \<open>Runs of events\<close>

text \<open>
  The broker as a machine that takes events: a datagram, a turn of the main loop whose read
  fails, a message of the bridge, and the passing of time in seconds and in ticks of the library.
\<close>

datatype broker_event =
    Datagram coap_packet
  | No_datagram
  | Bridge_message cstring "char list"
  | Pass_time nat coap_tick

definition pass_time :: "int \<Rightarrow> coap_tick \<Rightarrow> broker \<Rightarrow> broker" where
  "pass_time now t st = st\<lparr>clock := now, ctx := (ctx st)\<lparr>lib_ticks := t\<rparr>\<rparr>"

lemma pass_time_ok:
  assumes "broker_ok st"
  shows "broker_ok (pass_time now t st)"
proof -
  have "broker_inv (pass_time now t st) xs [] l" if "broker_inv st xs [] l" for xs l
    using that by (simp add: broker_inv_def pass_time_def)
  then show ?thesis using assms by (auto simp: broker_ok_def)
qed

fun handle_event :: "broker_event \<Rightarrow> broker \<Rightarrow> broker result" where
  "handle_event (Datagram p) st = main_turn (Some p) st"
| "handle_event No_datagram st = main_turn None st"
| "handle_event (Bridge_message name payload) st = bindR (msgarrvd name payload st) (\<lambda>(_, st). Inr st)"
| "handle_event (Pass_time n t) st = Inr (pass_time (clock st + int n) (lib_ticks (ctx st) + t) st)"

text \<open>
  A message with a terminator for a topic that exists, has room for the clone the callback
  takes, and numbers that fit; or a message for no resource at all.
\<close>

definition harmless_message :: "broker \<Rightarrow> topic list \<Rightarrow> cstring \<Rightarrow> char list \<Rightarrow> bool" where
  "harmless_message st xs name payload \<longleftrightarrow>
     name \<notin> uri_of ` set (resources (ctx st)) \<or>
     NUL \<in> set payload \<and> lookup name xs \<noteq> None \<and> avail (topics st) > 0 \<and>
     observe (ctx st) + length (resources (ctx st)) \<le> 2 ^ 24 \<and>
     data_small (clock st) (update_first name (mqtt_topic payload) xs)"

definition safe_event :: "broker_event \<Rightarrow> broker \<Rightarrow> bool" where
  "safe_event e st \<longleftrightarrow> (\<forall>xs l. broker_inv st xs [] l \<longrightarrow>
     (case e of
        Datagram p \<Rightarrow> harmless_packet st xs p
      | Bridge_message name payload \<Rightarrow> harmless_message st xs name payload
      | _ \<Rightarrow> True))"

lemma bridge_message_ends:
  assumes inv: "broker_inv st xs [] l" and B: "B \<Longrightarrow> harmless_message st xs name payload"
  shows "ends B (msgarrvd name payload st) (\<lambda>(_, st'). broker_ok st')"
proof (cases "msgarrvd name payload st")
  case (Inr p)
  obtain k st' where p: "p = (k, st')" by (cases p)
  show ?thesis using msgarrvd_keeps [OF inv Inr [unfolded p]] Inr p by (simp add: broker_ok_def)
next
  case (Inl e)
  have "\<not> harmless_message st xs name payload"
  proof
    assume h: "harmless_message st xs name payload"
    show False
    proof (cases "name \<in> uri_of ` set (resources (ctx st))")
      case True
      then obtain t where "lookup name xs = Some t" "avail (topics st) > 0" and nul: "NUL \<in> set payload"
        using h by (auto simp: harmless_message_def)
      from msgarrvd_known [OF inv this(1,2), of True, OF _ _ nul] show False
        using h True Inl by (auto simp: harmless_message_def)
    qed (use msgarrvd_unknown [OF inv, of name payload] Inl in simp)
  qed
  then show ?thesis using B Inl by auto
qed

lemma handle_event_ends:
  assumes "broker_ok st"
  shows "ends (safe_event e st) (handle_event e st) broker_ok"
proof -
  obtain xs l where inv: "broker_inv st xs [] l" using assms by (auto simp: broker_ok_def)
  have turn: "ends (safe_event e st) (main_turn packet st) broker_ok"
    if "packet = None \<or> (\<exists>p. packet = Some p \<and> e = Datagram p)" for packet
    by (rule main_turn_ends [OF inv]) (use that inv in \<open>auto simp: safe_event_def\<close>)
  show ?thesis
  proof (cases e)
    case (Datagram p)
    then show ?thesis using turn [of "Some p"] by simp
  next
    case No_datagram
    then show ?thesis using turn [of None] by simp
  next
    case (Bridge_message name payload)
    have "ends (safe_event e st) (msgarrvd name payload st) (\<lambda>(_, st'). broker_ok st')"
      by (rule bridge_message_ends [OF inv]) (use Bridge_message inv in \<open>auto simp: safe_event_def\<close>)
    then show ?thesis unfolding Bridge_message handle_event.simps
      by (rule ends_bindI [OF ends_mono]) auto
  next
    case (Pass_time n t)
    then show ?thesis using assms pass_time_ok by simp
  qed
qed

interpretation server: event_machine handle_event safe_event broker_ok
  by unfold_locales (rule handle_event_ends)

section \<open>Reachable states\<close>

inductive broker_step :: "broker \<Rightarrow> broker \<Rightarrow> bool" where
  turn: "main_turn packet st = Inr st' \<Longrightarrow> broker_step st st'"
| message: "msgarrvd name payload st = Inr (k, st') \<Longrightarrow> broker_step st st'"
| time: "clock st \<le> now \<Longrightarrow> broker_step st (pass_time now t st)"

inductive reachable :: "broker \<Rightarrow> bool" where
  start: "main_init args rc sock mem mid net rnd now = Inr (Some st) \<Longrightarrow> \<not> rd_server st \<Longrightarrow> reachable st"
| step: "reachable st \<Longrightarrow> broker_step st st' \<Longrightarrow> reachable st'"

inductive_cases broker_stepE: "broker_step st st'"

inductive_simps reachable_iff: "reachable st"

lemma broker_step_ok: "broker_step st st' \<Longrightarrow> broker_ok st \<Longrightarrow> broker_ok st'"
proof (erule broker_stepE)
  fix packet assume "broker_ok st" and t: "main_turn packet st = Inr st'"
  then obtain xs l where "broker_inv st xs [] l" by (auto simp: broker_ok_def)
  then show "broker_ok st'" using main_turn_ends [of st xs l packet False] t by simp
next
  fix name payload k assume "broker_ok st" "msgarrvd name payload st = Inr (k, st')"
  then show "broker_ok st'" by (auto simp: broker_ok_def dest: msgarrvd_keeps)
next
  fix now t assume "broker_ok st" "st' = pass_time now t st"
  then show "broker_ok st'" by (simp add: pass_time_ok)
qed

lemma main_init_flags:
  assumes "main_init args rc sock mem mid net rnd now = Inr (Some st)"
  shows "\<exists>mq level. parse_args args False False 4 = Some (mq, rd_server st, level)"
  using assms by (auto simp: main_init_def bindR_eq_Inr Let_def split: option.splits if_splits)

lemma main_init_ok:
  assumes i: "main_init args rc sock mem mid net rnd now = Inr (Some st)" and "\<not> rd_server st"
  shows "broker_inv st [] [] 0"
proof -
  obtain mq level where p: "parse_args args False False 4 = Some (mq, False, level)"
    using main_init_flags [OF i] assms(2) by auto
  have ok: "\<not> (mq \<and> rc \<noteq> MQTTCLIENT_SUCCESS)" "sock"
    using i unfolding main_init_def p by (auto split: if_splits)
  have "main_init args rc sock mem mid net rnd now = main_init args MQTTCLIENT_SUCCESS True mem mid net rnd now"
    unfolding main_init_def p using ok by (cases mq) simp_all
  moreover obtain st' where "main_init args MQTTCLIENT_SUCCESS True mem mid net rnd now = Inr (Some st')"
    "broker_inv st' [] [] 0"
    by (rule main_init_run [OF p, of mem mid net rnd now])
  ultimately show ?thesis using i by simp
qed

lemma reachable_ok: "reachable st \<Longrightarrow> broker_ok st"
proof (induction rule: reachable.induct)
  case (start args rc sock mem mid net rnd now st)
  then show ?case unfolding broker_ok_def by (blast intro: main_init_ok)
qed (rule broker_step_ok)

text \<open>Runs of events go through reachable states.\<close>

lemma handle_event_reachable:
  assumes "reachable st" "handle_event e st = Inr st'"
  shows "reachable st'"
proof (cases e)
  case (Datagram p)
  then show ?thesis using assms by (auto intro: reachable.step broker_step.turn)
next
  case No_datagram
  then show ?thesis using assms by (auto intro: reachable.step broker_step.turn)
next
  case (Bridge_message name payload)
  then show ?thesis using assms by (auto simp: bindR_eq_Inr intro: reachable.step broker_step.message)
next
  case (Pass_time n t)
  have "broker_step st (pass_time (clock st + int n) (lib_ticks (ctx st) + t) st)" by (rule broker_step.time) simp
  then show ?thesis using assms Pass_time by (auto intro: reachable.step)
qed

lemma run_reachable: "reachable st \<Longrightarrow> run_events handle_event es st = Inr st' \<Longrightarrow> reachable st'"
  by (induction es arbitrary: st) (auto simp: bindR_eq_Inr dest: handle_event_reachable)

lemma foreign_message_safe:
  assumes "name \<noteq> broker_path" "\<not> is_prefix ''ps/'' name"
  shows "safe_event (Bridge_message name payload) st"
proof -
  have "name \<notin> uri_of ` set (resources (ctx st))" if "broker_inv st xs [] l" for xs l
    using resource_uris [OF that] assms by auto
  then show ?thesis by (auto simp: safe_event_def harmless_message_def)
qed

lemma idle_safe: "safe_event No_datagram st" "safe_event (Pass_time n t) st"
  by (simp_all add: safe_event_def)

lemma odd_method_harmless: "hdr_code request > 4 \<Longrightarrow> harmless_request st xs request"
  by (simp add: harmless_request_def target_handler_def)

lemma main_init_reachable:
  assumes i: "main_init args rc sock mem mid net rnd now = Inr (Some st)" and "parse_args args False False 4 = Some (mq, False, level)"
  shows "reachable st"
  using main_init_flags [OF i] assms(2) by (intro reachable.start [OF i]) simp

end
