(* ===== verification/TopicStore.thy ===== *)
theory TopicStore
  imports TopicRefine Machines
begin

text \<open>
  The topic database as a component: the requests its clients make of it, what each of them
  means for a list of topics and a number of free nodes, and the proof that any sequence of
  them on the linked list is answered as on the list of topics and loses no node.
\<close>

datatype db_op =
    Exists cstring
  | Create cstring int
  | Write cstring int "char list"
  | Clear cstring
  | Remove cstring
  | Copy cstring

fun db_run :: "db_op \<Rightarrow> db \<Rightarrow> (nat \<times> db) result" where
  "db_run (Exists p) d = topicExist (Some p) d"
| "db_run (Create p ma) d = addTopicWEC (Some p) (length p) ma d"
| "db_run (Write p ma data) d = updateTopicData (Some p) ma (Some data) (length data) d"
| "db_run (Clear p) d = deleteTopicData (Some p) d"
| "db_run (Remove p) d = deleteTopic (Some p) d"
| "db_run (Copy p) d = bindR (cloneTopic (Some p) d) (\<lambda>(a, d). freeTopic a d)"

type_synonym store_state = "topic list \<times> nat"

definition found :: "cstring \<Rightarrow> topic list \<Rightarrow> nat" where
  "found p xs = (if lookup p xs = None then 0 else 1)"

fun db_spec :: "db_op \<Rightarrow> store_state \<Rightarrow> nat \<times> store_state" where
  "db_spec (Exists p) (xs, k) = (found p xs, xs, k)"
| "db_spec (Create p ma) (xs, k) =
     (if lookup p xs \<noteq> None
      then (1, update_first p (\<lambda>t. t\<lparr>td_data := rewritten_data (td_data t), td_topic_ma := ma\<rparr>) xs, k)
      else if p = [] \<or> k = 0 then (0, xs, k)
      else (1, xs @ [new_topic p (length p) ma], k - 1))"
| "db_spec (Write p ma data) (xs, k) =
     (found p xs, update_first p (\<lambda>t. t\<lparr>td_data := stored_data (Some data) (length data), td_data_ma := ma\<rparr>) xs, k)"
| "db_spec (Clear p) (xs, k) = (found p xs, update_first p (\<lambda>t. t\<lparr>td_data := None, td_data_ma := 0\<rparr>) xs, k)"
| "db_spec (Remove p) (xs, k) = (found p xs, remove_first p xs, k + found p xs)"
| "db_spec (Copy p) (xs, k) = (if k = 0 then 0 else found p xs, xs, k)"

definition data_clean :: "topic list \<Rightarrow> bool" where
  "data_clean xs \<longleftrightarrow> (\<forall>t\<in>set xs. \<forall>s. td_data t = Some s \<longrightarrow> NUL \<notin> set s)"

definition store_repr :: "db \<Rightarrow> store_state \<Rightarrow> bool" where
  "store_repr d a \<longleftrightarrow> (\<exists>l. db_abs d (fst a) [] l) \<and> avail d = snd a \<and> data_clean (fst a)"

lemma data_clean_update:
  assumes "data_clean xs" "\<And>t s. t \<in> set xs \<Longrightarrow> td_data (f t) = Some s \<Longrightarrow> NUL \<notin> set s"
  shows "data_clean (update_first p f xs)"
proof -
  have "\<And>t' s. t' \<in> set (update_first p f xs) \<Longrightarrow> td_data t' = Some s \<Longrightarrow> NUL \<notin> set s"
    using assms lookup_path [of p xs] by (auto simp: data_clean_def dest!: set_update_first)
  then show ?thesis by (simp add: data_clean_def)
qed

lemma data_clean_remove: "data_clean xs \<Longrightarrow> data_clean (remove_first p xs)"
  using set_remove_first [of p xs] by (auto simp: data_clean_def)

lemma data_clean_snoc: "data_clean xs \<Longrightarrow> data_clean (xs @ [new_topic p n ma])"
  by (simp add: data_clean_def new_topic_def)

lemma rewritten_clean: "rewritten_data x = Some s \<Longrightarrow> x = Some s"
  by (cases x) (simp_all add: rewritten_data_def split: if_splits)

lemma store_reprI: "db_abs d xs [] l \<Longrightarrow> avail d = k \<Longrightarrow> data_clean xs \<Longrightarrow> store_repr d (xs, k)"
  by (auto simp: store_repr_def)

lemma create_refines:
  assumes db: "db_abs d xs [] l" and clean: "data_clean xs"
  shows "\<exists>d'. addTopicWEC (Some p) (length p) ma d = Inr (fst (db_spec (Create p ma) (xs, avail d)), d') \<and>
    store_repr d' (snd (db_spec (Create p ma) (xs, avail d)))"
proof (cases "lookup p xs")
  case (Some t)
  obtain d' where "updateTopicInfo (Some p) ma d = Inr (1, d')" "avail d' = avail d"
    "\<exists>l. db_abs d' (update_first p (\<lambda>t. t\<lparr>td_data := rewritten_data (td_data t), td_topic_ma := ma\<rparr>) xs) [] l"
    using updateTopicInfo_refines [OF db, where p = p and tma = ma] clean lookup_path Some
    unfolding data_clean_def by fastforce
  moreover have "data_clean (update_first p (\<lambda>t. t\<lparr>td_data := rewritten_data (td_data t), td_topic_ma := ma\<rparr>) xs)"
    by (rule data_clean_update [OF clean]) (use clean in \<open>auto simp: data_clean_def dest: rewritten_clean\<close>)
  ultimately show ?thesis
    using addTopicWEC_known [OF db, of p "length p" ma] Some
    by (auto intro: store_reprI)
next
  case None
  consider "avail d = 0" | "p = []" "avail d > 0" | "p \<noteq> []" "avail d > 0" by auto
  then show ?thesis
  proof cases
    case 1
    then show ?thesis
      using addTopicWEC_no_memory [OF db None, of "length p" ma] None clean by (auto intro: store_reprI)
  next
    case 2
    have "addTopicWEC (Some p) (length p) ma d = addTopic (Some p) (length p) ma d"
      using getTopic_lookup [OF db, of p] None by (auto simp: addTopicWEC_def)
    then show ?thesis
      using addTopic_rejected [OF db, of "length p" "Some p" ma] 2 None clean by (auto intro: store_reprI)
  next
    case 3
    then show ?thesis
      using addTopicWEC_new [OF db None, of "length p" ma] None data_clean_snoc [OF clean, of p "length p" ma]
      by (auto intro: store_reprI)
  qed
qed

lemma copy_refines:
  assumes db: "db_abs d xs [] l"
  shows "\<exists>d'. bindR (cloneTopic (Some p) d) (\<lambda>(a, d). freeTopic a d) =
      Inr (if avail d = 0 then 0 else found p xs, d') \<and> avail d' = avail d \<and> (\<exists>l. db_abs d' xs [] l)"
proof -
  obtain r d1 where c: "cloneTopic (Some p) d = Inr (r, d1)"
    "case r of None \<Rightarrow> (lookup p xs = None \<or> avail d = 0) \<and> d1 = d
     | Some a \<Rightarrow> \<exists>t. lookup p xs = Some t \<and> Suc (avail d1) = avail d \<and> db_abs d1 xs [(a, t)] l"
    using cloneTopic_refines [OF db, of p] by blast
  show ?thesis
  proof (cases r)
    case None
    then show ?thesis using c db by (auto simp: freeTopic_def found_def)
  next
    case (Some a)
    then obtain t where t: "lookup p xs = Some t" "Suc (avail d1) = avail d" "db_abs d1 xs [(a, t)] l"
      using c(2) by auto
    show ?thesis
      using freeTopic_refines [OF t(3)] c(1) Some t(1,2) by (auto simp: found_def)
  qed
qed

lemma db_run_refines:
  assumes "store_repr d a"
  shows "\<exists>d'. db_run p d = Inr (fst (db_spec p a), d') \<and> store_repr d' (snd (db_spec p a))"
proof -
  obtain xs l where a: "a = (xs, avail d)" and db: "db_abs d xs [] l" and clean: "data_clean xs"
    using assms by (cases a) (auto simp: store_repr_def)
  show ?thesis
  proof (cases p)
    case (Exists q)
    then show ?thesis using topicExist_refines [OF db, of q] db clean by (auto simp: a found_def intro: store_reprI)
  next
    case (Create q ma)
    then show ?thesis using create_refines [OF db clean] by (simp add: a del: db_spec.simps)
  next
    case (Write q ma data)
    have "data_clean (update_first q (\<lambda>t. t\<lparr>td_data := stored_data (Some data) (length data), td_data_ma := ma\<rparr>) xs)"
      by (rule data_clean_update [OF clean]) (use stored_data_no_NUL in auto)
    then show ?thesis
      using Write updateTopicData_refines [OF db, of q ma "Some data" "length data"]
      by (auto simp: a found_def intro: store_reprI)
  next
    case (Clear q)
    have "data_clean (update_first q (\<lambda>t. t\<lparr>td_data := None, td_data_ma := 0\<rparr>) xs)"
      by (rule data_clean_update [OF clean]) simp
    then show ?thesis
      using Clear deleteTopicData_refines [OF db, of q] by (auto simp: a found_def intro: store_reprI)
  next
    case (Remove q)
    then show ?thesis
      using deleteTopic_refines [OF db, of q] data_clean_remove [OF clean, of q]
      by (auto simp: a found_def intro: store_reprI)
  next
    case (Copy q)
    then show ?thesis using copy_refines [OF db, of q] clean by (auto simp: a intro: store_reprI)
  qed
qed

lemma length_update_first: "length (update_first p f xs) = length xs"
  by (induction xs) auto

lemma length_remove_first: "length (remove_first p xs) + found p xs = length xs"
  by (induction xs) (auto simp: found_def)

text \<open>Nodes of the list and nodes that are free, together.\<close>

definition nodes_total :: "store_state \<Rightarrow> nat" where
  "nodes_total a = length (fst a) + snd a"

lemma nodes_total_spec: "nodes_total (snd (db_spec p a)) = nodes_total a"
  by (cases p; cases a)
    (auto simp: nodes_total_def length_update_first length_remove_first split: if_splits)

interpretation store: conservation db_run db_spec store_repr nodes_total
  by unfold_locales (rule db_run_refines, assumption, rule nodes_total_spec)

lemma store_repr_init: "store_repr (db_init m) ([], m)"
  using db_init_abs [of m] by (intro store_reprI) (simp_all add: db_init_def data_clean_def)

text \<open>No sequence of requests loses a node: topics and free nodes together stay as many.\<close>

lemma store_keeps_nodes:
  assumes "store_repr d a"
  shows "\<exists>answers d' b. run_ops db_run ps d = Inr (answers, d') \<and> store_repr d' b \<and>
    length (fst b) + avail d' = length (fst a) + avail d"
proof -
  obtain d' b where r: "run_ops db_run ps d = Inr (fst (spec_ops db_spec ps a), d')" "store_repr d' b"
    "nodes_total b = nodes_total a"
    using store.run_conserved [OF assms] by blast
  have "avail d' = snd b" "avail d = snd a" using r(2) assms by (simp_all add: store_repr_def)
  then have "length (fst b) + avail d' = length (fst a) + avail d" using r(3) by (simp add: nodes_total_def)
  then show ?thesis using r(1,2) by blast
qed

end
