(* ===== verification/Observers.thy ===== *)
theory Observers
  imports ResourceSpec Machines
begin

text \<open>
  The observers of a resource as a registry of keys (peer and token): who is registered after
  any sequence of registrations and removals.
\<close>

section \<open>Registries\<close>

datatype 'k registry_op = Register 'k | Deregister 'k

fun key_of :: "'k registry_op \<Rightarrow> 'k" where
  "key_of (Register k) = k"
| "key_of (Deregister k) = k"

fun is_register :: "'k registry_op \<Rightarrow> bool" where
  "is_register (Register k) = True"
| "is_register (Deregister k) = False"

fun apply_op :: "('k \<Rightarrow> 's \<Rightarrow> 's) \<Rightarrow> ('k \<Rightarrow> 's \<Rightarrow> 's) \<Rightarrow> 'k registry_op \<Rightarrow> 's \<Rightarrow> 's" where
  "apply_op add remove (Register k) s = add k s"
| "apply_op add remove (Deregister k) s = remove k s"

text \<open>The last operation on a key decides; without one the start does.\<close>

definition registered_after :: "('k \<Rightarrow> 'k \<Rightarrow> bool) \<Rightarrow> 'k \<Rightarrow> 'k registry_op list \<Rightarrow> bool \<Rightarrow> bool" where
  "registered_after same j ops before =
     (case find (\<lambda>p. same j (key_of p)) (rev ops) of None \<Rightarrow> before | Some p \<Rightarrow> is_register p)"

lemma registered_after_Nil [simp]: "registered_after same j [] b = b"
  by (simp add: registered_after_def)

lemma registered_after_Cons:
  "registered_after same j (p # ops) b =
     registered_after same j ops (if same j (key_of p) then is_register p else b)"
  by (simp add: registered_after_def find_append split: option.split)

locale registry =
  fixes add :: "'k \<Rightarrow> 's \<Rightarrow> 's"
    and remove :: "'k \<Rightarrow> 's \<Rightarrow> 's"
    and member :: "'k \<Rightarrow> 's \<Rightarrow> bool"
    and same :: "'k \<Rightarrow> 'k \<Rightarrow> bool"
    and valid :: "'k \<Rightarrow> bool"
    and invar :: "'s \<Rightarrow> bool"
  assumes invar_add: "invar s \<Longrightarrow> valid k \<Longrightarrow> invar (add k s)"
    and invar_remove: "invar s \<Longrightarrow> invar (remove k s)"
    and member_add: "invar s \<Longrightarrow> valid k \<Longrightarrow> member j (add k s) \<longleftrightarrow> same j k \<or> member j s"
    and member_remove: "invar s \<Longrightarrow> member j (remove k s) \<longleftrightarrow> \<not> same j k \<and> member j s"
begin

lemma run_invar:
  "invar s \<Longrightarrow> \<forall>p\<in>set ops. valid (key_of p) \<Longrightarrow> invar (fold (apply_op add remove) ops s)"
proof (induction ops arbitrary: s)
  case (Cons p ops)
  then have "invar (apply_op add remove p s)" by (cases p) (simp_all add: invar_add invar_remove)
  with Cons show ?case by simp
qed simp

lemma run_member:
  "invar s \<Longrightarrow> \<forall>p\<in>set ops. valid (key_of p) \<Longrightarrow>
   member j (fold (apply_op add remove) ops s) \<longleftrightarrow> registered_after same j ops (member j s)"
proof (induction ops arbitrary: s)
  case (Cons p ops)
  let ?s = "apply_op add remove p s"
  have "invar ?s" using Cons.prems by (cases p) (simp_all add: invar_add invar_remove)
  moreover have "member j ?s \<longleftrightarrow> (if same j (key_of p) then is_register p else member j s)"
    using Cons.prems by (cases p) (simp_all add: member_add member_remove)
  ultimately show ?case using Cons.IH [of ?s] Cons.prems by (simp add: registered_after_Cons)
qed simp

end

section \<open>The observers of a resource\<close>

type_synonym observer_key = "coap_address \<times> char list"

definition watch :: "observer_key \<Rightarrow> coap_resource \<Rightarrow> coap_resource" where
  "watch k r = coap_add_observer r (fst k) (Some (snd k))"

definition unwatch :: "observer_key \<Rightarrow> coap_resource \<Rightarrow> coap_resource" where
  "unwatch k r = snd (coap_delete_observer r (fst k) (Some (snd k)))"

definition watched :: "observer_key \<Rightarrow> coap_resource \<Rightarrow> bool" where
  "watched k r \<longleftrightarrow> coap_find_observer r (fst k) (Some (snd k)) \<noteq> None"

definition same_key :: "observer_key \<Rightarrow> observer_key \<Rightarrow> bool" where
  "same_key j k \<longleftrightarrow> coap_address_equals (fst j) (fst k) \<and> snd j = snd k"

definition valid_key :: "observer_key \<Rightarrow> bool" where
  "valid_key k \<longleftrightarrow> sa_family (fst k) \<in> {AF_INET, AF_INET6} \<and> length (snd k) \<le> 8"

lemma watched_iff: "watched k r \<longleftrightarrow> (\<exists>s\<in>set (subscribers r). is_observer (fst k) (Some (snd k)) s)"
  by (auto simp: watched_def coap_find_observer_def find_None_iff)

lemma is_observer_same:
  "same_key j k \<Longrightarrow> is_observer (fst j) (Some (snd j)) s = is_observer (fst k) (Some (snd k)) s"
  using address_equals_trans address_equals_sym unfolding is_observer_def same_key_def option.case by metis

lemma is_observer_both:
  "is_observer (fst j) (Some (snd j)) s \<Longrightarrow> is_observer (fst k) (Some (snd k)) s \<Longrightarrow> same_key j k"
  using address_equals_trans address_equals_sym unfolding is_observer_def same_key_def option.case by metis

lemma new_observer:
  "valid_key k \<Longrightarrow> is_observer (fst j) (Some (snd j)) (coap_subscription_init (fst k) (snd k)) = same_key j k"
  using address_equals_sym
  by (auto simp: is_observer_def same_key_def valid_key_def coap_subscription_init_def)

lemma watched_watch:
  assumes "valid_key k"
  shows "watched j (watch k r) \<longleftrightarrow> same_key j k \<or> watched j r"
proof (cases "watched k r")
  case True
  then have "watch k r = r" by (auto simp: watch_def watched_def coap_add_observer_def)
  then show ?thesis using True is_observer_same [of j k] by (auto simp: watched_iff)
next
  case False
  then have "subscribers (watch k r) = coap_subscription_init (fst k) (snd k) # subscribers r"
    by (simp add: watch_def watched_def coap_add_observer_def)
  then show ?thesis using new_observer [OF assms, of j] by (auto simp: watched_iff)
qed

lemma remove_observer_other:
  "s \<in> set (remove_observer P ss) \<longleftrightarrow> s \<in> set ss" if "\<not> P s" for s
  using that by (induction ss) auto

lemma remove_observer_sub: "set (remove_observer P ss) \<subseteq> set ss"
  by (induction ss) auto

lemma watched_unwatch:
  assumes "observers_ok (subscribers r)"
  shows "watched j (unwatch k r) \<longleftrightarrow> \<not> same_key j k \<and> watched j r"
proof -
  let ?P = "is_observer (fst k) (Some (snd k))"
  have gone: "\<not> ?P s" if "s \<in> set (remove_observer ?P (subscribers r))" for s
    using remove_observer_gone [OF assms, of "fst k" "snd k"] that by (auto simp: find_None_iff)
  have s: "subscribers (unwatch k r) = remove_observer ?P (subscribers r)"
    by (simp add: unwatch_def coap_delete_observer_def)
  show ?thesis
  proof (cases "same_key j k")
    case True
    then show ?thesis using gone is_observer_same [OF True] by (auto simp: watched_iff s)
  next
    case False
    then have "is_observer (fst j) (Some (snd j)) s \<Longrightarrow> \<not> ?P s" for s using is_observer_both by blast
    then show ?thesis using False remove_observer_other remove_observer_sub
      by (auto simp: watched_iff s)
  qed
qed

interpretation observers: registry watch unwatch watched same_key valid_key "\<lambda>r. observers_ok (subscribers r)"
proof unfold_locales
  fix r :: coap_resource and k assume "observers_ok (subscribers r)" "valid_key k"
  then show "observers_ok (subscribers (watch k r))"
    by (simp add: watch_def valid_key_def add_observer_ok)
next
  fix r :: coap_resource and k assume "observers_ok (subscribers r)"
  then show "observers_ok (subscribers (unwatch k r))"
    by (simp add: unwatch_def coap_delete_observer_def remove_observer_ok)
qed (rule watched_watch watched_unwatch; assumption)+

end
