(* ===== verification/Samples.thy ===== *)
theory Samples
  imports Lifecycle TopicStore Observers OptionCode "HOL-Library.Code_Target_Nat"
begin

text \<open>
  Concrete states and messages, on which the properties are applied: a broker with one topic
  \<open>ps/a\<close> of content format 0 that holds a datum and expires, and requests to it.
\<close>

definition sample_topic :: topic where
  "sample_topic = \<lparr>td_path = ''ps/a'', td_data = Some ''20'', td_topic_ma = 2000, td_data_ma = 1500\<rparr>"

definition sample_db :: db where
  "sample_db = \<lparr>topicDB = Some 0,
     heap = [0 \<mapsto> topic.extend sample_topic \<lparr>nextPtr = None, node_lock = Unlocked, data_lock = Unlocked\<rparr>],
     brk = 1, avail = 2, strings = 2\<rparr>"

lemma sample_db_rep: "db_rep sample_db [0] []"
  by (simp add: db_rep_def sample_db_def topic.extend_def unlocked_def dom_def)

lemma sample_db_abs: "db_abs sample_db [sample_topic] [] 0"
  by (rule db_absI [where as = "[0]"])
    (simp_all add: sample_db_rep, simp_all add: sample_db_def sample_topic_def topic.extend_def
      node_topic_def topic.truncate_def topic_blocks_def)

text \<open>A database of two topics.\<close>

definition sample_pair :: db where
  "sample_pair = \<lparr>topicDB = Some 0,
     heap = [0 \<mapsto> topic.extend sample_topic \<lparr>nextPtr = Some 1, node_lock = Unlocked, data_lock = Unlocked\<rparr>,
             1 \<mapsto> new_node (new_topic ''ps/b'' 4 3000)],
     brk = 2, avail = 5, strings = 3\<rparr>"

lemma sample_pair_rep: "db_rep sample_pair [0, 1] []"
  by (auto simp: db_rep_def sample_pair_def topic.extend_def new_node_def unlocked_def dom_def)

definition sample_ps :: coap_resource where
  "sample_ps = (case broker_resource of Inr r \<Rightarrow> r)"

definition sample_res :: coap_resource where
  "sample_res = (fresh_topic ''ps/a'' [(''ct'', ''0'')])\<lparr>r_id := 1\<rparr>"

lemma sample_ps_ok: "broker_res sample_ps \<and> r_id sample_ps = 0"
proof -
  obtain r where r: "broker_resource = Inr r" "broker_res (r\<lparr>r_id := 0\<rparr>)" by (rule broker_resource_run)
  have "r_id r = 0" using r(1) by (auto simp: broker_resource_def coap_resource_init_def str_bytes_def
        literal_def broker_path_def coap_register_handler_def coap_add_attr_def eval_nat_numeral bindR_eq_Inr)
  moreover from this have "r\<lparr>r_id := 0\<rparr> = r" by (cases r) simp
  ultimately show ?thesis using r(2) by (simp only: sample_ps_def r(1) sum.case simp_thms)
qed

lemma ct_ok_zero: "ct_ok ''0''"
  by (simp add: ct_ok_def) code_simp

lemma sample_res_ok: "topic_res sample_res ''ps/a'' [(''ct'', ''0'')]"
  unfolding sample_res_def by (rule fresh_topic_res) (auto simp: is_prefix_iff ct_ok_zero)

lemma sample_ct: "ct_attr_value sample_res = Inr 0"
proof -
  obtain v where "map_of [(''ct'', ''0'')] ''ct'' = Some v" "ct_attr_value sample_res = Inr (atoi v)"
    using topic_res_ct [OF sample_res_ok] by blast
  moreover have "atoi ''0'' = 0" by code_simp
  ultimately show ?thesis by simp
qed

definition sample_broker :: broker where
  "sample_broker =
     \<lparr>ctx = \<lparr>known_options = coap_option_filter_clear, resources = [sample_ps, sample_res], next_id = 2, message_id = 7, observe = 3, sendqueue = [],
             sendqueue_basetime = 0, sent = [], send_ok = (\<lambda>_. True), lib_ticks = 0, prng = (\<lambda>_. 0)\<rparr>,
      topics = sample_db, earliest_topic_max_age = 2000, earliest_data_max_age = 1500,
      quit = False, mqtt_bridge = True, mqtt_calls = [], rd_server = False, rd_resources = [],
      clock = 1000\<rparr>"

lemma sample_simps [simp]:
  "topics sample_broker = sample_db" "resources (ctx sample_broker) = [sample_ps, sample_res]"
  "clock sample_broker = 1000" "observe (ctx sample_broker) = 3" "avail sample_db = 2"
  "uri_of sample_res = ''ps/a''" "uri_of sample_ps = ''ps''" "r_id sample_res = 1" "r_id sample_ps = 0"
  "lookup ''ps/a'' [sample_topic] = Some sample_topic" "td_path sample_topic = ''ps/a''"
  "td_data sample_topic = Some ''20''" "td_data_ma sample_topic = 1500" "td_topic_ma sample_topic = 2000"
  using topic_res_uri_of [OF sample_res_ok] broker_res_uri sample_ps_ok
  by (simp_all add: sample_broker_def sample_topic_def sample_db_def sample_res_def broker_path_def)

lemma sample_inv: "broker_inv sample_broker [sample_topic] [] 0"
  using sample_ps_ok sample_res_ok sample_db_abs
  by (auto simp: broker_inv_def resources_inv_def topics_ok_def paths_def expiry_ok_def is_prefix_iff
      sample_broker_def)

lemma sample_res_in: "sample_res \<in> set (resources (ctx sample_broker))"
  by simp

definition sample_peer :: coap_address where
  "sample_peer = \<lparr>addr_size = 28, sa_family = AF_INET6, sin_port = 5683, sin_addr = replicate 16 CHR ''a''\<rparr>"

text \<open>The same broker with that peer as an observer of \<open>ps/a\<close>.\<close>

definition sample_sub :: coap_subscription where
  "sample_sub = \<lparr>sub_addr = sample_peer, sub_token = ''tk'', non_cnt = 0, fail_cnt = 0, sub_dirty = False\<rparr>"

definition sample_seen :: coap_resource where
  "sample_seen = sample_res\<lparr>subscribers := [sample_sub]\<rparr>"

definition sample_watched :: broker where
  "sample_watched = sample_broker\<lparr>ctx := (ctx sample_broker)\<lparr>resources := [sample_ps, sample_seen]\<rparr>\<rparr>"

lemma sample_seen_ok: "topic_res sample_seen ''ps/a'' [(''ct'', ''0'')]"
  using sample_res_ok by (simp add: topic_res_def sample_seen_def sample_sub_def)

lemma sample_seen_ct: "ct_attr_value sample_seen = Inr 0"
  using sample_ct by (simp add: ct_attr_value_def coap_find_attr_def sample_seen_def)

lemma sample_watched_simps [simp]:
  "topics sample_watched = sample_db" "resources (ctx sample_watched) = [sample_ps, sample_seen]"
  "clock sample_watched = 1000" "observe (ctx sample_watched) = 3" "r_id sample_seen = 1"
  "subscribers sample_seen = [sample_sub]" "uri_of sample_seen = ''ps/a''" "sent (ctx sample_watched) = []"
  "send_ok (ctx sample_watched) = (\<lambda>_. True)"
  using topic_res_uri_of [OF sample_seen_ok]
  by (simp_all add: sample_watched_def, simp_all add: sample_seen_def sample_broker_def)

lemma sample_watched_inv: "broker_inv sample_watched [sample_topic] [] 0"
  using sample_ps_ok sample_seen_ok sample_db_abs
  by (auto simp: broker_inv_def resources_inv_def topics_ok_def paths_def expiry_ok_def is_prefix_iff)
    (simp_all add: sample_watched_def sample_broker_def)

lemma sample_seen_in: "sample_seen \<in> set (resources (ctx sample_watched))"
  by simp

lemma sample_notifiable:
  assumes "td_data t = Some v" "length v \<le> 1300"
  shows "notifiable sample_watched sample_seen t"
  using assms by (simp add: notifiable_def sample_sub_def sample_peer_def reply_payload_def readable_def)

text \<open>What that observer is told is among the messages sent.\<close>

lemma sample_told:
  assumes "told ct now t [sample_sub] st st'"
  obtains m where "(sample_peer, m) \<in> set (sent (ctx st'))" "hdr_token m = ''tk''"
proof -
  obtain before ms after n where s: "sent (ctx st') = sent (ctx st) @ before @ ms @ after"
    "list_all2 (tells ct now t n) [sample_sub] ms"
    using assms by (auto simp: told_def)
  from s(2) obtain m where "ms = [m]" "tells ct now t n sample_sub m" by (auto simp: list_all2_Cons1)
  then show ?thesis using that [of "snd m"] s(1) by (cases m) (simp add: tells_def sample_sub_def)
qed

text \<open>Messages as they come out of the parser: the bytes of the options and of the payload.\<close>

definition sample_msg :: "nat \<Rightarrow> char list \<Rightarrow> nat option \<Rightarrow> coap_pdu" where
  "sample_msg cd body i =
     \<lparr>max_size = 64, hdr_type = 0, hdr_code = cd, hdr_id = 7, hdr_token = ''tk'', max_delta = 0,
      pdu_body = body, pdu_data = i\<rparr>"

text \<open>GET and PUT on \<open>ps/a\<close>; the PUT has content format 0, a Max-Age of 60 and the payload \<open>21\<close> with its terminator.\<close>

definition sample_get :: coap_pdu where
  "sample_get = sample_msg 1 [CHR 0xB2, CHR ''p'', CHR ''s'', CHR 0x01, CHR ''a'', CHR 0x10] None"

definition sample_put :: coap_pdu where
  "sample_put = sample_msg 3 [CHR 0xB2, CHR ''p'', CHR ''s'', CHR 0x01, CHR ''a'', CHR 0x10, CHR 0x21, CHR ''<'',
     CHR 0xFF, CHR ''2'', CHR ''1'', NUL] (Some 9)"

text \<open>POST on \<open>ps\<close> in link format with a terminator, and without one and whose format is not link format.\<close>

definition sample_post :: coap_pdu where
  "sample_post = sample_msg 2 ([CHR 0xB2, CHR ''p'', CHR ''s'', CHR 0x11, CHR ''('', CHR 0xFF] @ ''<b>;ct=0'' @ [NUL]) (Some 6)"

definition sample_bad_post :: coap_pdu where
  "sample_bad_post = sample_msg 2 [CHR 0xB2, CHR ''p'', CHR ''s'', CHR 0x10, CHR 0xFF, CHR ''b''] (Some 5)"

text \<open>The response a handler starts from.\<close>

definition sample_response :: coap_pdu where
  "sample_response =
     \<lparr>max_size = COAP_MAX_PDU_SIZE, hdr_type = 2, hdr_code = 0, hdr_id = 7, hdr_token = ''tk'',
      max_delta = 0, pdu_body = [], pdu_data = None\<rparr>"

lemma sample_response_ok:
  "pdu_abs sample_response [] None" "pdu_length sample_response \<le> 12"
  "max_size sample_response = COAP_MAX_PDU_SIZE" "pdu_data sample_response = None"
  using encodes.empty by (auto simp: sample_response_def pdu_abs_def pdu_length_def payload_bytes_def)

text \<open>
  Datagrams: a ping (an empty confirmable message), the GET on \<open>ps/a\<close>, and a message of 1400
  bytes with one option of the unknown critical type 9.
\<close>

definition sample_packet :: "char list \<Rightarrow> coap_packet" where
  "sample_packet bs = \<lparr>pk_src = sample_peer, pk_mcast = False, pk_payload = bs\<rparr>"

definition sample_ping :: coap_packet where
  "sample_ping = sample_packet [CHR 0x40, CHR 0x00, CHR 0x00, CHR 0x07]"

definition sample_get_packet :: coap_packet where
  "sample_get_packet = sample_packet
     ([CHR 0x42, CHR 0x01, CHR 0x07, CHR 0x00] @ ''tk'' @ [CHR 0xB2, CHR ''p'', CHR ''s'', CHR 0x01, CHR ''a'', CHR 0x10])"

definition sample_critical :: coap_queue where
  "sample_critical = \<lparr>q_remote = sample_peer,
     q_pdu = (sample_msg 1 ([CHR 0x9E, CHR 0x04, CHR 0x62] @ replicate 1391 CHR ''a'') None)\<lparr>max_size := 1400\<rparr>, q_mcast = False\<rparr>"

text \<open>An empty acknowledgement and a reset of the peer for the message 7.\<close>

definition sample_empty_msg :: "nat \<Rightarrow> coap_queue" where
  "sample_empty_msg ty = \<lparr>q_remote = sample_peer,
     q_pdu = \<lparr>max_size = 4, hdr_type = ty, hdr_code = 0, hdr_id = 7, hdr_token = [], max_delta = 0,
       pdu_body = [], pdu_data = None\<rparr>, q_mcast = False\<rparr>"

definition sample_again :: coap_pdu where
  "sample_again = sample_msg 2 ([CHR 0xB2, CHR ''p'', CHR ''s'', CHR 0x11, CHR ''('', CHR 0xFF] @ ''<a>;ct=0'' @ [NUL]) (Some 6)"

definition sample_plain :: coap_pdu where
  "sample_plain = sample_msg 3 [CHR 0xB2, CHR ''p'', CHR ''s'', CHR 0x01, CHR ''a'', CHR 0xFF, CHR ''2''] (Some 6)"

section \<open>Evaluation of the samples\<close>

lemma sample_post_code:
  "post_code (post_ct sample_post) (link_of (post_payload sample_post)) ''ps'' {''ps'', ''ps/a''} = Some 201"
  by code_simp

lemma sample_bad_post_code:
  "post_code (post_ct sample_bad_post) (link_of (post_payload sample_bad_post)) ''ps'' {''ps'', ''ps/a''} = None"
  by code_simp

lemma sample_terminated:
  "terminated sample_post" "terminated sample_again" "put_terminated sample_put"
  "\<not> terminated sample_bad_post" "fst (coap_get_data sample_bad_post)"
  by code_simp+

lemma sample_put_code: "put_code 0 sample_put True = 204"
  by code_simp

lemma sample_put_topic:
  "put_topic sample_put 1000 sample_topic = sample_topic\<lparr>td_data := Some ''21'', td_data_ma := 1060\<rparr>"
  by code_simp

lemma sample_get_checks: "get_checks 0 False (Some sample_get) = None"
  by code_simp

lemma sample_start:
  "\<exists>st. main_init [(CHR ''e'', ''mqtt'')] MQTTCLIENT_SUCCESS True 3 7 (\<lambda>_. True) (\<lambda>_. 0) 1000 = Inr (Some st) \<and> reachable st"
proof -
  have p: "parse_args [(CHR ''e'', ''mqtt'')] False False 4 = Some (True, False, 4)" by code_simp
  obtain st where "main_init [(CHR ''e'', ''mqtt'')] MQTTCLIENT_SUCCESS True 3 7 (\<lambda>_. True) (\<lambda>_. 0) 1000 = Inr (Some st)"
    by (rule main_init_run [OF p, of 3 7 "\<lambda>_. True" "\<lambda>_. 0" 1000])
  then show ?thesis using main_init_reachable p by blast
qed

lemma sample_ping_received:
  "case received sample_ping of None \<Rightarrow> False | Some p \<Rightarrow> hdr_code p = 0 \<and> pdu_options p = []"
  by code_simp

lemma sample_cuts: "\<not> packet_cut sample_ping" "\<not> packet_cut sample_get_packet"
  "packet_cut (sample_packet [CHR 0x40, CHR 0x01, CHR 0x00, CHR 0x07, CHR 0xD0])"
  by code_simp+

lemma sample_ping_safe: "safe_event (Datagram sample_ping) st"
  using sample_ping_received sample_cuts(1)
  by (auto simp: safe_event_def harmless_packet_def harmless_pdu_def split: option.splits)

lemma sample_get_received:
  "received sample_get_packet = Some (sample_get\<lparr>max_size := 12\<rparr>)"
  "pdu_options (sample_get\<lparr>max_size := 12\<rparr>) = [(11, ''ps''), (11, ''a''), (12, [])]"
  "is_wkc (coap_hash_request_uri (sample_get\<lparr>max_size := 12\<rparr>)) = False"
  "queries_terminated (sample_get\<lparr>max_size := 12\<rparr>)"
  by code_simp+

lemma sample_get_harmless: "harmless_packet sample_broker [sample_topic] sample_get_packet"
proof -
  let ?p = "sample_get\<lparr>max_size := 12\<rparr>"
  have code: "hdr_code ?p = 1" by (simp add: sample_get_def sample_msg_def)
  have und: "understood (pdu_options ?p)" by (simp add: sample_get_received understood_def)
  have small: "data_small 1000 [sample_topic]" by (simp add: data_small_def)
  have "harmless sample_broker [sample_topic] r h ?p"
    if "r \<in> {sample_ps, sample_res}" "target_handler r ?p = Some h" for r h
  proof -
    have "h = Hnd_get_broker \<or> h = Hnd_get_topic"
      using that code sample_ps_ok
      by (auto simp: target_handler_def broker_res_def sample_res_def fresh_topic_def topic_resource_def topic_handlers_def)
    then show ?thesis using und small sample_get_received(4) by (auto simp: harmless_def)
  qed
  then have "harmless_request sample_broker [sample_topic] ?p"
    using target_mem [of sample_broker ?p] sample_get_received(3) by (auto simp: harmless_request_def)
  moreover have "\<forall>(ty, v)\<in>set (pdu_options ?p). critical_known (ctx sample_broker) ty"
    by (simp add: sample_get_received critical_known_def builtin_critical_def)
  ultimately show ?thesis
    unfolding harmless_packet_def harmless_pdu_def sample_get_received(1) using sample_cuts(2) by simp
qed

text \<open>The long option is the only one of its message.\<close>

definition long_option :: "char list" where
  "long_option = [CHR 0x9E, CHR 0x04, CHR 0x62] @ replicate 1391 CHR ''a''"

lemma long_option_parse: "opt_at long_option = Some (\<lparr>opt_delta = 9, opt_value = replicate 1391 CHR ''a''\<rparr>, 1394)"
  "coap_opt_length long_option = 1391" "length long_option = 1394" "code (long_option ! 0) mod 16 = 14" "long_option \<noteq> []"
  "hd long_option = CHR 0x9E"
  by (simp_all add: long_option_def opt_at_def coap_opt_parse_def coap_opt_length_def ext_bytes_def code_def)

lemma long_option_seen:
  assumes "case f of None \<Rightarrow> True | Some f \<Rightarrow> coap_option_filter_get f 9 > 0"
  shows "options_seen \<lparr>oi_next = long_option, oi_type = 0, oi_bad = False, oi_filter = f\<rparr> = [(9, long_option)]"
proof -
  have "options_seen \<lparr>oi_next = [], oi_type = 9, oi_bad = False, oi_filter = f\<rparr> = []"
    by (subst options_seen_step) simp_all
  then show ?thesis using assms
    by (cases f; subst options_seen_step) (simp_all add: long_option_parse passes_def)
qed

lemma sample_critical_body:
  "pdu_body (q_pdu sample_critical) = long_option" "hdr_type (q_pdu sample_critical) = 0"
  "hdr_token (q_pdu sample_critical) = ''tk''" "pdu_length (q_pdu sample_critical) = 1400"
  by (simp_all add: sample_critical_def sample_msg_def long_option_def pdu_length_def)

lemma sample_critical_options:
  "pdu_options (q_pdu sample_critical) = [(9, replicate 1391 CHR ''a'')]"
  unfolding pdu_options_def sample_critical_body
  by (subst options_from.simps) (simp add: long_option_parse)

lemma sample_critical_unknown: "\<not> critical_known (ctx sample_broker) 9"
  by (simp add: critical_known_def builtin_critical_def sample_broker_def filter_clear_get)

lemma sample_critical_size:
  "error_size (q_pdu sample_critical) (COAP_RESPONSE_CODE 402)
     (snd (coap_option_check_critical (ctx sample_broker) (q_pdu sample_critical) coap_option_filter_clear)) = 1411"
proof -
  let ?f = "snd (coap_option_filter_set coap_option_filter_clear 9)"
  have "coap_option_iterator_init (q_pdu sample_critical) f = \<lparr>oi_next = long_option, oi_type = 0, oi_bad = False, oi_filter = f\<rparr>" for f
    by (simp add: coap_option_iterator_init_def sample_critical_body long_option_parse)
  note init = this
  have k: "coap_option_filter_get (known_options (ctx sample_broker)) 9 = 0" by (simp add: sample_broker_def filter_clear_get)
  have unk: "snd (coap_option_check_critical (ctx sample_broker) (q_pdu sample_critical) coap_option_filter_clear) = ?f"
    by (simp add: coap_option_check_critical_def init long_option_seen builtin_critical_def k)
  have "coap_option_filter_get (snd (coap_option_filter_unset ?f 12)) 9 = 1" by code_simp
  then have "options_seen (coap_option_iterator_init (q_pdu sample_critical) (Some (snd (coap_option_filter_unset ?f 12)))) = [(9, long_option)]"
    unfolding init by (intro long_option_seen) simp
  moreover have "coap_response_phrase (COAP_RESPONSE_CODE 402) = Some ''Bad Option''" by code_simp
  ultimately show ?thesis
    unfolding unk error_size_def by (simp add: sample_critical_body long_option_parse)
qed

lemma sample_again_code:
  "post_code (post_ct sample_again) (link_of (post_payload sample_again)) ''ps'' {''ps'', ''ps/a''} = Some 403"
  by code_simp

lemma sample_plain_code: "put_code 0 sample_plain b = 400"
  by (cases b) code_simp+

lemma sample_flags: "mqtt_bridge sample_broker" "mqtt_calls sample_broker = []" "send_ok (ctx sample_broker) = (\<lambda>_. True)"
  by (simp_all add: sample_broker_def)

text \<open>The same broker with an empty database, as after an allocation that failed.\<close>

definition sample_empty :: broker where
  "sample_empty = sample_broker\<lparr>topics := db_init 3\<rparr>"

lemma sample_empty_inv: "broker_inv sample_empty [] [] 0"
  using sample_inv db_init_abs [of 3]
  by (simp add: broker_inv_def sample_empty_def topics_ok_def paths_def expiry_ok_def)

text \<open>Discovery with the query \<open>ct=0\<close> and a terminator, and requests for the blocks of 16 bytes.\<close>

definition sample_discovery :: coap_pdu where
  "sample_discovery = sample_msg 1 ([CHR 0xB2, CHR ''p'', CHR ''s'', CHR 0x45] @ ''ct=0'' @ [NUL]) None"

lemma sample_discovery_facts:
  "understood (pdu_options sample_discovery)" "queries_terminated sample_discovery"
  "discovered sample_discovery sample_broker = Some ''</ps/a>;ct=0;obs''"
  "\<not> fst (coap_get_block (Some sample_discovery) COAP_OPTION_BLOCK2)"
proof -
  have q: "uri_queries (pdu_options sample_discovery) = [''ct=0'' @ [NUL]]" by code_simp
  have o: "query_of (''ct=0'' @ [NUL]) = Some (''ct'', ''0'')" by code_simp
  show "queries_terminated sample_discovery" by code_simp
  show "understood (pdu_options sample_discovery)" using q o by (simp add: understood_def)
  have l: "link_text sample_res = ''</ps/a>;ct=0;obs''" "find (attr_named ''ct'') (link_attr sample_res) = Some (heap_attr (''ct'', ''0''))"
    by (simp_all add: sample_res_def fresh_topic_def topic_resource_def link_text_def attr_text_def heap_attr_def attr_named_def)
  have "listed (pdu_options sample_discovery) sample_res" "\<not> listed (pdu_options sample_discovery) sample_ps"
    using q o l(2) by (simp_all add: listed_def has_attr_def is_prefix_iff heap_attr_text)
  then show "discovered sample_discovery sample_broker = Some ''</ps/a>;ct=0;obs''"
    using l(1) by (simp add: discovered_def)
  show "\<not> fst (coap_get_block (Some sample_discovery) COAP_OPTION_BLOCK2)" by code_simp
qed

definition sample_block :: "nat \<Rightarrow> coap_pdu" where
  "sample_block n = sample_msg 1 [CHR 0xB2, CHR ''p'', CHR ''s'', CHR 0xC1, char_of (16 * n)] None"

lemma sample_blocks:
  "\<forall>n<2. \<exists>b. coap_get_block (Some (sample_block n)) COAP_OPTION_BLOCK2 = (True, b) \<and> unat (blk_num b) = n \<and> blk_szx b = 0"
proof (intro allI impI)
  have c: "\<forall>n\<in>set [0, 1]. (case coap_get_block (Some (sample_block n)) COAP_OPTION_BLOCK2 of
      (ok, b) \<Rightarrow> ok \<and> unat (blk_num b) = n \<and> blk_szx b = 0)"
    by code_simp
  fix n :: nat assume "n < 2"
  then have "n \<in> set [0, 1]" by auto
  with c show "\<exists>b. coap_get_block (Some (sample_block n)) COAP_OPTION_BLOCK2 = (True, b) \<and> unat (blk_num b) = n \<and> blk_szx b = 0"
    by (fastforce split: prod.splits)
qed

section \<open>Confirmable messages\<close>

definition sample_node :: "int \<Rightarrow> coap_tick \<Rightarrow> queue_node" where
  "sample_node i t = \<lparr>q_t = t, retransmit_cnt = 0, timeout = 2000, node_remote = sample_peer, node_id = i,
     node_pdu = sample_response\<rparr>"

text \<open>The broker after a confirmed message to the peer.\<close>

definition sample_waiting :: broker where
  "sample_waiting = sample_broker\<lparr>ctx := snd (coap_send_confirmed sample_peer sample_response (ctx sample_broker))\<rparr>"

lemma sample_waiting_queue:
  "length (sendqueue (ctx sample_waiting)) = 1" "cnt_ok (sendqueue (ctx sample_waiting))"
  "resources (ctx sample_waiting) = [sample_ps, sample_res]"
  "\<exists>q. sendqueue (ctx sample_waiting) = [q] \<and> node_remote q = sample_peer \<and> node_pdu q = sample_response \<and>
     node_id q = coap_transaction_id sample_peer sample_response COAP_INVALID_TID"
proof -
  have "sa_family sample_peer \<in> {AF_INET, AF_INET6}" "send_ok (ctx sample_broker) (length (sent (ctx sample_broker)))"
    by (simp_all add: sample_peer_def sample_flags)
  from send_confirmed_run [OF this, of sample_response] obtain node b where
    "coap_send_confirmed sample_peer sample_response (ctx sample_broker) =
      (coap_transaction_id sample_peer sample_response COAP_INVALID_TID,
       (ctx sample_broker)\<lparr>sent := sent (ctx sample_broker) @ [(sample_peer, sample_response)],
         sendqueue := coap_insert_node node (sendqueue (ctx sample_broker)), sendqueue_basetime := b\<rparr>)"
    "node_id node = coap_transaction_id sample_peer sample_response COAP_INVALID_TID" "node_remote node = sample_peer"
    "node_pdu node = sample_response" "retransmit_cnt node = 0" by blast
  moreover have "sendqueue (ctx sample_broker) = []" by (simp add: sample_broker_def)
  ultimately show "length (sendqueue (ctx sample_waiting)) = 1" "cnt_ok (sendqueue (ctx sample_waiting))"
    "resources (ctx sample_waiting) = [sample_ps, sample_res]"
    "\<exists>q. sendqueue (ctx sample_waiting) = [q] \<and> node_remote q = sample_peer \<and> node_pdu q = sample_response \<and>
     node_id q = coap_transaction_id sample_peer sample_response COAP_INVALID_TID"
    by (simp_all add: sample_waiting_def)
qed

lemma sample_observers: "\<forall>r\<in>{sample_ps, sample_res}. observers_ok (subscribers r)"
proof -
  have "subscribers sample_ps = []" by code_simp
  then show ?thesis by (simp add: sample_res_def fresh_topic_def topic_resource_def)
qed

text \<open>What \<open>.well-known/core\<close> lists.\<close>

lemma sample_wkc:
  "wkc_text no_query (resources (ctx sample_broker)) = ''</ps>;rt=core.ps;ct=40,</ps/a>;ct=0;obs''"
  "coap_check_option sample_get COAP_OPTION_URI_QUERY = None"
  "fst (coap_get_block (Some sample_get) COAP_OPTION_BLOCK2) = False"
proof -
  have "link_text sample_ps = ''</ps>;rt=core.ps;ct=40''" by code_simp
  moreover have "link_text sample_res = ''</ps/a>;ct=0;obs''"
    by (simp add: sample_res_def fresh_topic_def topic_resource_def link_text_def attr_text_def heap_attr_def)
  ultimately show "wkc_text no_query (resources (ctx sample_broker)) = ''</ps>;rt=core.ps;ct=40,</ps/a>;ct=0;obs''"
    by (simp add: wkc_text_all commas_def)
  show "coap_check_option sample_get COAP_OPTION_URI_QUERY = None" by code_simp
  show "fst (coap_get_block (Some sample_get) COAP_OPTION_BLOCK2) = False" by code_simp
qed

section \<open>The resource directory\<close>

text \<open>Registrations: of the node \<open>n1\<close> with a description; with a name of 64 bytes and an instance; of \<open>..\<close>.\<close>

definition rd_msg :: "char list \<Rightarrow> char list \<Rightarrow> coap_pdu" where
  "rd_msg hdr query = sample_msg 2 ([CHR 0xB2, CHR ''r'', CHR ''d''] @ hdr @ query @ COAP_PAYLOAD_START # ''</s>'')
     (Some (4 + length hdr + length query))"

definition sample_node_post :: coap_pdu where
  "sample_node_post = rd_msg [CHR 0x44] ''h=n1''"

definition sample_long_post :: coap_pdu where
  "sample_long_post = rd_msg [CHR 0x4D, char_of (59 :: nat)] (''h='' @ replicate 64 CHR ''a'' @ ''&ins=x'')"

definition sample_dots_post :: coap_pdu where
  "sample_dots_post = rd_msg [CHR 0x44] ''h=..''"

lemma sample_node_params:
  "rd_param sample_node_post ''h'' = Some ''n1''" "rd_param sample_node_post ''ins'' = None"
  "coap_get_data sample_node_post = (True, 4, ''</s>'')"
  by code_simp+

lemma sample_long_params:
  "case rd_param sample_long_post ''h'' of None \<Rightarrow> False | Some h \<Rightarrow> length h = 64"
  "rd_param sample_long_post ''ins'' = Some ''x''"
  by code_simp+

lemma sample_dots_params: "rd_param sample_dots_post ''h'' = Some ''..''" "rd_param sample_dots_post ''ins'' = None"
  by code_simp+

lemma sample_ids: "\<forall>r\<in>set (resources (ctx sample_broker)). r_id r \<noteq> next_id (ctx sample_broker)"
  using sample_ps_ok by (simp add: sample_broker_def sample_res_def fresh_topic_def topic_resource_def)

end
