(* ===== verification/TopicThreads.thy ===== *)
theory TopicThreads
  imports TopicSpec
begin

text \<open>
  The topic database under several threads: the main loop and the callback of the MQTT client
  work on one list. \<open>LinkedListDB\<close> models an operation as a function; here it is a program
  that touches the list in steps, between which the other threads run. A step is a lock
  operation, or a statement or condition that reads or writes shared memory; what a thread does
  to memory no other thread can reach (filling a node it has just allocated) goes with the step
  before. A thread that asks for a lock it cannot have yet (\<open>Deadlock\<close>) makes no step.

  A datum is freed before the pointer to it changes: \<open>mem\<close> is the database together with the nodes whose
  \<open>data\<close> points to a freed block. Every call of the C library is one step.
\<close>

section \<open>Programs\<close>

datatype task =
    GetTopic "cstring option"
  | CloneTopic "cstring option"
  | SetTopic "cstring option" "char list option" nat int int
  | UpdateTopicData "cstring option" int "char list option" nat
  | DeleteTopicData "cstring option"
  | AddTopic "cstring option" nat int
  | DeleteTopic "cstring option"

datatype return = Ptr "addr option" | Status nat

text \<open>
  Where a thread is. \<open>Head\<close> stands for the expression \<open>*sPtr\<close>, which the code evaluates
  afresh wherever it uses it, and \<open>Node c\<close> for a pointer in a local variable.
\<close>

datatype node_ref = Head | Node addr

datatype search_pc =
    Enter
  | Lock node_ref "addr option"
  | Compare node_ref "addr option"
  | Advance node_ref
  | Unlock node_ref addr "addr option"
  | Loop addr "addr option"
  | Found node_ref "addr option"
  | Missing

datatype set_pc =
    S_lock_node | S_lock_data | S_free | S_store "cstring option" | S_topic_ma | S_data_ma
  | S_unlock_data | S_unlock_node

datatype clear_pc =
    C_lock_node | C_lock_data | C_free | C_data_ma | C_data | C_unlock_data | C_unlock_node

datatype clone_pc =
    K_malloc | K_size addr | K_data addr "nat option" | K_times addr "cstring option"
  | K_unlock "addr option"

datatype add_pc =
    A_malloc
  | A_head addr
  | A_loop addr "addr option" "addr option"
  | A_next addr addr
  | A_unlock addr addr "addr option"
  | A_first addr
  | A_set_head addr
  | A_lock addr addr
  | A_link addr addr
  | A_link_next addr addr
  | A_release addr addr

datatype delete_pc =
    D_unlock node_ref "addr option"
  | D_lock_head
  | D_unthread
  | D_lock_prev addr addr
  | D_lock addr addr
  | D_link addr addr
  | D_unlock_cur addr addr
  | D_release addr addr
  | D_free addr

datatype pc =
    Search search_pc
  | Release node_ref addr
  | Got "addr option"
  | Setting addr set_pc
  | Clearing addr clear_pc
  | Cloning node_ref addr clone_pc
  | Adding add_pc
  | Deleting delete_pc
  | Done return

type_synonym thread = "task \<times> pc"
type_synonym mem = "db \<times> addr set"

section \<open>Steps\<close>

fun node_of :: "node_ref \<Rightarrow> db \<Rightarrow> addr result" where
  "node_of Head d = deref (topicDB d)"
| "node_of (Node c) d = Inr c"

text \<open>
  The search at the start of \<open>getTopic\<close>, \<open>cloneTopic\<close> and \<open>deleteTopic\<close>. It stops with
  \<open>Found\<close>, the lock of the node still held, or with \<open>Missing\<close>.
\<close>

fun search_step :: "cstring option \<Rightarrow> search_pc \<Rightarrow> db \<Rightarrow> (search_pc \<times> db) result" where
  "search_step path Enter d =
     Inr (if path = None \<or> DBEmpty (topicDB d) then Missing else Lock Head None, d)"
| "search_step path (Lock r previousPtr) d =
     bindR (node_of r d) (\<lambda>a. bindR (topicNodeRLock a d) (\<lambda>d. Inr (Compare r previousPtr, d)))"
| "search_step path (Compare r previousPtr) d =
     bindR (node_of r d) (\<lambda>a. bindR (load a d) (\<lambda>n.
     Inr (if compareString (Some (td_path n)) path = 1 then Found r previousPtr else Advance r, d)))"
| "search_step path (Advance r) d =
     bindR (node_of r d) (\<lambda>a. bindR (load a d) (\<lambda>n. Inr (Unlock r a (nextPtr n), d)))"
| "search_step path (Unlock r previousPtr currentPtr) d =
     bindR (node_of r d) (\<lambda>a. bindR (topicNodeUnlock a d) (\<lambda>d.
     Inr (Loop previousPtr currentPtr, d)))"
| "search_step path (Loop previousPtr currentPtr) d =
     Inr (case currentPtr of None \<Rightarrow> Missing | Some c \<Rightarrow> Lock (Node c) (Some previousPtr), d)"
| "search_step path (Found r previousPtr) d = Inr (Found r previousPtr, d)"
| "search_step path Missing d = Inr (Missing, d)"

text \<open>\<open>setTopic\<close> once it has its node.\<close>

fun set_step :: "char list option \<Rightarrow> nat \<Rightarrow> int \<Rightarrow> int \<Rightarrow> addr \<Rightarrow> set_pc \<Rightarrow> mem \<Rightarrow>
    (pc \<times> mem) result" where
  "set_step data data_size topic_ma data_ma a S_lock_node (d, D) =
     bindR (topicNodeRLock a d) (\<lambda>d. Inr (Setting a S_lock_data, d, D))"
| "set_step data data_size topic_ma data_ma a S_lock_data (d, D) =
     bindR (topicDataWLock a d) (\<lambda>d. Inr (Setting a S_free, d, D))"
| "set_step data data_size topic_ma data_ma a S_free (d, D) =
     bindR (load a d) (\<lambda>n.
     if data_size > 0 \<and> data \<noteq> None then
       let temp_data = snprintf_s (data_size + 1) (cstr (the data)) in
       if td_data n = None
       then Inr (Setting a (S_store (Some temp_data)), d\<lparr>strings := strings d + 1\<rparr>, D)
       else if a \<in> D then Inl Double_free
       else Inr (Setting a (S_store (Some temp_data)), d, insert a D)
     else Inr (Setting a (S_store None), d, D))"
| "set_step data data_size topic_ma data_ma a (S_store v) (d, D) =
     bindR (load a d) (\<lambda>n. bindR (store a (n\<lparr>td_data := v\<rparr>) d) (\<lambda>d.
     Inr (Setting a S_topic_ma, d, D - {a})))"
| "set_step data data_size topic_ma data_ma a S_topic_ma (d, D) =
     bindR (load a d) (\<lambda>n. bindR (store a (n\<lparr>td_topic_ma := topic_ma\<rparr>) d) (\<lambda>d.
     Inr (Setting a S_data_ma, d, D)))"
| "set_step data data_size topic_ma data_ma a S_data_ma (d, D) =
     bindR (load a d) (\<lambda>n. bindR (store a (n\<lparr>td_data_ma := data_ma\<rparr>) d) (\<lambda>d.
     Inr (Setting a S_unlock_data, d, D)))"
| "set_step data data_size topic_ma data_ma a S_unlock_data (d, D) =
     bindR (topicDataUnlock a d) (\<lambda>d. Inr (Setting a S_unlock_node, d, D))"
| "set_step data data_size topic_ma data_ma a S_unlock_node (d, D) =
     bindR (topicNodeUnlock a d) (\<lambda>d. Inr (Done (Status 1), d, D))"

text \<open>\<open>deleteTopicData\<close> once it has its node.\<close>

fun clear_step :: "addr \<Rightarrow> clear_pc \<Rightarrow> mem \<Rightarrow> (pc \<times> mem) result" where
  "clear_step a C_lock_node (d, D) =
     bindR (topicNodeRLock a d) (\<lambda>d. Inr (Clearing a C_lock_data, d, D))"
| "clear_step a C_lock_data (d, D) =
     bindR (topicDataWLock a d) (\<lambda>d. Inr (Clearing a C_free, d, D))"
| "clear_step a C_free (d, D) =
     bindR (load a d) (\<lambda>n.
     if td_data n = None then Inr (Clearing a C_data_ma, d, D)
     else if a \<in> D then Inl Double_free
     else Inr (Clearing a C_data_ma, d\<lparr>strings := strings d - 1\<rparr>, insert a D))"
| "clear_step a C_data_ma (d, D) =
     bindR (load a d) (\<lambda>n. bindR (store a (n\<lparr>td_data_ma := 0\<rparr>) d) (\<lambda>d.
     Inr (Clearing a C_data, d, D)))"
| "clear_step a C_data (d, D) =
     bindR (load a d) (\<lambda>n. bindR (store a (n\<lparr>td_data := None\<rparr>) d) (\<lambda>d.
     Inr (Clearing a C_unlock_data, d, D - {a})))"
| "clear_step a C_unlock_data (d, D) =
     bindR (topicDataUnlock a d) (\<lambda>d. Inr (Clearing a C_unlock_node, d, D))"
| "clear_step a C_unlock_node (d, D) =
     bindR (topicNodeUnlock a d) (\<lambda>d. Inr (Done (Status 1), d, D))"

text \<open>
  \<open>cloneTopic\<close> once it has its node, read-locked. It takes no lock of the datum, and reads the
  pointer \<open>data\<close> once for the length and once for the copy.
\<close>

definition read_data :: "addr \<Rightarrow> mem \<Rightarrow> cstring option result" where
  "read_data a m =
     bindR (load a (fst m)) (\<lambda>n.
     if td_data n \<noteq> None \<and> a \<in> snd m then Inl Use_after_free else Inr (td_data n))"

fun clone_step :: "node_ref \<Rightarrow> addr \<Rightarrow> clone_pc \<Rightarrow> mem \<Rightarrow> (pc \<times> mem) result" where
  "clone_step r tempPtr K_malloc (d, D) =
     bindR (load tempPtr d) (\<lambda>t.
     case malloc_node d of
       (None, d) \<Rightarrow> Inr (Cloning r tempPtr (K_unlock None), d, D)
     | (Some a, d) \<Rightarrow>
         Inr (Cloning r tempPtr (K_size a),
           init_node a \<lparr>td_path = snprintf_s (length (td_path t) + 1) (td_path t), td_data = None,
             td_topic_ma = 0, td_data_ma = 0,
             nextPtr = None, node_lock = Unlocked, data_lock = Unlocked\<rparr>
             (d\<lparr>strings := strings d + 1\<rparr>), D))"
| "clone_step r tempPtr (K_size a) (d, D) =
     bindR (read_data tempPtr (d, D)) (\<lambda>s.
     Inr (Cloning r tempPtr (K_data a (map_option length s)), d, D))"
| "clone_step r tempPtr (K_data a None) (d, D) =
     Inr (Cloning r tempPtr (K_times a None), d, D)"
| "clone_step r tempPtr (K_data a (Some data_size)) (d, D) =
     bindR (read_data tempPtr (d, D)) (\<lambda>s. bindR (deref s) (\<lambda>s.
     Inr (Cloning r tempPtr (K_times a (Some (snprintf_s (data_size + 1) s))),
       d\<lparr>strings := strings d + 1\<rparr>, D)))"
| "clone_step r tempPtr (K_times a s) (d, D) =
     bindR (load tempPtr d) (\<lambda>t. bindR (load a d) (\<lambda>n.
     bindR (store a (n\<lparr>td_data := s, td_data_ma := td_data_ma t, td_topic_ma := td_topic_ma t\<rparr>) d)
       (\<lambda>d. Inr (Cloning r tempPtr (K_unlock (Some a)), d, D))))"
| "clone_step r tempPtr (K_unlock p) (d, D) =
     bindR (node_of r d) (\<lambda>a. bindR (topicNodeUnlock a d) (\<lambda>d. Inr (Done (Ptr p), d, D)))"

text \<open>\<open>addTopic\<close>.\<close>

fun add_step :: "cstring option \<Rightarrow> nat \<Rightarrow> int \<Rightarrow> add_pc \<Rightarrow> db \<Rightarrow> (pc \<times> db) result" where
  "add_step path path_size topic_ma A_malloc d =
     (case malloc_node d of
        (None, d) \<Rightarrow> Inr (Done (Status 0), d)
      | (Some a, d) \<Rightarrow>
          if path_size > 0 \<and> path \<noteq> None then
            Inr (Adding (A_head a),
              init_node a (new_node (new_topic (the path) path_size topic_ma))
                (d\<lparr>strings := strings d + 1\<rparr>))
          else Inr (Done (Status 0), d\<lparr>avail := Suc (avail d)\<rparr>))"
| "add_step path path_size topic_ma (A_head newPtr) d =
     Inr (Adding (A_loop newPtr None (topicDB d)), d)"
| "add_step path path_size topic_ma (A_loop newPtr previousPtr currentPtr) d =
     (case currentPtr of
        Some c \<Rightarrow> bindR (topicNodeRLock c d) (\<lambda>d. Inr (Adding (A_next newPtr c), d))
      | None \<Rightarrow>
          Inr (case previousPtr of
                 None \<Rightarrow> Adding (A_first newPtr) | Some p \<Rightarrow> Adding (A_lock newPtr p), d))"
| "add_step path path_size topic_ma (A_next newPtr c) d =
     bindR (load c d) (\<lambda>n. Inr (Adding (A_unlock newPtr c (nextPtr n)), d))"
| "add_step path path_size topic_ma (A_unlock newPtr previousPtr currentPtr) d =
     bindR (topicNodeUnlock previousPtr d) (\<lambda>d.
     Inr (Adding (A_loop newPtr (Some previousPtr) currentPtr), d))"
| "add_step path path_size topic_ma (A_first newPtr) d =
     bindR (set_nextPtr newPtr (topicDB d) d) (\<lambda>d. Inr (Adding (A_set_head newPtr), d))"
| "add_step path path_size topic_ma (A_set_head newPtr) d =
     Inr (Done (Status 1), d\<lparr>topicDB := Some newPtr\<rparr>)"
| "add_step path path_size topic_ma (A_lock newPtr previousPtr) d =
     bindR (topicNodeWLock previousPtr d) (\<lambda>d. Inr (Adding (A_link newPtr previousPtr), d))"
| "add_step path path_size topic_ma (A_link newPtr previousPtr) d =
     bindR (set_nextPtr previousPtr (Some newPtr) d) (\<lambda>d.
     Inr (Adding (A_link_next newPtr previousPtr), d))"
| "add_step path path_size topic_ma (A_link_next newPtr previousPtr) d =
     bindR (set_nextPtr newPtr None d) (\<lambda>d. Inr (Adding (A_release newPtr previousPtr), d))"
| "add_step path path_size topic_ma (A_release newPtr previousPtr) d =
     bindR (topicNodeUnlock previousPtr d) (\<lambda>d. Inr (Done (Status 1), d))"

text \<open>\<open>deleteTopic\<close> once it has found its node.\<close>

fun delete_step :: "delete_pc \<Rightarrow> mem \<Rightarrow> (pc \<times> mem) result" where
  "delete_step (D_unlock r previousPtr) (d, D) =
     bindR (node_of r d) (\<lambda>a. bindR (topicNodeUnlock a d) (\<lambda>d.
     case r of
       Head \<Rightarrow> Inr (Deleting D_lock_head, d, D)
     | Node c \<Rightarrow> bindR (deref previousPtr) (\<lambda>p. Inr (Deleting (D_lock_prev p c), d, D))))"
| "delete_step D_lock_head (d, D) =
     bindR (deref (topicDB d)) (\<lambda>a. bindR (topicNodeWLock a d) (\<lambda>d. Inr (Deleting D_unthread, d, D)))"
| "delete_step D_unthread (d, D) =
     bindR (deref (topicDB d)) (\<lambda>a. bindR (load a d) (\<lambda>n.
     bindR (topicNodeUnlock a (d\<lparr>topicDB := nextPtr n\<rparr>)) (\<lambda>d. Inr (Deleting (D_free a), d, D))))"
| "delete_step (D_lock_prev p c) (d, D) =
     bindR (topicNodeWLock p d) (\<lambda>d. Inr (Deleting (D_lock p c), d, D))"
| "delete_step (D_lock p c) (d, D) =
     bindR (topicNodeWLock c d) (\<lambda>d. Inr (Deleting (D_link p c), d, D))"
| "delete_step (D_link p c) (d, D) =
     bindR (load c d) (\<lambda>n. bindR (set_nextPtr p (nextPtr n) d) (\<lambda>d.
     Inr (Deleting (D_unlock_cur p c), d, D)))"
| "delete_step (D_unlock_cur p c) (d, D) =
     bindR (topicNodeUnlock c d) (\<lambda>d. Inr (Deleting (D_release p c), d, D))"
| "delete_step (D_release p c) (d, D) =
     bindR (topicNodeUnlock p d) (\<lambda>d. Inr (Deleting (D_free c), d, D))"
| "delete_step (D_free a) (d, D) =
     (if a \<in> D then Inl Double_free
      else bindR (free_node a d) (\<lambda>d. Inr (Done (Status 1), d, D)))"

section \<open>Threads\<close>

fun task_path :: "task \<Rightarrow> cstring option" where
  "task_path (GetTopic p) = p"
| "task_path (CloneTopic p) = p"
| "task_path (SetTopic p _ _ _ _) = p"
| "task_path (UpdateTopicData p _ _ _) = p"
| "task_path (DeleteTopicData p) = p"
| "task_path (AddTopic p _ _) = p"
| "task_path (DeleteTopic p) = p"

text \<open>
  What follows the search: \<open>getTopic\<close>, which most operations call, releases the lock it
  holds and returns the pointer; \<open>cloneTopic\<close> and \<open>deleteTopic\<close> go on with the lock held.
\<close>

fun found_step :: "task \<Rightarrow> node_ref \<Rightarrow> addr option \<Rightarrow> db \<Rightarrow> pc result" where
  "found_step (CloneTopic _) r previousPtr d =
     bindR (node_of r d) (\<lambda>a. Inr (Cloning r a K_malloc))"
| "found_step (DeleteTopic _) r previousPtr d = Inr (Deleting (D_unlock r previousPtr))"
| "found_step _ r previousPtr d = bindR (node_of r d) (\<lambda>a. Inr (Release r a))"

fun missing_pc :: "task \<Rightarrow> pc" where
  "missing_pc (CloneTopic _) = Done (Ptr None)"
| "missing_pc (DeleteTopic _) = Done (Status 0)"
| "missing_pc _ = Got None"

text \<open>The operation with the pointer that \<open>getTopic\<close> returned, the lock of the node given back.\<close>

fun got_step :: "task \<Rightarrow> addr option \<Rightarrow> db \<Rightarrow> thread result" where
  "got_step (SetTopic p data data_size topic_ma data_ma) topic d =
     Inr (SetTopic p data data_size topic_ma data_ma,
          case topic of None \<Rightarrow> Done (Status 0) | Some a \<Rightarrow> Setting a S_lock_node)"
| "got_step (DeleteTopicData p) topic d =
     Inr (DeleteTopicData p,
          case topic of None \<Rightarrow> Done (Status 0) | Some a \<Rightarrow> Clearing a C_lock_node)"
| "got_step (UpdateTopicData p data_ma data data_size) temp d =
     (case temp of
        None \<Rightarrow> Inr (UpdateTopicData p data_ma data data_size, Done (Status 0))
      | Some a \<Rightarrow>
          bindR (load a d) (\<lambda>n. Inr (SetTopic p data data_size (td_topic_ma n) data_ma, Search Enter)))"
| "got_step t topic d = Inr (t, Done (Ptr topic))"

fun operation_step :: "task \<Rightarrow> pc \<Rightarrow> mem \<Rightarrow> (pc \<times> mem) result" where
  "operation_step (SetTopic p data data_size topic_ma data_ma) (Setting a s) m =
     set_step data data_size topic_ma data_ma a s m"
| "operation_step t (Clearing a s) m = clear_step a s m"
| "operation_step t (Cloning r a s) m = clone_step r a s m"
| "operation_step (AddTopic path path_size topic_ma) (Adding s) m =
     bindR (add_step path path_size topic_ma s (fst m)) (\<lambda>(q, d). Inr (q, d, snd m))"
| "operation_step t (Deleting s) m = delete_step s m"
| "operation_step t q m = Inr (q, m)"

fun thread_step :: "thread \<Rightarrow> mem \<Rightarrow> (thread \<times> mem) result" where
  "thread_step (t, Search (Found r previousPtr)) m =
     bindR (found_step t r previousPtr (fst m)) (\<lambda>q. Inr ((t, q), m))"
| "thread_step (t, Search Missing) m = Inr ((t, missing_pc t), m)"
| "thread_step (t, Search s) m =
     bindR (search_step (task_path t) s (fst m)) (\<lambda>(s, d). Inr ((t, Search s), d, snd m))"
| "thread_step (t, Release r a) m =
     bindR (node_of r (fst m)) (\<lambda>b. bindR (topicNodeUnlock b (fst m)) (\<lambda>d.
     Inr ((t, Got (Some a)), d, snd m)))"
| "thread_step (t, Got topic) m = bindR (got_step t topic (fst m)) (\<lambda>u. Inr (u, m))"
| "thread_step (t, q) m = bindR (operation_step t q m) (\<lambda>(q, m). Inr ((t, q), m))"

fun entry :: "task \<Rightarrow> pc" where
  "entry (AddTopic _ _ _) = Adding A_malloc"
| "entry _ = Search Enter"

fun finished :: "thread \<Rightarrow> bool" where
  "finished (t, Done _) = True"
| "finished _ = False"

type_synonym pool = "mem \<times> thread list"

definition threads :: "db \<Rightarrow> task list \<Rightarrow> pool" where
  "threads d ts = ((d, {}), map (\<lambda>t. (t, entry t)) ts)"

inductive pool_step :: "pool \<Rightarrow> pool \<Rightarrow> bool" where
  "i < length ts \<Longrightarrow> \<not> finished (ts ! i) \<Longrightarrow> thread_step (ts ! i) m = Inr (t, m') \<Longrightarrow>
   pool_step (m, ts) (m', ts[i := t])"

inductive_cases pool_stepE: "pool_step (m, ts) p"

text \<open>A pool faults when the next step of some thread is a fault other than waiting for a lock.\<close>

definition pool_faults :: "pool \<Rightarrow> fault \<Rightarrow> bool" where
  "pool_faults p e \<longleftrightarrow>
     e \<noteq> Deadlock \<and> (\<exists>t\<in>set (snd p). \<not> finished t \<and> thread_step t (fst p) = Inl e)"

text \<open>A schedule names the threads in the order of their steps.\<close>

fun run_schedule :: "nat list \<Rightarrow> pool \<Rightarrow> pool result" where
  "run_schedule [] p = Inr p"
| "run_schedule (i # is) (m, ts) =
     bindR (thread_step (ts ! i) m) (\<lambda>(t, m). run_schedule is (m, ts[i := t]))"

end
