(* ===== verification/ThreadLocks.thy ===== *)
theory ThreadLocks
  imports TopicThreads
begin

text \<open>
  Which thread holds which lock. The locks of the nodes are counted against the programs of
  the threads: a node has as many readers as there are threads whose place in the program holds
  its lock, and a step of one thread takes or gives back at most one lock.
\<close>

section \<open>Memory operations\<close>

lemma load_Inr [simp]: "load a d = Inr n \<longleftrightarrow> heap d a = Some n"
  by (simp add: load_def split: option.splits)

lemma deref_Inr [simp]: "deref p = Inr a \<longleftrightarrow> p = Some a"
  by (simp add: deref_def split: option.splits)

definition put :: "addr \<Rightarrow> topicData \<Rightarrow> db \<Rightarrow> db" where
  "put a n d = d\<lparr>heap := (heap d)(a \<mapsto> n)\<rparr>"

lemma put_simps [simp]:
  "topicDB (put a n d) = topicDB d" "brk (put a n d) = brk d" "avail (put a n d) = avail d"
  "heap (put a n d) = (heap d)(a \<mapsto> n)"
  by (simp_all add: put_def)

lemma store_Inr [simp]:
  "store a n d = Inr d' \<longleftrightarrow> heap d a \<noteq> None \<and> d' = put a n d"
  by (auto simp: store_def put_def split: option.splits)

lemma lock_op_Inr:
  "topicNodeRLock a d = Inr d' \<longleftrightarrow> (\<exists>n l. heap d a = Some n \<and> rdlock (node_lock n) = Inr l \<and>
     d' = put a (n\<lparr>node_lock := l\<rparr>) d)"
  "topicNodeWLock a d = Inr d' \<longleftrightarrow> (\<exists>n l. heap d a = Some n \<and> wrlock (node_lock n) = Inr l \<and>
     d' = put a (n\<lparr>node_lock := l\<rparr>) d)"
  "topicNodeUnlock a d = Inr d' \<longleftrightarrow> (\<exists>n l. heap d a = Some n \<and> unlock (node_lock n) = Inr l \<and>
     d' = put a (n\<lparr>node_lock := l\<rparr>) d)"
  "topicDataWLock a d = Inr d' \<longleftrightarrow> (\<exists>n l. heap d a = Some n \<and> wrlock (data_lock n) = Inr l \<and>
     d' = put a (n\<lparr>data_lock := l\<rparr>) d)"
  "topicDataUnlock a d = Inr d' \<longleftrightarrow> (\<exists>n l. heap d a = Some n \<and> unlock (data_lock n) = Inr l \<and>
     d' = put a (n\<lparr>data_lock := l\<rparr>) d)"
  by (auto simp: topicNodeRLock_def topicNodeWLock_def topicNodeUnlock_def topicDataWLock_def
      topicDataUnlock_def bindR_eq_Inr)

lemma set_nextPtr_Inr:
  "set_nextPtr a q d = Inr d' \<longleftrightarrow> (\<exists>n. heap d a = Some n \<and> d' = put a (n\<lparr>nextPtr := q\<rparr>) d)"
  by (auto simp: set_nextPtr_def bindR_eq_Inr)

lemma read_data_Inr:
  "read_data a m = Inr s \<longleftrightarrow>
     (\<exists>n. heap (fst m) a = Some n \<and> s = td_data n \<and> (s = None \<or> a \<notin> snd m))"
  by (cases "heap (fst m) a") (auto simp: read_data_def bindR_eq_Inr)

lemmas mem_Inr = bindR_eq_Inr lock_op_Inr set_nextPtr_Inr read_data_Inr

section \<open>Locks held\<close>

text \<open>
  The locks a thread holds: a node for reading, a node for writing, a datum for writing. The
  first argument is the head of the list, which \<open>Head\<close> stands for.
\<close>

type_synonym held = "addr option \<times> addr option \<times> addr option"

fun at_ref :: "addr option \<Rightarrow> node_ref \<Rightarrow> addr option" where
  "at_ref h Head = h"
| "at_ref h (Node c) = Some c"

fun held_search :: "addr option \<Rightarrow> search_pc \<Rightarrow> held" where
  "held_search h (Compare r _) = (at_ref h r, None, None)"
| "held_search h (Advance r) = (at_ref h r, None, None)"
| "held_search h (Unlock _ a _) = (Some a, None, None)"
| "held_search h (Found r _) = (at_ref h r, None, None)"
| "held_search h _ = (None, None, None)"

fun held_set :: "addr \<Rightarrow> set_pc \<Rightarrow> held" where
  "held_set a S_lock_node = (None, None, None)"
| "held_set a S_lock_data = (Some a, None, None)"
| "held_set a S_unlock_node = (Some a, None, None)"
| "held_set a _ = (Some a, None, Some a)"

fun held_clear :: "addr \<Rightarrow> clear_pc \<Rightarrow> held" where
  "held_clear a C_lock_node = (None, None, None)"
| "held_clear a C_lock_data = (Some a, None, None)"
| "held_clear a C_unlock_node = (Some a, None, None)"
| "held_clear a _ = (Some a, None, Some a)"

fun held_add :: "add_pc \<Rightarrow> held" where
  "held_add (A_next _ c) = (Some c, None, None)"
| "held_add (A_unlock _ p _) = (Some p, None, None)"
| "held_add (A_link _ p) = (None, Some p, None)"
| "held_add (A_link_next _ p) = (None, Some p, None)"
| "held_add (A_release _ p) = (None, Some p, None)"
| "held_add _ = (None, None, None)"

fun held :: "addr option \<Rightarrow> pc \<Rightarrow> held" where
  "held h (Search s) = held_search h s"
| "held h (Release r a) = (Some a, None, None)"
| "held h (Setting a s) = held_set a s"
| "held h (Clearing a s) = held_clear a s"
| "held h (Cloning r a s) = (Some a, None, None)"
| "held h (Adding s) = held_add s"
| "held h _ = (None, None, None)"

text \<open>How many threads of a list satisfy a condition.\<close>

definition cnt :: "('a \<Rightarrow> bool) \<Rightarrow> 'a list \<Rightarrow> nat" where
  "cnt f xs = length (filter f xs)"

lemma cnt_update:
  "i < length xs \<Longrightarrow> cnt f (xs[i := y]) + (if f (xs ! i) then 1 else 0) = cnt f xs + (if f y then 1 else 0)"
proof (induction xs arbitrary: i)
  case (Cons x xs)
  then show ?case by (cases i) (auto simp: cnt_def)
qed simp

lemma cnt_pos: "i < length xs \<Longrightarrow> f (xs ! i) \<Longrightarrow> cnt f xs > 0"
  unfolding cnt_def by (metis length_greater_0_conv filter_empty_conv nth_mem)

lemma cnt_zero: "cnt f xs = 0 \<longleftrightarrow> (\<forall>x\<in>set xs. \<not> f x)"
  by (simp add: cnt_def filter_empty_conv)

lemma cnt_one:
  assumes "cnt f xs \<le> 1" and "i < length xs" "f (xs ! i)" and "j < length xs" "f (xs ! j)"
  shows "i = j"
proof (rule ccontr)
  assume ne: "i \<noteq> j"
  have "cnt f xs = card {k. k < length xs \<and> f (xs ! k)}"
    by (simp add: cnt_def length_filter_conv_card)
  moreover have "card {i, j} \<le> card {k. k < length xs \<and> f (xs ! k)}"
    by (rule card_mono) (use assms in auto)
  ultimately show False using assms(1) ne by simp
qed

definition readers :: "addr \<Rightarrow> held list \<Rightarrow> nat" where
  "readers a H = cnt (\<lambda>(r, w, e). r = Some a) H"
definition writers :: "addr \<Rightarrow> held list \<Rightarrow> nat" where
  "writers a H = cnt (\<lambda>(r, w, e). w = Some a) H"
definition editors :: "addr \<Rightarrow> held list \<Rightarrow> nat" where
  "editors a H = cnt (\<lambda>(r, w, e). e = Some a) H"

lemmas held_count_defs = readers_def writers_def editors_def

text \<open>The locks of a node are as the threads hold them; nobody holds a lock of no node.\<close>

definition node_held :: "topicData \<Rightarrow> addr \<Rightarrow> held list \<Rightarrow> bool" where
  "node_held n a H \<longleftrightarrow>
     (writers a H = 0 \<and> node_lock n = Readers (readers a H) \<or>
      writers a H = 1 \<and> readers a H = 0 \<and> node_lock n = Writer) \<and>
     (editors a H = 0 \<and> data_lock n = Unlocked \<or> editors a H = 1 \<and> data_lock n = Writer)"

definition locks_held :: "db \<Rightarrow> held list \<Rightarrow> bool" where
  "locks_held d H \<longleftrightarrow>
     (\<forall>a. case heap d a of
            None \<Rightarrow> readers a H = 0 \<and> writers a H = 0 \<and> editors a H = 0
          | Some n \<Rightarrow> node_held n a H)"

lemma locks_heldD: "locks_held d H \<Longrightarrow> heap d a = Some n \<Longrightarrow> node_held n a H"
  unfolding locks_held_def by (metis option.simps(5))

definition same_locks :: "db \<Rightarrow> db \<Rightarrow> bool" where
  "same_locks d d' \<longleftrightarrow>
     (\<forall>a. case heap d a of
            None \<Rightarrow> (\<forall>n'. heap d' a = Some n' \<longrightarrow> unlocked n')
          | Some n \<Rightarrow> (\<exists>n'. heap d' a = Some n' \<and> node_lock n' = node_lock n \<and>
                              data_lock n' = data_lock n))"

text \<open>A step of one thread takes or gives back at most one lock.\<close>

inductive lock_move :: "held \<Rightarrow> db \<Rightarrow> held \<Rightarrow> db \<Rightarrow> bool" where
  stay: "same_locks d d' \<Longrightarrow> lock_move h d h d'"
| rlock: "topicNodeRLock a d = Inr d' \<Longrightarrow> lock_move (None, None, e) d (Some a, None, e) d'"
| runlock: "topicNodeUnlock a d = Inr d' \<Longrightarrow> lock_move (Some a, None, e) d (None, None, e) d'"
| wlock: "topicNodeWLock a d = Inr d' \<Longrightarrow> lock_move (None, None, e) d (None, Some a, e) d'"
| wunlock: "topicNodeUnlock a d = Inr d' \<Longrightarrow> lock_move (None, Some a, e) d (None, None, e) d'"
| dlock: "topicDataWLock a d = Inr d' \<Longrightarrow> lock_move (r, w, None) d (r, w, Some a) d'"
| dunlock: "topicDataUnlock a d = Inr d' \<Longrightarrow> lock_move (r, w, Some a) d (r, w, None) d'"

lemma held_counts_update:
  assumes "i < length H" "H ! i = (r, w, e)"
  shows "readers a (H[i := (r', w', e')]) + (if r = Some a then 1 else 0) =
      readers a H + (if r' = Some a then 1 else 0)"
    and "writers a (H[i := (r', w', e')]) + (if w = Some a then 1 else 0) =
      writers a H + (if w' = Some a then 1 else 0)"
    and "editors a (H[i := (r', w', e')]) + (if e = Some a then 1 else 0) =
      editors a H + (if e' = Some a then 1 else 0)"
  using cnt_update [OF assms(1)] assms(2) unfolding held_count_defs
  by (metis (mono_tags, lifting) case_prod_conv)+

lemma held_counts_pos:
  assumes "i < length H" "H ! i = (r, w, e)"
  shows "r = Some a \<Longrightarrow> readers a H > 0" "w = Some a \<Longrightarrow> writers a H > 0" "e = Some a \<Longrightarrow> editors a H > 0"
  using assms cnt_pos [of i H] unfolding held_count_defs by auto

lemma locks_held_stay:
  assumes "locks_held d H" and "same_locks d d'" shows "locks_held d' H"
  unfolding locks_held_def
proof
  fix a
  from assms(1) have h: "case heap d a of None \<Rightarrow> readers a H = 0 \<and> writers a H = 0 \<and> editors a H = 0
      | Some n \<Rightarrow> node_held n a H" by (simp add: locks_held_def)
  from assms(2) have s: "case heap d a of None \<Rightarrow> (\<forall>n'. heap d' a = Some n' \<longrightarrow> unlocked n')
      | Some n \<Rightarrow> (\<exists>n'. heap d' a = Some n' \<and> node_lock n' = node_lock n \<and> data_lock n' = data_lock n)"
    by (simp add: same_locks_def)
  show "case heap d' a of None \<Rightarrow> readers a H = 0 \<and> writers a H = 0 \<and> editors a H = 0
      | Some n \<Rightarrow> node_held n a H"
    using h s by (auto simp: node_held_def unlocked_def split: option.splits)
qed

text \<open>Where a move changes one node, the others are as they were.\<close>

lemma locks_held_put:
  assumes H: "locks_held d H" and i: "i < length H" "H ! i = (r, w, e)"
    and a: "heap d a = Some n" and n': "node_held n' a (H[i := (r', w', e')])"
    and oth: "\<And>b. b \<noteq> a \<Longrightarrow> (r = Some b \<longleftrightarrow> r' = Some b) \<and> (w = Some b \<longleftrightarrow> w' = Some b) \<and>
      (e = Some b \<longleftrightarrow> e' = Some b)"
  shows "locks_held (put a n' d) (H[i := (r', w', e')])"
  unfolding locks_held_def
proof
  fix b
  let ?H = "H[i := (r', w', e')]"
  show "case heap (put a n' d) b of
      None \<Rightarrow> readers b ?H = 0 \<and> writers b ?H = 0 \<and> editors b ?H = 0 | Some n \<Rightarrow> node_held n b ?H"
  proof (cases "b = a")
    case True
    with n' show ?thesis by simp
  next
    case False
    have "readers b ?H = readers b H" "writers b ?H = writers b H" "editors b ?H = editors b H"
      using held_counts_update [OF i, of b r' w' e'] oth [OF False] by (auto split: if_splits)
    moreover from H have "case heap d b of None \<Rightarrow> readers b H = 0 \<and> writers b H = 0 \<and> editors b H = 0
      | Some n \<Rightarrow> node_held n b H" by (simp add: locks_held_def)
    ultimately show ?thesis using False by (auto simp: node_held_def split: option.splits)
  qed
qed

lemma locks_held_move:
  assumes m: "lock_move h d h' d'" and H: "locks_held d H" and i: "i < length H" "H ! i = h"
  shows "locks_held d' (H[i := h'])"
  using m H i
proof cases
  case stay
  with H i locks_held_stay show ?thesis by auto
next
  case (rlock a e)
  then obtain n l where n: "heap d a = Some n" "rdlock (node_lock n) = Inr l"
    "d' = put a (n\<lparr>node_lock := l\<rparr>) d" by (auto simp: lock_op_Inr)
  with rlock i held_counts_update [OF i(1), of None None e a "Some a" None e] locks_heldD [OF H n(1)]
  have "node_held (n\<lparr>node_lock := l\<rparr>) a (H[i := h'])"
    by (auto simp: node_held_def elim!: rdlockE)
  then show ?thesis
    using rlock i n locks_held_put [OF H i(1) _ n(1), of None None e] by simp
next
  case (runlock a e)
  then obtain n l where n: "heap d a = Some n" "unlock (node_lock n) = Inr l"
    "d' = put a (n\<lparr>node_lock := l\<rparr>) d" by (auto simp: lock_op_Inr)
  have "node_held (n\<lparr>node_lock := l\<rparr>) a (H[i := h'])"
    using n runlock i held_counts_update [OF i(1), of "Some a" None e a None None e]
      locks_heldD [OF H n(1)] held_counts_pos(1) [of i H "Some a" None e a]
    by (auto simp: node_held_def elim!: unlockE)
  then show ?thesis
    using runlock i n locks_held_put [OF H i(1) _ n(1), of "Some a" None e] by simp
next
  case (wlock a e)
  then obtain n l where n: "heap d a = Some n" "wrlock (node_lock n) = Inr l"
    "d' = put a (n\<lparr>node_lock := l\<rparr>) d" by (auto simp: lock_op_Inr)
  have "node_held (n\<lparr>node_lock := l\<rparr>) a (H[i := h'])"
    using n wlock i held_counts_update [OF i(1), of None None e a None "Some a" e]
      locks_heldD [OF H n(1)]
    by (auto simp: node_held_def elim!: wrlockE)
  then show ?thesis
    using wlock i n locks_held_put [OF H i(1) _ n(1), of None None e] by simp
next
  case (wunlock a e)
  then obtain n l where n: "heap d a = Some n" "unlock (node_lock n) = Inr l"
    "d' = put a (n\<lparr>node_lock := l\<rparr>) d" by (auto simp: lock_op_Inr)
  have "node_held (n\<lparr>node_lock := l\<rparr>) a (H[i := h'])"
    using n wunlock i held_counts_update [OF i(1), of None "Some a" e a None None e]
      locks_heldD [OF H n(1)] held_counts_pos(2) [of i H None "Some a" e a]
    by (auto simp: node_held_def elim!: unlockE)
  then show ?thesis
    using wunlock i n locks_held_put [OF H i(1) _ n(1), of None "Some a" e] by simp
next
  case (dlock a r w)
  then obtain n l where n: "heap d a = Some n" "wrlock (data_lock n) = Inr l"
    "d' = put a (n\<lparr>data_lock := l\<rparr>) d" by (auto simp: lock_op_Inr)
  have "node_held (n\<lparr>data_lock := l\<rparr>) a (H[i := h'])"
    using n dlock i held_counts_update [OF i(1), of r w None a r w "Some a"]
      locks_heldD [OF H n(1)]
    by (auto simp: node_held_def elim!: wrlockE)
  then show ?thesis
    using dlock i n locks_held_put [OF H i(1) _ n(1), of r w None] by simp
next
  case (dunlock a r w)
  then obtain n l where n: "heap d a = Some n" "unlock (data_lock n) = Inr l"
    "d' = put a (n\<lparr>data_lock := l\<rparr>) d" by (auto simp: lock_op_Inr)
  have "node_held (n\<lparr>data_lock := l\<rparr>) a (H[i := h'])"
    using n dunlock i held_counts_update [OF i(1), of r w "Some a" a r w None]
      locks_heldD [OF H n(1)] held_counts_pos(3) [of i H r w "Some a" a]
    by (auto simp: node_held_def elim!: unlockE)
  then show ?thesis
    using dunlock i n locks_held_put [OF H i(1) _ n(1), of r w "Some a"] by simp
qed

end
