(* ===== verification/ThreadsInv.thy ===== *)
theory ThreadsInv
  imports ThreadLocks
begin

text \<open>
  Several threads on the topic database, none of which deletes topics. The list then only
  grows, and only at its end. The invariant of a thread says what its local variables point
  to: the list began with the nodes \<open>as\<close>, whose paths are \<open>P\<close>, and now has the nodes
  \<open>bs\<close>, at most one more. This theory shows what one step of one thread does.
\<close>

section \<open>The list\<close>

definition list_ok :: "addr list \<Rightarrow> (addr \<Rightarrow> cstring) \<Rightarrow> addr list \<Rightarrow> db \<Rightarrow> bool" where
  "list_ok as P bs d \<longleftrightarrow>
     path_to (heap d) (topicDB d) bs None \<and> distinct bs \<and> (bs = as \<or> (\<exists>k. bs = as @ [k])) \<and>
     (\<forall>a\<in>set as. \<exists>n. heap d a = Some n \<and> td_path n = P a) \<and> (\<forall>a\<in>dom (heap d). a < brk d)"

text \<open>How many nodes a thread at a node can still pass, one that may be added included.\<close>

definition rem :: "addr list \<Rightarrow> addr option \<Rightarrow> nat" where
  "rem as p = (case p of None \<Rightarrow> 0 | Some c \<Rightarrow> Suc (length (dropWhile (\<lambda>x. x \<noteq> c) as)))"

definition clear_to :: "addr list \<Rightarrow> (addr \<Rightarrow> cstring) \<Rightarrow> cstring option \<Rightarrow> addr \<Rightarrow> bool" where
  "clear_to as P p a \<longleftrightarrow> (\<forall>b\<in>set (takeWhile (\<lambda>x. x \<noteq> a) as). Some (P b) \<noteq> p)"

definition not_in :: "addr list \<Rightarrow> (addr \<Rightarrow> cstring) \<Rightarrow> cstring option \<Rightarrow> bool" where
  "not_in as P p \<longleftrightarrow> (\<forall>b\<in>set as. Some (P b) \<noteq> p)"

definition ahead :: "addr list \<Rightarrow> (addr \<Rightarrow> cstring) \<Rightarrow> addr list \<Rightarrow> cstring option \<Rightarrow>
    addr option \<Rightarrow> bool" where
  "ahead as P bs p cur \<longleftrightarrow>
     (case cur of None \<Rightarrow> not_in as P p | Some c \<Rightarrow> c \<in> set bs \<and> clear_to as P p c)"

definition hit :: "addr list \<Rightarrow> (addr \<Rightarrow> cstring) \<Rightarrow> addr list \<Rightarrow> db \<Rightarrow> cstring option \<Rightarrow>
    addr \<Rightarrow> bool" where
  "hit as P bs d p a \<longleftrightarrow>
     a \<in> set bs \<and> clear_to as P p a \<and> (\<exists>n. heap d a = Some n \<and> Some (td_path n) = p)"

lemma list_ok_node: "list_ok as P bs d \<Longrightarrow> a \<in> set bs \<Longrightarrow> \<exists>n. heap d a = Some n"
  unfolding list_ok_def using path_to_alloc by blast

lemma list_ok_fresh: "list_ok as P bs d \<Longrightarrow> heap d (brk d) = None"
  unfolding list_ok_def by (metis domIff nless_le)

lemma takeWhile_split:
  "distinct (us @ a # vs) \<Longrightarrow> us @ a # vs = as \<or> us @ a # vs = as @ [k] \<Longrightarrow>
   takeWhile (\<lambda>x. x \<noteq> a) as = us"
  by (cases vs rule: rev_cases) (auto simp: takeWhile_append)

lemma list_ok_next:
  assumes l: "list_ok as P bs d" and a: "a \<in> set bs" and n: "heap d a = Some n"
  obtains us vs where "bs = us @ a # vs"
    "nextPtr n = (case vs of [] \<Rightarrow> None | c # _ \<Rightarrow> Some c)" "takeWhile (\<lambda>x. x \<noteq> a) as = us"
proof -
  from a obtain us vs where b: "bs = us @ a # vs" by (meson split_list)
  with l n have "path_to (heap d) (nextPtr n) vs None" by (auto simp: list_ok_def path_to_append)
  then have "nextPtr n = (case vs of [] \<Rightarrow> None | c # _ \<Rightarrow> Some c)" by (cases vs) auto
  moreover have "takeWhile (\<lambda>x. x \<noteq> a) as = us"
    using l b takeWhile_split unfolding list_ok_def by metis
  ultimately show ?thesis using that b by blast
qed

lemma list_ok_next_in:
  assumes "list_ok as P bs d" "a \<in> set bs" "heap d a = Some n" "nextPtr n = Some c"
  shows "c \<in> set bs"
  by (rule list_ok_next [OF assms(1-3)]) (use assms(4) in \<open>auto split: list.splits\<close>)

lemma ahead_next:
  assumes l: "list_ok as P bs d" and a: "a \<in> set bs" "clear_to as P p a"
    and n: "heap d a = Some n" "Some (td_path n) \<noteq> p"
  shows "ahead as P bs p (nextPtr n)"
proof (rule list_ok_next [OF l a(1) n(1)])
  fix us vs
  assume b: "bs = us @ a # vs" "nextPtr n = (case vs of [] \<Rightarrow> None | c # _ \<Rightarrow> Some c)"
    "takeWhile (\<lambda>x. x \<noteq> a) as = us"
  have aa: "Some (P a) \<noteq> p" if "a \<in> set as" using l n that by (auto simp: list_ok_def)
  have us: "\<forall>x\<in>set us. Some (P x) \<noteq> p" using a(2) b(3) by (simp add: clear_to_def)
  show "ahead as P bs p (nextPtr n)"
  proof (cases vs)
    case Nil
    have "set as \<subseteq> set bs" using l by (auto simp: list_ok_def)
    also have "set bs = insert a (set us)" using b(1) Nil by simp
    finally show ?thesis using aa us Nil b(2) by (auto simp: ahead_def not_in_def)
  next
    case (Cons c ws)
    have "takeWhile (\<lambda>x. x \<noteq> c) as = us @ [a]"
    proof -
      have "bs = (us @ [a]) @ c # ws" using b Cons by simp
      with l show ?thesis using takeWhile_split [of "us @ [a]" c ws as] unfolding list_ok_def by metis
    qed
    moreover from this have "a \<in> set as" by (metis in_set_conv_decomp set_takeWhileD)
    ultimately show ?thesis using aa us b Cons by (auto simp: ahead_def clear_to_def)
  qed
qed

lemma ahead_head:
  assumes l: "list_ok as P bs d" shows "ahead as P bs p (topicDB d)"
proof (cases "topicDB d")
  case None
  with l have "bs = []" by (cases bs) (auto simp: list_ok_def)
  with l None show ?thesis by (auto simp: ahead_def not_in_def list_ok_def)
next
  case (Some a)
  with l obtain vs where b: "bs = a # vs" by (cases bs) (auto simp: list_ok_def)
  then have "takeWhile (\<lambda>x. x \<noteq> a) as = []"
    using l takeWhile_split [of "[]" a vs as] unfolding list_ok_def by (metis append_Nil)
  with Some b show ?thesis by (simp add: ahead_def clear_to_def)
qed

lemma rem_bound: "rem as p \<le> Suc (length as)"
  by (simp add: rem_def length_dropWhile_le split: option.splits)

lemma rem_next:
  assumes l: "list_ok as P bs d" and a: "a \<in> set bs" and n: "heap d a = Some n"
  shows "rem as (nextPtr n) < rem as (Some a)"
proof (rule list_ok_next [OF l a n])
  fix us vs
  assume b: "bs = us @ a # vs" "nextPtr n = (case vs of [] \<Rightarrow> None | c # _ \<Rightarrow> Some c)"
    "takeWhile (\<lambda>x. x \<noteq> a) as = us"
  show "rem as (nextPtr n) < rem as (Some a)"
  proof (cases vs)
    case Nil
    with b show ?thesis by (simp add: rem_def)
  next
    case (Cons c ws)
    have t: "takeWhile (\<lambda>x. x \<noteq> c) as = us @ [a]"
    proof -
      have "bs = (us @ [a]) @ c # ws" using b Cons by simp
      with l show ?thesis using takeWhile_split [of "us @ [a]" c ws as] unfolding list_ok_def by metis
    qed
    have L: "length (dropWhile Q as) = length as - length (takeWhile Q as)" for Q
      by (metis add_diff_cancel_left' length_append takeWhile_dropWhile_id)
    have "length (us @ [a]) \<le> length as" using t by (metis length_takeWhile_le)
    then show ?thesis using b t Cons by (simp add: rem_def L)
  qed
qed

section \<open>What a thread knows\<close>

fun search_ok :: "addr list \<Rightarrow> (addr \<Rightarrow> cstring) \<Rightarrow> addr list \<Rightarrow> db \<Rightarrow> cstring option \<Rightarrow>
    search_pc \<Rightarrow> bool" where
  "search_ok as P bs d p Enter = True"
| "search_ok as P bs d p (Lock r _) =
     (\<exists>a. at_ref (topicDB d) r = Some a \<and> a \<in> set bs \<and> clear_to as P p a)"
| "search_ok as P bs d p (Compare r _) =
     (\<exists>a. at_ref (topicDB d) r = Some a \<and> a \<in> set bs \<and> clear_to as P p a)"
| "search_ok as P bs d p (Advance r) =
     (\<exists>a n. at_ref (topicDB d) r = Some a \<and> a \<in> set bs \<and> clear_to as P p a \<and>
            heap d a = Some n \<and> Some (td_path n) \<noteq> p)"
| "search_ok as P bs d p (Unlock r a cur) =
     (at_ref (topicDB d) r = Some a \<and> a \<in> set bs \<and> ahead as P bs p cur)"
| "search_ok as P bs d p (Loop _ cur) = ahead as P bs p cur"
| "search_ok as P bs d p (Found r _) =
     (\<exists>a. at_ref (topicDB d) r = Some a \<and> hit as P bs d p a)"
| "search_ok as P bs d p Missing = not_in as P p"

definition fresh :: "addr list \<Rightarrow> db \<Rightarrow> addr \<Rightarrow> bool" where
  "fresh bs d k \<longleftrightarrow> k \<notin> set bs \<and> heap d k \<noteq> None"

fun clone_ok :: "addr list \<Rightarrow> db \<Rightarrow> addr \<Rightarrow> clone_pc \<Rightarrow> bool" where
  "clone_ok bs d a (K_size k) = fresh bs d k"
| "clone_ok bs d a (K_data k z) =
     (fresh bs d k \<and> (z \<noteq> None \<longrightarrow> (\<exists>n. heap d a = Some n \<and> td_data n \<noteq> None)))"
| "clone_ok bs d a (K_times k _) = fresh bs d k"
| "clone_ok bs d a _ = True"

definition new_at :: "addr list \<Rightarrow> db \<Rightarrow> cstring \<Rightarrow> addr \<Rightarrow> bool" where
  "new_at bs d p k \<longleftrightarrow> k \<notin> set bs \<and> (\<exists>n. heap d k = Some n \<and> nextPtr n = None \<and> td_path n = p)"

definition added :: "addr list \<Rightarrow> addr list \<Rightarrow> db \<Rightarrow> cstring \<Rightarrow> addr \<Rightarrow> bool" where
  "added as bs d p k \<longleftrightarrow> bs = as @ [k] \<and> (\<exists>n. heap d k = Some n \<and> nextPtr n = None \<and> td_path n = p)"

definition next_is :: "addr list \<Rightarrow> db \<Rightarrow> addr \<Rightarrow> addr option \<Rightarrow> bool" where
  "next_is bs d a q \<longleftrightarrow> a \<in> set bs \<and> (\<exists>n. heap d a = Some n \<and> nextPtr n = q)"

fun add_ok :: "addr list \<Rightarrow> addr list \<Rightarrow> db \<Rightarrow> cstring \<Rightarrow> add_pc \<Rightarrow> bool" where
  "add_ok as bs d p A_malloc = (bs = as)"
| "add_ok as bs d p (A_head k) = (bs = as \<and> new_at bs d p k)"
| "add_ok as bs d p (A_loop k prev cur) =
     (bs = as \<and> new_at bs d p k \<and>
      (case prev of None \<Rightarrow> cur = topicDB d | Some b \<Rightarrow> next_is bs d b cur))"
| "add_ok as bs d p (A_next k c) = (bs = as \<and> new_at bs d p k \<and> c \<in> set bs)"
| "add_ok as bs d p (A_unlock k b cur) = (bs = as \<and> new_at bs d p k \<and> next_is bs d b cur)"
| "add_ok as bs d p (A_first k) = (bs = as \<and> new_at bs d p k \<and> topicDB d = None)"
| "add_ok as bs d p (A_set_head k) = (bs = as \<and> new_at bs d p k \<and> topicDB d = None)"
| "add_ok as bs d p (A_lock k b) = (bs = as \<and> new_at bs d p k \<and> next_is bs d b None)"
| "add_ok as bs d p (A_link k b) = (bs = as \<and> new_at bs d p k \<and> next_is bs d b None)"
| "add_ok as bs d p (A_link_next k b) = (added as bs d p k \<and> b \<in> set as)"
| "add_ok as bs d p (A_release k b) = (added as bs d p k \<and> b \<in> set as)"

fun is_add :: "task \<Rightarrow> bool" where
  "is_add (AddTopic _ _ _) = True" | "is_add _ = False"

fun is_clone :: "task \<Rightarrow> bool" where
  "is_clone (CloneTopic _) = True" | "is_clone _ = False"

fun is_delete :: "task \<Rightarrow> bool" where
  "is_delete (DeleteTopic _) = True" | "is_delete _ = False"

text \<open>The tasks that write the datum or the times of a topic that is there.\<close>

fun is_writer :: "task \<Rightarrow> bool" where
  "is_writer (SetTopic _ _ _ _ _) = True"
| "is_writer (UpdateTopicData _ _ _ _) = True"
| "is_writer (DeleteTopicData _) = True"
| "is_writer _ = False"

fun new_path :: "task \<Rightarrow> cstring" where
  "new_path (AddTopic path sz tma) = td_path (new_topic (the path) sz tma)"
| "new_path _ = []"

fun pc_ok :: "addr list \<Rightarrow> (addr \<Rightarrow> cstring) \<Rightarrow> addr list \<Rightarrow> db \<Rightarrow> task \<Rightarrow> pc \<Rightarrow> bool" where
  "pc_ok as P bs d t (Search s) =
     (\<not> is_add t \<and> \<not> is_delete t \<and> search_ok as P bs d (task_path t) s)"
| "pc_ok as P bs d t (Release r a) =
     (\<not> is_add t \<and> \<not> is_delete t \<and> \<not> is_clone t \<and> at_ref (topicDB d) r = Some a \<and>
      hit as P bs d (task_path t) a)"
| "pc_ok as P bs d t (Got topic) =
     (\<not> is_add t \<and> \<not> is_delete t \<and> \<not> is_clone t \<and>
      (case topic of None \<Rightarrow> not_in as P (task_path t) | Some a \<Rightarrow> hit as P bs d (task_path t) a))"
| "pc_ok as P bs d t (Setting a s) =
     ((\<exists>p data sz tma dma. t = SetTopic p data sz tma dma) \<and> a \<in> set bs)"
| "pc_ok as P bs d t (Clearing a s) = ((\<exists>p. t = DeleteTopicData p) \<and> a \<in> set bs)"
| "pc_ok as P bs d t (Cloning r a s) =
     (is_clone t \<and> at_ref (topicDB d) r = Some a \<and> a \<in> set bs \<and> clone_ok bs d a s)"
| "pc_ok as P bs d t (Adding s) = (is_add t \<and> add_ok as bs d (new_path t) s)"
| "pc_ok as P bs d t (Deleting s) = False"
| "pc_ok as P bs d t (Done v) =
     ((case t of
        GetTopic p \<Rightarrow> (case v of
            Ptr None \<Rightarrow> not_in as P p | Ptr (Some a) \<Rightarrow> hit as P bs d p a | Status _ \<Rightarrow> False)
      | AddTopic _ _ _ \<Rightarrow>
          (if v = Status 1 then \<exists>k. added as bs d (new_path t) k else bs = as)
      | _ \<Rightarrow> \<not> is_delete t))"

section \<open>What the others may do\<close>

text \<open>Only locks, data and times change; nodes may be allocated.\<close>

definition same_list :: "db \<Rightarrow> db \<Rightarrow> bool" where
  "same_list d d' \<longleftrightarrow>
     topicDB d' = topicDB d \<and> (\<forall>a\<in>dom (heap d'). a \<in> dom (heap d) \<or> a = brk d \<and> brk d < brk d') \<and>
     brk d \<le> brk d' \<and>
     (\<forall>a n. heap d a = Some n \<longrightarrow>
        (\<exists>n'. heap d' a = Some n' \<and> td_path n' = td_path n \<and> nextPtr n' = nextPtr n))"

definition same_data :: "addr list \<Rightarrow> db \<Rightarrow> db \<Rightarrow> bool" where
  "same_data bs d d' \<longleftrightarrow>
     (\<forall>a\<in>set bs. map_option td_data (heap d' a) = map_option td_data (heap d a))"

text \<open>The list grows: nodes keep path and datum, the head stays unless the list was empty.\<close>

definition grown :: "db \<Rightarrow> db \<Rightarrow> bool" where
  "grown d d' \<longleftrightarrow>
     (topicDB d \<noteq> None \<longrightarrow> topicDB d' = topicDB d) \<and>
     (\<forall>a n. heap d a = Some n \<longrightarrow>
        (\<exists>n'. heap d' a = Some n' \<and> td_path n' = td_path n \<and> td_data n' = td_data n))"

text \<open>The node a thread has allocated and not linked yet.\<close>

fun own :: "pc \<Rightarrow> addr option" where
  "own (Cloning _ _ (K_size k)) = Some k"
| "own (Cloning _ _ (K_data k _)) = Some k"
| "own (Cloning _ _ (K_times k _)) = Some k"
| "own (Adding (A_head k)) = Some k"
| "own (Adding (A_loop k _ _)) = Some k"
| "own (Adding (A_next k _)) = Some k"
| "own (Adding (A_unlock k _ _)) = Some k"
| "own (Adding (A_first k)) = Some k"
| "own (Adding (A_set_head k)) = Some k"
| "own (Adding (A_lock k _)) = Some k"
| "own (Adding (A_link k _)) = Some k"
| "own _ = None"

lemma same_list_node:
  "same_list d d' \<Longrightarrow> heap d a = Some n \<Longrightarrow>
   \<exists>n'. heap d' a = Some n' \<and> td_path n' = td_path n \<and> nextPtr n' = nextPtr n"
  by (simp add: same_list_def)

lemma same_list_head: "same_list d d' \<Longrightarrow> topicDB d' = topicDB d"
  by (simp add: same_list_def)

lemma list_ok_same:
  assumes l: "list_ok as P bs d" and s: "same_list d d'" shows "list_ok as P bs d'"
proof -
  have "path_to (heap d') (topicDB d') bs None"
    unfolding same_list_head [OF s]
  proof (rule path_to_frame)
    show "path_to (heap d) (topicDB d) bs None" using l by (simp add: list_ok_def)
    fix a assume "a \<in> set bs"
    then obtain n where "heap d a = Some n" using list_ok_node [OF l] by blast
    with same_list_node [OF s] show "map_option nextPtr (heap d' a) = map_option nextPtr (heap d a)"
      by fastforce
  qed
  moreover have "\<exists>n. heap d' a = Some n \<and> td_path n = P a" if "a \<in> set as" for a
    using l same_list_node [OF s] that unfolding list_ok_def by metis
  moreover have "a < brk d'" if "a \<in> dom (heap d')" for a
  proof -
    have "a \<in> dom (heap d) \<or> a = brk d \<and> brk d < brk d'" "brk d \<le> brk d'"
      using s that by (simp_all add: same_list_def)
    moreover have "a \<in> dom (heap d) \<Longrightarrow> a < brk d" using l by (simp add: list_ok_def)
    ultimately show ?thesis by linarith
  qed
  ultimately show ?thesis using l by (simp add: list_ok_def)
qed

lemma hit_same: "hit as P bs d p a \<Longrightarrow> same_list d d' \<Longrightarrow> hit as P bs d' p a"
  unfolding hit_def by (metis same_list_node)

lemma fresh_same: "fresh bs d k \<Longrightarrow> same_list d d' \<Longrightarrow> fresh bs d' k"
  unfolding fresh_def by (metis not_Some_eq same_list_node)

lemma new_at_same: "new_at bs d p k \<Longrightarrow> same_list d d' \<Longrightarrow> new_at bs d' p k"
  unfolding new_at_def by (metis same_list_node)

lemma added_same: "added as bs d p k \<Longrightarrow> same_list d d' \<Longrightarrow> added as bs d' p k"
  unfolding added_def by (metis same_list_node)

lemma next_is_same: "next_is bs d a q \<Longrightarrow> same_list d d' \<Longrightarrow> next_is bs d' a q"
  unfolding next_is_def by (metis same_list_node)

lemmas facts_same = hit_same fresh_same new_at_same added_same next_is_same

lemma search_ok_same:
  "search_ok as P bs d p s \<Longrightarrow> same_list d d' \<Longrightarrow> search_ok as P bs d' p s"
  by (cases s) (auto simp: same_list_head hit_same dest: same_list_node)

lemma clone_ok_same:
  "clone_ok bs d a s \<Longrightarrow> a \<in> set bs \<Longrightarrow> same_list d d' \<Longrightarrow> same_data bs d d' \<Longrightarrow> clone_ok bs d' a s"
  by (cases s) (force simp: fresh_same same_data_def)+

lemma add_ok_same: "add_ok as bs d p s \<Longrightarrow> same_list d d' \<Longrightarrow> add_ok as bs d' p s"
  by (cases s) (auto simp: same_list_head facts_same split: option.splits)

lemma pc_ok_same:
  assumes "pc_ok as P bs d t q" and "same_list d d'" and "is_clone t \<Longrightarrow> same_data bs d d'"
  shows "pc_ok as P bs d' t q"
  using assms
  by (cases q) (auto simp: same_list_head search_ok_same clone_ok_same add_ok_same facts_same
      intro: added_same split: option.splits task.splits return.splits if_splits)

lemma grown_node:
  "grown d d' \<Longrightarrow> heap d a = Some n \<Longrightarrow>
   \<exists>n'. heap d' a = Some n' \<and> td_path n' = td_path n \<and> td_data n' = td_data n"
  by (simp add: grown_def)

lemma grown_ref: "grown d d' \<Longrightarrow> at_ref (topicDB d) r = Some a \<Longrightarrow> at_ref (topicDB d') r = Some a"
  by (cases r) (auto simp: grown_def)

lemma ahead_grown: "ahead as P as p cur \<Longrightarrow> ahead as P (as @ [k]) p cur"
  by (auto simp: ahead_def split: option.splits)

lemma hit_grown: "hit as P as d p a \<Longrightarrow> grown d d' \<Longrightarrow> hit as P (as @ [k]) d' p a"
  unfolding hit_def using grown_node [of d d' a] by fastforce

lemma search_ok_grown:
  "search_ok as P as d p s \<Longrightarrow> grown d d' \<Longrightarrow> search_ok as P (as @ [k]) d' p s"
  by (cases s) (fastforce simp: grown_ref ahead_grown hit_grown dest: grown_node)+

lemma clone_ok_grown:
  "clone_ok as d a s \<Longrightarrow> grown d d' \<Longrightarrow> own (Cloning r a s) \<noteq> Some k \<Longrightarrow> clone_ok (as @ [k]) d' a s"
  by (cases s) (auto simp: fresh_def dest: grown_node)

lemma pc_ok_grown:
  assumes "pc_ok as P as d t q" and "grown d d'" and "\<not> is_add t" and "own q \<noteq> Some k"
  shows "pc_ok as P (as @ [k]) d' t q"
  using assms
  by (cases q) (auto simp: grown_ref search_ok_grown hit_grown intro: clone_ok_grown hit_grown
      split: option.splits task.splits return.splits if_splits)

end
