(* ===== verification/ThreadsStep.thy ===== *)
theory ThreadsStep
  imports ThreadsInv
begin

text \<open>
  One step of one thread: it keeps the list, or lets it grow by the node the thread has
  allocated; it takes or gives back at most one lock; what the thread knows stays true; and it
  comes nearer to its end.
\<close>

section \<open>Distance from the end\<close>

fun ref_rem :: "addr list \<Rightarrow> node_ref \<Rightarrow> nat" where
  "ref_rem as Head = Suc (length as)"
| "ref_rem as (Node c) = rem as (Some c)"

fun search_left :: "addr list \<Rightarrow> search_pc \<Rightarrow> nat" where
  "search_left as Enter = 5 * Suc (length as) + 2"
| "search_left as (Lock r _) = 5 * ref_rem as r"
| "search_left as (Compare r _) = 5 * ref_rem as r - 1"
| "search_left as (Advance r) = 5 * ref_rem as r - 2"
| "search_left as (Unlock _ _ cur) = 5 * rem as cur + 2"
| "search_left as (Loop _ cur) = 5 * rem as cur + 1"
| "search_left as _ = 0"

fun set_left :: "set_pc \<Rightarrow> nat" where
  "set_left S_lock_node = 8" | "set_left S_lock_data = 7" | "set_left S_free = 6"
| "set_left (S_store _) = 5" | "set_left S_topic_ma = 4" | "set_left S_data_ma = 3"
| "set_left S_unlock_data = 2" | "set_left S_unlock_node = 1"

fun clear_left :: "clear_pc \<Rightarrow> nat" where
  "clear_left C_lock_node = 7" | "clear_left C_lock_data = 6" | "clear_left C_free = 5"
| "clear_left C_data_ma = 4" | "clear_left C_data = 3" | "clear_left C_unlock_data = 2"
| "clear_left C_unlock_node = 1"

fun clone_left :: "clone_pc \<Rightarrow> nat" where
  "clone_left K_malloc = 5" | "clone_left (K_size _) = 4" | "clone_left (K_data _ _) = 3"
| "clone_left (K_times _ _) = 2" | "clone_left (K_unlock _) = 1"

fun add_left :: "addr list \<Rightarrow> add_pc \<Rightarrow> nat" where
  "add_left as A_malloc = 3 * Suc (length as) + 8"
| "add_left as (A_head _) = 3 * Suc (length as) + 7"
| "add_left as (A_loop _ _ cur) = 3 * rem as cur + 6"
| "add_left as (A_next _ c) = 3 * rem as (Some c) + 5"
| "add_left as (A_unlock _ _ cur) = 3 * rem as cur + 7"
| "add_left as (A_first _) = 2"
| "add_left as (A_set_head _) = 1"
| "add_left as (A_lock _ _) = 4"
| "add_left as (A_link _ _) = 3"
| "add_left as (A_link_next _ _) = 2"
| "add_left as (A_release _ _) = 1"

fun task_left :: "addr list \<Rightarrow> task \<Rightarrow> nat" where
  "task_left as (CloneTopic _) = 5"
| "task_left as (SetTopic _ _ _ _ _) = 8"
| "task_left as (DeleteTopicData _) = 7"
| "task_left as (UpdateTopicData _ _ _ _) = 5 * Suc (length as) + 13"
| "task_left as _ = 0"

fun left :: "addr list \<Rightarrow> thread \<Rightarrow> nat" where
  "left as (t, Search s) = task_left as t + 3 + search_left as s"
| "left as (t, Release _ _) = task_left as t + 2"
| "left as (t, Got _) = task_left as t + 1"
| "left as (t, Setting _ s) = set_left s"
| "left as (t, Clearing _ s) = clear_left s"
| "left as (t, Cloning _ _ s) = clone_left s"
| "left as (t, Adding s) = add_left as s"
| "left as _ = 0"

section \<open>Changes of memory\<close>

lemma node_of_Inr [simp]: "node_of r d = Inr a \<longleftrightarrow> at_ref (topicDB d) r = Some a"
  by (cases r) auto

lemma same_list_refl [simp]: "same_list d d"
  by (auto simp: same_list_def)

lemma same_data_refl [simp]: "same_data bs d d"
  by (simp add: same_data_def)

lemma same_locks_refl [simp]: "same_locks d d"
  by (auto simp: same_locks_def split: option.splits)

lemma same_list_put:
  "heap d a = Some n \<Longrightarrow> td_path n' = td_path n \<Longrightarrow> nextPtr n' = nextPtr n \<Longrightarrow> same_list d (put a n' d)"
  by (auto simp: same_list_def)

lemma same_data_put: "heap d a = Some n \<Longrightarrow> td_data n' = td_data n \<Longrightarrow> same_data bs d (put a n' d)"
  by (simp add: same_data_def)

lemma same_data_put_other: "a \<notin> set bs \<Longrightarrow> same_data bs d (put a n' d)"
  by (auto simp: same_data_def)

lemma same_locks_put:
  "heap d a = Some n \<Longrightarrow> node_lock n' = node_lock n \<Longrightarrow> data_lock n' = data_lock n \<Longrightarrow>
   same_locks d (put a n' d)"
  by (auto simp: same_locks_def split: option.splits)

lemma same_strings [simp]:
  "same_list d (d\<lparr>strings := k\<rparr>)" "same_data bs d (d\<lparr>strings := k\<rparr>)"
  "same_locks d (d\<lparr>strings := k\<rparr>)"
  by (auto simp: same_list_def same_data_def same_locks_def split: option.splits)

text \<open>Allocating a node at the next free address.\<close>

lemma same_alloc:
  assumes "heap d (brk d) = None" and "unlocked n" and "brk d \<notin> set bs"
    and "d' = init_node (brk d) n (d\<lparr>brk := Suc (brk d), avail := i, strings := j\<rparr>)"
  shows "same_list d d'" "same_data bs d d'" "same_locks d d'" "heap d' (brk d) = Some n"
  using assms
  by (auto simp: same_list_def same_data_def same_locks_def init_node_def split: option.splits)

text \<open>What a step that keeps the list does to memory.\<close>

definition calm :: "addr list \<Rightarrow> bool \<Rightarrow> held \<Rightarrow> db \<Rightarrow> held \<Rightarrow> db \<Rightarrow> bool" where
  "calm bs w h d h' d' \<longleftrightarrow>
     same_list d d' \<and> (\<not> w \<longrightarrow> same_data bs d d') \<and> lock_move h d h' d'"

lemma calm_refl: "h' = h \<Longrightarrow> calm bs w h d h' d"
  by (simp add: calm_def lock_move.stay)

lemma calm_locks:
  "topicNodeRLock a d = Inr d' \<Longrightarrow> calm bs w (None, None, e) d (Some a, None, e) d'"
  "topicNodeUnlock a d = Inr d' \<Longrightarrow> calm bs w (Some a, None, e) d (None, None, e) d'"
  "topicNodeWLock a d = Inr d' \<Longrightarrow> calm bs w (None, None, e) d (None, Some a, e) d'"
  "topicNodeUnlock a d = Inr d' \<Longrightarrow> calm bs w (None, Some a, e) d (None, None, e) d'"
  "topicDataWLock a d = Inr d' \<Longrightarrow> calm bs w (r, x, None) d (r, x, Some a) d'"
  "topicDataUnlock a d = Inr d' \<Longrightarrow> calm bs w (r, x, Some a) d (r, x, None) d'"
  by (auto simp: calm_def lock_op_Inr intro!: same_list_put same_data_put lock_move.intros; fail)+

lemma calm_put:
  "heap d a = Some n \<Longrightarrow> td_path n' = td_path n \<Longrightarrow> nextPtr n' = nextPtr n \<Longrightarrow>
   node_lock n' = node_lock n \<Longrightarrow> data_lock n' = data_lock n \<Longrightarrow>
   w \<or> td_data n' = td_data n \<or> a \<notin> set bs \<Longrightarrow> h' = h \<Longrightarrow> calm bs w h d h' (put a n' d)"
  by (auto simp: calm_def intro: same_list_put same_data_put same_data_put_other lock_move.stay
      same_locks_put)

lemma calm_strings: "h' = h \<Longrightarrow> calm bs w h d h' (d\<lparr>strings := k\<rparr>)"
  by (simp add: calm_def lock_move.stay)

lemma calm_alloc:
  assumes "list_ok as P bs d" and "unlocked n"
  shows "calm bs w h d h (init_node (brk d) n (d\<lparr>brk := Suc (brk d), avail := i, strings := j\<rparr>))"
proof -
  have f: "heap d (brk d) = None" by (rule list_ok_fresh [OF assms(1)])
  with list_ok_node [OF assms(1)] have "brk d \<notin> set bs" by fastforce
  from same_alloc [OF f assms(2) this refl] show ?thesis by (simp add: calm_def lock_move.stay)
qed

lemma calmD: "calm bs w h d h' d' \<Longrightarrow> same_list d d'" "calm bs w h d h' d' \<Longrightarrow> topicDB d' = topicDB d"
  by (simp_all add: calm_def same_list_head)

lemma lock_op_head:
  "topicNodeRLock a d = Inr d' \<Longrightarrow> topicDB d' = topicDB d"
  "topicNodeWLock a d = Inr d' \<Longrightarrow> topicDB d' = topicDB d"
  "topicNodeUnlock a d = Inr d' \<Longrightarrow> topicDB d' = topicDB d"
  by (auto simp: lock_op_Inr)

section \<open>Searching\<close>

lemma hitI: "a \<in> set bs \<Longrightarrow> clear_to as P p a \<Longrightarrow> heap d a = Some n \<Longrightarrow> Some (td_path n) = p \<Longrightarrow>
    hit as P bs d p a"
  by (auto simp: hit_def)

lemma compareString_iff [simp]: "compareString (Some s) p = Suc 0 \<longleftrightarrow> Some s = p"
  by (cases p) (auto simp: compareString_def)

lemma rem_ref: "at_ref h r = Some a \<Longrightarrow> rem as (Some a) \<le> ref_rem as r"
  using rem_bound [of as "Some a"] by (cases r) auto

lemma rem_pos: "rem as (Some a) > 0"
  by (simp add: rem_def)

lemma search_step_calm:
  assumes "search_step p s d = Inr (s', d')" and "search_ok as P bs d p s" and "list_ok as P bs d"
    and n: "\<And>r q. s \<noteq> Found r q" "s \<noteq> Missing"
  shows "calm bs w (held_search (topicDB d) s) d (held_search (topicDB d) s') d'"
proof (cases s)
  case (Lock r q)
  with assms(1) show ?thesis by (auto simp: bindR_eq_Inr calm_locks)
next
  case (Compare r q)
  with assms(1) show ?thesis by (auto simp: bindR_eq_Inr calm_refl)
next
  case (Advance r)
  with assms(1,2) show ?thesis by (auto simp: bindR_eq_Inr calm_refl)
next
  case (Unlock r a cur)
  with assms(1,2) show ?thesis by (auto simp: bindR_eq_Inr calm_locks)
next
  case (Loop a cur)
  with assms(1) show ?thesis by (auto simp: calm_refl split: option.splits)
next
  case Enter
  with assms(1) show ?thesis by (auto simp: calm_refl)
qed (use n in auto)

lemma search_step_left:
  assumes "search_step p s d = Inr (s', d')" and "search_ok as P bs d p s" and "list_ok as P bs d"
    and "\<And>r q. s \<noteq> Found r q" and "s \<noteq> Missing"
  shows "search_left as s' < search_left as s"
proof (cases s)
  case (Compare r q)
  with assms obtain a where "at_ref (topicDB d) r = Some a" by auto
  with rem_ref rem_pos have "ref_rem as r > 0" by (metis less_le_trans)
  with Compare assms show ?thesis by (auto simp: bindR_eq_Inr)
next
  case (Advance r)
  with assms obtain a n where a: "at_ref (topicDB d) r = Some a" "heap d a = Some n" "a \<in> set bs"
    "s' = Unlock r a (nextPtr n)" by (auto simp: bindR_eq_Inr)
  with rem_next [OF assms(3) a(3,2)] rem_ref [OF a(1), of as] Advance show ?thesis by simp
next
  case (Lock r q)
  with assms obtain a where "at_ref (topicDB d) r = Some a" by auto
  with rem_ref rem_pos have "ref_rem as r > 0" by (metis less_le_trans)
  with Lock assms show ?thesis by (auto simp: bindR_eq_Inr)
qed (use assms in \<open>auto simp: bindR_eq_Inr rem_def split: option.splits\<close>)

lemma search_step_ok:
  assumes s: "search_step p s d = Inr (s', d')" and ok: "search_ok as P bs d p s"
    and l: "list_ok as P bs d" and n: "\<And>r q. s \<noteq> Found r q" "s \<noteq> Missing"
  shows "search_ok as P bs d' p s'"
proof (cases s)
  case Enter
  have "ahead as P bs p (topicDB d)" by (rule ahead_head [OF l])
  with Enter s show ?thesis
    by (auto simp: DBEmpty_def ahead_def not_in_def split: option.splits if_splits)
next
  case (Lock r q)
  with s ok show ?thesis by (auto simp: bindR_eq_Inr lock_op_head)
next
  case (Compare r q)
  with s ok show ?thesis by (auto simp: bindR_eq_Inr intro: hitI)
next
  case (Advance r)
  with s ok l show ?thesis by (auto simp: bindR_eq_Inr intro: ahead_next)
next
  case (Unlock r a cur)
  with s ok show ?thesis by (auto simp: bindR_eq_Inr)
next
  case (Loop a cur)
  with s ok show ?thesis by (auto simp: ahead_def split: option.splits)
qed (use n in auto)

section \<open>The other parts of an operation\<close>

lemma set_step_calm:
  assumes "set_step data sz tma dma a s (d, D) = Inr (q', d', D')" and "a \<in> set bs"
  shows "calm bs True (held_set a s) d (held h q') d'"
  using assms
  by (cases s) (auto simp: bindR_eq_Inr Let_def calm_refl calm_locks calm_strings calm_put
      split: if_splits)

lemma set_step_next:
  assumes "set_step data sz tma dma a s (d, D) = Inr (q', d', D')"
  shows "(\<exists>s'. q' = Setting a s' \<and> set_left s' < set_left s) \<or> q' = Done (Status 1)"
  using assms by (cases s) (auto simp: bindR_eq_Inr Let_def split: if_splits)

lemma clear_step_calm:
  assumes "clear_step a s (d, D) = Inr (q', d', D')" and "a \<in> set bs"
  shows "calm bs True (held_clear a s) d (held h q') d'"
  using assms
  by (cases s) (auto simp: bindR_eq_Inr Let_def calm_refl calm_locks calm_strings calm_put
      split: if_splits)

lemma clear_step_next:
  assumes "clear_step a s (d, D) = Inr (q', d', D')"
  shows "(\<exists>s'. q' = Clearing a s' \<and> clear_left s' < clear_left s) \<or> q' = Done (Status 1)"
  using assms by (cases s) (auto simp: bindR_eq_Inr Let_def split: if_splits)

lemma set_left_pos: "set_left s > 0" and clear_left_pos: "clear_left c > 0"
  and clone_left_pos: "clone_left k > 0" and add_left_pos: "add_left as e > 0"
  by (cases s; simp) (cases c; simp; fail | cases k; simp; fail | cases e; simp; fail)+


text \<open>Cloning writes to the node it has allocated, which is no node of the list.\<close>

lemma init_node_lookup [simp]: "heap (init_node a n d) a = Some n"
  by (simp add: init_node_def)

lemma clone_step_calm:
  assumes s: "clone_step r a s (d, D) = Inr (q', d', D')" and ok: "clone_ok bs d a s"
    and r: "at_ref (topicDB d) r = Some a" and l: "list_ok as P bs d"
  shows "calm bs False (Some a, None, None) d (held h q') d'"
proof (cases s)
  case K_malloc
  with s show ?thesis
    by (auto simp: bindR_eq_Inr malloc_node_def unlocked_def calm_refl calm_alloc [OF l]
        split: if_splits)
next
  case (K_data k z)
  with s show ?thesis by (cases z) (auto simp: bindR_eq_Inr calm_refl calm_strings)
next
  case (K_times k z)
  with s ok show ?thesis by (auto simp: bindR_eq_Inr fresh_def intro!: calm_put)
qed (use s r in \<open>auto simp: bindR_eq_Inr calm_refl calm_locks\<close>)

lemma clone_step_next:
  assumes "clone_step r a s (d, D) = Inr (q', d', D')"
  shows "(\<exists>s'. q' = Cloning r a s' \<and> clone_left s' < clone_left s) \<or> (\<exists>p. q' = Done (Ptr p))"
proof (cases s)
  case (K_data k z)
  with assms show ?thesis by (cases z) (auto simp: bindR_eq_Inr)
qed (use assms in \<open>auto simp: bindR_eq_Inr malloc_node_def split: if_splits\<close>)

lemma clone_step_ok:
  assumes s: "clone_step r a s (d, D) = Inr (q', d', D')" and ok: "clone_ok bs d a s"
    and r: "at_ref (topicDB d) r = Some a" "a \<in> set bs" and l: "list_ok as P bs d"
    and q: "q' = Cloning r a s'"
  shows "clone_ok bs d' a s'"
proof (cases s)
  case K_malloc
  have f: "heap d (brk d) = None" by (rule list_ok_fresh [OF l])
  with list_ok_node [OF l] have "brk d \<notin> set bs" by fastforce
  with s q K_malloc show ?thesis
    by (auto simp: bindR_eq_Inr malloc_node_def fresh_def split: if_splits)
next
  case (K_data k z)
  with s ok q show ?thesis by (cases z) (auto simp: bindR_eq_Inr fresh_def)
next
  case (K_size k)
  with s ok q show ?thesis by (auto simp: mem_Inr)
qed (use s q in \<open>auto simp: bindR_eq_Inr\<close>)

lemma clone_step_own:
  assumes "clone_step r a s (d, D) = Inr (q', d', D')"
  shows "own q' = own (Cloning r a s) \<or> own q' = None \<or> own q' = Some (brk d)"
proof (cases s)
  case (K_data k z)
  with assms show ?thesis by (cases z) (auto simp: bindR_eq_Inr)
qed (use assms in \<open>auto simp: bindR_eq_Inr malloc_node_def split: if_splits\<close>)

section \<open>Adding\<close>

text \<open>The two steps that link the new node.\<close>

fun links :: "add_pc \<Rightarrow> bool" where
  "links (A_link _ _) = True" | "links (A_set_head _) = True" | "links _ = False"

lemma add_step_calm:
  assumes s: "add_step path sz tma s d = Inr (q', d')" and ok: "add_ok as bs d p s"
    and l: "list_ok as P bs d" and n: "\<not> links s"
  shows "calm bs False (held_add s) d (held h q') d'"
proof (cases s)
  case A_malloc
  have f: "heap d (brk d) = None" by (rule list_ok_fresh [OF l])
  then have "calm bs False h d h (d\<lparr>brk := Suc (brk d)\<rparr>)" for h
    by (auto simp: calm_def same_list_def same_data_def same_locks_def
        split: option.splits intro!: lock_move.stay)
  with s A_malloc show ?thesis
    by (auto simp: malloc_node_def calm_refl calm_alloc [OF l] split: if_splits)
next
  case (A_loop k prev cur)
  with s show ?thesis by (auto simp: bindR_eq_Inr calm_locks calm_refl split: option.splits)
next
  case (A_first k)
  with s ok show ?thesis by (auto simp: mem_Inr new_at_def intro!: calm_put)
next
  case (A_link_next k b)
  with s ok show ?thesis by (auto simp: mem_Inr added_def intro!: calm_put)
qed (use s n in \<open>auto simp: bindR_eq_Inr calm_locks calm_refl\<close>)

lemma add_step_next:
  assumes s: "add_step path sz tma s d = Inr (q', d')" and ok: "add_ok as bs d p s"
    and l: "list_ok as P bs d"
  shows "(\<exists>s'. q' = Adding s' \<and> add_left as s' < add_left as s) \<or> (\<exists>v. q' = Done v)"
proof (cases s)
  case (A_next k c)
  with s ok obtain n where n: "c \<in> set bs" "heap d c = Some n" "q' = Adding (A_unlock k c (nextPtr n))"
    by (auto simp: bindR_eq_Inr)
  with rem_next [OF l n(1,2)] A_next show ?thesis by simp
next
  case (A_head k)
  with s rem_bound [of as "topicDB d"] show ?thesis by auto
qed (use s in \<open>auto simp: bindR_eq_Inr malloc_node_def rem_def split: prod.splits option.splits if_splits\<close>)

lemma list_ok_head_in: "list_ok as P bs d \<Longrightarrow> topicDB d = Some c \<Longrightarrow> c \<in> set bs"
  by (cases bs) (auto simp: list_ok_def)

lemma new_path_eq: "td_path (new_node t) = td_path t"
  by (simp add: new_node_def topic.extend_def)

lemma add_step_ok:
  assumes s: "add_step path sz tma s d = Inr (q', d')"
    and ok: "add_ok as bs d (td_path (new_topic (the path) sz tma)) s"
    and l: "list_ok as P bs d" and n: "\<not> links s"
  shows "pc_ok as P bs d' (AddTopic path sz tma) q'"
proof -
  have c: "same_list d d'" using add_step_calm [OF s ok l n] calmD(1) by blast
  show ?thesis
  proof (cases s)
    case A_malloc
    have f: "heap d (brk d) = None" by (rule list_ok_fresh [OF l])
    with list_ok_node [OF l] have b: "brk d \<notin> set bs" by fastforce
    with s ok A_malloc show ?thesis
      by (auto simp: malloc_node_def new_at_def new_path_eq split: if_splits)
  next
    case (A_loop k prev cur)
    with s ok c l show ?thesis
      by (auto simp: bindR_eq_Inr next_is_def new_at_same split: option.splits
          intro: list_ok_head_in list_ok_next_in)
  next
    case (A_next k b)
    with s ok show ?thesis by (auto simp: bindR_eq_Inr next_is_def)
  next
    case (A_release k b)
    with s have "q' = Done (Status 1)" by (auto simp: bindR_eq_Inr)
    moreover from A_release ok have "added as bs d (td_path (new_topic (the path) sz tma)) k" by simp
    from added_same [OF this c] have "\<exists>k. added as bs d' (td_path (new_topic (the path) sz tma)) k" ..
    ultimately show ?thesis by simp
  qed (use s ok c n in \<open>auto simp: mem_Inr(1) set_nextPtr_Inr new_at_same added_same next_is_same
      same_list_head intro: added_same\<close>)
qed


text \<open>Linking the new node makes it the last one.\<close>

lemma list_ok_linked:
  assumes l: "list_ok as P as d" and b: "next_is as d b None" and k: "new_at as d p k"
    and n: "heap d b = Some n" and d': "d' = put b (n\<lparr>nextPtr := Some k\<rparr>) d"
  shows "list_ok as P (as @ [k]) d'" "grown d d'" "added as (as @ [k]) d' p k"
proof -
  from b n have bn: "b \<in> set as" "nextPtr n = None" by (auto simp: next_is_def)
  obtain us vs where u: "as = us @ b # vs" "nextPtr n = (case vs of [] \<Rightarrow> None | c # _ \<Rightarrow> Some c)"
    by (rule list_ok_next [OF l bn(1) n])
  with bn(2) have as: "as = us @ [b]" by (cases vs) auto
  from k obtain m where m: "heap d k = Some m" "nextPtr m = None" "td_path m = p" "k \<notin> set as"
    by (auto simp: new_at_def)
  with as have kb: "k \<noteq> b" by auto
  have "heap (put k (m\<lparr>nextPtr := None\<rparr>) d) = heap d" using m by (cases m) (auto simp: fun_upd_idem)
  moreover have "path_to ((heap d)(k \<mapsto> m\<lparr>nextPtr := None\<rparr>, b \<mapsto> n\<lparr>nextPtr := Some k\<rparr>))
      (topicDB d) (us @ [b, k]) None"
    by (rule path_to_snoc) (use l as n m kb in \<open>auto simp: list_ok_def\<close>)
  ultimately have p: "path_to (heap d') (topicDB d) (as @ [k]) None"
    using as d' by simp
  have "\<exists>x. heap d' a = Some x \<and> td_path x = P a" if "a \<in> set as" for a
    using l that n d' unfolding list_ok_def by (cases "a = b") fastforce+
  with p l m n d' show "list_ok as P (as @ [k]) d'" by (auto simp: list_ok_def)
  show "grown d d'" using n d' by (auto simp: grown_def)
  show "added as (as @ [k]) d' p k" using m kb d' by (auto simp: added_def)
qed

lemma list_ok_first:
  assumes l: "list_ok as P as d" and e: "topicDB d = None" and k: "new_at as d p k"
  defines "d' \<equiv> d\<lparr>topicDB := Some k\<rparr>"
  shows "list_ok as P (as @ [k]) d'" "grown d d'" "added as (as @ [k]) d' p k"
proof -
  from l e have "as = []" by (cases as) (auto simp: list_ok_def)
  with l e k show "list_ok as P (as @ [k]) d'" "grown d d'" "added as (as @ [k]) d' p k"
    by (auto simp: list_ok_def new_at_def added_def grown_def d'_def)
qed

lemma add_step_links:
  assumes s: "add_step path sz tma s d = Inr (q', d')"
    and ok: "add_ok as bs d (td_path (new_topic (the path) sz tma)) s"
    and l: "list_ok as P bs d" and n: "links s"
  obtains k where "own (Adding s) = Some k" "bs = as" "k \<notin> set as" "list_ok as P (as @ [k]) d'" "grown d d'"
    "pc_ok as P (as @ [k]) d' (AddTopic path sz tma) q'" "lock_move (held_add s) d (held h q') d'"
    "own q' = None"
proof (cases s)
  case (A_link k b)
  with s ok obtain m where m: "heap d b = Some m" "d' = put b (m\<lparr>nextPtr := Some k\<rparr>) d"
    "q' = Adding (A_link_next k b)" "bs = as" "next_is as d b None"
    "new_at as d (td_path (new_topic (the path) sz tma)) k" by (auto simp: mem_Inr)
  with l have l': "list_ok as P as d" by simp
  have "same_locks d d'" using m by (auto intro: same_locks_put)
  with m A_link list_ok_linked [OF l' m(5,6,1,2)] show ?thesis
    by (intro that [of k]) (auto simp: next_is_def new_at_def intro: lock_move.stay)
next
  case (A_set_head k)
  with s ok have m: "d' = d\<lparr>topicDB := Some k\<rparr>" "q' = Done (Status 1)" "bs = as" "topicDB d = None"
    "new_at as d (td_path (new_topic (the path) sz tma)) k" by auto
  with l have l': "list_ok as P as d" by simp
  have "same_locks d d'" using m by (auto simp: same_locks_def split: option.splits)
  with m A_set_head list_ok_first [OF l' m(4,5)] show ?thesis
    by (intro that [of k]) (auto simp: new_at_def intro: lock_move.stay)
qed (use n in auto)


section \<open>One step of a thread\<close>

text \<open>The node whose datum a thread has freed and not yet replaced.\<close>

fun dirty :: "pc \<Rightarrow> addr option" where
  "dirty (Setting a (S_store _)) = Some a"
| "dirty (Clearing a C_data_ma) = Some a"
| "dirty (Clearing a C_data) = Some a"
| "dirty _ = None"

definition moves :: "addr list \<Rightarrow> (addr \<Rightarrow> cstring) \<Rightarrow> addr list \<Rightarrow> thread \<Rightarrow> db \<Rightarrow> addr list \<Rightarrow>
    thread \<Rightarrow> db \<Rightarrow> bool" where
  "moves as P bs u d bs' u' d' \<longleftrightarrow>
     list_ok as P bs' d' \<and> pc_ok as P bs' d' (fst u') (snd u') \<and>
     lock_move (held (topicDB d) (snd u)) d (held (topicDB d') (snd u')) d' \<and>
     left as u' < left as u \<and>
     is_add (fst u') = is_add (fst u) \<and> is_clone (fst u') = is_clone (fst u) \<and>
     is_writer (fst u') = is_writer (fst u) \<and>
     (bs' = bs \<and> same_list d d' \<and> (\<not> is_writer (fst u) \<longrightarrow> same_data bs d d') \<and>
        (own (snd u') = own (snd u) \<or> own (snd u') = None \<or> own (snd u') = Some (brk d)) \<or>
      is_add (fst u) \<and> bs = as \<and> grown d d' \<and> own (snd u') = None \<and>
        (\<exists>k. own (snd u) = Some k \<and> bs' = as @ [k] \<and> k \<notin> set as))"

text \<open>A step that keeps the list.\<close>

lemma moves_calm:
  assumes l: "list_ok as P bs d" and c: "calm bs (is_writer t) (held (topicDB d) q) d (held (topicDB d) q') d'"
    and ok: "pc_ok as P bs d' t' q'" and less: "left as (t', q') < left as (t, q)"
    and k: "is_add t' = is_add t" "is_clone t' = is_clone t" "is_writer t' = is_writer t"
    and o: "own q' = own q \<or> own q' = None \<or> own q' = Some (brk d)"
  shows "moves as P bs (t, q) d bs (t', q') d'"
  using assms list_ok_same [OF l] same_list_head [of d d'] by (auto simp: moves_def calm_def)

lemma search_moves:
  assumes s: "thread_step (t, Search s) (d, D) = Inr ((t', q'), d', D')"
    and ok: "pc_ok as P bs d t (Search s)" and l: "list_ok as P bs d"
  shows "moves as P bs (t, Search s) d bs (t', q') d'" and "D' = D"
proof -
  have "moves as P bs (t, Search s) d bs (t', q') d' \<and> D' = D"
  proof (cases "(\<exists>r q. s = Found r q) \<or> s = Missing")
    case True
    then have d: "d' = d" "D' = D" "t' = t" using s by (auto simp: bindR_eq_Inr)
    have "moves as P bs (t, Search s) d bs (t, q') d"
    proof (rule moves_calm [OF l])
      show "calm bs (is_writer t) (held (topicDB d) (Search s)) d (held (topicDB d) q') d"
        using True s ok by (cases t) (auto simp: bindR_eq_Inr intro!: calm_refl)
      show "pc_ok as P bs d t q'"
        using True s ok by (cases t) (auto simp: bindR_eq_Inr hit_def)
      show "left as (t, q') < left as (t, Search s)"
        using True s ok by (cases t) (auto simp: bindR_eq_Inr)
      show "own q' = own (Search s) \<or> own q' = None \<or> own q' = Some (brk d)"
        using True s ok by (cases t) (auto simp: bindR_eq_Inr)
    qed simp_all
    with d show ?thesis by simp
  next
    case False
    then have n: "\<And>r q. s \<noteq> Found r q" "s \<noteq> Missing" by auto
    have "thread_step (t, Search s) (d, D) =
        bindR (search_step (task_path t) s d) (\<lambda>(s, d). Inr ((t, Search s), d, D))"
      using n by (cases s) auto
    with s obtain s' where s': "search_step (task_path t) s d = Inr (s', d')" "q' = Search s'" "t' = t" "D' = D"
      by (auto simp: bindR_eq_Inr)
    from ok have so: "search_ok as P bs d (task_path t) s" by simp
    have "moves as P bs (t, Search s) d bs (t, Search s') d'"
      using search_step_calm [OF s'(1) so l n, of "is_writer t"] search_step_ok [OF s'(1) so l n]
        search_step_left [OF s'(1) so l n] ok calmD(2)
      by (intro moves_calm [OF l]) auto
    with s' show ?thesis by simp
  qed
  then show "moves as P bs (t, Search s) d bs (t', q') d'" and "D' = D" by auto
qed

lemma got_moves:
  assumes s: "thread_step (t, q) (d, D) = Inr ((t', q'), d', D')"
    and q: "q = Got topic \<or> q = Release r a"
    and ok: "pc_ok as P bs d t q" and l: "list_ok as P bs d"
  shows "moves as P bs (t, q) d bs (t', q') d'" and "D' = D"
proof -
  have "moves as P bs (t, q) d bs (t', q') d' \<and> D' = D"
    using q
  proof
    assume q: "q = Got topic"
    with s have d: "d' = d" "D' = D" "got_step t topic d = Inr (t', q')" by (auto simp: bindR_eq_Inr)
    have "moves as P bs (t, q) d bs (t', q') d"
    proof (rule moves_calm [OF l])
      show "calm bs (is_writer t) (held (topicDB d) q) d (held (topicDB d) q') d"
        using q d(3) ok by (cases t) (auto simp: bindR_eq_Inr intro!: calm_refl split: option.splits)
      show "pc_ok as P bs d t' q'"
        using q d(3) ok by (cases t) (auto simp: bindR_eq_Inr hit_def split: option.splits)
      show "left as (t', q') < left as (t, q)"
        using q d(3) ok by (cases t) (auto simp: bindR_eq_Inr split: option.splits)
    qed (use q d(3) ok in \<open>cases t; auto simp: bindR_eq_Inr split: option.splits\<close>)+
    with d show ?thesis by simp
  next
    assume q: "q = Release r a"
    with s ok have d: "topicNodeUnlock a d = Inr d'" "D' = D" "t' = t" "q' = Got (Some a)"
      by (auto simp: bindR_eq_Inr)
    have c: "calm bs (is_writer t) (held (topicDB d) q) d (held (topicDB d) q') d'"
      using q d(1,4) by (simp add: calm_locks)
    then have "same_list d d'" by (rule calmD)
    with c q d ok show ?thesis by (auto intro!: moves_calm [OF l] simp: hit_same)
  qed
  then show "moves as P bs (t, q) d bs (t', q') d'" and "D' = D" by auto
qed

text \<open>The datum of a node is dirty only while a thread is replacing it.\<close>

lemma operation_dirty:
  assumes "operation_step t q (d, D) = Inr (q', d', D')" and "b \<in> D'" and "\<And>s. q \<noteq> Deleting s"
  shows "b \<in> D \<and> dirty q \<noteq> Some b \<or> dirty q' = Some b"
proof (cases q)
  case (Setting a s)
  with assms show ?thesis
    by (cases t; cases s) (auto simp: bindR_eq_Inr Let_def split: if_splits)
next
  case (Clearing a s)
  with assms show ?thesis by (cases s) (auto simp: bindR_eq_Inr split: if_splits)
next
  case (Cloning r a s)
  then have "operation_step t q (d, D) = clone_step r a s (d, D)" by (cases t) auto
  with assms have "D' = D"
    by (cases "(r, a, s, (d, D))" rule: clone_step.cases)
      (auto simp: bindR_eq_Inr malloc_node_def split: if_splits)
  with assms Cloning show ?thesis by (cases s) auto
next
  case (Adding s)
  with assms show ?thesis by (cases t) (auto simp: bindR_eq_Inr)
qed (use assms in auto)


lemma operation_moves:
  assumes s: "operation_step t q (d, D) = Inr (q', d', D')"
    and q: "(\<exists>a s. q = Setting a s) \<or> (\<exists>a s. q = Clearing a s) \<or> (\<exists>r a s. q = Cloning r a s)"
    and ok: "pc_ok as P bs d t q" and l: "list_ok as P bs d"
  shows "moves as P bs (t, q) d bs (t, q') d'"
  using q
proof (elim disjE exE)
  fix a u assume q: "q = Setting a u"
  with ok obtain p data sz tma dma where t: "t = SetTopic p data sz tma dma" "a \<in> set bs" by auto
  with s q have s': "set_step data sz tma dma a u (d, D) = Inr (q', d', D')" by simp
  have "calm bs (is_writer t) (held (topicDB d) q) d (held (topicDB d) q') d'"
    using set_step_calm [OF s' t(2), of "topicDB d"] q t by simp
  with set_step_next [OF s'] q t set_left_pos [of u] show ?thesis
    by (intro moves_calm [OF l]) auto
next
  fix a u assume q: "q = Clearing a u"
  with ok obtain p where t: "t = DeleteTopicData p" "a \<in> set bs" by auto
  from s q have s': "clear_step a u (d, D) = Inr (q', d', D')" by (cases t) auto
  have "calm bs (is_writer t) (held (topicDB d) q) d (held (topicDB d) q') d'"
    using clear_step_calm [OF s' t(2), of "topicDB d"] q t by simp
  with clear_step_next [OF s'] q t clear_left_pos [of u] show ?thesis
    by (intro moves_calm [OF l]) auto
next
  fix r a u assume q: "q = Cloning r a u"
  with ok have t: "is_clone t" "at_ref (topicDB d) r = Some a" "a \<in> set bs" "clone_ok bs d a u" by auto
  from s q have s': "clone_step r a u (d, D) = Inr (q', d', D')" by (cases t) auto
  have c: "calm bs (is_writer t) (held (topicDB d) q) d (held (topicDB d) q') d'"
    using clone_step_calm [OF s' t(4,2) l, of "topicDB d"] q by (auto simp: calm_def)
  have "pc_ok as P bs d' t q'"
    using clone_step_next [OF s'] clone_step_ok [OF s' t(4,2,3) l] t calmD(2) [OF c]
    by (cases t) auto
  with c clone_step_next [OF s'] clone_step_own [OF s'] q clone_left_pos [of u] show ?thesis
    by (intro moves_calm [OF l]) auto
qed

lemma adding_moves:
  assumes s: "operation_step t (Adding s) (d, D) = Inr (q', d', D')"
    and ok: "pc_ok as P bs d t (Adding s)" and l: "list_ok as P bs d"
  shows "\<exists>bs'. moves as P bs (t, Adding s) d bs' (t, q') d'"
proof -
  from ok obtain path sz tma where t: "t = AddTopic path sz tma" by (cases t) auto
  with s have s': "add_step path sz tma s d = Inr (q', d')" by (auto simp: bindR_eq_Inr)
  from ok t have ok': "add_ok as bs d (td_path (new_topic (the path) sz tma)) s" by simp
  have less: "left as (t, q') < left as (t, Adding s)"
    using add_step_next [OF s' ok' l] add_left_pos [of as s] by auto
  show ?thesis
  proof (cases "links s")
    case True
    obtain k where "own (Adding s) = Some k" "bs = as" "k \<notin> set as" "list_ok as P (as @ [k]) d'"
      "grown d d'" "pc_ok as P (as @ [k]) d' (AddTopic path sz tma) q'"
      "lock_move (held_add s) d (held (topicDB d') q') d'" "own q' = None"
      by (rule add_step_links [OF s' ok' l True])
    with t less show ?thesis by (intro exI [of _ "as @ [k]"]) (simp add: moves_def)
  next
    case False
    have "calm bs (is_writer t) (held (topicDB d) (Adding s)) d (held (topicDB d) q') d'"
      using add_step_calm [OF s' ok' l False, of "topicDB d"] t by (auto simp: calm_def)
    moreover have "own q' = own (Adding s) \<or> own q' = None \<or> own q' = Some (brk d)"
      using s' False by (cases s) (auto simp: bindR_eq_Inr malloc_node_def split: if_splits option.splits)
    ultimately have "moves as P bs (t, Adding s) d bs (t, q') d'"
      using add_step_ok [OF s' ok' l False] less t by (intro moves_calm [OF l]) auto
    then show ?thesis ..
  qed
qed

text \<open>The step of a thread, whatever it does.\<close>

lemma thread_moves:
  assumes s: "thread_step (t, q) (d, D) = Inr ((t', q'), d', D')" and f: "\<not> finished (t, q)"
    and ok: "pc_ok as P bs d t q" and l: "list_ok as P bs d"
  shows "\<exists>bs'. moves as P bs (t, q) d bs' (t', q') d'"
    and "b \<in> D' \<Longrightarrow> b \<in> D \<and> dirty q \<noteq> Some b \<or> dirty q' = Some b"
proof -
  have "(\<exists>bs'. moves as P bs (t, q) d bs' (t', q') d') \<and>
      (\<forall>b\<in>D'. b \<in> D \<and> dirty q \<noteq> Some b \<or> dirty q' = Some b)"
  proof (cases q)
    case (Search u)
    with search_moves [of t u d D t' q' d' D'] s ok l show ?thesis by auto
  next
    case (Release r a)
    with got_moves [OF s _ ok l] show ?thesis by auto
  next
    case (Got topic)
    with got_moves [OF s _ ok l] show ?thesis by auto
  next
    case (Setting a u)
    with s have "operation_step t q (d, D) = Inr (q', d', D')" "t' = t" by (auto simp: bindR_eq_Inr)
    with Setting operation_moves [OF _ _ ok l] operation_dirty [of t q d D q' d' D'] show ?thesis by blast
  next
    case (Clearing a u)
    with s have "operation_step t q (d, D) = Inr (q', d', D')" "t' = t" by (auto simp: bindR_eq_Inr)
    with Clearing operation_moves [OF _ _ ok l] operation_dirty [of t q d D q' d' D'] show ?thesis by blast
  next
    case (Cloning r a u)
    with s have "operation_step t q (d, D) = Inr (q', d', D')" "t' = t" by (auto simp: bindR_eq_Inr)
    with Cloning operation_moves [OF _ _ ok l] operation_dirty [of t q d D q' d' D'] show ?thesis by blast
  next
    case (Adding u)
    with s have "operation_step t q (d, D) = Inr (q', d', D')" "t' = t" by (auto simp: bindR_eq_Inr)
    with Adding adding_moves [of t u d D q' d' D'] ok l operation_dirty [of t q d D q' d' D']
    show ?thesis by blast
  qed (use ok f in auto)
  then show "\<exists>bs'. moves as P bs (t, q) d bs' (t', q') d'"
    and "b \<in> D' \<Longrightarrow> b \<in> D \<and> dirty q \<noteq> Some b \<or> dirty q' = Some b" by auto
qed

end
