(* ===== verification/ThreadsPool.thy ===== *)
theory ThreadsPool
  imports ThreadsStep
begin

text \<open>
  A pool of threads with at most one that adds topics, none that deletes topics, and none that
  clones topics beside one that writes data. Its invariant puts the knowledge of the threads and
  the count of the locks together. It follows that no thread faults, that the threads never
  all wait for each other, that they end, and what the list and the answers are then.
\<close>

section \<open>Invariant\<close>

definition compatible :: "task list \<Rightarrow> bool" where
  "compatible ts \<longleftrightarrow>
     (\<forall>t\<in>set ts. \<not> is_delete t) \<and> cnt is_add ts \<le> 1 \<and>
     ((\<exists>t\<in>set ts. is_clone t) \<longrightarrow> (\<forall>t\<in>set ts. \<not> is_writer t))"

abbreviation locks_of :: "db \<Rightarrow> thread list \<Rightarrow> held list" where
  "locks_of d ts \<equiv> map (\<lambda>u. held (topicDB d) (snd u)) ts"

definition pool_ok :: "addr list \<Rightarrow> (addr \<Rightarrow> cstring) \<Rightarrow> addr list \<Rightarrow> pool \<Rightarrow> bool" where
  "pool_ok as P bs p \<longleftrightarrow> (case p of ((d, D), ts) \<Rightarrow>
     list_ok as P bs d \<and> locks_held d (locks_of d ts) \<and>
     (\<forall>i<length ts. pc_ok as P bs d (fst (ts ! i)) (snd (ts ! i))) \<and>
     (\<forall>b\<in>D. \<exists>i<length ts. dirty (snd (ts ! i)) = Some b) \<and>
     (\<forall>i<length ts. \<forall>j<length ts. \<forall>k. i \<noteq> j \<longrightarrow> own (snd (ts ! i)) = Some k \<longrightarrow>
        own (snd (ts ! j)) \<noteq> Some k) \<and>
     (\<forall>i<length ts. \<forall>j<length ts. is_add (fst (ts ! i)) \<longrightarrow> is_add (fst (ts ! j)) \<longrightarrow> i = j) \<and>
     (\<forall>i<length ts. \<forall>j<length ts. is_clone (fst (ts ! i)) \<longrightarrow> \<not> is_writer (fst (ts ! j))) \<and>
     (bs = as \<or> (\<exists>i<length ts. is_add (fst (ts ! i)))))"

lemma pool_okD:
  assumes "pool_ok as P bs ((d, D), ts)"
  shows "list_ok as P bs d" "locks_held d (locks_of d ts)"
    "i < length ts \<Longrightarrow> pc_ok as P bs d (fst (ts ! i)) (snd (ts ! i))"
    "b \<in> D \<Longrightarrow> \<exists>i<length ts. dirty (snd (ts ! i)) = Some b"
    "i < length ts \<Longrightarrow> j < length ts \<Longrightarrow> i \<noteq> j \<Longrightarrow> own (snd (ts ! i)) = Some k \<Longrightarrow>
       own (snd (ts ! j)) \<noteq> Some k"
    "i < length ts \<Longrightarrow> j < length ts \<Longrightarrow> is_add (fst (ts ! i)) \<Longrightarrow> is_add (fst (ts ! j)) \<Longrightarrow> i = j"
    "i < length ts \<Longrightarrow> j < length ts \<Longrightarrow> is_clone (fst (ts ! i)) \<Longrightarrow> \<not> is_writer (fst (ts ! j))"
    "bs = as \<or> (\<exists>i<length ts. is_add (fst (ts ! i)))"
  using assms by (simp_all add: pool_ok_def)

lemma own_alloc: "pc_ok as P bs d t q \<Longrightarrow> own q = Some k \<Longrightarrow> heap d k \<noteq> None"
  by (cases q rule: own.cases) (auto simp: fresh_def new_at_def)

lemma held_grown:
  "pc_ok as P bs d t q \<Longrightarrow> topicDB d \<noteq> None \<longrightarrow> topicDB d' = topicDB d \<Longrightarrow>
   held (topicDB d') q = held (topicDB d) q"
proof -
  assume ok: "pc_ok as P bs d t q" and h: "topicDB d \<noteq> None \<longrightarrow> topicDB d' = topicDB d"
  have r: "at_ref (topicDB d) x = Some a \<Longrightarrow> at_ref (topicDB d') x = at_ref (topicDB d) x" for x a
    using h by (cases x) auto
  show ?thesis
  proof (cases q)
    case (Search s)
    with ok r show ?thesis by (cases s) auto
  qed auto
qed

lemma initially_ok:
  assumes r: "db_rep d as cs" and c: "compatible ts"
  shows "pool_ok as (\<lambda>a. td_path (the (heap d a))) as (threads d ts)"
proof -
  have l: "list_ok as (\<lambda>a. td_path (the (heap d a))) as d"
  proof -
    have "\<exists>n. heap d a = Some n \<and> td_path n = td_path (the (heap d a))" if "a \<in> set as" for a
      using db_rep_node [OF r, of a] that by auto
    with r show ?thesis by (auto simp: db_rep_def list_ok_def)
  qed
  have e: "held h (entry t) = (None, None, None)" "own (entry t) = None"
    "\<not> is_delete t \<Longrightarrow> pc_ok as P as d t (entry t)" for h t P
    by (cases t; simp)+
  have "locks_held d (map (\<lambda>u. (None, None, None)) ts)"
    using db_rep_unlocked [OF r]
    by (auto simp: locks_held_def node_held_def held_count_defs cnt_def unlocked_def
        filter_empty_conv split: option.splits)
  moreover have "i = j" if "i < length ts" "j < length ts" "is_add (ts ! i)" "is_add (ts ! j)" for i j
    using c cnt_one [of is_add ts i j] that by (simp add: compatible_def)
  ultimately show ?thesis
    using c l by (auto simp: pool_ok_def threads_def e o_def compatible_def)
qed

section \<open>Steps keep it\<close>

lemma sum_list_less:
  fixes xs :: "nat list"
  shows "i < length xs \<Longrightarrow> y < xs ! i \<Longrightarrow> sum_list (xs[i := y]) < sum_list xs"
proof (induction xs arbitrary: i)
  case (Cons x xs)
  then show ?case by (cases i) auto
qed simp

text \<open>What the other threads know stays true when one thread moves.\<close>

lemma others_ok:
  assumes ok: "pool_ok as P bs ((d, D), ts)" and i: "i < length ts" "ts ! i = (t, q)"
    and mv: "moves as P bs (t, q) d bs' (t', q') d'" and j: "j < length ts" "j \<noteq> i"
  shows "pc_ok as P bs' d' (fst (ts ! j)) (snd (ts ! j))"
proof -
  note K = pool_okD [OF ok]
  have okj: "pc_ok as P bs d (fst (ts ! j)) (snd (ts ! j))" by (rule K(3) [OF j(1)])
  show ?thesis
  proof (cases "bs' = bs \<and> same_list d d' \<and> (\<not> is_writer t \<longrightarrow> same_data bs d d')")
    case True
    moreover have "is_clone (fst (ts ! j)) \<Longrightarrow> \<not> is_writer t" using K(7) [OF j(1) i(1)] i(2) by simp
    ultimately show ?thesis using pc_ok_same [OF okj] by blast
  next
    case False
    with mv obtain k where k: "is_add t" "bs = as" "grown d d'" "own q = Some k" "bs' = as @ [k]"
      by (auto simp: moves_def)
    have "\<not> is_add (fst (ts ! j))" using K(6) [OF j(1) i(1)] j(2) k(1) i(2) by auto
    moreover have "own (snd (ts ! j)) \<noteq> Some k" using K(5) [OF i(1) j(1)] j(2) k(4) i(2) by auto
    ultimately show ?thesis using pc_ok_grown [OF okj [unfolded k(2)] k(3)] k(5) by simp
  qed
qed

lemma locks_moved:
  assumes ok: "pool_ok as P bs ((d, D), ts)" and i: "i < length ts" "ts ! i = (t, q)"
    and mv: "moves as P bs (t, q) d bs' (t', q') d'"
  shows "locks_held d' (locks_of d' (ts[i := (t', q')]))"
proof -
  note K = pool_okD [OF ok]
  have topic: "topicDB d \<noteq> None \<longrightarrow> topicDB d' = topicDB d"
    using mv by (auto simp: moves_def same_list_head grown_def)
  have H: "locks_of d' (ts[i := (t', q')]) = (locks_of d ts)[i := held (topicDB d') q']"
  proof (rule nth_equalityI)
    fix j assume "j < length (locks_of d' (ts[i := (t', q')]))"
    then have j: "j < length ts" by simp
    show "locks_of d' (ts[i := (t', q')]) ! j = (locks_of d ts)[i := held (topicDB d') q'] ! j"
      using j held_grown [OF K(3) [OF j] topic] by (cases "j = i") auto
  qed simp
  have "lock_move (held (topicDB d) q) d (held (topicDB d') q') d'" using mv by (simp add: moves_def)
  then show ?thesis
    unfolding H by (rule locks_held_move [OF _ K(2)]) (use i in auto)
qed

lemma own_moved:
  assumes ok: "pool_ok as P bs ((d, D), ts)" and i: "i < length ts" "ts ! i = (t, q)"
    and own': "own q' = own q \<or> own q' = None \<or> own q' = Some (brk d)"
    and xy: "x < length ts" "y < length ts" "x \<noteq> y" "own (snd (ts[i := (t', q')] ! x)) = Some k"
  shows "own (snd (ts[i := (t', q')] ! y)) \<noteq> Some k"
proof
  let ?ts = "ts[i := (t', q')]"
  assume yk: "own (snd (?ts ! y)) = Some k"
  note K = pool_okD [OF ok]
  have nb: "own (snd (ts ! j)) \<noteq> Some (brk d)" if "j < length ts" for j
    using own_alloc [OF K(3) [OF that]] list_ok_fresh [OF K(1)] by blast
  have o: "own (snd (ts ! j)) = Some k" if "j < length ts" "own (snd (?ts ! j)) = Some k"
      "j' < length ts" "j' \<noteq> j" "own (snd (?ts ! j')) = Some k" for j j'
    using own' nb that i by (cases "j = i"; cases "j' = i") auto
  from o [of x y] o [of y x] xy yk K(5) [of x y k] show False by simp
qed

lemma dirty_moved:
  assumes ok: "pool_ok as P bs ((d, D), ts)" and i: "i < length ts" "ts ! i = (t, q)"
    and b: "b \<in> D \<and> dirty q \<noteq> Some b \<or> dirty q' = Some b"
  shows "\<exists>j<length ts. dirty (snd (ts[i := (t', q')] ! j)) = Some b"
proof (cases "dirty q' = Some b")
  case True
  with i show ?thesis by (intro exI [of _ i]) simp
next
  case False
  with b have "b \<in> D" "dirty q \<noteq> Some b" by auto
  with pool_okD(4) [OF ok] obtain j where j: "j < length ts" "dirty (snd (ts ! j)) = Some b" by blast
  with \<open>dirty q \<noteq> Some b\<close> i have "j \<noteq> i" by auto
  with j show ?thesis by (intro exI [of _ j]) simp
qed

lemma pool_step_ok:
  assumes ok: "pool_ok as P bs (m, ts)" and st: "pool_step (m, ts) (m', ts')"
  shows "\<exists>bs'. pool_ok as P bs' (m', ts')"
    and "sum_list (map (left as) ts') < sum_list (map (left as) ts)"
proof -
  obtain d D d' D' where m: "m = (d, D)" "m' = (d', D')" by fastforce
  note okd = ok [unfolded m] and K = pool_okD [OF ok [unfolded m]]
  from st obtain i u where i: "i < length ts" "\<not> finished (ts ! i)"
    "thread_step (ts ! i) m = Inr (u, m')" "ts' = ts[i := u]" by (auto elim: pool_stepE)
  obtain t q t' q' where u: "ts ! i = (t, q)" "u = (t', q')" by fastforce
  have s: "thread_step (t, q) (d, D) = Inr ((t', q'), d', D')" and f: "\<not> finished (t, q)"
    using i m u by simp_all
  have tq: "pc_ok as P bs d t q" using K(3) [OF i(1)] u by simp
  note dirty = thread_moves(2) [OF s f tq K(1)]
  obtain bs' where mv: "moves as P bs (t, q) d bs' (t', q') d'"
    using thread_moves(1) [OF s f tq K(1)] by blast
  have ts': "ts' = ts[i := (t', q')]" using i(4) u(2) by simp
  have nth: "ts' ! j = (if j = i then (t', q') else ts ! j)" if "j < length ts" for j
    using that by (simp add: ts')
  have kinds: "is_add (fst (ts' ! j)) = is_add (fst (ts ! j))"
    "is_clone (fst (ts' ! j)) = is_clone (fst (ts ! j))"
    "is_writer (fst (ts' ! j)) = is_writer (fst (ts ! j))" if "j < length ts" for j
    using mv nth [OF that] u by (auto simp: moves_def)
  have "locks_held d' (locks_of d' ts')" unfolding ts' by (rule locks_moved [OF okd i(1) u(1) mv])
  moreover have "\<forall>j<length ts. pc_ok as P bs' d' (fst (ts' ! j)) (snd (ts' ! j))"
    using others_ok [OF okd i(1) u(1) mv] mv nth by (auto simp: moves_def)
  moreover have "\<forall>b\<in>D'. \<exists>j<length ts. dirty (snd (ts' ! j)) = Some b"
    unfolding ts' using dirty_moved [OF okd i(1) u(1)] dirty by blast
  moreover have "own q' = own q \<or> own q' = None \<or> own q' = Some (brk d)"
    using mv by (auto simp: moves_def)
  note own_moved [OF okd i(1) u(1) this, of _ _ t', folded ts']
  moreover have "bs' = as \<or> (\<exists>j<length ts. is_add (fst (ts' ! j)))" "list_ok as P bs' d'"
    using mv K(8) kinds i(1) u by (auto simp: moves_def)
  ultimately have "pool_ok as P bs' (m', ts')"
    using K(6,7) kinds unfolding m pool_ok_def by (simp add: ts')
  then show "\<exists>bs'. pool_ok as P bs' (m', ts')" ..
  have "sum_list ((map (left as) ts)[i := left as (t', q')]) < sum_list (map (left as) ts)"
    by (rule sum_list_less) (use i(1) u mv in \<open>auto simp: moves_def\<close>)
  then show "sum_list (map (left as) ts') < sum_list (map (left as) ts)"
    by (simp add: ts' map_update)
qed

lemma pool_reachable_ok:
  assumes "pool_ok as P as p" and "pool_step\<^sup>*\<^sup>* p p'"
  shows "\<exists>bs. pool_ok as P bs p'"
  using assms(2)
proof (induction rule: rtranclp_induct)
  case base
  with assms(1) show ?case ..
next
  case (step y z)
  then show ?case using pool_step_ok(1) by (metis prod.collapse)
qed

lemma steps_bounded:
  assumes "pool_ok as P bs p" and "(pool_step ^^ k) p p'"
  shows "k + sum_list (map (left as) (snd p')) \<le> sum_list (map (left as) (snd p))"
  using assms
proof (induction k arbitrary: p bs)
  case (Suc k)
  from Suc.prems(2) obtain y where y: "pool_step p y" "(pool_step ^^ k) y p'"
    by (metis relpowp_Suc_E2)
  from Suc.prems(1) y(1) pool_step_ok [of as P bs "fst p" "snd p" "fst y" "snd y"] obtain bs' where
    "pool_ok as P bs' y" "sum_list (map (left as) (snd y)) < sum_list (map (left as) (snd p))"
    by auto
  with Suc.IH [OF _ y(2)] show ?case by fastforce
qed simp

end
