(* ===== verification/ThreadsSafe.thy ===== *)
theory ThreadsSafe
  imports ThreadsPool
begin

text \<open>
  Compatible threads neither fault nor wait for each other for ever, and what they leave.
\<close>

section \<open>Every step is possible, or waits for a lock\<close>

lemma rdlock_step:
  "heap d a = Some n \<Longrightarrow> topicNodeRLock a d =
     (case node_lock n of Readers k \<Rightarrow> Inr (put a (n\<lparr>node_lock := Readers (Suc k)\<rparr>) d) | Writer \<Rightarrow> Inl Deadlock)"
  by (simp add: topicNodeRLock_def load_def store_def put_def split: rwlock.splits)

lemma wrlock_steps:
  "heap d a = Some n \<Longrightarrow> topicNodeWLock a d =
     (if node_lock n = Unlocked then Inr (put a (n\<lparr>node_lock := Writer\<rparr>) d) else Inl Deadlock)"
  "heap d a = Some n \<Longrightarrow> topicDataWLock a d =
     (if data_lock n = Unlocked then Inr (put a (n\<lparr>data_lock := Writer\<rparr>) d) else Inl Deadlock)"
  by (cases "node_lock n" rule: wrlock.cases; cases "data_lock n" rule: wrlock.cases;
      simp add: topicNodeWLock_def topicDataWLock_def load_def store_def put_def)+

lemma unlock_steps:
  "heap d a = Some n \<Longrightarrow> node_lock n \<noteq> Unlocked \<Longrightarrow> \<exists>d'. topicNodeUnlock a d = Inr d'"
  "heap d a = Some n \<Longrightarrow> data_lock n \<noteq> Unlocked \<Longrightarrow> \<exists>d'. topicDataUnlock a d = Inr d'"
  by (cases "node_lock n" rule: unlock.cases; cases "data_lock n" rule: unlock.cases;
      simp add: topicNodeUnlock_def topicDataUnlock_def load_def store_def)+

lemma at_ref_step: "at_ref (topicDB d) r = Some a \<Longrightarrow> bindR (node_of r d) f = f a"
  by (cases r) (auto simp: deref_def)

lemma mem_steps:
  "heap d a = Some n \<Longrightarrow> load a d = Inr n"
  "heap d a = Some n \<Longrightarrow> store a n' d = Inr (put a n' d)"
  "heap d a = Some n \<Longrightarrow> set_nextPtr a p d = Inr (put a (n\<lparr>nextPtr := p\<rparr>) d)"
  by (simp_all add: set_nextPtr_Inr)

text \<open>What the locks of a pool give to one of its threads.\<close>

definition secured :: "db \<Rightarrow> addr set \<Rightarrow> task \<Rightarrow> pc \<Rightarrow> bool" where
  "secured d D t q \<longleftrightarrow>
     (\<forall>r w e. held (topicDB d) q = (r, w, e) \<longrightarrow>
        (\<forall>a. r = Some a \<or> w = Some a \<longrightarrow> (\<exists>n. heap d a = Some n \<and> node_lock n \<noteq> Unlocked)) \<and>
        (\<forall>a. e = Some a \<longrightarrow> (\<exists>n. heap d a = Some n \<and> data_lock n \<noteq> Unlocked) \<and>
           (a \<in> D \<longrightarrow> dirty q = Some a))) \<and>
     (is_clone t \<longrightarrow> D = {})"

text \<open>A thread waits for a lock that a writer holds, or for the readers of the last node.\<close>

definition waits :: "db \<Rightarrow> pc \<Rightarrow> bool" where
  "waits d q \<longleftrightarrow>
     (\<exists>r. held (topicDB d) q = (r, None, None)) \<and>
     ((\<exists>a n. heap d a = Some n \<and> (node_lock n = Writer \<or> data_lock n \<noteq> Unlocked)) \<or>
      (\<exists>k b n. q = Adding (A_lock k b) \<and> heap d b = Some n \<and> node_lock n \<noteq> Unlocked))"

definition can_step :: "thread \<Rightarrow> db \<Rightarrow> addr set \<Rightarrow> bool" where
  "can_step u d D \<longleftrightarrow>
     (\<exists>x. thread_step u (d, D) = Inr x) \<or> thread_step u (d, D) = Inl Deadlock \<and> waits d (snd u)"

lemma securedD:
  assumes "secured d D t q"
  shows "held (topicDB d) q = (Some a, w, e) \<Longrightarrow> \<exists>n. heap d a = Some n \<and> node_lock n \<noteq> Unlocked"
    "held (topicDB d) q = (r, Some a, e) \<Longrightarrow> \<exists>n. heap d a = Some n \<and> node_lock n \<noteq> Unlocked"
    "held (topicDB d) q = (r, w, Some a) \<Longrightarrow> \<exists>n. heap d a = Some n \<and> data_lock n \<noteq> Unlocked"
    "held (topicDB d) q = (r, w, Some a) \<Longrightarrow> a \<in> D \<Longrightarrow> dirty q = Some a"
    "is_clone t \<Longrightarrow> D = {}"
  using assms by (auto simp: secured_def)

lemma secured_unlock:
  "secured d D t q \<Longrightarrow> held (topicDB d) q = (Some a, w, e) \<Longrightarrow> \<exists>d'. topicNodeUnlock a d = Inr d'"
  "secured d D t q \<Longrightarrow> held (topicDB d) q = (r, Some a, e) \<Longrightarrow> \<exists>d'. topicNodeUnlock a d = Inr d'"
  using securedD(1,2) unlock_steps(1) by metis+

lemma search_can_step:
  assumes ok: "pc_ok as P bs d t (Search s)" and l: "list_ok as P bs d"
    and sec: "secured d D t (Search s)"
  shows "can_step (t, Search s) d D"
proof (cases s)
  case Enter
  then show ?thesis by (simp add: can_step_def)
next
  case (Lock r q)
  with ok obtain a where a: "at_ref (topicDB d) r = Some a" "a \<in> set bs" by auto
  with list_ok_node [OF l] obtain n where n: "heap d a = Some n" by blast
  show ?thesis
  proof (cases "node_lock n")
    case (Readers x1)
    with Lock n show ?thesis by (simp add: at_ref_step [OF a(1)] can_step_def rdlock_step)
  next
    case Writer
    with Lock n show ?thesis
      by (auto simp: at_ref_step [OF a(1)] can_step_def rdlock_step waits_def)
  qed
next
  case (Compare r q)
  with ok obtain a where a: "at_ref (topicDB d) r = Some a" "a \<in> set bs" by auto
  with list_ok_node [OF l] obtain n where n: "heap d a = Some n" by blast
  with Compare show ?thesis by (simp add: at_ref_step [OF a(1)] can_step_def mem_steps(1))
next
  case (Advance r)
  with ok obtain a n where a: "at_ref (topicDB d) r = Some a" "heap d a = Some n" by auto
  with Advance show ?thesis by (simp add: at_ref_step [OF a(1)] can_step_def mem_steps(1))
next
  case (Unlock r a cur)
  with ok have a: "at_ref (topicDB d) r = Some a" by auto
  from Unlock secured_unlock(1) [OF sec] obtain d' where "topicNodeUnlock a d = Inr d'" by auto
  with Unlock show ?thesis by (simp add: at_ref_step [OF a] can_step_def)
next
  case (Loop a cur)
  then show ?thesis by (simp add: can_step_def)
next
  case (Found r q)
  with ok obtain a where "at_ref (topicDB d) r = Some a" by auto
  with Found show ?thesis by (cases t) (simp_all add: can_step_def at_ref_step)
next
  case Missing
  then show ?thesis by (simp add: can_step_def)
qed

lemma set_can_step:
  assumes l: "list_ok as P bs d" and a: "a \<in> set bs" and t: "t = SetTopic p data sz tma dma"
    and sec: "secured d D t (Setting a s)"
  shows "can_step (t, Setting a s) d D"
proof -
  from list_ok_node [OF l a] obtain n where n: "heap d a = Some n" by blast
  have D: "held_set a s = (Some a, None, Some a) \<Longrightarrow> a \<in> D \<Longrightarrow> dirty (Setting a s) = Some a"
    and N: "held_set a s = (Some a, None, e) \<Longrightarrow> node_lock n \<noteq> Unlocked"
    and E: "held_set a s = (Some a, None, Some a) \<Longrightarrow> data_lock n \<noteq> Unlocked" for e
    using securedD [OF sec] n by fastforce+
  show ?thesis
  proof (cases s)
    case S_lock_node
    with t n show ?thesis by (cases "node_lock n") (auto simp: can_step_def rdlock_step waits_def)
  next
    case S_lock_data
    with t n show ?thesis by (auto simp: can_step_def wrlock_steps waits_def)
  next
    case S_free
    with t n D show ?thesis by (auto simp: can_step_def mem_steps Let_def)
  next
    case S_unlock_data
    with t E unlock_steps(2) [OF n] show ?thesis by (auto simp: can_step_def)
  next
    case S_unlock_node
    with t N unlock_steps(1) [OF n] show ?thesis by (auto simp: can_step_def)
  qed (use t n in \<open>auto simp: can_step_def mem_steps\<close>)
qed

lemma clear_can_step:
  assumes l: "list_ok as P bs d" and a: "a \<in> set bs" and t: "t = DeleteTopicData p"
    and sec: "secured d D t (Clearing a s)"
  shows "can_step (t, Clearing a s) d D"
proof -
  from list_ok_node [OF l a] obtain n where n: "heap d a = Some n" by blast
  have D: "held_clear a s = (Some a, None, Some a) \<Longrightarrow> a \<in> D \<Longrightarrow> dirty (Clearing a s) = Some a"
    and N: "held_clear a s = (Some a, None, e) \<Longrightarrow> node_lock n \<noteq> Unlocked"
    and E: "held_clear a s = (Some a, None, Some a) \<Longrightarrow> data_lock n \<noteq> Unlocked" for e
    using securedD [OF sec] n by fastforce+
  show ?thesis
  proof (cases s)
    case C_lock_node
    with t n show ?thesis by (cases "node_lock n") (auto simp: can_step_def rdlock_step waits_def)
  next
    case C_lock_data
    with t n show ?thesis by (auto simp: can_step_def wrlock_steps waits_def)
  next
    case C_free
    with t n D show ?thesis by (auto simp: can_step_def mem_steps)
  next
    case C_unlock_data
    with t E unlock_steps(2) [OF n] show ?thesis by (auto simp: can_step_def)
  next
    case C_unlock_node
    with t N unlock_steps(1) [OF n] show ?thesis by (auto simp: can_step_def)
  qed (use t n in \<open>auto simp: can_step_def mem_steps\<close>)
qed

lemma clone_can_step:
  assumes l: "list_ok as P bs d" and ok: "pc_ok as P bs d t (Cloning r a s)"
    and sec: "secured d D t (Cloning r a s)"
  shows "can_step (t, Cloning r a s) d D"
proof -
  from ok have a: "at_ref (topicDB d) r = Some a" "a \<in> set bs" "is_clone t" "clone_ok bs d a s" by auto
  from list_ok_node [OF l a(2)] obtain n where n: "heap d a = Some n" by blast
  have D: "D = {}" by (rule securedD(5) [OF sec a(3)])
  have rd: "read_data a (d, D) = Inr (td_data n)" using n D by (simp add: read_data_Inr)
  have op: "operation_step t (Cloning r a s) m = clone_step r a s m" for m by (cases t) auto
  have N: "node_lock n \<noteq> Unlocked" using securedD(1) [OF sec] n by fastforce
  have "\<exists>x. clone_step r a s (d, D) = Inr x"
  proof (cases s)
    case K_malloc
    with n show ?thesis by (auto simp: mem_steps malloc_node_def)
  next
    case (K_data k z)
    with rd a(4) n show ?thesis by (cases z) (auto simp: deref_def)
  next
    case (K_times k z)
    with a(4) n obtain m where "heap d k = Some m" by (auto simp: fresh_def)
    with K_times n show ?thesis by (auto simp: mem_steps)
  next
    case (K_unlock p)
    with unlock_steps(1) [OF n N] show ?thesis by (auto simp: at_ref_step [OF a(1)])
  qed (use rd in auto)
  with op show ?thesis by (auto simp: can_step_def)
qed

lemma add_can_step:
  assumes l: "list_ok as P bs d" and ok: "pc_ok as P bs d t (Adding s)"
    and sec: "secured d D t (Adding s)"
  shows "can_step (t, Adding s) d D"
proof -
  from ok obtain path sz tma where t: "t = AddTopic path sz tma" by (cases t) auto
  from ok t have s: "add_ok as bs d (td_path (new_topic (the path) sz tma)) s" by simp
  have un: "\<exists>d'. topicNodeUnlock p d = Inr d'"
    if "held_add s = (Some p, None, None) \<or> held_add s = (None, Some p, None)" for p
    using secured_unlock [OF sec] that by auto
  show ?thesis
  proof (cases s)
    case A_malloc
    with t show ?thesis by (auto simp: can_step_def malloc_node_def)
  next
    case (A_loop k prev cur)
    show ?thesis
    proof (cases cur)
      case None
      with A_loop t show ?thesis by (simp add: can_step_def)
    next
      case (Some c)
      with A_loop s have "c \<in> set bs"
        using list_ok_head_in [OF l] list_ok_next_in [OF l] by (auto simp: next_is_def split: option.splits)
      with list_ok_node [OF l] obtain n where "heap d c = Some n" by blast
      with A_loop Some t show ?thesis
        by (cases "node_lock n") (auto simp: can_step_def rdlock_step waits_def)
    qed
  next
    case (A_next k c)
    with s list_ok_node [OF l] obtain n where "heap d c = Some n" by auto
    with A_next t show ?thesis by (simp add: can_step_def mem_steps)
  next
    case (A_unlock k p cur)
    with un [of p] t show ?thesis by (auto simp: can_step_def)
  next
    case (A_first k)
    with s t show ?thesis by (auto simp: can_step_def new_at_def mem_steps)
  next
    case (A_lock k p)
    with s t show ?thesis by (auto simp: can_step_def next_is_def wrlock_steps waits_def)
  next
    case (A_link k p)
    with s t show ?thesis by (auto simp: can_step_def next_is_def mem_steps)
  next
    case (A_link_next k p)
    with s t show ?thesis by (auto simp: can_step_def added_def mem_steps)
  next
    case (A_release k p)
    with un [of p] t show ?thesis by (auto simp: can_step_def)
  qed (use t in \<open>auto simp: can_step_def\<close>)
qed

lemma thread_can_step:
  assumes l: "list_ok as P bs d" and ok: "pc_ok as P bs d t q" and sec: "secured d D t q"
    and f: "\<not> finished (t, q)"
  shows "can_step (t, q) d D"
proof (cases q)
  case (Search s)
  with search_can_step l ok sec show ?thesis by blast
next
  case (Release r a)
  with ok have a: "at_ref (topicDB d) r = Some a" by auto
  from Release secured_unlock(1) [OF sec] obtain d' where "topicNodeUnlock a d = Inr d'" by auto
  with Release show ?thesis by (simp add: at_ref_step [OF a] can_step_def)
next
  case (Got topic)
  with ok show ?thesis
    by (cases t) (auto simp: can_step_def hit_def mem_steps split: option.splits)
next
  case (Setting a s)
  with set_can_step [OF l] ok sec show ?thesis by auto
next
  case (Clearing a s)
  with clear_can_step [OF l] ok sec show ?thesis by auto
next
  case (Cloning r a s)
  with clone_can_step [OF l] ok sec show ?thesis by auto
next
  case (Adding s)
  with add_can_step [OF l] ok sec show ?thesis by auto
qed (use ok f in auto)

section \<open>No fault and no deadlock\<close>

lemma dirty_held: "dirty q = Some a \<Longrightarrow> \<exists>r w. held h q = (r, w, Some a)"
  by (cases q rule: dirty.cases) auto

lemma dirty_writer: "pc_ok as P bs d t q \<Longrightarrow> dirty q = Some a \<Longrightarrow> is_writer t"
  by (cases q rule: dirty.cases) auto

lemma pool_secured:
  assumes ok: "pool_ok as P bs ((d, D), ts)" and i: "i < length ts"
  shows "secured d D (fst (ts ! i)) (snd (ts ! i))"
proof -
  note K = pool_okD [OF ok]
  let ?H = "locks_of d ts"
  have l: "i < length ?H" "?H ! i = held (topicDB d) (snd (ts ! i))" using i by simp_all
  have node: "\<exists>n. heap d a = Some n \<and> node_held n a ?H" if "readers a ?H + writers a ?H + editors a ?H > 0" for a
    using K(2) that unfolding locks_held_def by (auto split: option.splits dest: spec [of _ a])
  have R: "\<exists>n. heap d a = Some n \<and> node_lock n \<noteq> Unlocked"
    if h: "held (topicDB d) (snd (ts ! i)) = (r, w, e)" and a: "r = Some a \<or> w = Some a" for r w e a
  proof -
    have "readers a ?H + writers a ?H > 0" using held_counts_pos [OF l(1), of r w e a] l(2) h a by auto
    with node [of a] show ?thesis by (auto simp: node_held_def)
  qed
  have E: "(\<exists>n. heap d a = Some n \<and> data_lock n \<noteq> Unlocked) \<and> (a \<in> D \<longrightarrow> dirty (snd (ts ! i)) = Some a)"
    if h: "held (topicDB d) (snd (ts ! i)) = (r, w, Some a)" for r w a
  proof -
    have e: "editors a ?H > 0" using held_counts_pos(3) [OF l(1), of r w "Some a" a] l(2) h by simp
    with node [of a] obtain n where n: "heap d a = Some n" "node_held n a ?H" by auto
    have "dirty (snd (ts ! i)) = Some a" if "a \<in> D"
    proof -
      from K(4) [OF that] obtain j where j: "j < length ts" "dirty (snd (ts ! j)) = Some a" by blast
      from dirty_held [OF j(2)] obtain r' w' where "held (topicDB d) (snd (ts ! j)) = (r', w', Some a)" by blast
      with h i j n(2) have "i = j"
        by (intro cnt_one [of "\<lambda>(r, w, e). e = Some a" ?H]) (auto simp: node_held_def editors_def)
      with j show ?thesis by simp
    qed
    with e n show ?thesis by (auto simp: node_held_def)
  qed
  have "D = {}" if "is_clone (fst (ts ! i))"
    using K(4) K(7) [OF i _ that] dirty_writer [OF K(3)] by blast
  with R E show ?thesis unfolding secured_def by blast
qed

lemma pool_progress:
  assumes ok: "pool_ok as P bs ((d, D), ts)"
  shows "(\<forall>u\<in>set ts. finished u) \<or> (\<exists>p'. pool_step ((d, D), ts) p')"
proof (rule ccontr)
  assume "\<not> ?thesis"
  then obtain u where u: "u \<in> set ts" "\<not> finished u" and stuck: "\<And>p'. \<not> pool_step ((d, D), ts) p'"
    by blast
  note K = pool_okD [OF ok]
  let ?H = "locks_of d ts"
  have w: "waits d (snd (ts ! i))" if i: "i < length ts" "\<not> finished (ts ! i)" for i
  proof -
    have "can_step (ts ! i) d D"
      using thread_can_step [OF K(1) K(3) [OF i(1)] pool_secured [OF ok i(1)]] i(2) by simp
    with stuck pool_step.intros [OF i, of "(d, D)"] show ?thesis
      unfolding can_step_def by (metis prod.collapse)
  qed
  have busy: "\<not> finished (ts ! i)" if "i < length ts" "held (topicDB d) (snd (ts ! i)) \<noteq> (None, None, None)" for i
    using that by (cases "ts ! i" rule: finished.cases) auto
  have holder: "\<exists>i<length ts. Q (held (topicDB d) (snd (ts ! i)))" if "cnt Q ?H > 0" for Q
  proof -
    from that have "\<exists>x\<in>set ?H. Q x" using cnt_zero [of Q ?H] by auto
    then obtain i where "i < length ?H" "Q (?H ! i)" by (metis in_set_conv_nth)
    then show ?thesis by auto
  qed
  have w_holder: "\<exists>i<length ts. \<exists>r e. held (topicDB d) (snd (ts ! i)) = (r, Some a, e)"
    if "writers a ?H > 0" for a
  proof -
    from holder [OF that [unfolded writers_def]] obtain i where
      i: "i < length ts \<and> (case held (topicDB d) (snd (ts ! i)) of (r, w, e) \<Rightarrow> w = Some a)" ..
    then show ?thesis by (intro exI [of _ i]) (auto split: prod.splits)
  qed
  have e_holder: "\<exists>i<length ts. \<exists>r w. held (topicDB d) (snd (ts ! i)) = (r, w, Some a)"
    if "editors a ?H > 0" for a
  proof -
    from holder [OF that [unfolded editors_def]] obtain i where
      i: "i < length ts \<and> (case held (topicDB d) (snd (ts ! i)) of (r, w, e) \<Rightarrow> e = Some a)" ..
    then show ?thesis by (intro exI [of _ i]) (auto split: prod.splits)
  qed
  have r_holder: "\<exists>i<length ts. \<exists>w e. held (topicDB d) (snd (ts ! i)) = (Some a, w, e)"
    if "readers a ?H > 0" for a
  proof -
    from holder [OF that [unfolded readers_def]] obtain i where
      i: "i < length ts \<and> (case held (topicDB d) (snd (ts ! i)) of (r, w, e) \<Rightarrow> r = Some a)" ..
    then show ?thesis by (intro exI [of _ i]) (auto split: prod.splits)
  qed
  have nw: "\<not> (node_lock n = Writer \<or> data_lock n \<noteq> Unlocked)" if n: "heap d a = Some n" for a n
  proof
    assume "node_lock n = Writer \<or> data_lock n \<noteq> Unlocked"
    with locks_heldD [OF K(2) n] have "writers a ?H > 0 \<or> editors a ?H > 0" by (auto simp: node_held_def)
    then obtain i where i: "i < length ts" "\<not> (\<exists>r. held (topicDB d) (snd (ts ! i)) = (r, None, None))"
      using w_holder [of a] e_holder [of a] by auto
    then have "\<not> finished (ts ! i)" using busy by auto
    from w [OF i(1) this] i(2) show False by (simp add: waits_def)
  qed
  from u(1) obtain i where i: "i < length ts" "ts ! i = u" by (auto simp: in_set_conv_nth)
  from w [of i] i u nw obtain b n where n: "heap d b = Some n" "node_lock n \<noteq> Unlocked"
    by (auto simp: waits_def)
  with locks_heldD [OF K(2) n(1)] nw [OF n(1)] have "readers b ?H > 0" by (auto simp: node_held_def)
  then obtain j where j: "j < length ts" "\<exists>w e. held (topicDB d) (snd (ts ! j)) = (Some b, w, e)"
    using r_holder by blast
  then have "\<not> finished (ts ! j)" using busy by auto
  from w [OF j(1) this] nw j(2) show False by (auto simp: waits_def)
qed

lemma pool_no_fault:
  assumes ok: "pool_ok as P bs p" shows "\<not> pool_faults p e"
proof
  assume f: "pool_faults p e"
  obtain d D ts where p: "p = ((d, D), ts)" by (metis prod.collapse)
  from f p obtain i where i: "i < length ts" "\<not> finished (ts ! i)"
    "thread_step (ts ! i) (d, D) = Inl e" "e \<noteq> Deadlock"
    by (auto simp: pool_faults_def in_set_conv_nth)
  note K = pool_okD [OF ok [unfolded p]]
  have "can_step (ts ! i) d D"
    using thread_can_step [OF K(1) K(3) [OF i(1)] pool_secured [OF ok [unfolded p] i(1)]] i(2) by simp
  with i show False by (simp add: can_step_def)
qed


lemma threads_no_fault:
  assumes "db_rep d as cs" and "compatible ts" and "pool_step\<^sup>*\<^sup>* (threads d ts) p"
  shows "\<not> pool_faults p e" and "(\<forall>u\<in>set (snd p). finished u) \<or> (\<exists>p'. pool_step p p')"
proof -
  obtain bs where ok: "pool_ok as (\<lambda>a. td_path (the (heap d a))) bs p"
    using pool_reachable_ok [OF initially_ok [OF assms(1,2)] assms(3)] by blast
  show "\<not> pool_faults p e" by (rule pool_no_fault [OF ok])
  obtain d' D' ts' where "p = ((d', D'), ts')" by (metis prod.collapse)
  with ok pool_progress show "(\<forall>u\<in>set (snd p). finished u) \<or> (\<exists>p'. pool_step p p')" by auto
qed

lemma threads_end:
  assumes "db_rep d as cs" and "compatible ts" and "(pool_step ^^ k) (threads d ts) p"
  shows "k \<le> sum_list (map (\<lambda>t. left as (t, entry t)) ts)"
  using steps_bounded [OF initially_ok [OF assms(1,2)] assms(3)] by (simp add: threads_def o_def)

section \<open>What the threads leave\<close>

text \<open>A thread keeps its task, but \<open>updateTopicData\<close> ends in a call of \<open>setTopic\<close>.\<close>

fun is_update :: "task \<Rightarrow> bool" where
  "is_update (UpdateTopicData _ _ _ _) = True" | "is_update _ = False"

lemma task_kept:
  assumes "thread_step (t, q) m = Inr ((t', q'), m')"
  shows "(\<not> is_update t \<longrightarrow> t' = t) \<and> is_add t' = is_add t"
proof (cases q)
  case (Search s)
  with assms show ?thesis by (cases s) (auto simp: bindR_eq_Inr)
next
  case (Got topic)
  with assms show ?thesis by (cases t) (auto simp: bindR_eq_Inr split: option.splits)
qed (use assms in \<open>auto simp: bindR_eq_Inr\<close>)

lemma tasks_kept:
  assumes "pool_step\<^sup>*\<^sup>* (threads d ts) p"
  shows "length (snd p) = length ts \<and>
    (\<forall>i<length ts. (\<not> is_update (ts ! i) \<longrightarrow> fst (snd p ! i) = ts ! i) \<and>
       is_add (fst (snd p ! i)) = is_add (ts ! i))"
  using assms
proof (induction rule: rtranclp_induct)
  case base
  then show ?case by (simp add: threads_def)
next
  case (step y z)
  obtain m us m' us' where yz: "y = (m, us)" "z = (m', us')" by fastforce
  with step.hyps(2) obtain j u where j: "j < length us" "thread_step (us ! j) m = Inr (u, m')" "us' = us[j := u]"
    by (auto elim: pool_stepE)
  obtain t q t' q' where tq: "us ! j = (t, q)" "u = (t', q')" by fastforce
  with j have "thread_step (t, q) m = Inr ((t', q'), m')" by simp
  note k = task_kept [OF this]
  have "(\<not> is_update (ts ! i) \<longrightarrow> fst (us' ! i) = ts ! i) \<and> is_add (fst (us' ! i)) = is_add (ts ! i)"
    if i: "i < length ts" for i
    using step.IH yz i j tq k by (cases "i = j") auto
  with step.IH yz j show ?case by simp
qed

text \<open>When all threads have ended nobody holds a lock, and the list is a list again.\<close>

lemma finished_rep:
  assumes ok: "pool_ok as P bs ((d, D), us)" and f: "\<forall>u\<in>set us. finished u"
  obtains cs where "db_rep d bs cs" "D = {}"
proof -
  note K = pool_okD [OF ok]
  have q: "\<exists>v. snd u = Done v" if "u \<in> set us" for u
    using f that by (cases u rule: finished.cases) auto
  have h: "locks_of d us = map (\<lambda>u. (None, None, None)) us"
    using q by (intro map_cong refl) (metis held.simps(9))
  have u: "unlocked n" if "heap d a = Some n" for a n
    using locks_heldD [OF K(2) that] h
    by (auto simp: node_held_def held_count_defs cnt_def unlocked_def filter_empty_conv)
  have D: "D = {}"
  proof (rule ccontr)
    assume "D \<noteq> {}"
    then obtain b where "b \<in> D" by blast
    from K(4) [OF this] obtain i where i: "i < length us" "dirty (snd (us ! i)) = Some b" by blast
    from q [OF nth_mem [OF i(1)]] i(2) show False by auto
  qed
  define cs where "cs = sorted_list_of_set (dom (heap d) - set bs)"
  have "dom (heap d) \<subseteq> {..<brk d}" using K(1) by (auto simp: list_ok_def)
  then have fin: "finite (dom (heap d))" by (rule finite_subset) simp
  then have cs: "set cs = dom (heap d) - set bs" "distinct cs" by (simp_all add: cs_def)
  have "set bs \<subseteq> dom (heap d)" using list_ok_node [OF K(1)] by auto
  moreover have "distinct bs" using K(1) by (simp add: list_ok_def)
  ultimately have "dom (heap d) = set bs \<union> set cs" "distinct (bs @ cs)" using cs by auto
  with K(1) u have "db_rep d bs cs" unfolding db_rep_def list_ok_def by blast
  from that [OF this D] show ?thesis .
qed

text \<open>The first node of the list with a path, as the search defines it.\<close>

lemma clear_to_find:
  assumes l: "list_ok as P bs d" and a: "a \<in> set as" and c: "clear_to as P p a" and p: "p = Some s" "P a = s"
    and P: "\<And>x. x \<in> set as \<Longrightarrow> P x = td_path (the (heap d0 x))"
  shows "find_addr d0 as s = Some a"
proof -
  from split_list_first [OF a] obtain us vs where as: "as = us @ a # vs" "a \<notin> set us" by blast
  then have us: "takeWhile (\<lambda>x. x \<noteq> a) as = us" by (auto simp: takeWhile_append)
  have "td_path (the (heap d0 x)) \<noteq> s" if x: "x \<in> set us" for x
  proof -
    have "P x \<noteq> s" using c p x by (auto simp: clear_to_def us)
    with P [of x] as x show ?thesis by simp
  qed
  then have "find_addr d0 us s = None" by (simp add: find_addr_def find_None_iff)
  moreover have "td_path (the (heap d0 a)) = s" using P [of a] as p by simp
  ultimately show ?thesis by (simp add: find_addr_def find_append as(1))
qed


text \<open>What \<open>getTopic\<close> may answer: the first node with the path, or else a node added meanwhile.\<close>

definition get_answer :: "db \<Rightarrow> addr list \<Rightarrow> addr list \<Rightarrow> db \<Rightarrow> cstring option \<Rightarrow> addr option \<Rightarrow> bool" where
  "get_answer d as bs d' p r \<longleftrightarrow>
     (case p of
        None \<Rightarrow> r = None
      | Some s \<Rightarrow>
          (case find_addr d as s of
             Some a \<Rightarrow> r = Some a
           | None \<Rightarrow> r = None \<or>
               (\<exists>k. bs = as @ [k] \<and> r = Some k \<and> td_path (the (heap d' k)) = s)))"

lemma not_in_answer:
  assumes "not_in as (\<lambda>a. td_path (the (heap d a))) p" shows "get_answer d as bs d' p None"
  using assms by (auto simp: get_answer_def not_in_def find_addr_def find_Some_iff split: option.splits)

lemma hit_answer:
  assumes l: "list_ok as (\<lambda>a. td_path (the (heap d a))) bs d'"
    and h: "hit as (\<lambda>a. td_path (the (heap d a))) bs d' p a"
  shows "get_answer d as bs d' p (Some a)"
proof -
  from h obtain n where n: "a \<in> set bs" "clear_to as (\<lambda>a. td_path (the (heap d a))) p a"
    "heap d' a = Some n" "p = Some (td_path n)" by (auto simp: hit_def)
  show ?thesis
  proof (cases "a \<in> set as")
    case True
    with l n(3) have "td_path (the (heap d a)) = td_path n" by (auto simp: list_ok_def)
    from clear_to_find [OF l True n(2,4) this refl] n(4) show ?thesis by (simp add: get_answer_def)
  next
    case False
    with l n(1) have bs: "bs = as @ [a]" by (auto simp: list_ok_def)
    from False have "takeWhile (\<lambda>x. x \<noteq> a) as = as" by (auto simp: takeWhile_eq_all_conv)
    with n(2,4) have "find_addr d as (td_path n) = None"
      by (auto simp: clear_to_def find_addr_def find_None_iff)
    with bs n(3,4) show ?thesis by (simp add: get_answer_def)
  qed
qed

text \<open>The answers of the threads, and the node one of them added.\<close>

lemma finished_answers:
  assumes ok: "pool_ok as (\<lambda>a. td_path (the (heap d a))) bs ((d', D), us)"
    and i: "i < length us" "finished (us ! i)"
  shows "fst (us ! i) = GetTopic p \<Longrightarrow> \<exists>r. snd (us ! i) = Done (Ptr r) \<and> get_answer d as bs d' p r"
    and "fst (us ! i) = AddTopic path sz tma \<Longrightarrow>
      (if snd (us ! i) = Done (Status 1)
       then \<exists>k. bs = as @ [k] \<and> td_path (the (heap d' k)) = td_path (new_topic (the path) sz tma)
       else bs = as)"
proof -
  note K = pool_okD [OF ok]
  obtain v where v: "snd (us ! i) = Done v" using i(2) by (cases "us ! i" rule: finished.cases) auto
  show "\<exists>r. snd (us ! i) = Done (Ptr r) \<and> get_answer d as bs d' p r" if "fst (us ! i) = GetTopic p"
    using K(3) [OF i(1)] v that not_in_answer [of as d p bs d'] hit_answer [OF K(1)]
    by (auto split: return.splits option.splits)
  show "if snd (us ! i) = Done (Status 1)
       then \<exists>k. bs = as @ [k] \<and> td_path (the (heap d' k)) = td_path (new_topic (the path) sz tma)
       else bs = as" if "fst (us ! i) = AddTopic path sz tma"
    using K(3) [OF i(1)] v that by (auto simp: added_def split: if_splits)
qed

end
