(* ===== verification/ThreadsHazard.thy ===== *)
theory ThreadsHazard
  imports ThreadsSafe
begin

text \<open>
  Schedules that go wrong: a thread that deletes beside one that searches, one that clones
  beside one that writes, two that add, and two that write the same topic. Each of the first
  three breaks one condition under which threads are shown to be safe.
\<close>

lemma run_schedule_reachable:
  assumes "run_schedule is (m, ts) = Inr p" and "set is \<subseteq> {..<length ts}"
  shows "pool_step\<^sup>*\<^sup>* (m, ts) p"
  using assms
proof (induction "is" arbitrary: m ts)
  case (Cons i js)
  then obtain u m' where s: "thread_step (ts ! i) m = Inr (u, m')"
    "run_schedule js (m', ts[i := u]) = Inr p" by (auto simp: bindR_eq_Inr)
  have r: "pool_step\<^sup>*\<^sup>* (m', ts[i := u]) p" by (rule Cons.IH [OF s(2)]) (use Cons.prems(2) in auto)
  show ?case
  proof (cases "finished (ts ! i)")
    case True
    with s(1) have "u = ts ! i" "m' = m" by (cases "ts ! i" rule: finished.cases; simp)+
    with r show ?thesis by simp
  next
    case False
    with s(1) Cons.prems(2) have "pool_step (m, ts) (m', ts[i := u])"
      by (intro pool_step.intros) auto
    from this r show ?thesis by (rule converse_rtranclp_into_rtranclp)
  qed
qed simp

lemma run_schedule_append:
  "run_schedule (is @ js) p = bindR (run_schedule is p) (run_schedule js)"
proof (induction "is" arbitrary: p)
  case (Cons i js)
  obtain m ts where "p = (m, ts)" by fastforce
  with Cons show ?case by (simp add: bindR_assoc split_def)
qed simp

lemmas run_simps = bindR_def load_def store_def deref_def DBEmpty_def compareString_def
  topicNodeRLock_def topicNodeWLock_def topicNodeUnlock_def topicDataWLock_def topicDataUnlock_def
  set_nextPtr_def free_node_def malloc_node_def init_node_def read_data_def

lemma schedule_reaches:
  "run_schedule is (threads d ts) = Inr p \<Longrightarrow> set is \<subseteq> {..<length ts} \<Longrightarrow> pool_step\<^sup>*\<^sup>* (threads d ts) p"
  using run_schedule_reachable [of "is" "(d, {})" "map (\<lambda>t. (t, entry t)) ts" p] by (simp add: threads_def)

lemma pool_faultsI:
  "i < length ts \<Longrightarrow> thread_step (ts ! i) m = Inl e \<Longrightarrow> e \<noteq> Deadlock \<Longrightarrow> pool_faults (m, ts) e"
proof -
  assume a: "i < length ts" "thread_step (ts ! i) m = Inl e" "e \<noteq> Deadlock"
  then have "\<not> finished (ts ! i)" by (cases "ts ! i" rule: finished.cases; simp)
  with a show "pool_faults (m, ts) e" by (auto simp: pool_faults_def intro!: bexI [of _ "ts ! i"])
qed

text \<open>What a list of two topics gives a run.\<close>

lemma two_nodes:
  assumes "db_rep d [a, b] cs" and "heap d a = Some n" and "heap d b = Some m"
  shows "topicDB d = Some a" "nextPtr n = Some b" "nextPtr m = None" "a \<noteq> b" "b \<noteq> a"
    "node_lock n = Unlocked" "node_lock m = Unlocked" "data_lock n = Unlocked" "data_lock m = Unlocked"
    "heap d (brk d) = None" "heap d (Suc (brk d)) = None" "a \<noteq> brk d" "a \<noteq> Suc (brk d)"
    "b \<noteq> brk d" "b \<noteq> Suc (brk d)"
proof -
  have f: "heap d x = None" if "\<not> x < brk d" for x
    using assms(1) that unfolding db_rep_def by (metis domI not_None_eq)
  then show "heap d (brk d) = None" "heap d (Suc (brk d)) = None" "a \<noteq> brk d" "a \<noteq> Suc (brk d)"
    "b \<noteq> brk d" "b \<noteq> Suc (brk d)" using assms(2,3) by auto
qed (use assms in \<open>auto simp: db_rep_def unlocked_def\<close>)

text \<open>
  A search that has read the pointer to its next node but not locked it yet, while another
  thread deletes that node: the lock lies in freed memory.
\<close>

lemma delete_race:
  assumes r: "db_rep d [a, b] cs" "heap d a = Some n" "heap d b = Some m" and "td_path n \<noteq> td_path m"
  shows "\<exists>p. pool_step\<^sup>*\<^sup>* (threads d [GetTopic (Some (td_path m)), DeleteTopic (Some (td_path m))]) p \<and>
    pool_faults p Use_after_free"
proof -
  let ?p = "threads d [GetTopic (Some (td_path m)), DeleteTopic (Some (td_path m))]"
  have "\<exists>d' u. run_schedule (replicate 6 0 @ replicate 16 1) ?p =
     Inr ((d', {}), [(GetTopic (Some (td_path m)), Search (Lock (Node b) (Some a))), u]) \<and>
     heap d' b = None"
    using r(2,3) assms(4) two_nodes [OF r] by (simp add: threads_def run_simps numeral_eq_Suc)
  then obtain d' u where s: "run_schedule (replicate 6 0 @ replicate 16 1) ?p =
     Inr ((d', {}), [(GetTopic (Some (td_path m)), Search (Lock (Node b) (Some a))), u])"
     "heap d' b = None" by blast
  have "pool_faults ((d', {}), [(GetTopic (Some (td_path m)), Search (Lock (Node b) (Some a))), u]) Use_after_free"
    by (rule pool_faultsI [of 0]) (use s(2) in \<open>simp_all add: run_simps\<close>)
  with schedule_reaches [OF s(1)] show ?thesis by auto
qed

text \<open>
  \<open>cloneTopic\<close> holds the lock of the node only; \<open>setTopic\<close>, with the lock of the datum, frees
  the datum that the clone reads.
\<close>

lemma clone_race:
  assumes r: "db_rep d [a, b] cs" "heap d a = Some n" "heap d b = Some m"
    and "td_data n \<noteq> None" "avail d > 0" "sz > 0"
  shows "\<exists>p. pool_step\<^sup>*\<^sup>* (threads d [CloneTopic (Some (td_path n)), SetTopic (Some (td_path n)) (Some s) sz tma dma]) p \<and>
    pool_faults p Use_after_free"
proof -
  let ?c = "CloneTopic (Some (td_path n))" and ?s = "SetTopic (Some (td_path n)) (Some s) sz tma dma"
  have "\<exists>d' u n'. run_schedule (replicate 5 0 @ replicate 9 1) (threads d [?c, ?s]) =
     Inr ((d', {a}), [(?c, Cloning Head a (K_size (brk d))), u]) \<and> heap d' a = Some n' \<and> td_data n' \<noteq> None"
    using r(2,3) assms(4-) two_nodes [OF r] by (simp add: threads_def run_simps numeral_eq_Suc Let_def)
  then obtain d' u n' where s: "run_schedule (replicate 5 0 @ replicate 9 1) (threads d [?c, ?s]) =
     Inr ((d', {a}), [(?c, Cloning Head a (K_size (brk d))), u])" "heap d' a = Some n'" "td_data n' \<noteq> None"
    by blast
  have "pool_faults ((d', {a}), [(?c, Cloning Head a (K_size (brk d))), u]) Use_after_free"
    by (rule pool_faultsI [of 0]) (use s(2,3) in \<open>simp_all add: run_simps\<close>)
  with schedule_reaches [OF s(1)] show ?thesis by auto
qed

text \<open>Two threads that add at the same time: both report success, the node of the first is lost.\<close>

lemma add_race:
  assumes r: "db_rep d [a, b] cs" "heap d a = Some n" "heap d b = Some m"
    and "avail d > 1" "sz > 0" "sz' > 0"
  shows "\<exists>d'. pool_step\<^sup>*\<^sup>* (threads d [AddTopic (Some p) sz tma, AddTopic (Some p') sz' tma'])
      ((d', {}), [(AddTopic (Some p) sz tma, Done (Status 1)), (AddTopic (Some p') sz' tma', Done (Status 1))]) \<and>
    path_to (heap d') (topicDB d') [a, b, Suc (brk d)] None \<and>
    node_topic d' (Suc (brk d)) = new_topic p' sz' tma'"
proof -
  let ?t = "[AddTopic (Some p) sz tma, AddTopic (Some p') sz' tma']"
  let ?is = "replicate 9 0 @ replicate 9 1 @ replicate 4 0 @ replicate 4 1"
  have "\<exists>d'. run_schedule ?is (threads d ?t) =
      Inr ((d', {}), [(AddTopic (Some p) sz tma, Done (Status 1)), (AddTopic (Some p') sz' tma', Done (Status 1))]) \<and>
    path_to (heap d') (topicDB d') [a, b, Suc (brk d)] None \<and>
    node_topic d' (Suc (brk d)) = new_topic p' sz' tma'"
    using r(2,3) assms(4-) two_nodes [OF r]
    by (simp add: threads_def run_simps numeral_eq_Suc Let_def new_node_def node_topic_def
        topic.truncate_def topic.extend_def)
  with schedule_reaches [of ?is d ?t] show ?thesis by auto
qed

text \<open>
  \<open>updateTopicData\<close> reads the time of expiry of the topic and writes it back with the datum:
  what another thread sets in between is overwritten.
\<close>

lemma update_race:
  assumes r: "db_rep d [a, b] cs" "heap d a = Some n" "heap d b = Some m"
    and "td_data n \<noteq> None" "sz > 0" "sz' > 0"
  shows "\<exists>d' n'. pool_step\<^sup>*\<^sup>*
      (threads d [UpdateTopicData (Some (td_path n)) dma (Some s) sz, SetTopic (Some (td_path n)) (Some s') sz' tma' dma'])
      ((d', {}), [(SetTopic (Some (td_path n)) (Some s) sz (td_topic_ma n) dma, Done (Status 1)),
       (SetTopic (Some (td_path n)) (Some s') sz' tma' dma', Done (Status 1))]) \<and>
    heap d' a = Some n' \<and> td_topic_ma n' = td_topic_ma n"
proof -
  let ?t = "[UpdateTopicData (Some (td_path n)) dma (Some s) sz, SetTopic (Some (td_path n)) (Some s') sz' tma' dma']"
  let ?is = "replicate 6 0 @ replicate 14 1 @ replicate 14 0"
  have "\<exists>d' n'. run_schedule ?is (threads d ?t) =
      Inr ((d', {}), [(SetTopic (Some (td_path n)) (Some s) sz (td_topic_ma n) dma, Done (Status 1)),
       (SetTopic (Some (td_path n)) (Some s') sz' tma' dma', Done (Status 1))]) \<and>
    heap d' a = Some n' \<and> td_topic_ma n' = td_topic_ma n"
    using r(2,3) assms(4-) two_nodes [OF r] by (simp add: threads_def run_simps numeral_eq_Suc Let_def)
  with schedule_reaches [of ?is d ?t] show ?thesis by auto
qed

end
