(* ===== verification/Spec2Isabelle.thy ===== *)
theory Spec2Isabelle
  imports Samples ThreadsHazard
begin

text \<open>
  A verification development for coap-broker, a CoAP publish/subscribe broker in C
  (\<open>src/src/c\<close>) on top of the library libcoap (\<open>src/misc/library/libcoap\<close>).

  \<^bold>\<open>The program.\<close> A client creates a topic by a POST on the resource \<open>ps\<close> or on another topic,
  whose payload is a link in CoRE link format; publishes by PUT, reads and observes by GET,
  removes by DELETE, and finds topics by a GET on \<open>ps\<close> with queries. Every topic exists twice:
  as a resource of the CoAP context, with its attributes, handlers and observers, and as a node
  of a linked list with its datum and two expiry times. The main loop dispatches one datagram
  and then runs two monitors that expire data and topics. An optional bridge publishes and
  subscribes topics at an MQTT broker, whose messages arrive in a callback; an optional resource
  directory registers the resources of clients under \<open>rd\<close>.

  \<^bold>\<open>The theories.\<close> Every C execution that leaves the defined part of the language, trips an
  assertion, waits for a lock nobody can release or does not end is a value \<open>Inl\<close> of the type
  \<open>result\<close> (\<open>Prelude\<close>); a theorem that gives \<open>Inr\<close> excludes all of that. Logging, which only
  writes, is left out.

  \<^bold>\<open>Strings in messages.\<close> A received message fills its memory block exactly, so nothing ends a
  payload or an option value that the code hands to \<open>snprintf\<close> as a string: unless the client put a zero
  byte there, or further on in the block, the call reads beyond the block. \<open>read_string\<close>
  (\<open>CString\<close>) is this read: the bytes up to the first zero byte, or the fault \<open>Out_of_bounds\<close>. It
  stands at every place where the broker reads what a client or the bridge has sent: the payload
  of a POST (\<open>payload_string\<close>) and of a PUT (\<open>data_arg\<close>), the payload of a message of the bridge
  (\<open>msgarrvd_loop\<close>), and a query of a discovery request (\<open>parseOptionURIQuery\<close>, whose argument
  is the value and what follows it in the message). So ordinary requests fault, and the theorems
  about these operations say for which messages: \<open>terminated\<close>, \<open>put_terminated\<close> and
  \<open>queries_terminated\<close> are the conditions under which they do not. The functions of the topic
  database take strings that are terminated; they are called with what \<open>read_string\<close> gave.
  The parser of options (\<open>coap_opt_parse\<close>) reads one byte beyond a message that ends within the header of an option;
  \<open>packet_cut\<close> are the datagrams where this happens. Iterators run over messages that were
  accepted by the parser or built by the library, and \<open>opt_at\<close> reads an option there:
  \<open>accepted_headers_complete\<close> and \<open>built_headers_complete\<close> (\<open>PduSpec\<close>) show that no header is cut off
  in them.

  \<^item> \<open>Prelude\<close>, \<open>CString\<close>: results, their sequencing, and the C string functions used.
  \<^item> \<open>Machines\<close>: contracts of components as locales. \<open>event_machine\<close>: an invariant under events
    that end when they are safe; \<open>implementation\<close>: operations answered as by a specification,
    which is an \<open>event_machine\<close> (a sublocale); \<open>conservation\<close> extends it by a quantity that
    stays. They are interpreted in \<open>TopicStore\<close> (topic database) and \<open>Lifecycle\<close> (broker).
  \<^item> \<open>LinkedListDB\<close>: \<open>LinkedListDB.c\<close>. The heap is a partial map from addresses to nodes with
    two read-write locks each. \<open>TopicHeap\<close>, \<open>TopicSpec\<close>, \<open>TopicRefine\<close>: representation of a list
    of topics by the heap (\<open>db_abs\<close>) and one refinement lemma per operation. \<open>TopicStore\<close>: any
    sequence of operations.
  \<^item> \<open>TopicThreads\<close>: the same operations as programs of several threads, in steps between which
    the others run. \<open>ThreadLocks\<close>: which thread holds which lock. \<open>ThreadsInv\<close>: what a thread knows
    of the list at each place of its program, and that the steps of the others keep it true.
    \<open>ThreadsStep\<close>: one step of one thread, which also brings it nearer to its end (\<open>left\<close>).
    \<open>ThreadsPool\<close>, \<open>ThreadsSafe\<close>: the invariant of a pool of compatible threads, no fault, no
    deadlock, and what they leave. \<open>ThreadsHazard\<close>: schedules that go wrong without the conditions.
  \<^item> \<open>CoapOption\<close>, \<open>CoapPdu\<close>, \<open>CoapPath\<close>, \<open>CoapResource\<close>: \<open>encode.c\<close>, \<open>option.c\<close>, \<open>pdu.c\<close>,
    \<open>block.c\<close>, \<open>uri.c\<close>, \<open>hashkey.c\<close>, \<open>resource.c\<close>, \<open>subscribe.c\<close>, \<open>address.c\<close> of the library and
    \<open>LibcoapMod.c\<close>. \<open>SendQueue\<close>: transaction identifiers, the queue of confirmable messages and
    retransmission of \<open>net.c\<close>, and what becomes of an observer that acknowledges nothing
    (\<open>coap_handle_failed_notify\<close> of \<open>resource.c\<close>, which cancels messages in the queue); the meaning
    of the queue is a list of absolute times (\<open>due\<close>).
    \<open>WellKnown\<close>: the answer to a GET on \<open>.well-known/core\<close> (\<open>resource.c\<close>, \<open>net.c\<close>);
    \<open>WellKnownSpec\<close>: its text as a list of links (\<open>wkc_text\<close>) and the response (\<open>wkc_reply\<close>).
    \<open>PduSpec\<close>: a message buffer stands for options and a payload (\<open>pdu_abs\<close>).
    \<open>OptionCode\<close>: options as a uniquely decodable code. \<open>ResourceSpec\<close>, \<open>Observers\<close>: the text of a
    link, and observers as a registry of peers and tokens.
  \<^item> \<open>LinkFormatParser\<close>: \<open>LinkFormatParser.c\<close>; \<open>LinkFormatSpec\<close>: the reference parser.
  \<^item> \<open>Uri\<close>: \<open>coap_split_uri\<close> and \<open>coap_split_query\<close> of \<open>uri.c\<close>; the components of a written URI,
    and percent-encoded segments as options.
  \<^item> \<open>CoAPRD\<close>: \<open>CoAPRD.c\<close>, the resource directory. \<open>Registry\<close>: its parameters as a list of terms, and
    a registration from POST to DELETE.
  \<^item> \<open>Broker\<close>, \<open>BrokerRoot\<close>, \<open>BrokerServer\<close>: \<open>coap-broker.c\<close> (handlers of topics, handlers of
    \<open>ps\<close>; monitors, callback, start-up, shutdown).
  \<^item> \<open>NetServer\<close>: the server side of \<open>net.c\<close> from \<open>coap_read\<close> through \<open>coap_dispatch\<close> to
    \<open>handle_request\<close>, with error responses, acknowledgements, resets and critical options, and a
    turn of the main loop. \<open>ErrorResponse\<close>: when an error response can be made, and what it is.
    \<open>Dispatch\<close>: what becomes of a datagram of each type.
  \<^item> \<open>TopicReply\<close>, \<open>BrokerInv\<close>, \<open>Notify\<close>, \<open>TopicPut\<close>, \<open>TopicDelete\<close>, \<open>TopicPost\<close>, \<open>Discovery\<close>,
    \<open>Monitors\<close>, \<open>Server\<close>, \<open>Dispatch\<close>, \<open>Lifecycle\<close>: the invariant \<open>broker_inv\<close> of the broker, and for
    every handler, monitor and the dispatcher what it answers, what it changes, and that the invariant
    stays. \<open>ends B m P\<close> states in one lemma that \<open>m\<close> keeps \<open>P\<close> and, under \<open>B\<close>, does not fault.
    \<open>told\<close> (\<open>Notify\<close>) says what the observers of a changed topic are sent.
  \<^item> \<open>Samples\<close>: a concrete broker and messages, on which the properties below are applied.

  \<^bold>\<open>Bounds and fuel.\<close> Loops over the linked list take as fuel one more than the number of
  addresses handed out (\<open>Suc (brk d)\<close>); a list without cycles is shorter, and the refinement
  lemmas show that the fuel is never used up. The memory for nodes is a budget (\<open>avail\<close>); memory
  for resources, attributes and strings is taken to be available. Numbers that the code writes
  into buffers of three bytes must be below $2^{24}$ where a theorem says that nothing faults.

  \<^bold>\<open>Assumptions.\<close> In the model of the whole broker the callback of the bridge runs between turns of
  the main loop, never inside one; \<open>TopicThreads\<close> drops this for the topic database, where memory
  is sequentially consistent, every call of the C library is one step, and a thread that could have
  a lock may get it; the clock is constant within a turn; the library's
  clock (\<open>lib_ticks\<close>), random bytes (\<open>prng\<close>) and whether the network takes a message (\<open>send_ok\<close>)
  are parts of the context that the handlers only read; the passing of time advances both clocks. A received message carries a flag
  that says whether its destination is a multicast address; observers are notified through a
  unicast interface. The broker registers no response handler and no further critical options,
  and \<open>sizeof(coap_pdu_t)\<close> is 32, as on a 64-bit machine. Memory for queue nodes is available.
  \<open>main\<close> ends before its loop when the arguments are wrong, the bridge does not connect or no
  context can be made: \<open>main_init\<close> takes the answer of \<open>MQTTClient_connect\<close> and whether the socket
  could be opened as arguments and gives \<open>Inr None\<close> then. \<open>main\<close> never takes messages off the send queue, so \<open>coap_retransmit\<close> is modelled and shown to
  end, but is no part of a run.

  \<^bold>\<open>Not modelled.\<close> Sockets, endpoints, \<open>select\<close> (a turn of the main loop gets a datagram or none; a
  failure of \<open>select\<close>, after which \<open>main\<close> exits at once, is no step) and logging, and the variants of \<open>net.c\<close> for
  lwIP and Contiki; asynchronous responses; the MQTT client library, whose calls are recorded in the state; the
  library's client and example programs; earlier prototypes under \<open>src/misc\<close>. The invariant of
  whole runs is stated for a broker without the resource directory, whose resources have
  URIs that are not terminated strings.
\<close>

section \<open>The broker as a whole\<close>

text \<open>C1: Every state the broker reaches, from start-up over any requests, messages of the
  bridge, turns of the main loop and passing of time, satisfies the invariant: the database
  represents a list of topics without locks held or clones left, the resource \<open>ps\<close> comes
  first, every other resource is a topic, topics and resources agree, and the two earliest
  expiry times are lower bounds.\<close>

theorem reachable_states_ok:
  assumes "reachable st"
  shows "\<exists>xs l. broker_inv st xs [] l"
  using reachable_ok [OF assms] by (simp add: broker_ok_def)

lemma reachable_states_ok_witness:
  "\<exists>st xs l. main_init [(CHR ''e'', ''mqtt'')] MQTTCLIENT_SUCCESS True 3 7 (\<lambda>_. True) (\<lambda>_. 0) 1000 = Inr (Some st) \<and> broker_inv st xs [] l"
  using sample_start reachable_states_ok by metis

text \<open>C2: From a reachable state a run of safe events ends without a fault, in a reachable state
  of the invariant. Safe are datagrams whose options are complete, requests the code does not
  choke on and whose payloads and queries hold the terminator that \<open>snprintf\<close> reads up to,
  terminated messages of the bridge for topics that exist, and numbers that fit their buffers.\<close>

theorem safe_runs_end:
  assumes "reachable st" and "safe_run handle_event safe_event es st"
  shows "\<exists>st'. run_events handle_event es st = Inr st' \<and> reachable st' \<and> broker_ok st'"
  using server.run_total [OF reachable_ok [OF assms(1)] assms(2)] run_reachable [OF assms(1)] by blast

lemma safe_runs_end_witness:
  "\<exists>st st'. main_init [(CHR ''e'', ''mqtt'')] MQTTCLIENT_SUCCESS True 3 7 (\<lambda>_. True) (\<lambda>_. 0) 1000 = Inr (Some st) \<and>
     run_events handle_event
       [Pass_time 60 60000, Bridge_message ''x'' ''1'', Datagram sample_ping, No_datagram] st = Inr st' \<and> broker_ok st'"
proof -
  obtain st where st: "main_init [(CHR ''e'', ''mqtt'')] MQTTCLIENT_SUCCESS True 3 7 (\<lambda>_. True) (\<lambda>_. 0) 1000 = Inr (Some st)" "reachable st"
    using sample_start by blast
  have "safe_run handle_event safe_event
      [Pass_time 60 60000, Bridge_message ''x'' ''1'', Datagram sample_ping, No_datagram] st"
    by (rule safe_run_always) (auto simp: sample_ping_safe foreign_message_safe idle_safe broker_path_def)
  then show ?thesis using safe_runs_end [OF st(2)] st(1) by blast
qed

text \<open>C3: A datagram of any sender that is harmless in the present state is read, parsed,
  dispatched and answered without a fault and keeps the invariant; one that is no message of
  version 1 changes nothing. Harmless means: not cut off within the header of an option, short
  enough to be refused where it has unknown critical options, and for a request that its handler
  does not choke on it. Of a datagram that is cut off the parser reads one byte too many.\<close>

theorem datagram_handled:
  assumes "broker_inv st xs [] l"
  shows "(harmless_packet st xs p \<longrightarrow> (\<exists>k st'. coap_read (Some p) st = Inr (k, st') \<and> broker_ok st' \<and>
      (received p = None \<longrightarrow> k < 0 \<and> st' = st))) \<and>
    (packet_cut p \<longrightarrow> coap_read (Some p) st = Inl Out_of_bounds)"
proof (intro conjI impI)
  assume safe: "harmless_packet st xs p"
  have "ends True (coap_read (Some p) st) (\<lambda>(_, st'). broker_ok st')"
    by (rule coap_read_ends [OF assms]) (use safe in simp)
  then obtain k st' where "coap_read (Some p) st = Inr (k, st')" "broker_ok st'" using endsT by fastforce
  moreover have "\<not> packet_cut p" using safe by (simp add: harmless_packet_def)
  ultimately show "\<exists>k st'. coap_read (Some p) st = Inr (k, st') \<and> broker_ok st' \<and>
      (received p = None \<longrightarrow> k < 0 \<and> st' = st)"
    using coap_read_run(2) [of p st] by auto
qed (rule coap_read_run(1))

lemma datagram_handled_witness:
  "(\<exists>k st'. coap_read (Some sample_get_packet) sample_broker = Inr (k, st') \<and> broker_ok st') \<and>
   coap_read (Some (sample_packet [CHR 0x40, CHR 0x01, CHR 0x00, CHR 0x07, CHR 0xD0])) sample_broker = Inl Out_of_bounds"
  using datagram_handled [OF sample_inv] sample_get_harmless sample_cuts(3) by blast

text \<open>C4: The end of \<open>main\<close> faults nowhere: it deletes every topic and every resource, gives
  every node back, leaves no string block but those lost before, and unsubscribes every
  topic before it disconnects the bridge. The handler of SIGINT does the same.\<close>

theorem shutdown_releases:
  assumes "broker_inv st xs [] l"
  shows "(\<exists>st'. main_cleanup st = Inr st' \<and> shut_down st xs l st') \<and>
    (\<exists>st'. handleSIGINT st = Inr st' \<and> shut_down st xs l st')"
  using main_cleanup_run [OF assms] handleSIGINT_run [OF assms] by blast

lemma shutdown_releases_witness:
  "\<exists>st'. main_cleanup sample_broker = Inr st' \<and> avail (topics st') = 3 \<and> strings (topics st') = 0 \<and>
     mqtt_calls st' = [Mqtt_unsubscribe ''ps/a'', Mqtt_disconnect]"
  using shutdown_releases [OF sample_inv] by (auto simp: shut_down_def sample_flags)

section \<open>Handlers\<close>

text \<open>C5: A POST in link format with a valid link, whose text ends with a terminator, to a path
  that is not there answers 2.01, adds the resource with the attributes of the link, subscribes it at the bridge, and appends
  the topic to the database when there is room; the invariant holds again.\<close>

theorem post_creates_topic:
  assumes "broker_inv st xs [] l" and "r \<in> set (resources (ctx st))" and "terminated request"
    and "pdu_data response = None"
    and "post_code (post_ct request) (link_of (post_payload request)) (uri_of r)
      (uri_of ` set (resources (ctx st))) = Some 201"
  shows "\<exists>rel as d resp. link_of (post_payload request) = Inr (Some (rel, as)) \<and>
    hnd_post_broker (r_id r) request response st =
      Inr (resp, created (uri_of r @ CHR ''/'' # rel) as (post_expiry request (clock st)) d st) \<and>
    hdr_code resp = COAP_RESPONSE_CODE 201 \<and>
    broker_inv (created (uri_of r @ CHR ''/'' # rel) as (post_expiry request (clock st)) d st)
      (if avail (topics st) = 0 then xs
       else xs @ [new_topic (uri_of r @ CHR ''/'' # rel) (length (uri_of r @ CHR ''/'' # rel))
              (post_expiry request (clock st))]) [] l"
  by (rule post_created [OF assms])

lemma post_creates_topic_witness:
  "\<exists>rel as d resp. link_of (post_payload sample_post) = Inr (Some (rel, as)) \<and>
    hnd_post_broker 0 sample_post sample_response sample_broker =
      Inr (resp, created (''ps/'' @ rel) as (post_expiry sample_post 1000) d sample_broker) \<and>
    hdr_code resp = COAP_RESPONSE_CODE 201"
  using post_creates_topic [OF sample_inv, of sample_ps sample_post sample_response]
    sample_post_code sample_response_ok(4) sample_terminated(1) by simp blast



text \<open>C7: A POST whose format is not link format and whose payload is no link either brings the
  broker down: the handler frees a resource that was never made, or one the parser freed, unless
  the parser already faults on the link, or the payload is not terminated and the handler reads
  beyond it.\<close>

theorem post_faults:
  assumes "broker_inv st xs [] l" and "r \<in> set (resources (ctx st))"
    and "post_code (post_ct request) (link_of (post_payload request)) (uri_of r)
      (uri_of ` set (resources (ctx st))) = None"
  shows "\<exists>e. hnd_post_broker (r_id r) request response st = Inl e \<and>
    (if terminated request
     then (case link_of (post_payload request) of Inl f \<Rightarrow> e = f | Inr _ \<Rightarrow> e \<in> {Assert_failed, Double_free})
     else e \<in> {Out_of_bounds, Null_deref})"
  by (rule hnd_post_fault [OF assms])

lemma post_faults_witness:
  "\<exists>e. hnd_post_broker 0 sample_bad_post sample_response sample_broker = Inl e"
  using post_faults [OF sample_inv, of sample_ps sample_bad_post sample_response] sample_bad_post_code by auto

text \<open>C8: An accepted PUT answers 2.04, stores payload and expiry time in its topic and in no
  other, and returns the clone it took. It notifies the observers: with memory for one more clone
  and a network that takes messages, every observer of the resource, in order, is sent a new
  message (\<open>tells\<close>) with its token, the new datum, an Observe value and the content format, and
  no resource stays marked as changed. A payload without a terminator is read beyond its end.\<close>

theorem put_changes_topic:
  assumes "broker_inv st xs [] l" and "r \<in> set (resources (ctx st))" and "topic_res r u a"
    and "ct_attr_value r = Inr ct" and "pdu_abs response [] None" and "lookup u xs = Some t"
    and "avail (topics st) > 0" and "put_code ct request True = 204"
    and "observe (ctx st) + length (resources (ctx st)) \<le> 2 ^ 24"
    and "data_small (clock st) (update_first u (put_topic request (clock st)) xs)"
  shows "if put_terminated request
    then \<exists>resp st'. hnd_put_topic (r_id r) request response st = Inr (resp, st') \<and>
      hdr_code resp = COAP_RESPONSE_CODE 204 \<and>
      broker_inv st' (update_first u (put_topic request (clock st)) xs) []
        (l + leaked_by (Some t) (put_data request)) \<and>
      avail (topics st') = avail (topics st) \<and>
      (notifiable st r (put_topic request (clock st) t) \<longrightarrow>
        told (word_of_int ct) (clock st) (put_topic request (clock st) t) (subscribers r) st st' \<and>
        (\<forall>r\<in>set (resources (ctx st')). \<not> r_dirty r))
    else hnd_put_topic (r_id r) request response st = Inl Out_of_bounds"
proof (cases "put_terminated request")
  case True
  then show ?thesis
    using put_accepted [OF assms(2-4,1,5-8) True, of True] put_tells [OF assms(2-4,1,5-8) True] assms(9,10)
    by (fastforce elim: endsE)
next
  case False
  then show ?thesis using put_unterminated [OF assms(2-4,1,6-8) False] by simp
qed

lemma put_changes_topic_witness:
  "\<exists>resp st' m. hnd_put_topic 1 sample_put sample_response sample_watched = Inr (resp, st') \<and>
    hdr_code resp = COAP_RESPONSE_CODE 204 \<and>
    (\<exists>l. broker_inv st' [sample_topic\<lparr>td_data := Some ''21'', td_data_ma := 1060\<rparr>] [] l) \<and>
    (sample_peer, m) \<in> set (sent (ctx st')) \<and> hdr_token m = ''tk''"
proof -
  let ?t = "sample_topic\<lparr>td_data := Some ''21'', td_data_ma := 1060\<rparr>"
  have "notifiable sample_watched sample_seen ?t" by (rule sample_notifiable) (simp, simp)
  then obtain resp st' l where "hnd_put_topic 1 sample_put sample_response sample_watched = Inr (resp, st')"
    "hdr_code resp = COAP_RESPONSE_CODE 204" "broker_inv st' [?t] [] l"
    and told: "told (word_of_int 0) 1000 ?t [sample_sub] sample_watched st'"
    using put_changes_topic [OF sample_watched_inv sample_seen_in sample_seen_ok sample_seen_ct sample_response_ok(1),
        of sample_topic sample_put] sample_put_code sample_put_topic sample_terminated(3)
    by (auto simp: data_small_def)
  moreover obtain m where "(sample_peer, m) \<in> set (sent (ctx st'))" "hdr_token m = ''tk''"
    by (rule sample_told [OF told])
  ultimately show ?thesis by blast
qed

text \<open>C9: A refused PUT (4.00 without a content format, 4.15 for another one, 4.04 without a
  topic or the memory to clone it) changes nothing.\<close>

theorem put_is_refused:
  assumes "broker_inv st xs [] l" and "r \<in> set (resources (ctx st))" and "topic_res r u a"
    and "ct_attr_value r = Inr ct" and "pdu_abs response [] None"
    and "put_code ct request (lookup u xs \<noteq> None \<and> avail (topics st) > 0) \<noteq> 204"
  shows "\<exists>resp. hnd_put_topic (r_id r) request response st = Inr (resp, st) \<and>
    hdr_code resp = COAP_RESPONSE_CODE (put_code ct request (lookup u xs \<noteq> None \<and> avail (topics st) > 0))"
  using put_refused [OF assms(2-4,1,5,6)] by blast

lemma put_is_refused_witness:
  "\<exists>resp. hnd_put_topic 1 sample_plain sample_response sample_broker = Inr (resp, sample_broker) \<and>
    hdr_code resp = COAP_RESPONSE_CODE 400"
  using put_is_refused [OF sample_inv sample_res_in sample_res_ok sample_ct sample_response_ok(1), of sample_plain]
  by (simp add: sample_plain_code)

text \<open>C10: A GET on a topic whose content format the request accepts answers 2.05 with the
  datum, or 2.04 with the text \<open>No Content\<close> when there is none or it has expired; the options
  are Observe for an observer, the content format, and the remaining Max-Age where one is set.
  The database is as before and the clone is returned.\<close>

theorem get_answers_topic:
  assumes "topic_res r u a" and "ct_attr_value r = Inr ct"
    and "get_checks ct (coap_find_observer r peer token \<noteq> None) request = None"
    and "db_abs (topics st) xs cs l" and "lookup u xs = Some t" and "avail (topics st) > 0"
    and "pdu_abs response [] None" and "pdu_length response \<le> 12" and "max_size response = COAP_MAX_PDU_SIZE"
    and "small_reply (word_of_int ct) obs (clock st) t" and "length (reply_payload (clock st) t) \<le> 1300"
    and "obs = (if coap_find_observer r peer token \<noteq> None then Some (of_nat (observe (ctx st))) else None)"
  shows "\<exists>d resp. hnd_get_topic r peer token request response st = Inr (resp, st\<lparr>topics := d\<rparr>) \<and>
    db_abs d xs cs l \<and> avail d = avail (topics st) \<and>
    hdr_code resp = reply_code (clock st) t \<and> hdr_token resp = hdr_token response \<and>
    pdu_abs resp (reply_options (word_of_int ct) obs (clock st) t)
      (if reply_payload (clock st) t = [] then None else Some (reply_payload (clock st) t))"
  by (rule hnd_get_topic_answers [OF assms])

lemma get_answers_topic_witness:
  "\<exists>d resp. hnd_get_topic sample_res sample_peer (Some ''tk'') (Some sample_get) sample_response sample_broker =
      Inr (resp, sample_broker\<lparr>topics := d\<rparr>) \<and>
    hdr_code resp = COAP_RESPONSE_CODE 205 \<and> pdu_options resp = [(12, []), (14, [CHR 0x01, CHR 0xF4])] \<and>
    coap_get_data resp = (True, 2, ''20'')"
proof -
  have o: "coap_find_observer sample_res sample_peer (Some ''tk'') = None"
    by (simp add: coap_find_observer_def sample_res_def fresh_topic_def topic_resource_def)
  have chk: "get_checks 0 (coap_find_observer sample_res sample_peer (Some ''tk'') \<noteq> None) (Some sample_get) = None"
    using sample_get_checks o by simp
  have db: "db_abs (topics sample_broker) [sample_topic] [] 0" using sample_db_abs by simp
  have small: "small_reply (word_of_int 0) None (clock sample_broker) sample_topic"
    by (simp add: small_reply_def)
  have pl: "reply_payload 1000 sample_topic = ''20''" "reply_code 1000 sample_topic = COAP_RESPONSE_CODE 205"
    "reply_options (word_of_int 0) None 1000 sample_topic = [(12, []), (14, [CHR 0x01, CHR 0xF4])]"
    by code_simp+
  obtain d resp where
    "hnd_get_topic sample_res sample_peer (Some ''tk'') (Some sample_get) sample_response sample_broker =
      Inr (resp, sample_broker\<lparr>topics := d\<rparr>)"
    "hdr_code resp = COAP_RESPONSE_CODE 205"
    and abs: "pdu_abs resp [(12, []), (14, [CHR 0x01, CHR 0xF4])] (Some ''20'')"
    using get_answers_topic [OF sample_res_ok sample_ct chk db _ _ sample_response_ok(1-3) small] o pl by auto
  then show ?thesis using pdu_abs_options [OF abs] pdu_abs_get_data [OF abs] by auto
qed

text \<open>C11: A DELETE on a topic removes that topic and every topic whose path contains its path
  followed by a slash, with their resources, unsubscribes them, and answers 2.02 with their
  number in decimal.\<close>

theorem delete_removes_subtree:
  assumes "broker_inv st xs [] l" and "r \<in> set (resources (ctx st))" and "topic_res r u a"
    and "pdu_abs response [] None" and "pdu_length response \<le> 12" and "max_size response = COAP_MAX_PDU_SIZE"
    and "lookup u xs \<noteq> None" and "length xs < 10 ^ 10"
  shows "\<exists>d resp vs. hnd_delete_topic (r_id r) response st = Inr (resp, removed (set vs) vs d st) \<and>
    set vs = {p \<in> set (paths xs). doomed u p} \<and>
    delete_reply (length (filter (doomed u) (paths xs))) response resp \<and>
    broker_inv (removed (set vs) vs d st) (filter (\<lambda>t. \<not> doomed u (td_path t)) xs) [] l"
  by (rule hnd_delete_topic_run [OF assms]) blast

lemma delete_removes_subtree_witness:
  "\<exists>d resp vs. hnd_delete_topic 1 sample_response sample_broker = Inr (resp, removed (set vs) vs d sample_broker) \<and>
    set vs = {''ps/a''} \<and> hdr_code resp = COAP_RESPONSE_CODE 202"
proof -
  have "length [sample_topic] < 10 ^ 10" by simp
  moreover have "{p \<in> set (paths [sample_topic]). doomed ''ps/a'' p} = {''ps/a''}"
    "filter (doomed ''ps/a'') (paths [sample_topic]) = [''ps/a'']"
    by (auto simp: paths_def doomed_def)
  ultimately show ?thesis
    using delete_removes_subtree [OF sample_inv sample_res_in sample_res_ok sample_response_ok(1-3)]
    by (auto simp: delete_reply_def)
qed

text \<open>C12: A GET on the broker whose queries are well-formed answers 2.05 with the links of
  exactly the topics that have every attribute value asked for, separated by commas and in the
  order of the resources, when they fit one message and no block is asked for. Every value of a
  query must hold a terminator or be followed by one in the message; with one that is not, the
  parser of queries reads beyond the end of the message.\<close>

theorem discovery_lists_topics:
  assumes "broker_inv st xs cs l" and "understood (pdu_options request)" and "discovered request st = Some data"
    and "pdu_abs response [] None" and "pdu_length response \<le> 12" and "max_size response = COAP_MAX_PDU_SIZE"
    and "\<not> fst (coap_get_block (Some request) COAP_OPTION_BLOCK2)" and "length data \<le> 1300"
  shows "if queries_terminated request
    then \<exists>resp. hnd_get_broker request response st = Inr (resp, st) \<and> hdr_code resp = COAP_RESPONSE_CODE 205 \<and>
      hdr_token resp = hdr_token response \<and>
      pdu_abs resp [(COAP_OPTION_CONTENT_TYPE, coap_encode_var_bytes COAP_MEDIATYPE_APPLICATION_LINK_FORMAT)] (Some data)
    else hnd_get_broker request response st = Inl Out_of_bounds"
proof (cases "queries_terminated request")
  case True
  then show ?thesis using hnd_get_broker_whole [OF assms(1,2) True assms(3-8)] by simp
next
  case False
  then show ?thesis using hnd_get_broker_unterminated [OF assms(1,2) False assms(3)] by simp
qed

lemma discovery_lists_topics_witness:
  "\<exists>resp. hnd_get_broker sample_discovery sample_response sample_broker = Inr (resp, sample_broker) \<and>
    coap_get_data resp = (True, 16, ''</ps/a>;ct=0;obs'')"
  using discovery_lists_topics [OF sample_inv _ _ sample_response_ok(1-3), of sample_discovery]
    sample_discovery_facts by (auto dest!: pdu_abs_get_data)

text \<open>C13: A client that asks for block after block of the list of links, at one block size,
  gets answers whose payloads put together are the list.\<close>

theorem discovery_blocks_reassemble:
  assumes "links_pdu p" and "szx \<le> 6"
    and "\<forall>n<k. \<exists>b. coap_get_block (Some (rq n)) COAP_OPTION_BLOCK2 = (True, b) \<and> unat (blk_num b) = n \<and> blk_szx b = szx"
    and "\<forall>n<k. n * 2 ^ (szx + 4) < length data" and "length data \<le> k * 2 ^ (szx + 4)"
  shows "\<exists>resps. length resps = k \<and> (\<forall>n<k. send_links (Some (rq n)) data p = Inr (resps ! n)) \<and>
    concat (map (\<lambda>q. snd (snd (coap_get_data q))) resps) = data"
  by (rule send_links_reassembles [OF assms])

lemma discovery_blocks_reassemble_witness:
  "\<exists>p resps. length resps = 2 \<and> (\<forall>n<2. send_links (Some (sample_block n)) ''</ps/a>;ct=0;obs,</ps/b>'' p = Inr (resps ! n)) \<and>
    concat (map (\<lambda>q. snd (snd (coap_get_data q))) resps) = ''</ps/a>;ct=0;obs,</ps/b>''"
proof -
  obtain p where p: "links_pdu p" by (rule links_pdu_start [OF sample_response_ok(1-3)])
  have b: "\<forall>n<2. \<exists>b. coap_get_block (Some (sample_block n)) COAP_OPTION_BLOCK2 = (True, b) \<and> unat (blk_num b) = n \<and> blk_szx b = 0"
    by (rule sample_blocks)
  show ?thesis
    using discovery_blocks_reassemble [OF p _ b, of "''</ps/a>;ct=0;obs,</ps/b>''"] by (auto simp: less_2_cases_iff)
qed

section \<open>Expiry, the bridge and notification\<close>

text \<open>C14: A pass of the data monitor ends and resets exactly the data that have expired.\<close>

theorem data_monitor_expires:
  assumes "broker_inv st xs cs l"
  shows "\<exists>d e. topicDataMAMonitor st = Inr (st\<lparr>topics := d, earliest_data_max_age := e\<rparr>) \<and>
    broker_inv (st\<lparr>topics := d, earliest_data_max_age := e\<rparr>) (map (expire_data (clock st)) xs) cs l \<and>
    avail d = avail (topics st)"
  by (rule topicDataMAMonitor_run [OF assms])

lemma data_monitor_expires_witness:
  "\<exists>st'. topicDataMAMonitor (sample_broker\<lparr>clock := 1700\<rparr>) = Inr st' \<and>
     broker_inv st' [sample_topic\<lparr>td_data := None, td_data_ma := 0\<rparr>] [] 0"
proof -
  have inv: "broker_inv (sample_broker\<lparr>clock := 1700\<rparr>) [sample_topic] [] 0"
    using sample_inv by (simp add: broker_inv_def)
  have e: "map (expire_data 1700) [sample_topic] = [sample_topic\<lparr>td_data := None, td_data_ma := 0\<rparr>]"
    by (simp add: expire_data_def expired_def without_data_def)
  show ?thesis using data_monitor_expires [OF inv] e by auto
qed

text \<open>C15: A pass of the topic monitor ends and removes exactly the topics that have expired,
  with their resources and subscriptions.\<close>

theorem topic_monitor_expires:
  assumes "broker_inv st xs [] l"
  shows "\<exists>d e. topicMAMonitor st = Inr ((removed (set (expired_paths (clock st) xs))
        (expired_paths (clock st) xs) d st)\<lparr>earliest_topic_max_age := e\<rparr>) \<and>
    broker_inv ((removed (set (expired_paths (clock st) xs)) (expired_paths (clock st) xs) d st)
        \<lparr>earliest_topic_max_age := e\<rparr>) (filter (alive (clock st)) xs) [] l"
  by (rule topicMAMonitor_run [OF assms])

lemma topic_monitor_expires_witness:
  "\<exists>st'. topicMAMonitor (sample_broker\<lparr>clock := 2100\<rparr>) = Inr st' \<and> broker_inv st' [] [] 0 \<and>
     mqtt_calls st' = [Mqtt_unsubscribe ''ps/a'']"
proof -
  have inv: "broker_inv (sample_broker\<lparr>clock := 2100\<rparr>) [sample_topic] [] 0"
    using sample_inv by (simp add: broker_inv_def)
  have e: "expired_paths 2100 [sample_topic] = [''ps/a'']" "filter (alive 2100) [sample_topic] = []"
    by (simp_all add: expired_paths_def expired_def)
  show ?thesis using topic_monitor_expires [OF inv] e by (auto simp: removed_def sample_flags)
qed

text \<open>C16: A terminated message of the bridge for a topic stores its payload, unless the topic
  holds it already, and returns the clone it took. A new payload is sent to the observers: with
  memory for one more clone and a network that takes messages, every observer of the resource,
  in order, is sent a new message with its token, the new datum, an Observe value and the
  content format, and no resource stays marked as changed.\<close>

theorem bridge_message_stored:
  assumes "broker_inv st xs [] l" and "lookup name xs = Some t" and "avail (topics st) > 0"
    and "observe (ctx st) + length (resources (ctx st)) \<le> 2 ^ 24"
    and "data_small (clock st) (update_first name (mqtt_topic payload) xs)" and "NUL \<in> set payload"
  shows "\<exists>st' l'. msgarrvd name payload st = Inr (1, st') \<and>
    broker_inv st' (if td_data t = Some (cstr payload) then xs else update_first name (mqtt_topic payload) xs) [] l' \<and>
    (td_data t \<noteq> Some (cstr payload) \<longrightarrow>
      (\<forall>r a ct. r \<in> set (resources (ctx st)) \<and> topic_res r name a \<and> ct_attr_value r = Inr ct \<and>
         notifiable st r (mqtt_topic payload t) \<longrightarrow>
       told (word_of_int ct) (clock st) (mqtt_topic payload t) (subscribers r) st st' \<and>
       (\<forall>r\<in>set (resources (ctx st')). \<not> r_dirty r)))"
proof -
  obtain st' l' where run: "msgarrvd name payload st = Inr (1, st')"
    "broker_inv st' (if td_data t = Some (cstr payload) then xs else update_first name (mqtt_topic payload) xs) [] l'"
    using endsT [OF msgarrvd_known [OF assms(1-3) _ _ assms(6), of True]] assms(4,5) by force
  have "told (word_of_int ct) (clock st) (mqtt_topic payload t) (subscribers r) st st' \<and>
      (\<forall>r\<in>set (resources (ctx st')). \<not> r_dirty r)"
    if "td_data t \<noteq> Some (cstr payload)" "r \<in> set (resources (ctx st))" "topic_res r name a" "ct_attr_value r = Inr ct"
      "notifiable st r (mqtt_topic payload t)" for r a ct
    using msgarrvd_tells [OF assms(1-3,6) that(1) assms(4,5) that(2-)] run(1) by simp
  then show ?thesis using run by blast
qed

lemma bridge_message_stored_witness:
  "\<exists>st' l m. msgarrvd ''ps/a'' (''22'' @ [NUL]) sample_watched = Inr (1, st') \<and>
     broker_inv st' [sample_topic\<lparr>td_data := Some ''22'', td_data_ma := 0\<rparr>] [] l \<and>
     (sample_peer, m) \<in> set (sent (ctx st')) \<and> hdr_token m = ''tk''"
proof -
  let ?t = "sample_topic\<lparr>td_data := Some ''22'', td_data_ma := 0\<rparr>"
  let ?p = "''22'' @ [NUL]"
  have m: "mqtt_topic ?p sample_topic = ?t" "cstr ?p = ''22''" by code_simp+
  have pre: "observe (ctx sample_watched) + length (resources (ctx sample_watched)) \<le> 2 ^ 24"
    "data_small (clock sample_watched) (update_first ''ps/a'' (mqtt_topic ?p) [sample_topic])" "NUL \<in> set ?p"
    using m by (simp_all add: data_small_def)
  have new: "td_data sample_topic \<noteq> Some (cstr ?p)" using m by simp
  obtain st' l where run: "msgarrvd ''ps/a'' ?p sample_watched = Inr (1, st')"
    "broker_inv st' (update_first ''ps/a'' (mqtt_topic ?p) [sample_topic]) [] l"
    and all: "\<forall>r a ct. r \<in> set (resources (ctx sample_watched)) \<and> topic_res r ''ps/a'' a \<and> ct_attr_value r = Inr ct \<and>
        notifiable sample_watched r (mqtt_topic ?p sample_topic) \<longrightarrow>
      told (word_of_int ct) (clock sample_watched) (mqtt_topic ?p sample_topic) (subscribers r) sample_watched st' \<and>
      (\<forall>r\<in>set (resources (ctx st')). \<not> r_dirty r)"
    using bridge_message_stored [OF sample_watched_inv, of "''ps/a''" sample_topic, OF _ _ pre] new by auto
  have "notifiable sample_watched sample_seen ?t" by (rule sample_notifiable) (simp, simp)
  then have told: "told (word_of_int 0) 1000 ?t [sample_sub] sample_watched st'"
    using all sample_seen_in sample_seen_ok sample_seen_ct m by fastforce
  obtain m where "(sample_peer, m) \<in> set (sent (ctx st'))" "hdr_token m = ''tk''" by (rule sample_told [OF told])
  then show ?thesis using run m(1) by auto
qed

text \<open>C17: A message of the bridge for a resource without a topic, or when the clone cannot be
  allocated, dereferences a null pointer; one without a terminator is read beyond its end before
  that, also where the topic is there.\<close>

theorem bridge_message_faults:
  assumes "broker_inv st xs [] l" and "lookup name xs = None \<or> avail (topics st) = 0 \<or> NUL \<notin> set payload"
    and "name \<in> uri_of ` set (resources (ctx st))"
  shows "msgarrvd name payload st = Inl (if NUL \<in> set payload then Null_deref else Out_of_bounds)"
  using msgarrvd_faults [OF assms(1,3)] assms(2) by auto

lemma bridge_message_faults_witness:
  "msgarrvd ''ps/a'' (''22'' @ [NUL]) sample_empty = Inl Null_deref \<and>
   msgarrvd ''ps/a'' ''22'' sample_broker = Inl Out_of_bounds"
  using bridge_message_faults [OF sample_empty_inv, of "''ps/a''" "''22'' @ [NUL]"]
    bridge_message_faults [OF sample_inv, of "''ps/a''" "''22''"] by (simp add: sample_empty_def)

text \<open>C18: Notifying the observers of every changed resource changes no topic, no resource beyond
  its observers and flags, and leaves no clone behind.\<close>

theorem notification_keeps_state:
  assumes "broker_inv st xs cs l" and "coap_check_notify st = Inr st'"
  shows "broker_inv st' xs cs l \<and> avail (topics st') = avail (topics st) \<and>
    list_all2 same_core (resources (ctx st)) (resources (ctx st')) \<and> mqtt_calls st' = mqtt_calls st"
proof -
  have "notified xs cs l st st'"
    using coap_check_notify_ends [OF assms(1), of False] assms(2) by simp
  then show ?thesis using notified_inv [OF assms(1)] by (auto simp: notified_def rest_eq_def)
qed

lemma notification_keeps_state_witness:
  "\<exists>st'. coap_check_notify sample_broker = Inr st' \<and> broker_inv st' [sample_topic] [] 0"
proof -
  have "ends True (coap_check_notify sample_broker) (notified [sample_topic] [] 0 sample_broker)"
    by (rule coap_check_notify_ends [OF sample_inv]) (simp_all add: data_small_def)
  then obtain st' where "coap_check_notify sample_broker = Inr st'" by (rule endsE) simp_all
  then show ?thesis using notification_keeps_state [OF sample_inv] by blast
qed

section \<open>Confirmable messages and the library's own answers\<close>

text \<open>C19: A GET on \<open>.well-known/core\<close> answers with the links of the resources that its query
  selects, separated by commas, in the order of the resources: whole, the requested block in
  blocks of at most 256 bytes, the first block of a text that is too long, 4.00 when nothing is
  selected or the block size is invalid, 5.03 beyond the end.\<close>

theorem wellknown_lists_resources:
  assumes "length (hdr_token request) \<le> 8"
    and "split_query (coap_check_option request COAP_OPTION_URI_QUERY) = Inr q" and "query_ok q (resources c)"
    and "length (wkc_text q (resources c)) < 2 ^ 28"
  shows "\<exists>resp. coap_wellknown_response c request = Inr (Some resp) \<and> hdr_token resp = hdr_token request \<and>
    wkc_reply request (wkc_text q (resources c)) resp"
  by (rule wellknown_answer [OF assms])

lemma wellknown_lists_resources_witness:
  "\<exists>resp. coap_wellknown_response (ctx sample_broker) sample_get = Inr (Some resp) \<and>
     hdr_code resp = COAP_RESPONSE_CODE 205 \<and>
     coap_get_data resp = (True, 39, ''</ps>;rt=core.ps;ct=40,</ps/a>;ct=0;obs'')"
proof -
  let ?rs = "resources (ctx sample_broker)"
  let ?t = "wkc_text no_query ?rs"
  obtain b where b: "coap_get_block (Some sample_get) COAP_OPTION_BLOCK2 = (False, b)"
    using sample_wkc(3) by (cases "coap_get_block (Some sample_get) COAP_OPTION_BLOCK2") simp
  have ok: "query_ok no_query ?rs"
    using no_query_ok(2) [of ?rs] sample_ps_ok topic_res_ok [OF sample_res_ok]
    by (auto simp: sample_broker_def broker_res_def)
  have t: "?t = ''</ps>;rt=core.ps;ct=40,</ps/a>;ct=0;obs''" by (rule sample_wkc(1))
  then have len: "length ?t = 39" by (simp only: t) simp
  have tok: "hdr_token sample_get = ''tk''" by (simp add: sample_get_def sample_msg_def)
  obtain resp where resp: "coap_wellknown_response (ctx sample_broker) sample_get = Inr (Some resp)"
    "wkc_reply sample_get ?t resp"
    using wellknown_lists_resources [of sample_get no_query "ctx sample_broker"] ok len sample_wkc(2) no_query_ok(1) tok
    by auto
  have "hdr_code resp = COAP_RESPONSE_CODE 205" "pdu_abs resp [link_format] (Some ?t)"
    using resp(2) len tok b by (auto simp: wkc_reply_def Let_def split: if_splits)
  moreover from this have "coap_get_data resp = (True, 39, ?t)" using pdu_abs_get_data [of resp _ "Some ?t"] len by auto
  ultimately show ?thesis using resp(1) unfolding t by blast
qed

text \<open>C20: A confirmable message with a critical option that neither the library nor the context
  knows reaches no handler. It is answered 4.02 with its token when the copies of the unknown
  options fit into a response, as they do for messages of at most 1389 bytes; otherwise an
  assertion ends the broker.\<close>

theorem critical_option_refused:
  assumes "hdr_type (q_pdu rcvd) = COAP_MESSAGE_CON" and "length (hdr_token (q_pdu rcvd)) \<le> 8"
    and "pdu_length (q_pdu rcvd) < 65536"
    and "(ty, v) \<in> set (pdu_options (q_pdu rcvd))" and "\<not> critical_known (ctx st) ty"
  shows "\<exists>unknown resp. unknown = snd (coap_option_check_critical (ctx st) (q_pdu rcvd) coap_option_filter_clear) \<and>
    coap_dispatch rcvd st =
      (if error_size (q_pdu rcvd) (COAP_RESPONSE_CODE 402) unknown \<le> COAP_MAX_PDU_SIZE
       then Inr (reply rcvd resp st) else Inl Assert_failed) \<and>
    (error_size (q_pdu rcvd) (COAP_RESPONSE_CODE 402) unknown \<le> COAP_MAX_PDU_SIZE \<longrightarrow>
      hdr_code resp = COAP_RESPONSE_CODE 402 \<and> hdr_token resp = hdr_token (q_pdu rcvd)) \<and>
    (pdu_length (q_pdu rcvd) \<le> 1389 \<longrightarrow> error_size (q_pdu rcvd) (COAP_RESPONSE_CODE 402) unknown \<le> COAP_MAX_PDU_SIZE)"
  by (rule critical_dispatch [OF assms])

lemma critical_option_refused_witness:
  "coap_dispatch sample_critical sample_broker = Inl Assert_failed \<and> pdu_length (q_pdu sample_critical) = 1400"
  using critical_option_refused [of sample_critical 9 "replicate 1391 CHR ''a''" sample_broker]
    sample_critical_options sample_critical_unknown sample_critical_body sample_critical_size by auto

text \<open>C21: A confirmable notification is queued once with a timeout of 2 to 3 seconds, and is due
  for the first time when this timeout has passed: its time in the queue is relative to the base
  time, which is the present time for an empty queue. Each of its four retransmissions sends the
  message again to its receiver, doubles the wait without overflow, queues the message again and
  changes nothing else; the fifth time it is neither sent nor queued.\<close>

theorem confirmed_message_backs_off:
  assumes "sa_family dst \<in> {AF_INET, AF_INET6}" and "send_ok c (length (sent c))"
  shows "\<exists>node b. coap_send_confirmed dst pdu c =
      (coap_transaction_id dst pdu COAP_INVALID_TID,
       c\<lparr>sent := sent c @ [(dst, pdu)], sendqueue := coap_insert_node node (sendqueue c), sendqueue_basetime := b\<rparr>) \<and>
    node_id node = coap_transaction_id dst pdu COAP_INVALID_TID \<and>
    node_pdu node = pdu \<and> node_remote node = dst \<and> retransmit_cnt node = 0 \<and>
    2000 \<le> unat (timeout node) \<and> unat (timeout node) \<le> 3000 \<and>
    b = (if sendqueue c = [] then lib_ticks c else sendqueue_basetime c) \<and>
    b + q_t node = lib_ticks c + ucast (timeout node) \<and>
    (\<forall>k<4. \<forall>c'. \<exists>q. coap_retransmit (node\<lparr>retransmit_cnt := k\<rparr>) c' =
        c'\<lparr>sent := (if send_ok c' (length (sent c')) then sent c' @ [(dst, pdu)] else sent c'),
           sendqueue := coap_insert_node q (sendqueue c')\<rparr> \<and>
      unat (q_t q) = unat (timeout node) * 2 ^ (k + 1) \<and> retransmit_cnt q = k + 1 \<and>
      timeout q = timeout node \<and> node_remote q = dst \<and> node_pdu q = pdu) \<and>
    (\<forall>c'. \<exists>P. sendqueue (coap_retransmit (node\<lparr>retransmit_cnt := 4\<rparr>) c') = filter P (sendqueue c') \<and>
      sent (coap_retransmit (node\<lparr>retransmit_cnt := 4\<rparr>) c') = sent c')"
proof -
  obtain node b where n: "coap_send_confirmed dst pdu c =
      (coap_transaction_id dst pdu COAP_INVALID_TID,
       c\<lparr>sent := sent c @ [(dst, pdu)], sendqueue := coap_insert_node node (sendqueue c), sendqueue_basetime := b\<rparr>)"
    "node_id node = coap_transaction_id dst pdu COAP_INVALID_TID" "node_remote node = dst" "node_pdu node = pdu"
    "retransmit_cnt node = 0" "2000 \<le> unat (timeout node)" "unat (timeout node) \<le> 3000"
    "b = (if sendqueue c = [] then lib_ticks c else sendqueue_basetime c)"
    "b + q_t node = lib_ticks c + ucast (timeout node)"
    by (rule send_confirmed_run [OF assms])
  have again: "\<exists>q. coap_retransmit (node\<lparr>retransmit_cnt := k\<rparr>) c' =
        c'\<lparr>sent := (if send_ok c' (length (sent c')) then sent c' @ [(dst, pdu)] else sent c'),
           sendqueue := coap_insert_node q (sendqueue c')\<rparr> \<and>
      unat (q_t q) = unat (timeout node) * 2 ^ (k + 1) \<and> retransmit_cnt q = k + 1 \<and>
      timeout q = timeout node \<and> node_remote q = dst \<and> node_pdu q = pdu" if "k < 4" for k c'
    by (rule retransmit_backoff [of "node\<lparr>retransmit_cnt := k\<rparr>" c']) (use n(3,4,7) that in auto)
  have given_up: "\<exists>P. sendqueue (coap_retransmit (node\<lparr>retransmit_cnt := 4\<rparr>) c') = filter P (sendqueue c') \<and>
      sent (coap_retransmit (node\<lparr>retransmit_cnt := 4\<rparr>) c') = sent c'" for c'
    by (rule retransmit_given_up [of "node\<lparr>retransmit_cnt := 4\<rparr>" c']) auto
  show ?thesis using n again given_up by blast
qed

lemma confirmed_message_backs_off_witness:
  "\<exists>node b. coap_send_confirmed sample_peer sample_response (ctx sample_broker) =
      (coap_transaction_id sample_peer sample_response COAP_INVALID_TID,
       (ctx sample_broker)\<lparr>sent := [(sample_peer, sample_response)], sendqueue := [node], sendqueue_basetime := b\<rparr>) \<and>
    b = 0 \<and> q_t node = ucast (timeout node)"
  using confirmed_message_backs_off [of sample_peer "ctx sample_broker" sample_response]
  by (auto simp: sample_peer_def sample_broker_def)

text \<open>C22: The empty acknowledgement of a confirmed message puts the queue back to what it was
  before the message, the times of all other messages included, whoever else waits in it, as
  long as the identifier of the message was not in use.\<close>

theorem acknowledgement_undoes_send:
  assumes "sa_family dst \<in> {AF_INET, AF_INET6}" and "send_ok (ctx st) (length (sent (ctx st)))"
    and "coap_send_confirmed dst pdu (ctx st) = (tid, c)"
    and "\<forall>q\<in>set (sendqueue (ctx st)). node_id q \<noteq> tid"
    and "coap_address_equals dst (q_remote rcvd)" and "hdr_type (q_pdu rcvd) = COAP_MESSAGE_ACK"
    and "hdr_code (q_pdu rcvd) = 0" and "hdr_id (q_pdu rcvd) = hdr_id pdu"
  shows "tid \<noteq> COAP_INVALID_TID \<and> coap_find_transaction tid (sendqueue c) \<noteq> None \<and>
    coap_dispatch rcvd (st\<lparr>ctx := c\<rparr>) = Inr (st\<lparr>ctx := c\<lparr>sendqueue := sendqueue (ctx st)\<rparr>\<rparr>)"
  by (rule ack_ends_confirmed_send [OF assms])

lemma acknowledgement_undoes_send_witness:
  "\<exists>tid c. coap_send_confirmed sample_peer sample_response (ctx sample_broker) = (tid, c) \<and> sendqueue c \<noteq> [] \<and>
     coap_dispatch (sample_empty_msg 2) (sample_broker\<lparr>ctx := c\<rparr>) = Inr (sample_broker\<lparr>ctx := c\<lparr>sendqueue := []\<rparr>\<rparr>)"
proof -
  obtain tid c where s: "coap_send_confirmed sample_peer sample_response (ctx sample_broker) = (tid, c)" by fastforce
  have "sa_family sample_peer \<in> {AF_INET, AF_INET6}" "coap_address_equals sample_peer (q_remote (sample_empty_msg 2))"
    by (simp_all add: sample_peer_def sample_empty_msg_def address_equals_refl)
  then show ?thesis
    using acknowledgement_undoes_send [OF _ _ s, of "sample_empty_msg 2"] s
    by (auto simp: sample_flags sample_empty_msg_def sample_response_def sample_broker_def coap_find_transaction_def)
qed

text \<open>C23: A reset for a message in the queue ends the observation it belongs to: no resource has
  its receiver as an observer with its token, no message for them is in the queue any more, and
  nothing is sent.\<close>

theorem reset_ends_observation:
  assumes "hdr_type (q_pdu rcvd) = COAP_MESSAGE_RST"
    and "coap_find_transaction (coap_transaction_id (q_remote rcvd) (q_pdu rcvd) 0) (sendqueue (ctx st)) = Some q"
    and "\<forall>r\<in>set (resources (ctx st)). observers_ok (subscribers r)" and "resources (ctx st) \<noteq> []"
  shows "\<exists>c. coap_dispatch rcvd st = Inr (st\<lparr>ctx := c\<rparr>) \<and>
    map r_id (resources c) = map r_id (resources (ctx st)) \<and>
    (\<forall>r\<in>set (resources c). coap_find_observer r (node_remote q) (Some (hdr_token (node_pdu q))) = None) \<and>
    (\<forall>p\<in>set (sendqueue c). \<not> cancelled (node_remote q) (hdr_token (node_pdu q)) p) \<and> sent c = sent (ctx st)"
  by (rule reset_cancels_observer [OF assms])

lemma reset_ends_observation_witness:
  "\<exists>c. coap_dispatch (sample_empty_msg 3) sample_waiting = Inr (sample_waiting\<lparr>ctx := c\<rparr>) \<and>
     (\<forall>r\<in>set (resources c). coap_find_observer r sample_peer (Some ''tk'') = None) \<and>
     (\<forall>p\<in>set (sendqueue c). \<not> cancelled sample_peer ''tk'' p)"
proof -
  obtain q where q: "sendqueue (ctx sample_waiting) = [q]" "node_remote q = sample_peer" "node_pdu q = sample_response"
    "node_id q = coap_transaction_id sample_peer sample_response COAP_INVALID_TID"
    using sample_waiting_queue(4) by blast
  have "coap_transaction_id (q_remote (sample_empty_msg 3)) (q_pdu (sample_empty_msg 3)) 0 = node_id q"
    unfolding q(4) by (rule transaction_id_same_peer)
      (simp_all add: sample_empty_msg_def sample_response_def address_equals_refl sample_peer_def)
  then have f: "coap_find_transaction (coap_transaction_id (q_remote (sample_empty_msg 3)) (q_pdu (sample_empty_msg 3)) 0)
      (sendqueue (ctx sample_waiting)) = Some q"
    using q(1) by (simp add: coap_find_transaction_def)
  show ?thesis
    using reset_ends_observation [OF _ f] sample_observers q sample_waiting_queue(3)
    by (auto simp: sample_empty_msg_def sample_response_def)
qed

text \<open>C24: The retransmission queue, a list of times each relative to the one before, is a list of
  absolute times in ascending order: inserting puts a message behind those that are due no later,
  and removing one keeps the times of all others.\<close>

theorem queue_keeps_times:
  assumes "span qs < 2 ^ 64"
  shows "due b (coap_insert_node node qs) = put_due (b + unat (q_t node), node\<lparr>q_t := 0\<rparr>) (due b qs) \<and>
    due b (snd (coap_remove_from_queue i qs)) = drop_due i (due b qs) \<and> sorted (map fst (due b qs))"
  using due_insert due_remove [OF assms] sorted_due by blast

lemma queue_keeps_times_witness:
  "map fst (due 0 (snd (coap_remove_from_queue 1 (coap_insert_node (sample_node 3 2500) [sample_node 1 2000, sample_node 2 1000])))) =
     [2500, 3000]"
proof -
  let ?qs = "[sample_node 1 2000, sample_node 2 1000]"
  have s: "span (coap_insert_node (sample_node 3 2500) ?qs) < 2 ^ 64" "span ?qs < 2 ^ 64"
    by (simp_all add: sample_node_def)
  show ?thesis
    using queue_keeps_times [OF s(1), of 0 "sample_node 3 2500" 1] queue_keeps_times [OF s(2), of 0 "sample_node 3 2500"]
    by (simp add: sample_node_def)
qed



section \<open>The resource directory\<close>

text \<open>C26: The parameters of a registration: of terms separated by ampersands, the first that is
  the name followed by an equals sign decides, its value reaches to the next ampersand, and an
  empty value at the very end is none. A name without an equals sign takes the value of the
  parameter that comes next.\<close>

theorem parameters_found:
  assumes "name \<noteq> []" and "CHR ''&'' \<notin> set name"
  shows "(terms_ok name ss \<longrightarrow>
      parse_param name (join_query ss) = (\<exists>s\<in>set ss. names_param name s, first_param name ss)) \<and>
    (CHR ''='' \<notin> set k \<and> v \<noteq> [] \<and> CHR ''&'' \<notin> set v \<longrightarrow>
      parse_param name (name @ CHR ''&'' # k @ CHR ''='' # v) = (True, Some v))"
  using parse_param_terms [OF assms] parse_param_bare [OF assms(1)] by blast

lemma parameters_found_witness:
  "parse_param ''ins'' ''h=n1&ins=2&rt=x'' = (True, Some ''2'') \<and> parse_param ''h'' ''h&ins=2'' = (True, Some ''2'')"
  using parameters_found [of "''ins''" "[''h=n1'', ''ins=2'', ''rt=x'']" "[]" "[]"]
    parameters_found [of "''h''" "[]" "''ins''" "''2''"]
  by (simp add: terms_ok_def names_param_def)





section \<open>The topic database\<close>

text \<open>C29: Any sequence of requests to the linked list of topics (does it exist, create or renew,
  write, clear, remove, copy) is answered exactly as by a plain list of topics with a count of
  free nodes; no request faults, deadlocks or runs on.\<close>

theorem database_refines_list:
  assumes "store_repr d a"
  shows "\<exists>d'. run_ops db_run ps d = Inr (fst (spec_ops db_spec ps a), d') \<and>
    store_repr d' (snd (spec_ops db_spec ps a))"
  by (rule store.run_refines [OF assms])

lemma database_refines_list_witness:
  "\<exists>d'. run_ops db_run
      [Create ''ps/a'' 0, Write ''ps/a'' 9 ''hi'', Exists ''ps/b'', Create ''ps/b'' 0, Remove ''ps/a'', Write ''ps/a'' 0 ''x'']
      (db_init 1) = Inr ([1, 1, 0, 0, 1, 0], d') \<and> store_repr d' ([], 1)"
proof -
  let ?ps = "[Create ''ps/a'' 0, Write ''ps/a'' 9 ''hi'', Exists ''ps/b'', Create ''ps/b'' 0, Remove ''ps/a'', Write ''ps/a'' 0 ''x'']"
  have e: "spec_ops db_spec ?ps ([], 1) = ([1, 1, 0, 0, 1, 0], ([], 1))" by code_simp
  show ?thesis using database_refines_list [OF store_repr_init, of ?ps 1] unfolding e fst_conv snd_conv .
qed

section \<open>Link format\<close>

text \<open>C30: The link-format parser, a loop over one buffer with indices, is the reference parser
  that splits the line at semicolons, the first part into brackets and path, and the others at
  their equals sign, faults included. A query of a discovery request is understood exactly when it is a name and a value with
  one equals sign between them, both of allowed characters; the value may be quoted. The query
  is read as a C string from the message, whose remaining bytes follow it: up to the first zero
  byte, but not beyond its length, and beyond the end of the message when there is none.\<close>

theorem parsers_are_reference:
  "parseLinkFormat str old resource = parse_line str old resource \<and>
   parseOptionURIQuery (val @ rest) (length val) =
     (if NUL \<notin> set (val @ rest) then Inl Out_of_bounds
      else case split_on CHR ''='' (cstr val) of
        [n, v] \<Rightarrow>
          if n \<noteq> [] \<and> v \<noteq> [] then
            bindR (option_of (cstr val)) (\<lambda>p. Inr (case p of None \<Rightarrow> Query_rejected | Some (n, v) \<Rightarrow> Query_ok n v))
          else Inr Query_malformed
      | _ \<Rightarrow> Inr Query_malformed)"
proof
  show "parseLinkFormat str old resource = parse_line str old resource" by (rule parseLinkFormat_eq)
qed (simp only: parseOptionURIQuery_value parse_query_eq if_not_P if_P split: if_split, simp add: Let_def)

section \<open>Messages\<close>

text \<open>C31: An encoded option, whatever follows it, parses to its delta and value and to its own
  length, for all deltas and lengths but 269.\<close>

theorem option_roundtrip:
  assumes "coap_opt_encode maxlen delta val = Some bs"
    and "delta < 65536" and "delta \<noteq> 269" and "length val < 65536" and "length val \<noteq> 269"
  shows "coap_opt_parse (bs @ rest) = Inr (Some (\<lparr>opt_delta = delta, opt_value = val\<rparr>, length bs))"
  by (rule coap_opt_parse_encode [OF assms])

lemma option_roundtrip_witness:
  "coap_opt_parse ([CHR 0xD2, CHR 0x02, CHR ''h'', CHR ''i''] @ ''x'') =
     Inr (Some (\<lparr>opt_delta = 15, opt_value = ''hi''\<rparr>, 4))"
proof -
  have "coap_opt_encode 10 15 ''hi'' = Some [CHR 0xD2, CHR 0x02, CHR ''h'', CHR ''i'']" by code_simp
  from option_roundtrip [OF this, of "''x''"] show ?thesis by simp
qed

text \<open>C32: A message built with the library's functions parses back from its bytes to the same
  type, code, identifier, token, options and payload.\<close>

theorem message_roundtrip:
  assumes "pdu_abs p opts pl" and "hdr_type p < 4" and "hdr_code p < 256" and "hdr_code p \<noteq> 0"
    and "hdr_id p < 65536" and "pdu_length p \<le> max_size q"
  shows "\<exists>r. coap_pdu_parse (pdu_bytes p) q = Inr (Some r) \<and> hdr_type r = hdr_type p \<and>
    hdr_code r = hdr_code p \<and> hdr_id r = hdr_id p \<and> hdr_token r = hdr_token p \<and>
    pdu_options r = opts \<and> coap_get_data r = coap_get_data p"
  by (rule pdu_parse_bytes [OF assms]) blast

lemma message_roundtrip_witness:
  "\<exists>r. coap_pdu_parse (pdu_bytes (sample_response\<lparr>hdr_code := 69\<rparr>)) sample_response = Inr (Some r) \<and>
     hdr_code r = 69 \<and> hdr_token r = ''tk'' \<and> pdu_options r = []"
proof -
  have "pdu_abs (sample_response\<lparr>hdr_code := 69\<rparr>) [] None" using sample_response_ok(1) by simp
  from message_roundtrip [OF this, of sample_response] sample_response_ok(2) show ?thesis
    by (auto simp: sample_response_def pdu_length_def)
qed

text \<open>C33: A message that parses is well-formed: a token of at most eight bytes, header fields of
  their width, as many bytes as were received and no more than the buffer holds, and a payload
  that starts inside it and is not empty.\<close>

theorem parsed_message_wellformed:
  assumes "coap_pdu_parse bs q = Inr (Some p)"
  shows "length (hdr_token p) \<le> 8 \<and> hdr_type p < 4 \<and> hdr_code p < 256 \<and> hdr_id p < 65536 \<and>
    pdu_length p = length bs \<and> pdu_length p \<le> max_size p \<and>
    (\<forall>i\<in>set_option (pdu_data p). 0 < i \<and> i < length (pdu_body p))"
  using coap_pdu_parse_wf [OF assms] by auto

lemma parsed_message_wellformed_witness:
  "\<exists>p. coap_pdu_parse [CHR 0x41, CHR 0x01, CHR 0x00, CHR 0x07, CHR ''t'', CHR 0xFF, CHR ''x''] sample_response = Inr (Some p) \<and>
     length (hdr_token p) \<le> 8"
proof -
  have "case coap_pdu_parse [CHR 0x41, CHR 0x01, CHR 0x00, CHR 0x07, CHR ''t'', CHR 0xFF, CHR ''x''] sample_response of
      Inr (Some p) \<Rightarrow> True | _ \<Rightarrow> False" by code_simp
  then obtain p where "coap_pdu_parse [CHR 0x41, CHR 0x01, CHR 0x00, CHR 0x07, CHR ''t'', CHR 0xFF, CHR ''x''] sample_response = Inr (Some p)"
    by (auto split: sum.splits option.splits)
  with parsed_message_wellformed [OF this] show ?thesis by blast
qed

text \<open>C34: Adding an option or a payload never writes beyond the buffer of the message.\<close>

theorem message_stays_in_buffer:
  assumes "pdu_length p \<le> max_size p"
  shows "pdu_length (snd (coap_add_option p ty val)) \<le> max_size p \<and>
    (case coap_add_data p data of Inl e \<Rightarrow> True | Inr (n, q) \<Rightarrow> pdu_length q \<le> max_size p)"
proof (cases "coap_add_data p data")
  case (Inr x)
  then show ?thesis
    using add_option_bound [OF assms] add_data_bound [OF assms, of data "fst x" "snd x"] by (simp add: split_beta)
qed (use add_option_bound [OF assms] in simp)

lemma message_stays_in_buffer_witness:
  "pdu_length (snd (coap_add_option sample_response 11 ''ps'')) \<le> max_size sample_response"
  using message_stays_in_buffer [of sample_response 11 "''ps''" "[]"] sample_response_ok(2,3) by simp





text \<open>C37: After any sequence of registrations and removals of observers, a peer observes a
  resource with a token exactly when the last operation on that peer and token was a
  registration, or there was none and it observed it before.\<close>

theorem observers_follow_last_operation:
  assumes "observers_ok (subscribers r)" and "\<forall>p\<in>set ops. valid_key (key_of p)"
  shows "watched j (fold (apply_op watch unwatch) ops r) \<longleftrightarrow>
    registered_after same_key j ops (watched j r)"
  by (rule observers.run_member [OF assms])

lemma observers_follow_last_operation_witness:
  "watched (sample_peer, ''t'') (fold (apply_op watch unwatch)
     [Register (sample_peer, ''t''), Deregister (sample_peer, ''u'')] sample_res)"
proof -
  have "observers_ok (subscribers sample_res)" by (simp add: sample_res_def fresh_topic_def topic_resource_def)
  from observers_follow_last_operation [OF this, of "[Register (sample_peer, ''t''), Deregister (sample_peer, ''u'')]"]
  show ?thesis
    by (simp add: valid_key_def sample_peer_def registered_after_def same_key_def address_equals_refl
        del: fold_simps fold.simps)
qed

section \<open>Several threads on the topic database\<close>

text \<open>C38: Threads that search, copy, write and clear topics, and at most one that adds one (none
  that deletes; none that copies beside one that writes), never fault and never all wait for
  each other, whatever the order of their steps; and they end within a number of steps that is
  known from the list and the tasks.\<close>

theorem threads_run_to_end:
  assumes "db_rep d as cs" and "compatible ts"
  shows "(\<forall>p e. pool_step\<^sup>*\<^sup>* (threads d ts) p \<longrightarrow> \<not> pool_faults p e) \<and>
    (\<forall>p. pool_step\<^sup>*\<^sup>* (threads d ts) p \<longrightarrow>
       (\<forall>u\<in>set (snd p). finished u) \<or> (\<exists>p'. pool_step p p')) \<and>
    (\<forall>k p. (pool_step ^^ k) (threads d ts) p \<longrightarrow> k \<le> sum_list (map (\<lambda>t. left as (t, entry t)) ts))"
  using threads_no_fault [OF assms] threads_end [OF assms] by blast

lemma threads_run_to_end_witness:
  "let ts = [GetTopic (Some ''ps/b''), AddTopic (Some ''ps/b'') 4 7,
     UpdateTopicData (Some ''ps/a'') 9 (Some ''21'') 2, DeleteTopicData (Some ''ps/a'')] in
   (\<forall>p e. pool_step\<^sup>*\<^sup>* (threads sample_db ts) p \<longrightarrow> \<not> pool_faults p e) \<and>
   (\<forall>p. pool_step\<^sup>*\<^sup>* (threads sample_db ts) p \<longrightarrow>
      (\<forall>u\<in>set (snd p). finished u) \<or> (\<exists>p'. pool_step p p')) \<and>
   (\<forall>k p. (pool_step ^^ k) (threads sample_db ts) p \<longrightarrow>
      k \<le> sum_list (map (\<lambda>t. left [0] (t, entry t)) ts))"
  unfolding Let_def
  by (rule threads_run_to_end [OF sample_db_rep]) (simp add: compatible_def cnt_def)

text \<open>C39: When such threads have ended, the list is well-formed, no lock is held and no datum
  dangles; the nodes it began with are there in their order and keep their paths, with the node
  of the thread that added one at the end; and every search has answered with the first node of
  its path, or, if there was none, with nothing or with the node added.\<close>

theorem threads_answers:
  assumes "db_rep d as cs" and "compatible ts" and "pool_step\<^sup>*\<^sup>* (threads d ts) ((d', D'), us)"
    and "\<forall>u\<in>set us. finished u"
  shows "D' = {} \<and> (\<exists>bs cs'. db_rep d' bs cs' \<and>
    (\<forall>a\<in>set as. td_path (the (heap d' a)) = td_path (the (heap d a))) \<and>
    (bs = as \<or> (\<exists>i<length ts. is_add (ts ! i))) \<and>
    (\<forall>i<length ts. \<forall>p. ts ! i = GetTopic p \<longrightarrow>
       (\<exists>r. snd (us ! i) = Done (Ptr r) \<and> get_answer d as bs d' p r)) \<and>
    (\<forall>i<length ts. \<forall>path sz tma. ts ! i = AddTopic path sz tma \<longrightarrow>
       (if snd (us ! i) = Done (Status 1)
        then \<exists>k. bs = as @ [k] \<and> td_path (the (heap d' k)) = td_path (new_topic (the path) sz tma)
        else bs = as)))"
proof -
  obtain bs where ok: "pool_ok as (\<lambda>a. td_path (the (heap d a))) bs ((d', D'), us)"
    using pool_reachable_ok [OF initially_ok [OF assms(1,2)] assms(3)] by blast
  obtain cs' where rep: "db_rep d' bs cs'" "D' = {}" by (rule finished_rep [OF ok assms(4)])
  have len: "length us = length ts" and
    kept: "\<And>i. i < length ts \<Longrightarrow> \<not> is_update (ts ! i) \<Longrightarrow> fst (us ! i) = ts ! i"
    using tasks_kept [OF assms(3)] by simp_all
  have fin: "finished (us ! i)" if "i < length us" for i using assms(4) that by simp
  have path: "\<forall>a\<in>set as. td_path (the (heap d' a)) = td_path (the (heap d a))"
    using pool_okD(1) [OF ok] by (auto simp: list_ok_def)
  have grow: "bs = as \<or> (\<exists>i<length ts. is_add (ts ! i))"
    using pool_okD(8) [OF ok] tasks_kept [OF assms(3)] by auto
  have get: "\<exists>r. snd (us ! i) = Done (Ptr r) \<and> get_answer d as bs d' p r"
    if "i < length ts" "ts ! i = GetTopic p" for i p
    using finished_answers(1) [OF ok _ fin] kept [of i] that len by simp
  have add: "if snd (us ! i) = Done (Status 1)
      then \<exists>k. bs = as @ [k] \<and> td_path (the (heap d' k)) = td_path (new_topic (the path) sz tma)
      else bs = as"
    if "i < length ts" "ts ! i = AddTopic path sz tma" for i path sz tma
    using finished_answers(2) [OF ok _ fin] kept [of i] that len by simp
  show ?thesis using rep path grow get add by blast
qed

lemma threads_answers_witness:
  "\<exists>d'. pool_step\<^sup>*\<^sup>* (threads sample_db [GetTopic (Some ''ps/b''), AddTopic (Some ''ps/b'') 4 7])
      ((d', {}), [(GetTopic (Some ''ps/b''), Done (Ptr (Some 1))), (AddTopic (Some ''ps/b'') 4 7, Done (Status 1))]) \<and>
    (\<exists>cs. db_rep d' [0, 1] cs)"
proof -
  let ?ts = "[GetTopic (Some ''ps/b''), AddTopic (Some ''ps/b'') 4 7]"
  let ?us = "[(GetTopic (Some ''ps/b''), Done (Ptr (Some 1))), (AddTopic (Some ''ps/b'') 4 7, Done (Status 1))]"
  let ?is = "replicate 1 0 @ replicate 10 1 @ replicate 10 0"
  have "\<exists>d'. run_schedule ?is (threads sample_db ?ts) = Inr ((d', {}), ?us)"
    by (simp add: threads_def run_simps numeral_eq_Suc Let_def sample_db_def sample_topic_def
        topic.extend_def new_node_def new_topic_def cstr_def snprintf_s_def)
  then obtain d' where "run_schedule ?is (threads sample_db ?ts) = Inr ((d', {}), ?us)" by blast
  then have r: "pool_step\<^sup>*\<^sup>* (threads sample_db ?ts) ((d', {}), ?us)" by (rule schedule_reaches) simp
  have c: "compatible ?ts" by (simp add: compatible_def cnt_def)
  have f: "\<forall>u\<in>set ?us. finished u" by simp
  from threads_answers [OF sample_db_rep c r f] obtain bs cs' where b: "db_rep d' bs cs'"
    and g: "\<forall>i<length ?ts. \<forall>p. ?ts ! i = GetTopic p \<longrightarrow>
       (\<exists>r. snd (?us ! i) = Done (Ptr r) \<and> get_answer sample_db [0] bs d' p r)"
    by (elim conjE exE)
  from spec [OF g, of 0] have "get_answer sample_db [0] bs d' (Some ''ps/b'') (Some 1)" by simp
  then have "bs = [0, 1]"
    by (simp add: get_answer_def find_addr_def sample_db_def sample_topic_def topic.extend_def)
  with r b show ?thesis by blast
qed

text \<open>C40: What the conditions exclude does go wrong, on every list of two topics: a search beside
  a deletion locks a node that has been freed; a copy beside a write reads a datum that has been
  freed; of two additions that both report success one is lost. And a write of the datum puts
  back the time of expiry that another thread has replaced meanwhile.\<close>

theorem threads_hazards:
  assumes "db_rep d [a, b] cs" and "heap d a = Some n" and "heap d b = Some m"
    and "td_path n \<noteq> td_path m" and "td_data n \<noteq> None" and "avail d > 1" and "sz > 0" and "sz' > 0"
  shows "(\<exists>p. pool_step\<^sup>*\<^sup>* (threads d [GetTopic (Some (td_path m)), DeleteTopic (Some (td_path m))]) p \<and>
      pool_faults p Use_after_free) \<and>
    (\<exists>p. pool_step\<^sup>*\<^sup>* (threads d [CloneTopic (Some (td_path n)), SetTopic (Some (td_path n)) (Some s) sz tma dma]) p \<and>
      pool_faults p Use_after_free) \<and>
    (\<exists>d'. pool_step\<^sup>*\<^sup>* (threads d [AddTopic (Some x) sz tma, AddTopic (Some y) sz' tma'])
        ((d', {}), [(AddTopic (Some x) sz tma, Done (Status 1)), (AddTopic (Some y) sz' tma', Done (Status 1))]) \<and>
      path_to (heap d') (topicDB d') [a, b, Suc (brk d)] None \<and>
      node_topic d' (Suc (brk d)) = new_topic y sz' tma') \<and>
    (\<exists>d' n'. pool_step\<^sup>*\<^sup>*
        (threads d [UpdateTopicData (Some (td_path n)) dma (Some s) sz, SetTopic (Some (td_path n)) (Some s') sz' tma' dma'])
        ((d', {}), [(SetTopic (Some (td_path n)) (Some s) sz (td_topic_ma n) dma, Done (Status 1)),
         (SetTopic (Some (td_path n)) (Some s') sz' tma' dma', Done (Status 1))]) \<and>
      heap d' a = Some n' \<and> td_topic_ma n' = td_topic_ma n)"
  using delete_race [OF assms(1-4)] clone_race [OF assms(1-3,5)] add_race [OF assms(1-3,6,7,8)]
    update_race [OF assms(1-3,5,7,8)] assms(6,7) by simp

lemma threads_hazards_witness:
  "\<exists>p. pool_step\<^sup>*\<^sup>* (threads sample_pair [GetTopic (Some ''ps/b''), DeleteTopic (Some ''ps/b'')]) p \<and>
    pool_faults p Use_after_free"
proof -
  let ?n = "topic.extend sample_topic \<lparr>nextPtr = Some 1, node_lock = Unlocked, data_lock = Unlocked\<rparr>"
  let ?m = "new_node (new_topic ''ps/b'' 4 3000)"
  have m: "td_path ?m = ''ps/b''"
    by (simp add: new_node_def topic.extend_def new_topic_def cstr_def snprintf_s_def)
  have h: "heap sample_pair 0 = Some ?n" "heap sample_pair 1 = Some ?m" by (simp_all add: sample_pair_def)
  have c: "td_path ?n \<noteq> td_path ?m" "td_data ?n \<noteq> None" "avail sample_pair > 1"
    unfolding m by (simp_all add: topic.extend_def sample_topic_def sample_pair_def)
  from threads_hazards [OF sample_pair_rep h c, of 1 1] show ?thesis unfolding m by simp
qed

end
